(* ===== verification/Prelude.thy ===== *)
theory Prelude
  imports Complex_Main "HOL-Library.Word" "HOL-Library.Char_ord" "HOL-Library.List_Lexorder"
begin

text \<open>
  Shared vocabulary of the development: Go errors with their wrapping, results that may
  be a value, an error or a panic, byte strings, instants of time, and the generic list and
  map lemmas the components use.

  A Go \<^verbatim>\<open>string\<close> is a byte sequence, as is an Isabelle \<open>string\<close> (a list of 8-bit
  characters).  A Go \<^verbatim>\<open>time.Time\<close> is the number of nanoseconds since the Unix epoch.
\<close>

section \<open>Errors\<close>

text \<open>
  The sentinel errors that callers compare against with \<^verbatim>\<open>errors.Is\<close>.
\<close>

datatype sentinel =
    GraphErrNotFound
  | GraphErrUnknownEdgeLinks
  | IndexErrNotFound
  | IndexErrMissingLinkID
  | BspErrUnknownEdgeSource
  | BspErrDestinationIsLocal
  | BspErrInvalidMessageDestination
  | ErrNoPartitionDataAvailableYet

text \<open>
  \<open>Errorf m\<close> is a fresh error, \<open>Wrap m e\<close> is \<^verbatim>\<open>fmt.Errorf("m: %w", e)\<close>, \<open>External m\<close> is an
  error produced by code outside the repository and \<open>MultiError\<close> is what
  \<^verbatim>\<open>multierror.Append\<close> accumulates.  Arguments interpolated into messages are left out.
\<close>

datatype go_error =
    Sentinel sentinel
  | Errorf string
  | Wrap string go_error
  | External string
  | MultiError "go_error list"

fun errors_is :: "go_error \<Rightarrow> sentinel \<Rightarrow> bool" where
  "errors_is (Sentinel s) t = (s = t)"
| "errors_is (Errorf m) t = False"
| "errors_is (Wrap m e) t = errors_is e t"
| "errors_is (External m) t = False"
| "errors_is (MultiError es) t = (\<exists>e \<in> set es. errors_is e t)"

definition multierror_append :: "go_error option \<Rightarrow> go_error \<Rightarrow> go_error option" where
  "multierror_append acc e =
     (case acc of
        None \<Rightarrow> Some (MultiError [e])
      | Some (MultiError es) \<Rightarrow> Some (MultiError (es @ [e]))
      | Some e0 \<Rightarrow> Some (MultiError [e0, e]))"

section \<open>Results\<close>

text \<open>A call returns a value, returns an error, or panics.\<close>

datatype 'a outcome = Returns 'a | Fails go_error | Panics string

fun outcome_bind :: "'a outcome \<Rightarrow> ('a \<Rightarrow> 'b outcome) \<Rightarrow> 'b outcome" where
  "outcome_bind (Returns a) f = f a"
| "outcome_bind (Fails e) f = Fails e"
| "outcome_bind (Panics m) f = Panics m"

fun panics :: "'a outcome \<Rightarrow> bool" where
  "panics (Panics m) = True"
| "panics (Returns a) = False"
| "panics (Fails e) = False"

lemma outcome_bind_eq_Returns [simp]:
  "outcome_bind r f = Returns b \<longleftrightarrow> (\<exists>a. r = Returns a \<and> f a = Returns b)"
  by (cases r) auto

text \<open>
  The state of a service's \<^verbatim>\<open>Run\<close> loop after some events: still in the loop, returned, ended
  by a panic, or inside a call that never returns.
\<close>

datatype 's run_result =
    StillRunning 's
  | Stopped "go_error option" 's
  | Crashed string
  | NeverReturns

text \<open>
  What the select statement of the loop receives: the context's cancellation or a tick of the
  update interval at an instant.
\<close>

datatype 't run_event = CtxDone | Tick 't

section \<open>Iterators\<close>

text \<open>
  An iterator as its caller sees it when it is drained: the items \<^verbatim>\<open>Next\<close> yields until it
  returns false, then what \<^verbatim>\<open>Error\<close> and \<^verbatim>\<open>Close\<close> answer.
\<close>

record 'a api_iterator =
  it_items :: "'a list"
  it_error :: "go_error option"
  it_close :: "go_error option"

section \<open>Bytes, strings, time\<close>

type_synonym byte = "8 word"
type_synonym go_time = int

text \<open>The zero value of \<^verbatim>\<open>time.Time\<close>: January 1, year 1, 00:00:00 UTC.\<close>

definition zero_time :: go_time where
  "zero_time = - 62135596800 * 1000000000"

text \<open>\<^verbatim>\<open>strings.HasPrefix\<close>, \<^verbatim>\<open>strings.HasSuffix\<close>.\<close>

fun has_prefix :: "string \<Rightarrow> string \<Rightarrow> bool" where
  "has_prefix s [] = True"
| "has_prefix [] (p # ps) = False"
| "has_prefix (c # cs) (p # ps) = (c = p \<and> has_prefix cs ps)"

definition has_suffix :: "string \<Rightarrow> string \<Rightarrow> bool" where
  "has_suffix s p = has_prefix (rev s) (rev p)"

lemma has_prefix_iff: "has_prefix s p \<longleftrightarrow> (\<exists>t. s = p @ t)"
  by (induction s p rule: has_prefix.induct) auto

lemma has_suffix_iff: "has_suffix s p \<longleftrightarrow> (\<exists>t. s = t @ p)"
  unfolding has_suffix_def has_prefix_iff
  by (metis rev_append rev_rev_ident)

section \<open>Machine integers\<close>

text \<open>
  Go's \<^verbatim>\<open>int\<close> on the supported platforms has 64 bits.  \<open>int_of_u64\<close> is the conversion
  \<^verbatim>\<open>int(x)\<close> of a \<^verbatim>\<open>uint64\<close>; \<open>wrap64\<close> the value an \<^verbatim>\<open>int\<close> expression has after wrap-around.
\<close>

definition int_of_u64 :: "64 word \<Rightarrow> int" where
  "int_of_u64 w = sint w"

definition wrap64 :: "int \<Rightarrow> int" where
  "wrap64 i = sint (word_of_int i :: 64 word)"

lemma wrap64_id: "- (2 ^ 63) \<le> i \<Longrightarrow> i < 2 ^ 63 \<Longrightarrow> wrap64 i = i"
  by (simp add: wrap64_def sint_sbintrunc' signed_take_bit_int_eq_self_iff)

lemma int_of_u64_small: "uint w < 2 ^ 63 \<Longrightarrow> int_of_u64 w = uint w"
  unfolding int_of_u64_def sint_uint
  by (intro signed_take_bit_int_eq_self) (auto intro: order_trans [OF _ uint_ge_0])

section \<open>Lists and maps\<close>

named_theorems map_simps \<open>lookup facts of updated maps\<close>

lemma filter_last_append:
  "filter P (xs @ [x]) = (if P x then filter P xs @ [x] else filter P xs)"
  by simp

lemma sum_list_distinct_set:
  "distinct xs \<Longrightarrow> sum_list (map f xs) = (\<Sum>x \<in> set xs. (f x :: 'a :: comm_monoid_add))"
  by (rule sum_list_distinct_conv_sum_set)

lemma distinct_concat_map:
  assumes "distinct xs" "\<And>x. x \<in> set xs \<Longrightarrow> distinct (f x)"
    "\<And>x y. x \<in> set xs \<Longrightarrow> y \<in> set xs \<Longrightarrow> x \<noteq> y \<Longrightarrow> set (f x) \<inter> set (f y) = {}"
  shows "distinct (concat (map f xs))"
  using assms
proof (induction xs)
  case (Cons x xs)
  have "set (f x) \<inter> set (f y) = {}" if "y \<in> set xs" for y
    using Cons.prems(1) that by (intro Cons.prems(3)) auto
  then show ?case using Cons by auto
qed simp

lemma map_upd_Some_eq [map_simps]:
  "(m(a \<mapsto> b)) x = Some y \<longleftrightarrow> (x = a \<and> y = b) \<or> (x \<noteq> a \<and> m x = Some y)"
  by auto

section \<open>Sums over the positions of a list\<close>

lemma sum_nth_update:
  fixes g :: "nat \<Rightarrow> 's \<Rightarrow> 'm::comm_monoid_add"
  assumes "j < length ns"
  shows "(\<Sum>i<length ns. g i (ns[j := s] ! i)) + g j (ns ! j) = (\<Sum>i<length ns. g i (ns ! i)) + g j s"
proof -
  let ?A = "{..<length ns} - {j}"
  have "(\<Sum>i<length ns. g i (ns[j := s] ! i)) = g j s + (\<Sum>i\<in>?A. g i (ns[j := s] ! i))"
    using assms by (subst sum.remove [of _ j]) auto
  moreover have "(\<Sum>i\<in>?A. g i (ns[j := s] ! i)) = (\<Sum>i\<in>?A. g i (ns ! i))"
    by (rule sum.cong) auto
  moreover have "(\<Sum>i<length ns. g i (ns ! i)) = g j (ns ! j) + (\<Sum>i\<in>?A. g i (ns ! i))"
    using assms by (subst sum.remove [of _ j]) auto
  ultimately show ?thesis by (simp add: algebra_simps)
qed

lemma sum_list_map_decreases:
  fixes f :: "'a \<Rightarrow> nat"
  assumes "i < length xs" "f x < f (xs ! i)"
  shows "sum_list (map f (xs[i := x])) < sum_list (map f xs)"
  using assms elem_le_sum_list [of i "map f xs"] by (simp add: map_update sum_list_update)

lemma sum_list_map_bound:
  fixes f :: "'a \<Rightarrow> nat"
  shows "(\<And>x. f x \<le> k) \<Longrightarrow> sum_list (map f xs) \<le> k * length xs"
proof (induction xs)
  case (Cons x xs)
  from add_mono [OF Cons.prems Cons.IH [OF Cons.prems]] show ?case by simp
qed simp

end
