(* ===== verification/GoRegexp.thy ===== *)
theory GoRegexp
  imports GoStrings
begin

text \<open>
  The part of Go's \<^verbatim>\<open>regexp\<close> the crawler uses: leftmost-first (Perl-like) matching of
  expressions built from character classes, repetition of a class, alternatives, one kind of
  group and the end anchor.  Strings are byte sequences; every class the expressions repeat is
  delimited by an ASCII character, so matching byte by byte gives the matches Go finds rune by
  rune.
\<close>

datatype rx =
    RChar "char \<Rightarrow> bool"
  | REps
  | RSeq rx rx
  | RAlt rx rx
  | RLazy "char \<Rightarrow> bool"      \<comment> \<open>\<open>c*?\<close>\<close>
  | RGreedy "char \<Rightarrow> bool"    \<comment> \<open>\<open>c*\<close>\<close>
  | RGroup rx
  | REnd

text \<open>The rests that remain when a class consumes 0, 1, 2, \<dots> characters.\<close>

fun star_rests :: "(char \<Rightarrow> bool) \<Rightarrow> string \<Rightarrow> string list" where
  "star_rests P [] = [[]]"
| "star_rests P (c # cs) = (c # cs) # (if P c then star_rests P cs else [])"

text \<open>All matches at the start of a string in order of priority, as the rest and the groups.\<close>

fun rx_all :: "rx \<Rightarrow> string \<Rightarrow> (string \<times> string list) list" where
  "rx_all (RChar P) s = (case s of [] \<Rightarrow> [] | c # cs \<Rightarrow> if P c then [(cs, [])] else [])"
| "rx_all REps s = [(s, [])]"
| "rx_all (RSeq r1 r2) s =
     concat (map (\<lambda>(s1, g1). map (\<lambda>(s2, g2). (s2, g1 @ g2)) (rx_all r2 s1)) (rx_all r1 s))"
| "rx_all (RAlt r1 r2) s = rx_all r1 s @ rx_all r2 s"
| "rx_all (RLazy P) s = map (\<lambda>t. (t, [])) (star_rests P s)"
| "rx_all (RGreedy P) s = map (\<lambda>t. (t, [])) (rev (star_rests P s))"
| "rx_all (RGroup r) s = map (\<lambda>(t, g). (t, take (length s - length t) s # g)) (rx_all r s)"
| "rx_all REnd s = (if s = [] then [([], [])] else [])"

text \<open>The leftmost match: the matched text, the groups and what follows.\<close>

fun rx_find :: "rx \<Rightarrow> string \<Rightarrow> (string \<times> string list \<times> string) option" where
  "rx_find r [] = (case rx_all r [] of [] \<Rightarrow> None | (t, g) # _ \<Rightarrow> Some ([], g, t))"
| "rx_find r (c # cs) =
     (case rx_all r (c # cs) of
        [] \<Rightarrow> rx_find r cs
      | (t, g) # _ \<Rightarrow> Some (take (length (c # cs) - length t) (c # cs), g, t))"

text \<open>\<^verbatim>\<open>MatchString\<close>, \<^verbatim>\<open>FindStringSubmatch\<close>.\<close>

definition match_string :: "rx \<Rightarrow> string \<Rightarrow> bool" where
  "match_string r s \<longleftrightarrow> rx_find r s \<noteq> None"

definition find_submatch :: "rx \<Rightarrow> string \<Rightarrow> string list" where
  "find_submatch r s = (case rx_find r s of None \<Rightarrow> [] | Some (m, g, _) \<Rightarrow> m # g)"

lemma star_rests_suffix: "t \<in> set (star_rests P s) \<Longrightarrow> length t \<le> length s"
  by (induction s) (auto split: if_splits)

lemma rx_all_length: "(t, g) \<in> set (rx_all r s) \<Longrightarrow> length t \<le> length s"
proof (induction r arbitrary: s t g)
  case (RSeq r1 r2)
  then show ?case by (fastforce intro: order_trans)
qed (auto dest: star_rests_suffix split: list.splits if_splits)

lemma rx_find_length: "rx_find r s = Some (m, g, t) \<Longrightarrow> length t \<le> length s"
proof (induction r s rule: rx_find.induct)
  case (1 r)
  then show ?case using rx_all_length [of t g r "[]"] by (cases "rx_all r []") auto
next
  case (2 r c cs)
  show ?case
  proof (cases "rx_all r (c # cs)")
    case Nil
    then show ?thesis using 2 by simp
  next
    case (Cons x xs)
    then show ?thesis using 2 rx_all_length [of t g r "c # cs"] by (cases x) auto
  qed
qed

text \<open>
  \<^verbatim>\<open>FindAllStringSubmatch(s, -1)\<close>: the successive matches that do not overlap.  After an empty
  match the search goes on one character later.
\<close>

function find_all_submatch :: "rx \<Rightarrow> string \<Rightarrow> string list list" where
  "find_all_submatch r s =
     (case rx_find r s of
        None \<Rightarrow> []
      | Some (m, g, t) \<Rightarrow>
          (m # g) # (if length t < length s then find_all_submatch r t
                     else if s = [] then [] else find_all_submatch r (tl s)))"
  by pat_completeness auto
termination
  by (relation "measure (\<lambda>(r, s). length s)") auto

declare find_all_submatch.simps [simp del]

section \<open>Building blocks\<close>

definition lower :: "char \<Rightarrow> char" where
  "lower c = (let n = of_char c :: nat in if 65 \<le> n \<and> n \<le> 90 then char_of (n + 32) else c)"

text \<open>
  A letter under \<^verbatim>\<open>(?i)\<close>; s also folds to the long s, which is the bytes C5 BF.  The letter k,
  the other one with a fold outside ASCII, does not occur in the expressions.
\<close>

definition ci_char :: "char \<Rightarrow> rx" where
  "ci_char c =
     (if c = CHR ''s''
      then RAlt (RChar (\<lambda>x. lower x = c)) (RSeq (RChar (\<lambda>x. x = CHR 0xC5)) (RChar (\<lambda>x. x = CHR 0xBF)))
      else RChar (\<lambda>x. lower x = c))"

fun ci_string :: "string \<Rightarrow> rx" where
  "ci_string [] = REps"
| "ci_string (c # cs) = RSeq (ci_char c) (ci_string cs)"

text \<open>The classes \<^verbatim>\<open>.\<close> and \<^verbatim>\<open>\s\<close>, and an optional class.\<close>

definition any_char :: "char \<Rightarrow> bool" where
  "any_char c \<longleftrightarrow> c \<noteq> CHR 0x0A"

definition space_char :: "char \<Rightarrow> bool" where
  "space_char c \<longleftrightarrow> c \<in> {CHR 0x09, CHR 0x0A, CHR 0x0C, CHR 0x0D, CHR '' ''}"

definition rx_optional :: "char \<Rightarrow> rx" where
  "rx_optional c = RAlt (RChar (\<lambda>x. x = c)) REps"

fun rx_seq :: "rx list \<Rightarrow> rx" where
  "rx_seq [] = REps"
| "rx_seq (r # rs) = RSeq r (rx_seq rs)"

fun rx_alts :: "rx \<Rightarrow> rx list \<Rightarrow> rx" where
  "rx_alts r [] = r"
| "rx_alts r (r' # rs) = RAlt r (rx_alts r' rs)"

text \<open>\<^verbatim>\<open>ReplaceAllString(s, " ")\<close> for \<^verbatim>\<open>\s+\<close>: every run of spaces becomes one blank.\<close>

fun collapse_spaces :: "string \<Rightarrow> string" where
  "collapse_spaces [] = []"
| "collapse_spaces (c # cs) =
     (if space_char c
      then (case cs of
              [] \<Rightarrow> '' ''
            | d # _ \<Rightarrow> if space_char d then collapse_spaces cs else CHR '' '' # collapse_spaces cs)
      else c # collapse_spaces cs)"

end
