(* ===== verification/GoUrl.thy ===== *)
theory GoUrl
  imports GoStrings
begin

text \<open>
  The interface of the package \<^verbatim>\<open>net/url\<close>, whose functions are parameters of the model: what the
  crawler and the front end read of a URL.
\<close>

text \<open>
  A \<^verbatim>\<open>url.URL\<close>: the fields the code reads and writes, and the rest.  The functions of
  \<^verbatim>\<open>net/url\<close> are parameters.
\<close>

record 'r go_url =
  u_scheme :: string
  u_host :: string
  u_fragment :: string
  u_rest :: 'r

record 'r url_pkg =
  url_parse :: "string \<Rightarrow> go_error + 'r go_url"
  url_resolve_reference :: "'r go_url \<Rightarrow> 'r go_url \<Rightarrow> 'r go_url"
  url_string :: "'r go_url \<Rightarrow> string"
  url_hostname :: "'r go_url \<Rightarrow> string"

end
