(* ===== verification/Uuid.thy ===== *)
theory Uuid
  imports Prelude
begin

text \<open>
  Identifiers.  \<^verbatim>\<open>uuid.UUID\<close> of the package \<^verbatim>\<open>github.com/google/uuid\<close> is \<^verbatim>\<open>[16]byte\<close>; it is
  modelled as the 128-bit word with these big-endian bytes.  The package itself is not part
  of the repository: the functions the code calls are the fields of a record that the
  definitions take as an argument, and \<open>uuid_pkg_ok\<close> collects what its documentation says
  of them.  \<open>rfc4122_pkg\<close> is a concrete instance, used to show that the hypothesis holds of
  something.  The byte and big-integer routines of the Go standard library that the code
  applies to identifiers are defined here too.
\<close>

type_synonym uuid = "128 word"

abbreviation uuid_nil :: uuid where "uuid_nil \<equiv> 0"
abbreviation uuid_max :: uuid where "uuid_max \<equiv> - 1"

section \<open>Positional digits\<close>

fun be_digits :: "nat \<Rightarrow> nat \<Rightarrow> nat \<Rightarrow> nat list" where
  "be_digits b 0 n = []"
| "be_digits b (Suc k) n = be_digits b k (n div b) @ [n mod b]"

definition of_be_digits :: "nat \<Rightarrow> nat list \<Rightarrow> nat" where
  "of_be_digits b ds = foldl (\<lambda>acc d. acc * b + d) 0 ds"

lemma of_be_digits_Nil [simp]: "of_be_digits b [] = 0"
  by (simp add: of_be_digits_def)

lemma of_be_digits_snoc [simp]: "of_be_digits b (ds @ [d]) = of_be_digits b ds * b + d"
  by (simp add: of_be_digits_def)

lemma length_be_digits [simp]: "length (be_digits b k n) = k"
  by (induction k arbitrary: n) auto

lemma be_digits_less: "0 < b \<Longrightarrow> d \<in> set (be_digits b k n) \<Longrightarrow> d < b"
  by (induction k arbitrary: n) auto

lemma of_be_digits_be_digits: "0 < b \<Longrightarrow> of_be_digits b (be_digits b k n) = n mod b ^ k"
proof (induction k arbitrary: n)
  case (Suc k)
  then show ?case
    by (simp add: mod_mult2_eq mult.commute [of _ b] add.commute)
qed simp

lemma be_digits_inj:
  assumes "0 < b" "be_digits b k m = be_digits b k n" "m < b ^ k" "n < b ^ k"
  shows "m = n"
proof -
  have "m mod b ^ k = n mod b ^ k"
    using assms(1,2) by (metis of_be_digits_be_digits)
  then show ?thesis using assms(3,4) by simp
qed

section \<open>Lexicographic comparison\<close>

lemma less_append_iff:
  fixes a b c d :: "'a :: linorder list"
  shows "length a = length c \<Longrightarrow> a @ b < c @ d \<longleftrightarrow> a < c \<or> a = c \<and> b < d"
proof (induction a arbitrary: c)
  case (Cons x a)
  then obtain y c' where "c = y # c'" by (cases c) auto
  with Cons show ?case by auto
qed simp

lemma less_map_mono:
  fixes f :: "'a :: linorder \<Rightarrow> 'b :: linorder"
  assumes mono: "\<And>x y. x \<in> A \<Longrightarrow> y \<in> A \<Longrightarrow> f x < f y \<longleftrightarrow> x < y"
  shows "set xs \<subseteq> A \<Longrightarrow> set ys \<subseteq> A \<Longrightarrow> map f xs < map f ys \<longleftrightarrow> xs < ys"
proof (induction xs arbitrary: ys)
  case Nil
  then show ?case by (cases ys) auto
next
  case (Cons x xs)
  show ?case
  proof (cases ys)
    case (Cons y ys')
    have "f x = f y \<longleftrightarrow> x = y"
      using Cons.prems mono [of x y] mono [of y x] Cons by (auto dest: less_linear [THEN disjE])
    then show ?thesis using Cons Cons.prems Cons.IH [of ys'] mono [of x y] by auto
  qed simp
qed

lemma be_digits_less_iff:
  assumes "0 < b"
  shows "be_digits b k m < be_digits b k n \<longleftrightarrow> m mod b ^ k < n mod b ^ k"
proof (induction k arbitrary: m n)
  case (Suc k)
  define p where "p = b ^ k"
  have split: "x mod b ^ Suc k = b * (x div b mod p) + x mod b" for x
    by (simp add: p_def mod_mult2_eq mult.commute)
  have eq: "be_digits b k (m div b) = be_digits b k (n div b) \<longleftrightarrow> m div b mod p = n div b mod p"
    using Suc.IH [of "m div b" "n div b"] Suc.IH [of "n div b" "m div b"]
    by (metis p_def assms of_be_digits_be_digits less_irrefl linorder_neqE)
  have lex: "b * u + r < b * v + s \<longleftrightarrow> u < v \<or> u = v \<and> r < s" if "r < b" "s < b" for u v r s
  proof (cases u v rule: linorder_cases)
    case less
    then have "b * Suc u \<le> b * v" by (intro mult_le_mono2) simp
    then show ?thesis using less that by auto
  next
    case greater
    then have "b * Suc v \<le> b * u" by (intro mult_le_mono2) simp
    then show ?thesis using greater that by auto
  qed auto
  show ?case
    using assms by (simp add: less_append_iff Suc.IH eq split lex p_def [symmetric] del: power_Suc)
qed simp

text \<open>\<^verbatim>\<open>bytes.Compare\<close>.\<close>

fun bytes_compare :: "byte list \<Rightarrow> byte list \<Rightarrow> int" where
  "bytes_compare [] [] = 0"
| "bytes_compare [] (y # ys) = -1"
| "bytes_compare (x # xs) [] = 1"
| "bytes_compare (x # xs) (y # ys) =
     (if x < y then -1 else if y < x then 1 else bytes_compare xs ys)"

lemma bytes_compare_less_iff: "bytes_compare xs ys < 0 \<longleftrightarrow> xs < ys"
  by (induction xs ys rule: bytes_compare.induct) auto

section \<open>Bytes of an identifier\<close>

text \<open>The conversions of \<^verbatim>\<open>math/big\<close>: \<^verbatim>\<open>SetBytes\<close> reads a big-endian byte slice, \<^verbatim>\<open>Bytes\<close>
  returns the shortest one.\<close>

definition uuid_bytes :: "uuid \<Rightarrow> byte list" where
  "uuid_bytes u = map of_nat (be_digits 256 16 (unat u))"

definition big_set_bytes :: "byte list \<Rightarrow> nat" where
  "big_set_bytes bs = of_be_digits 256 (map unat bs)"

definition uuid_of_bytes :: "byte list \<Rightarrow> uuid" where
  "uuid_of_bytes bs = of_nat (big_set_bytes bs)"

fun big_bytes :: "nat \<Rightarrow> byte list" where
  "big_bytes n = (if n = 0 then [] else big_bytes (n div 256) @ [of_nat (n mod 256)])"

declare big_bytes.simps [simp del]

lemma unat_of_nat_byte: "d < 256 \<Longrightarrow> unat (of_nat d :: byte) = d"
  by (simp add: unat_of_nat)

lemma map_unat_of_nat_digits:
  "map (unat \<circ> (of_nat :: nat \<Rightarrow> byte)) (be_digits 256 k n) = be_digits 256 k n"
  by (rule map_idI) (auto dest: be_digits_less [rotated] simp: unat_of_nat)

lemma unat_uuid_less: "unat (u :: uuid) < 2 ^ 128"
  using unsigned_less [of u] by simp

lemma big_set_bytes_uuid [simp]: "big_set_bytes (uuid_bytes u) = unat u"
  using unat_uuid_less [of u]
  by (simp add: big_set_bytes_def uuid_bytes_def map_unat_of_nat_digits of_be_digits_be_digits)

lemma uuid_of_bytes_uuid_bytes [simp]: "uuid_of_bytes (uuid_bytes u) = u"
  by (simp add: uuid_of_bytes_def)

lemma length_uuid_bytes [simp]: "length (uuid_bytes u) = 16"
  by (simp add: uuid_bytes_def)

lemma of_nat_byte_less_iff:
  "x < 256 \<Longrightarrow> y < 256 \<Longrightarrow> (of_nat x :: byte) < of_nat y \<longleftrightarrow> x < y"
  by (simp add: word_less_nat_alt unat_of_nat)

lemma uuid_bytes_less_iff: "bytes_compare (uuid_bytes u) (uuid_bytes v) < 0 \<longleftrightarrow> u < v"
proof -
  have "map (of_nat :: nat \<Rightarrow> byte) (be_digits 256 16 (unat u)) < map of_nat (be_digits 256 16 (unat v))
      \<longleftrightarrow> be_digits 256 16 (unat u) < be_digits 256 16 (unat v)"
    by (rule less_map_mono [where A = "{..<256}"])
      (auto simp: of_nat_byte_less_iff dest: be_digits_less [rotated])
  then show ?thesis
    using unat_uuid_less [of u] unat_uuid_less [of v]
    by (simp add: bytes_compare_less_iff uuid_bytes_def be_digits_less_iff word_less_nat_alt)
qed

lemma length_big_bytes_le: "length (big_bytes n) \<le> k \<longleftrightarrow> n < 256 ^ k"
proof (induction k arbitrary: n)
  case 0
  then show ?case by (subst big_bytes.simps) simp
next
  case (Suc k)
  then show ?case
    by (subst big_bytes.simps) (auto simp: div_less_iff_less_mult mult.commute)
qed

lemma big_set_bytes_big_bytes [simp]: "big_set_bytes (big_bytes n) = n"
proof (induction n rule: big_bytes.induct)
  case (1 n)
  then show ?case
    by (subst big_bytes.simps) (auto simp: big_set_bytes_def unat_of_nat_byte)
qed

lemma length_big_bytes_16: "length (big_bytes n) = 16 \<longleftrightarrow> 2 ^ 120 \<le> n \<and> n < 2 ^ 128"
  using length_big_bytes_le [of n 16] length_big_bytes_le [of n 15] by auto

section \<open>The textual form\<close>

text \<open>
  RFC 4122: 32 lower-case hexadecimal digits in groups of 8, 4, 4, 4 and 12 with dashes
  between them.
\<close>

definition hex_char :: "nat \<Rightarrow> char" where
  "hex_char d = char_of (if d < 10 then 48 + d else 87 + d)"

definition uuid_hex :: "uuid \<Rightarrow> string" where
  "uuid_hex u = map hex_char (be_digits 16 32 (unat u))"

definition dashed :: "string \<Rightarrow> string" where
  "dashed h = take 8 h @ ''-'' @ take 4 (drop 8 h) @ ''-'' @ take 4 (drop 12 h) @ ''-'' @
     take 4 (drop 16 h) @ ''-'' @ drop 20 h"

definition uuid_text :: "uuid \<Rightarrow> string" where
  "uuid_text u = dashed (uuid_hex u)"

lemma hex_char_less_iff: "x < 16 \<Longrightarrow> y < 16 \<Longrightarrow> hex_char x < hex_char y \<longleftrightarrow> x < y"
  by (auto simp: hex_char_def less_char_def)

lemma hex_char_inj: "x < 16 \<Longrightarrow> y < 16 \<Longrightarrow> hex_char x = hex_char y \<longleftrightarrow> x = y"
  using hex_char_less_iff [of x y] hex_char_less_iff [of y x] by (cases x y rule: linorder_cases) auto

lemma length_uuid_hex [simp]: "length (uuid_hex u) = 32"
  by (simp add: uuid_hex_def)

lemma uuid_hex_less_iff: "uuid_hex u < uuid_hex v \<longleftrightarrow> u < v"
proof -
  have "uuid_hex u < uuid_hex v \<longleftrightarrow> be_digits 16 32 (unat u) < be_digits 16 32 (unat v)"
    unfolding uuid_hex_def
    by (rule less_map_mono [where A = "{..<16}"])
      (auto simp: hex_char_less_iff dest: be_digits_less [rotated])
  then show ?thesis
    using unat_uuid_less [of u] unat_uuid_less [of v]
    by (simp add: be_digits_less_iff word_less_nat_alt)
qed

lemma uuid_hex_inj: "uuid_hex u = uuid_hex v \<longleftrightarrow> u = v"
  using uuid_hex_less_iff [of u v] uuid_hex_less_iff [of v u] by (cases u v rule: linorder_cases) auto

lemma dashed_split:
  "h = take 8 h @ take 4 (drop 8 h) @ take 4 (drop 12 h) @ take 4 (drop 16 h) @ drop 20 h"
proof -
  have "drop 8 h = take 4 (drop 8 h) @ drop 12 h"
    "drop 12 h = take 4 (drop 12 h) @ drop 16 h" "drop 16 h = take 4 (drop 16 h) @ drop 20 h"
    using append_take_drop_id [of 4 "drop 8 h"] append_take_drop_id [of 4 "drop 12 h"]
      append_take_drop_id [of 4 "drop 16 h"] by (simp_all del: append_take_drop_id)
  then show ?thesis by (metis append_take_drop_id)
qed

lemma dashed_less_iff:
  assumes "length g = 32" "length h = 32"
  shows "dashed g < dashed h \<longleftrightarrow> g < h"
proof -
  have "g < h \<longleftrightarrow>
      take 8 g @ take 4 (drop 8 g) @ take 4 (drop 12 g) @ take 4 (drop 16 g) @ drop 20 g
    < take 8 h @ take 4 (drop 8 h) @ take 4 (drop 12 h) @ take 4 (drop 16 h) @ drop 20 h"
    using dashed_split [of g] dashed_split [of h] by simp
  then show ?thesis
    using assms by (simp add: dashed_def less_append_iff)
qed

text \<open>Comparing identifiers by their textual form, as \<^verbatim>\<open>inmem\<close> does, is comparing their bytes.\<close>

lemma uuid_text_less_iff: "uuid_text u < uuid_text v \<longleftrightarrow> u < v"
  by (simp add: uuid_text_def dashed_less_iff uuid_hex_less_iff)

lemma uuid_text_le_iff: "uuid_text u \<le> uuid_text v \<longleftrightarrow> u \<le> v"
  using uuid_text_less_iff [of v u] by (simp add: not_less [symmetric])

lemma uuid_text_inj [simp]: "uuid_text u = uuid_text v \<longleftrightarrow> u = v"
  using uuid_text_less_iff [of u v] uuid_text_less_iff [of v u] by (cases u v rule: linorder_cases) auto

end
