(* ===== verification/LinkGraph.thy ===== *)
theory LinkGraph
  imports Uuid
begin

text \<open>
  The package \<^verbatim>\<open>graph\<close>: links, edges and the contract of \<^verbatim>\<open>graph.Graph\<close>.  The contract is stated
  twice: as an abstract store (two finite tables) with the effect each operation has on it,
  and as the locale \<open>link_graph_store\<close>, which says how an implementation's operations relate
  to the store.  Clients of the interface are verified inside the locale.
\<close>

section \<open>Links and edges\<close>

record link =
  link_id :: uuid
  link_url :: string
  link_retrieved_at :: go_time

record edge =
  edge_id :: uuid
  edge_src :: uuid
  edge_dst :: uuid
  edge_updated_at :: go_time

text \<open>The zero values, as a composite literal without fields leaves them.\<close>

definition zero_link :: link where
  "zero_link = \<lparr>link_id = 0, link_url = [], link_retrieved_at = zero_time\<rparr>"

definition zero_edge :: edge where
  "zero_edge = \<lparr>edge_id = 0, edge_src = 0, edge_dst = 0, edge_updated_at = zero_time\<rparr>"

section \<open>The abstract store\<close>

record link_store =
  st_links :: "uuid \<rightharpoonup> link"
  st_edges :: "uuid \<rightharpoonup> edge"

definition has_url :: "link_store \<Rightarrow> uuid \<Rightarrow> string \<Rightarrow> bool" where
  "has_url A i url \<longleftrightarrow> (\<exists>l. st_links A i = Some l \<and> link_url l = url)"

definition has_edge :: "link_store \<Rightarrow> uuid \<Rightarrow> uuid \<Rightarrow> uuid \<Rightarrow> bool" where
  "has_edge A i s d \<longleftrightarrow> (\<exists>e. st_edges A i = Some e \<and> edge_src e = s \<and> edge_dst e = d)"

text \<open>
  Well-formed stores: rows are filed under their own identifiers, no two links share a URL,
  no two edges share their end points, and the end points of every edge are links.
\<close>

definition store_ok :: "link_store \<Rightarrow> bool" where
  "store_ok A \<longleftrightarrow>
     (\<forall>i l. st_links A i = Some l \<longrightarrow> link_id l = i) \<and>
     (\<forall>i e. st_edges A i = Some e \<longrightarrow>
        edge_id e = i \<and> edge_src e \<in> dom (st_links A) \<and> edge_dst e \<in> dom (st_links A)) \<and>
     (\<forall>i j u. has_url A i u \<longrightarrow> has_url A j u \<longrightarrow> i = j) \<and>
     (\<forall>i j s d. has_edge A i s d \<longrightarrow> has_edge A j s d \<longrightarrow> i = j)"

lemma store_okD:
  assumes "store_ok A"
  shows "st_links A i = Some l \<Longrightarrow> link_id l = i"
    and "st_edges A i = Some e \<Longrightarrow> edge_id e = i"
    and "st_edges A i = Some e \<Longrightarrow> edge_src e \<in> dom (st_links A)"
    and "st_edges A i = Some e \<Longrightarrow> edge_dst e \<in> dom (st_links A)"
    and "has_url A i u \<Longrightarrow> has_url A j u \<Longrightarrow> i = j"
    and "has_edge A i s d \<Longrightarrow> has_edge A j s d \<Longrightarrow> i = j"
  using assms by (auto simp: store_ok_def)

text \<open>
  Writing a link keeps the later of the two retrieval times; writing an edge stamps it;
  removing stale edges drops the edges of one source that were updated before an instant.
\<close>

definition put_link :: "uuid \<Rightarrow> link \<Rightarrow> link_store \<Rightarrow> link_store" where
  "put_link i x A =
     A\<lparr>st_links := (st_links A)(i \<mapsto> x\<lparr>link_id := i,
         link_retrieved_at := (case st_links A i of
            None \<Rightarrow> link_retrieved_at x
          | Some l \<Rightarrow> max (link_retrieved_at l) (link_retrieved_at x))\<rparr>)\<rparr>"

definition put_edge :: "uuid \<Rightarrow> uuid \<Rightarrow> uuid \<Rightarrow> go_time \<Rightarrow> link_store \<Rightarrow> link_store" where
  "put_edge i s d now A =
     A\<lparr>st_edges := (st_edges A)(i \<mapsto>
         \<lparr>edge_id = i, edge_src = s, edge_dst = d, edge_updated_at = now\<rparr>)\<rparr>"

definition is_stale :: "uuid \<Rightarrow> go_time \<Rightarrow> edge \<Rightarrow> bool" where
  "is_stale from t e \<longleftrightarrow> edge_src e = from \<and> edge_updated_at e < t"

definition drop_stale :: "uuid \<Rightarrow> go_time \<Rightarrow> link_store \<Rightarrow> link_store" where
  "drop_stale from t A =
     A\<lparr>st_edges := (\<lambda>i. case st_edges A i of
         None \<Rightarrow> None
       | Some e \<Rightarrow> if is_stale from t e then None else Some e)\<rparr>"

section \<open>The contract\<close>

text \<open>
  An operation that must draw a fresh identifier takes the outcomes of successive draws; its
  result is \<open>None\<close> while the draws given do not suffice.  A call returns its outcome together
  with the new state.
\<close>

locale link_graph_store =
  fixes inv :: "'s \<Rightarrow> bool"
    and abs :: "'s \<Rightarrow> link_store"
    and upsert_link :: "uuid list \<Rightarrow> link \<Rightarrow> 's \<Rightarrow> (link outcome \<times> 's) option"
    and upsert_edge :: "uuid list \<Rightarrow> go_time \<Rightarrow> edge \<Rightarrow> 's \<Rightarrow> (edge outcome \<times> 's) option"
    and remove_stale_edges :: "uuid \<Rightarrow> go_time \<Rightarrow> 's \<Rightarrow> unit outcome \<times> 's"
  assumes abs_ok: "inv s \<Longrightarrow> store_ok (abs s)"
    and upsert_link_spec: "inv s \<Longrightarrow> upsert_link draws x s = Some (r, s') \<Longrightarrow>
      \<exists>y. r = Returns y \<and> inv s' \<and> link_url y = link_url x \<and>
          abs s' = put_link (link_id y) x (abs s) \<and>
          (has_url (abs s) (link_id y) (link_url x) \<or>
           link_id y \<in> set draws \<and> link_id y \<notin> dom (st_links (abs s)) \<and>
           (\<forall>i. \<not> has_url (abs s) i (link_url x)))"
    and upsert_link_returns: "inv s \<Longrightarrow>
      (\<exists>i. has_url (abs s) i (link_url x)) \<or> (\<exists>d \<in> set draws. d \<notin> dom (st_links (abs s))) \<Longrightarrow>
      \<exists>rs. upsert_link draws x s = Some rs"
    and upsert_edge_unknown: "inv s \<Longrightarrow>
      edge_src e \<notin> dom (st_links (abs s)) \<or> edge_dst e \<notin> dom (st_links (abs s)) \<Longrightarrow>
      \<exists>err. upsert_edge draws now e s = Some (Fails err, s) \<and> errors_is err GraphErrUnknownEdgeLinks"
    and upsert_edge_spec: "inv s \<Longrightarrow>
      edge_src e \<in> dom (st_links (abs s)) \<Longrightarrow> edge_dst e \<in> dom (st_links (abs s)) \<Longrightarrow>
      upsert_edge draws now e s = Some (re, s') \<Longrightarrow>
      \<exists>y. re = Returns y \<and> inv s' \<and>
          abs s' = put_edge (edge_id y) (edge_src e) (edge_dst e) now (abs s) \<and>
          (has_edge (abs s) (edge_id y) (edge_src e) (edge_dst e) \<or>
           edge_id y \<in> set draws \<and> edge_id y \<notin> dom (st_edges (abs s)) \<and>
           (\<forall>i. \<not> has_edge (abs s) i (edge_src e) (edge_dst e)))"
    and upsert_edge_returns: "inv s \<Longrightarrow>
      edge_src e \<in> dom (st_links (abs s)) \<Longrightarrow> edge_dst e \<in> dom (st_links (abs s)) \<Longrightarrow>
      (\<exists>i. has_edge (abs s) i (edge_src e) (edge_dst e)) \<or>
      (\<exists>d \<in> set draws. d \<notin> dom (st_edges (abs s))) \<Longrightarrow>
      \<exists>rs. upsert_edge draws now e s = Some rs"
    and remove_stale_spec: "inv s \<Longrightarrow>
      \<exists>s'. remove_stale_edges from t s = (Returns (), s') \<and> inv s' \<and>
           abs s' = drop_stale from t (abs s)"

section \<open>Facts about the abstract operations\<close>

named_theorems store_simps \<open>lookups in updated stores\<close>

lemma st_links_put_link [store_simps]:
  "st_links (put_link i x A) j =
     (if j = i then Some (x\<lparr>link_id := i,
         link_retrieved_at := (case st_links A i of
            None \<Rightarrow> link_retrieved_at x
          | Some l \<Rightarrow> max (link_retrieved_at l) (link_retrieved_at x))\<rparr>)
      else st_links A j)"
  by (simp add: put_link_def)

lemma st_edges_put_link [store_simps]: "st_edges (put_link i x A) = st_edges A"
  by (simp add: put_link_def)

lemma st_links_put_edge [store_simps]: "st_links (put_edge i s d now A) = st_links A"
  by (simp add: put_edge_def)

lemma st_edges_put_edge [store_simps]:
  "st_edges (put_edge i s d now A) j =
     (if j = i then Some \<lparr>edge_id = i, edge_src = s, edge_dst = d, edge_updated_at = now\<rparr>
      else st_edges A j)"
  by (simp add: put_edge_def)

lemma st_links_drop_stale [store_simps]: "st_links (drop_stale from t A) = st_links A"
  by (simp add: drop_stale_def)

lemma st_edges_drop_stale [store_simps]:
  "st_edges (drop_stale from t A) i = Some e \<longleftrightarrow> st_edges A i = Some e \<and> \<not> is_stale from t e"
  by (auto simp: drop_stale_def split: option.splits)

end
