(* ===== verification/Documents.thy ===== *)
theory Documents
  imports Uuid
begin

text \<open>
  The package \<^verbatim>\<open>index\<close>: documents, queries and the contract of \<^verbatim>\<open>index.Indexer\<close>, as an abstract
  store and a locale.  PageRank scores are reals.
\<close>

section \<open>Data\<close>

record document =
  doc_link_id :: uuid
  doc_url :: string
  doc_title :: string
  doc_content :: string
  doc_indexed_at :: go_time
  doc_page_rank :: real

definition zero_document :: document where
  "zero_document = \<lparr>doc_link_id = 0, doc_url = [], doc_title = [], doc_content = [],
     doc_indexed_at = zero_time, doc_page_rank = 0\<rparr>"

datatype query_type = QueryTypeMatch | QueryTypePhrase | QueryTypeOther nat

record query =
  query_type :: query_type
  query_expression :: string
  query_offset :: "64 word"

text \<open>What \<^verbatim>\<open>Search\<close> answers: the iterator over the matching documents and \<^verbatim>\<open>TotalCount\<close>.\<close>

record doc_iterator = "document api_iterator" +
  it_total :: "64 word"

section \<open>Pages of results\<close>

text \<open>Position p of a list of results, seen from the page of ten that starts at f.\<close>

lemma page_exhausted:
  "p < length xs \<Longrightarrow> f \<le> p \<Longrightarrow> p \<le> f + 10 \<Longrightarrow> length (take 10 (drop f xs)) \<le> p - f \<longleftrightarrow> p = f + 10"
  by auto

lemma page_nth:
  "p < length xs \<Longrightarrow> f \<le> p \<Longrightarrow> p < f + 10 \<Longrightarrow> take 10 (drop f xs) ! (p - f) = xs ! p"
  by simp

lemma uint64_of_nat: "n < 2 ^ 63 \<Longrightarrow> uint (of_nat n :: 64 word) = int n"
  by (simp add: unsigned_of_nat take_bit_nat_eq_self_iff)

lemma uint64_le_iff: "m < 2 ^ 63 \<Longrightarrow> n < 2 ^ 63 \<Longrightarrow> (of_nat m :: 64 word) \<le> of_nat n \<longleftrightarrow> m \<le> n"
  by (simp add: word_le_def uint64_of_nat)

section \<open>The abstract index\<close>

text \<open>
  Indexing keeps the score the index already has; updating the score of an unknown document
  creates a placeholder.
\<close>

type_synonym doc_store = "uuid \<rightharpoonup> document"

definition put_doc :: "document \<Rightarrow> go_time \<Rightarrow> doc_store \<Rightarrow> doc_store" where
  "put_doc d now A = A(doc_link_id d \<mapsto> d\<lparr>doc_indexed_at := now,
     doc_page_rank := (case A (doc_link_id d) of None \<Rightarrow> doc_page_rank d | Some e \<Rightarrow> doc_page_rank e)\<rparr>)"

definition put_score :: "uuid \<Rightarrow> real \<Rightarrow> doc_store \<Rightarrow> doc_store" where
  "put_score i x A = A(i \<mapsto> (case A i of None \<Rightarrow> zero_document\<lparr>doc_link_id := i\<rparr> | Some e \<Rightarrow> e)\<lparr>doc_page_rank := x\<rparr>)"

section \<open>The contract\<close>

text \<open>
  \<open>index_doc now d s\<close> is \<^verbatim>\<open>Index(d)\<close> at the instant \<open>now\<close>: its error, the document as the call
  leaves it (an implementation may stamp it), and the new state.  A failed update of a score
  may leave the document's entry in any state, but touches no other document.
\<close>

fun outcome_of :: "go_error + 'a \<Rightarrow> 'a outcome" where
  "outcome_of (Inl err) = Fails err"
| "outcome_of (Inr a) = Returns a"

locale text_indexer =
  fixes inv :: "'s \<Rightarrow> bool"
    and abs :: "'s \<Rightarrow> doc_store"
    and index_doc :: "go_time \<Rightarrow> document \<Rightarrow> 's \<Rightarrow> go_error option \<times> document \<times> 's"
    and find_by_id :: "uuid \<Rightarrow> 's \<Rightarrow> document outcome"
    and update_score :: "uuid \<Rightarrow> real \<Rightarrow> 's \<Rightarrow> go_error option \<times> 's"
  assumes index_missing_id: "inv s \<Longrightarrow> doc_link_id d = 0 \<Longrightarrow>
      \<exists>err. index_doc now d s = (Some err, d, s) \<and> errors_is err IndexErrMissingLinkID"
    and index_ok: "inv s \<Longrightarrow> doc_link_id d \<noteq> 0 \<Longrightarrow> index_doc now d s = (None, d', s') \<Longrightarrow>
      inv s' \<and> d' = d\<lparr>doc_indexed_at := doc_indexed_at d'\<rparr> \<and>
      doc_indexed_at d' \<in> {now, doc_indexed_at d} \<and>
      (\<exists>x \<in> {doc_page_rank d, 0}. abs s' = put_doc (d\<lparr>doc_page_rank := x\<rparr>) (doc_indexed_at d') (abs s))"
    and index_failed: "inv s \<Longrightarrow> doc_link_id d \<noteq> 0 \<Longrightarrow> index_doc now d s = (Some err, d', s') \<Longrightarrow>
      inv s' \<and> abs s' = abs s"
    and find_found: "inv s \<Longrightarrow> abs s i = Some d \<Longrightarrow> find_by_id i s = Returns d"
    and find_unknown: "inv s \<Longrightarrow> abs s i = None \<Longrightarrow>
      \<exists>err. find_by_id i s = Fails err \<and> errors_is err IndexErrNotFound"
    and update_ok: "inv s \<Longrightarrow> update_score i x s = (None, s') \<Longrightarrow>
      inv s' \<and> abs s' = put_score i x (abs s)"
    and update_failed: "inv s \<Longrightarrow> update_score i x s = (Some err, s') \<Longrightarrow>
      inv s' \<and> (abs s')(i := abs s i) = abs s"
begin

text \<open>What the acceptance suite of the interface checks, for every implementation.\<close>

lemma find_indexed:
  assumes "inv s" "doc_link_id d \<noteq> 0" "index_doc now d s = (None, d', s')"
  shows "\<exists>e. find_by_id (doc_link_id d) s' = Returns e \<and> doc_url e = doc_url d \<and> doc_title e = doc_title d \<and>
    doc_content e = doc_content d \<and> doc_indexed_at e = doc_indexed_at d' \<and>
    (case abs s (doc_link_id d) of
       None \<Rightarrow> doc_page_rank e \<in> {doc_page_rank d, 0}
     | Some o' \<Rightarrow> doc_page_rank e = doc_page_rank o')"
proof -
  from index_ok [OF assms] obtain x where "inv s'" "x \<in> {doc_page_rank d, 0}"
    and abs': "abs s' = put_doc (d\<lparr>doc_page_rank := x\<rparr>) (doc_indexed_at d') (abs s)"
    by (elim conjE bexE) (rule that)
  with find_found [OF this(1), unfolded abs'] show ?thesis by (auto simp: put_doc_def split: option.splits)
qed

lemma find_scored:
  assumes "inv s" "update_score i x s = (None, s')"
  shows "\<exists>e. find_by_id i s' = Returns e \<and> doc_page_rank e = x \<and>
    (case abs s i of None \<Rightarrow> e = zero_document\<lparr>doc_link_id := i, doc_page_rank := x\<rparr>
     | Some o' \<Rightarrow> e = o'\<lparr>doc_page_rank := x\<rparr>)"
proof -
  from update_ok [OF assms] have "inv s'" and abs': "abs s' = put_score i x (abs s)" by auto
  from find_found [OF this(1), unfolded abs'] show ?thesis
    by (cases "abs s i") (simp_all add: put_score_def)
qed

text \<open>Indexing again does not change the score, and scoring does not change the content.\<close>

lemma reindex_keeps_score:
  assumes "inv s" "update_score (doc_link_id d) x s = (None, s1)"
    and "doc_link_id d \<noteq> 0" "index_doc now d s1 = (None, d', s2)"
  shows "\<exists>e. find_by_id (doc_link_id d) s2 = Returns e \<and> doc_page_rank e = x \<and> doc_content e = doc_content d"
proof -
  from update_ok [OF assms(1,2)] have "inv s1" and abs1: "abs s1 = put_score (doc_link_id d) x (abs s)" by auto
  from find_indexed [OF this(1) assms(3,4)] show ?thesis by (auto simp: abs1 put_score_def)
qed

end

end
