(* ===== verification/Crawler.thy ===== *)
theory Crawler
  imports GoRegexp GoUrl LinkGraph Documents
begin

text \<open>
  The stages of the crawler pipeline: \<^verbatim>\<open>crawler/payload.go\<close>, \<^verbatim>\<open>link_fetcher.go\<close>,
  \<^verbatim>\<open>link_extractor.go\<close>, \<^verbatim>\<open>text_extractor.go\<close>, \<^verbatim>\<open>graph_updater.go\<close>, \<^verbatim>\<open>text_indexer.go\<close> and
  the source and sink of \<^verbatim>\<open>crawler.go\<close>.

  Parameters stand for what the stages reach outside: the HTTP client, the private network
  detector, the URL package, the sanitizer and \<^verbatim>\<open>html.UnescapeString\<close>, the link graph and the
  index.
\<close>

section \<open>Payloads\<close>

record payload =
  pl_link_id :: uuid
  pl_url :: string
  pl_retrieved_at :: go_time
  pl_raw_content :: string
  pl_no_follow_links :: "string list"
  pl_links :: "string list"
  pl_title :: string
  pl_text_content :: string

definition new_payload :: payload where
  "new_payload = \<lparr>pl_link_id = 0, pl_url = [], pl_retrieved_at = zero_time, pl_raw_content = [],
     pl_no_follow_links = [], pl_links = [], pl_title = [], pl_text_content = []\<rparr>"

text \<open>
  \<^verbatim>\<open>Clone\<close> fills a payload \<open>newP\<close> taken from the pool; \<^verbatim>\<open>io.Copy\<close> moves the unread bytes of
  the original's buffer to the end of the copy's.  The result is the copy and the original.
\<close>

definition payload_clone :: "payload \<Rightarrow> payload \<Rightarrow> payload \<times> payload" where
  "payload_clone newP p =
     (newP\<lparr>pl_link_id := pl_link_id p, pl_url := pl_url p, pl_retrieved_at := pl_retrieved_at p,
        pl_no_follow_links := pl_no_follow_links p, pl_links := pl_links p,
        pl_title := pl_title p, pl_text_content := pl_text_content p,
        pl_raw_content := pl_raw_content newP @ pl_raw_content p\<rparr>,
      p\<lparr>pl_raw_content := []\<rparr>)"

definition payload_mark_as_processed :: "payload \<Rightarrow> payload" where
  "payload_mark_as_processed p =
     p\<lparr>pl_url := [], pl_raw_content := [], pl_no_follow_links := [], pl_links := [],
       pl_title := [], pl_text_content := []\<rparr>"

text \<open>\<^verbatim>\<open>linkSource.Payload\<close>, with the payload the pool hands out.\<close>

definition link_source_payload :: "payload \<Rightarrow> link \<Rightarrow> payload" where
  "link_source_payload p l =
     p\<lparr>pl_link_id := link_id l, pl_url := link_url l, pl_retrieved_at := link_retrieved_at l\<rparr>"

text \<open>\<^verbatim>\<open>countingSink\<close>; the division truncates.\<close>

definition sink_consume :: "int \<Rightarrow> int" where
  "sink_consume count = wrap64 (count + 1)"

definition sink_get_count :: "int \<Rightarrow> int" where
  "sink_get_count count = (if count \<ge> 0 then count div 2 else - ((- count) div 2))"

text \<open>What \<^verbatim>\<open>Process\<close> of a stage returns: a payload, nil, an error; or it panics.\<close>

datatype 'p processed = Forward 'p | Dropped | Aborted go_error | Crashes string

section \<open>Regular expressions\<close>

definition exclusion_regex :: rx where
  "exclusion_regex =
     rx_seq [RChar (\<lambda>c. c = CHR ''.''),
             rx_alts (ci_string ''jpg'') [ci_string ''jpeg'', ci_string ''png'', ci_string ''gif'',
                      ci_string ''ico'', ci_string ''css'', ci_string ''js''],
             REnd]"

definition quote_char :: char where
  "quote_char = CHR 0x22"

definition rx_char :: "char \<Rightarrow> rx" where
  "rx_char c = RChar (\<lambda>x. x = c)"

definition base_href_regex :: rx where
  "base_href_regex =
     rx_seq [ci_string ''<base'', RLazy any_char, ci_string ''href'', RLazy space_char, rx_char (CHR ''=''),
             RLazy space_char, rx_char quote_char, RGroup (RLazy any_char), RLazy space_char, rx_char quote_char]"

definition find_link_regex :: rx where
  "find_link_regex =
     rx_seq [ci_string ''<a'', RLazy any_char, ci_string ''href'', RLazy space_char, rx_char (CHR ''=''),
             RLazy space_char, rx_char quote_char, RLazy space_char, RGroup (RLazy any_char), RLazy space_char,
             rx_char quote_char, RLazy any_char, rx_char (CHR ''>'')]"

definition nofollow_regex :: rx where
  "nofollow_regex =
     rx_seq [ci_string ''rel'', RLazy space_char, rx_char (CHR ''=''), RLazy space_char,
             rx_optional quote_char, ci_string ''nofollow'', rx_optional quote_char]"

definition title_regex :: rx where
  "title_regex =
     rx_seq [ci_string ''<title'', RLazy any_char, rx_char (CHR ''>''), RGroup (RLazy any_char),
             ci_string ''</title>'']"

section \<open>URLs\<close>

definition ensure_has_trailing_slash :: "string \<Rightarrow> string outcome" where
  "ensure_has_trailing_slash s =
     (if s = [] then Panics ''index out of range''
      else Returns (if s ! (length s - 1) \<noteq> CHR ''/'' then s @ ''/'' else s))"

definition resolve_url :: "'r url_pkg \<Rightarrow> 'r go_url \<Rightarrow> string \<Rightarrow> 'r go_url option" where
  "resolve_url U relTo target =
     (if length target = 0 then None
      else let target' = (if has_prefix target ''//'' then u_scheme relTo @ '':'' @ target else target)
           in (case url_parse U target' of
                 Inr targetURL \<Rightarrow> Some (url_resolve_reference U relTo targetURL)
               | Inl _ \<Rightarrow> None))"

section \<open>The link fetcher\<close>

record http_response =
  res_status_code :: int
  res_content_type :: string
  res_body :: string
  res_body_error :: "go_error option"

text \<open>
  What the fetcher does outside of the process is visible: its code is a program that returns, or
  asks the detector about a host (\<^verbatim>\<open>netDetector.IsPrivate\<close>) or requests a URL
  (\<^verbatim>\<open>urlGetter.Get\<close>) and goes on with the answer.
\<close>

datatype 'a net_prog =
    NetReturn 'a
  | AskPrivate string "go_error + bool \<Rightarrow> 'a net_prog"
  | SendGet string "go_error + http_response \<Rightarrow> 'a net_prog"

primrec net_bind :: "'a net_prog \<Rightarrow> ('a \<Rightarrow> 'b net_prog) \<Rightarrow> 'b net_prog" where
  "net_bind (NetReturn a) f = f a"
| "net_bind (AskPrivate host k) f = AskPrivate host (\<lambda>r. net_bind (k r) f)"
| "net_bind (SendGet url k) f = SendGet url (\<lambda>r. net_bind (k r) f)"

definition fetcher_is_private :: "'r url_pkg \<Rightarrow> string \<Rightarrow> (go_error + bool) net_prog" where
  "fetcher_is_private U s =
     (case url_parse U s of
        Inl err \<Rightarrow> NetReturn (Inl err)
      | Inr u \<Rightarrow> AskPrivate (url_hostname U u) NetReturn)"

definition link_fetcher_process :: "'r url_pkg \<Rightarrow> payload \<Rightarrow> payload processed net_prog" where
  "link_fetcher_process U p =
     (if match_string exclusion_regex (pl_url p) then NetReturn Dropped
      else net_bind (fetcher_is_private U (pl_url p)) (\<lambda>isPrivate.
             case isPrivate of
               Inl _ \<Rightarrow> NetReturn Dropped
             | Inr True \<Rightarrow> NetReturn Dropped
             | Inr False \<Rightarrow>
                 SendGet (pl_url p) (\<lambda>response. NetReturn
                   (case response of
                      Inl _ \<Rightarrow> Dropped
                    | Inr res \<Rightarrow>
                        if res_status_code res < 200 \<or> res_status_code res > 299 then Dropped
                        else if \<not> contains_str (res_content_type res) ''html'' then Dropped
                        else (case res_body_error res of
                                Some err \<Rightarrow> Aborted err
                              | None \<Rightarrow> Forward (p\<lparr>pl_raw_content := pl_raw_content p @ res_body res\<rparr>))))))"

text \<open>The result when the outside world answers by two functions.\<close>

primrec run_net ::
  "(string \<Rightarrow> go_error + bool) \<Rightarrow> (string \<Rightarrow> go_error + http_response) \<Rightarrow> 'a net_prog \<Rightarrow> 'a" where
  "run_net is_private get (NetReturn a) = a"
| "run_net is_private get (AskPrivate host k) = run_net is_private get (k (is_private host))"
| "run_net is_private get (SendGet url k) = run_net is_private get (k (get url))"

definition fetch ::
  "'r url_pkg \<Rightarrow> (string \<Rightarrow> go_error + bool) \<Rightarrow> (string \<Rightarrow> go_error + http_response) \<Rightarrow>
   payload \<Rightarrow> payload processed" where
  "fetch U is_private get p = run_net is_private get (link_fetcher_process U p)"

section \<open>The link extractor\<close>

definition retain_link ::
  "'r url_pkg \<Rightarrow> (string \<Rightarrow> go_error + bool) \<Rightarrow> string \<Rightarrow> 'r go_url option \<Rightarrow> bool" where
  "retain_link U is_private srcHost link =
     (case link of
        None \<Rightarrow> False
      | Some u \<Rightarrow>
          if u_scheme u \<noteq> ''http'' \<and> u_scheme u \<noteq> ''https'' then False
          else if url_hostname U u = srcHost then True
          else (case is_private (u_host u) of
                  Inl _ \<Rightarrow> False
                | Inr priv \<Rightarrow> \<not> priv))"

text \<open>
  The loop over the matches; \<open>seen\<close> are the links already added.  \<open>retain_link\<close> holds of no
  nil link, so the dereferences after it are safe.
\<close>

fun extract_loop ::
  "'r url_pkg \<Rightarrow> (string \<Rightarrow> go_error + bool) \<Rightarrow> 'r go_url \<Rightarrow> string list list \<Rightarrow> string set \<Rightarrow> payload \<Rightarrow> payload" where
  "extract_loop U is_private relTo [] seen p = p"
| "extract_loop U is_private relTo (match # matches) seen p =
     (let link = resolve_url U relTo (match ! 1) in
      if \<not> retain_link U is_private (url_hostname U relTo) link
      then extract_loop U is_private relTo matches seen p
      else
        let linkStr = url_string U ((the link)\<lparr>u_fragment := []\<rparr>) in
        if linkStr \<in> seen then extract_loop U is_private relTo matches seen p
        else if match_string exclusion_regex linkStr then extract_loop U is_private relTo matches seen p
        else extract_loop U is_private relTo matches (insert linkStr seen)
               (if match_string nofollow_regex (match ! 0)
                then p\<lparr>pl_no_follow_links := pl_no_follow_links p @ [linkStr]\<rparr>
                else p\<lparr>pl_links := pl_links p @ [linkStr]\<rparr>))"

definition link_extractor_process ::
  "'r url_pkg \<Rightarrow> (string \<Rightarrow> go_error + bool) \<Rightarrow> payload \<Rightarrow> payload processed" where
  "link_extractor_process U is_private p =
     (case url_parse U (pl_url p) of
        Inl err \<Rightarrow> Aborted err
      | Inr relTo0 \<Rightarrow>
          let content = pl_raw_content p;
              baseMatch = find_submatch base_href_regex content;
              relTo = (if length baseMatch = 2
                       then outcome_bind (ensure_has_trailing_slash (baseMatch ! 1)) (\<lambda>target.
                              Returns (case resolve_url U relTo0 target of Some base \<Rightarrow> base | None \<Rightarrow> relTo0))
                       else Returns relTo0)
          in (case relTo of
                Panics m \<Rightarrow> Crashes m
              | Fails err \<Rightarrow> Aborted err
              | Returns r \<Rightarrow>
                  Forward (extract_loop U is_private r (find_all_submatch find_link_regex content) {} p)))"

section \<open>The text extractor\<close>

text \<open>\<open>sanitize\<close> is the policy's \<^verbatim>\<open>Sanitize\<close>, \<open>unescape\<close> is \<^verbatim>\<open>html.UnescapeString\<close>.\<close>

definition clean_text :: "(string \<Rightarrow> string) \<Rightarrow> (string \<Rightarrow> string) \<Rightarrow> string \<Rightarrow> string" where
  "clean_text sanitize unescape s = trim_space (unescape (collapse_spaces (sanitize s)))"

definition text_extractor_process ::
  "(string \<Rightarrow> string) \<Rightarrow> (string \<Rightarrow> string) \<Rightarrow> payload \<Rightarrow> payload processed" where
  "text_extractor_process sanitize unescape p =
     (let titleMatch = find_submatch title_regex (pl_raw_content p);
          p1 = (if length titleMatch = 2
                then p\<lparr>pl_title := clean_text sanitize unescape (titleMatch ! 1)\<rparr> else p)
      in Forward (p1\<lparr>pl_text_content := clean_text sanitize unescape (pl_raw_content p), pl_raw_content := []\<rparr>))"

section \<open>The text indexer\<close>

definition text_indexer_process ::
  "(document \<Rightarrow> 's \<Rightarrow> go_error option \<times> 's) \<Rightarrow> go_time \<Rightarrow> payload \<Rightarrow> 's \<Rightarrow> payload processed \<times> 's" where
  "text_indexer_process index now p s =
     (case index \<lparr>doc_link_id = pl_link_id p, doc_url = pl_url p, doc_title = pl_title p,
                  doc_content = pl_text_content p, doc_indexed_at = now, doc_page_rank = 0\<rparr> s of
        (Some err, s') \<Rightarrow> (Aborted err, s')
      | (None, s') \<Rightarrow> (Forward p, s'))"

section \<open>The graph updater\<close>

text \<open>
  The updater's graph: a call of \<^verbatim>\<open>UpsertLink\<close> writes the stored link back into its argument,
  so the model's \<open>ul\<close> returns it.  Call number k of an upsert uses the identifiers \<open>draws k\<close>
  and, for an edge, the instant \<open>clock k\<close>; \<open>None\<close> means that the draws did not suffice.
\<close>

type_synonym 's upsert_link_fn = "uuid list \<Rightarrow> link \<Rightarrow> 's \<Rightarrow> (link outcome \<times> 's) option"
type_synonym 's upsert_edge_fn = "uuid list \<Rightarrow> go_time \<Rightarrow> edge \<Rightarrow> 's \<Rightarrow> (edge outcome \<times> 's) option"
type_synonym 's remove_stale_fn = "uuid \<Rightarrow> go_time \<Rightarrow> 's \<Rightarrow> unit outcome \<times> 's"

text \<open>The result of a stage on a graph; \<open>None\<close> as above.\<close>

type_synonym 's graph_result = "(unit processed \<times> 's) option"

fun fail_of :: "'a outcome \<Rightarrow> 'b processed" where
  "fail_of (Fails err) = Aborted err"
| "fail_of (Panics m) = Crashes m"
| "fail_of (Returns a) = Dropped"

fun add_no_follow ::
  "'s upsert_link_fn \<Rightarrow> (nat \<Rightarrow> uuid list) \<Rightarrow> nat \<Rightarrow> string list \<Rightarrow> 's \<Rightarrow> 's graph_result" where
  "add_no_follow ul draws k [] s = Some (Forward (), s)"
| "add_no_follow ul draws k (dstLink # rest) s =
     (case ul (draws k) (zero_link\<lparr>link_url := dstLink\<rparr>) s of
        None \<Rightarrow> None
      | Some (Returns dst, s') \<Rightarrow> add_no_follow ul draws (Suc k) rest s'
      | Some (r, s') \<Rightarrow> Some (fail_of r, s'))"

fun add_links ::
  "'s upsert_link_fn \<Rightarrow> 's upsert_edge_fn \<Rightarrow> (nat \<Rightarrow> uuid list) \<Rightarrow> (nat \<Rightarrow> go_time) \<Rightarrow> uuid \<Rightarrow>
   nat \<Rightarrow> string list \<Rightarrow> 's \<Rightarrow> 's graph_result" where
  "add_links ul ue draws clock srcID k [] s = Some (Forward (), s)"
| "add_links ul ue draws clock srcID k (dstLink # rest) s =
     (case ul (draws k) (zero_link\<lparr>link_url := dstLink\<rparr>) s of
        None \<Rightarrow> None
      | Some (Returns dst, s1) \<Rightarrow>
          (case ue (draws (k + 1)) (clock (k + 1)) (zero_edge\<lparr>edge_src := srcID, edge_dst := link_id dst\<rparr>) s1 of
             None \<Rightarrow> None
           | Some (Returns _, s2) \<Rightarrow> add_links ul ue draws clock srcID (k + 2) rest s2
           | Some (r, s2) \<Rightarrow> Some (fail_of r, s2))
      | Some (r, s1) \<Rightarrow> Some (fail_of r, s1))"

definition graph_updater_process ::
  "'s upsert_link_fn \<Rightarrow> 's upsert_edge_fn \<Rightarrow> 's remove_stale_fn \<Rightarrow> (nat \<Rightarrow> uuid list) \<Rightarrow> (nat \<Rightarrow> go_time) \<Rightarrow>
   payload \<Rightarrow> 's \<Rightarrow> 's graph_result" where
  "graph_updater_process ul ue rse draws clock p s =
     (case ul (draws 0) \<lparr>link_id = pl_link_id p, link_url = pl_url p, link_retrieved_at = clock 0\<rparr> s of
        None \<Rightarrow> None
      | Some (Returns src, s1) \<Rightarrow>
          (case add_no_follow ul draws 1 (pl_no_follow_links p) s1 of
             None \<Rightarrow> None
           | Some (Forward _, s2) \<Rightarrow>
               let k = Suc (length (pl_no_follow_links p));
                   removeEdgesOlderThan = clock k
               in (case add_links ul ue draws clock (link_id src) (Suc k) (pl_links p) s2 of
                     None \<Rightarrow> None
                   | Some (Forward _, s3) \<Rightarrow>
                       (case rse (link_id src) removeEdgesOlderThan s3 of
                          (Returns _, s4) \<Rightarrow> Some (Forward (), s4)
                        | (r, s4) \<Rightarrow> Some (fail_of r, s4))
                   | Some (r, s3) \<Rightarrow> Some (r, s3))
           | Some (r, s2) \<Rightarrow> Some (r, s2))
      | Some (r, s1) \<Rightarrow> Some (fail_of r, s1))"

end
