(* ===== verification/Partition.thy ===== *)
theory Partition
  imports Uuid GoStrings
begin

text \<open>
  The package \<^verbatim>\<open>partition\<close>: \<^verbatim>\<open>range.go\<close> splits the identifier space into contiguous ranges,
  \<^verbatim>\<open>detector.go\<close> tells an instance of a clustered service which of them it owns.  The slice of
  splits always fits in memory: that \<^verbatim>\<open>make\<close> panics for a number of partitions beyond it, where
  the definitions return the error of the first split they cannot encode, is left out.
\<close>

section \<open>The identifier package\<close>

record uuid_pkg =
  up_from_bytes :: "byte list \<Rightarrow> go_error + uuid"
  up_string :: "uuid \<Rightarrow> string"
  up_parse :: "string \<Rightarrow> go_error + uuid"

text \<open>
  What the documentation of \<^verbatim>\<open>github.com/google/uuid\<close> promises: \<^verbatim>\<open>FromBytes\<close> takes exactly 16
  bytes, \<^verbatim>\<open>String\<close> is the RFC 4122 text, and \<^verbatim>\<open>Parse\<close> decodes that text.
\<close>

definition uuid_pkg_ok :: "uuid_pkg \<Rightarrow> bool" where
  "uuid_pkg_ok L \<longleftrightarrow>
     (\<forall>bs. length bs = 16 \<longrightarrow> up_from_bytes L bs = Inr (uuid_of_bytes bs)) \<and>
     (\<forall>bs. length bs \<noteq> 16 \<longrightarrow> (\<exists>e. up_from_bytes L bs = Inl e)) \<and>
     (\<forall>u. up_string L u = uuid_text u) \<and>
     (\<forall>u. up_parse L (uuid_text u) = Inr u)"

section \<open>Ranges\<close>

record range =
  range_start :: uuid
  range_splits :: "uuid list"

fun range_loop :: "uuid_pkg \<Rightarrow> nat \<Rightarrow> nat list \<Rightarrow> uuid list outcome" where
  "range_loop L partSize [] = Returns []"
| "range_loop L partSize (p # ps) =
     (case up_from_bytes L (big_bytes (partSize * (p + 1))) of
        Inl e \<Rightarrow> Fails (Wrap ''partition range'' e)
      | Inr to \<Rightarrow> outcome_bind (range_loop L partSize ps) (\<lambda>rest. Returns (to # rest)))"

definition part_size :: "uuid \<Rightarrow> uuid \<Rightarrow> int \<Rightarrow> nat" where
  "part_size start end numPartitions =
     nat ((int (big_set_bytes (uuid_bytes end)) - int (big_set_bytes (uuid_bytes start)) + 1)
          div numPartitions)"

definition new_range :: "uuid_pkg \<Rightarrow> uuid \<Rightarrow> uuid \<Rightarrow> int \<Rightarrow> range outcome" where
  "new_range L start end numPartitions =
     (if bytes_compare (uuid_bytes start) (uuid_bytes end) \<ge> 0
      then Fails (Errorf ''range start UUID must be less than the end UUID'')
      else if numPartitions \<le> 0
      then Fails (Errorf ''number of partitions must be at least equal to 1'')
      else outcome_bind
             (range_loop L (part_size start end numPartitions) [0..<nat numPartitions - 1])
             (\<lambda>splits. Returns \<lparr>range_start = start, range_splits = splits @ [end]\<rparr>))"

definition new_full_range :: "uuid_pkg \<Rightarrow> int \<Rightarrow> range outcome" where
  "new_full_range L numPartitions =
     (case up_parse L ''ffffffff-ffff-ffff-ffff-ffffffffffff'' of
        Inl e \<Rightarrow> Panics ''uuid: Parse''
      | Inr m \<Rightarrow> new_range L uuid_nil m numPartitions)"

definition extents :: "range \<Rightarrow> uuid \<times> uuid" where
  "extents r = (range_start r, range_splits r ! (length (range_splits r) - 1))"

definition partition_extents :: "range \<Rightarrow> int \<Rightarrow> (uuid \<times> uuid) outcome" where
  "partition_extents r p =
     (if p < 0 \<or> p \<ge> int (length (range_splits r)) then Fails (Errorf ''invalid partition index'')
      else if p = 0 then Returns (range_start r, range_splits r ! 0)
      else Returns (range_splits r ! nat (p - 1), range_splits r ! nat p))"

section \<open>Detectors\<close>

text \<open>
  \<open>getHostname\<close> and \<open>lookupSRV\<close> are package variables of the code (tests replace them): they
  are parameters of the detector, as the environment's answers.
\<close>

definition srv_partition_info ::
  "(go_error + string) \<Rightarrow> (string \<Rightarrow> go_error + 'addr list) \<Rightarrow> string \<Rightarrow> (int \<times> int) outcome" where
  "srv_partition_info getHostname lookupSRV srvName =
     (case getHostname of
        Inl err \<Rightarrow> Fails (Wrap ''partition detector: unable to detect host name'' err)
      | Inr hostname \<Rightarrow>
          let tokens = split_on (CHR ''-'') hostname;
              (partition, err) = parse_int 32 (tokens ! (length tokens - 1))
          in if err \<noteq> None
             then Fails (Errorf ''partition detector: unable to extract partition number from host name suffix'')
             else (case lookupSRV srvName of
                     Inl err \<Rightarrow> Fails (Sentinel ErrNoPartitionDataAvailableYet)
                   | Inr addrs \<Rightarrow> Returns (partition, int (length addrs))))"

record fixed_detector =
  fixed_partition :: int
  fixed_num_partitions :: int

definition fixed_partition_info :: "fixed_detector \<Rightarrow> (int \<times> int) outcome" where
  "fixed_partition_info det = Returns (fixed_partition det, fixed_num_partitions det)"

section \<open>An instance of the identifier package\<close>

definition hex_value :: "char \<Rightarrow> nat" where
  "hex_value c = (if (of_char c :: nat) < 58 then of_char c - 48 else of_char c - 87)"

definition rfc4122_pkg :: uuid_pkg where
  "rfc4122_pkg =
     \<lparr>up_from_bytes = (\<lambda>bs. if length bs = 16 then Inr (uuid_of_bytes bs) else Inl (External ''invalid UUID'')),
      up_string = uuid_text,
      up_parse = (\<lambda>s. if length s = 36
                       then Inr (of_nat (of_be_digits 16 (map hex_value (filter (\<lambda>c. c \<noteq> CHR ''-'') s))))
                       else Inl (External ''invalid UUID length''))\<rparr>"

lemma hex_value_hex_char: "d < 16 \<Longrightarrow> hex_value (hex_char d) = d"
  by (auto simp: hex_value_def hex_char_def)

lemma hex_char_not_dash: "d < 16 \<Longrightarrow> hex_char d \<noteq> CHR ''-''"
proof
  assume "d < 16" "hex_char d = CHR ''-''"
  then have "of_char (hex_char d) = (45 :: nat)" by simp
  with \<open>d < 16\<close> show False by (auto simp: hex_char_def split: if_splits)
qed

lemma filter_dashed:
  assumes "CHR ''-'' \<notin> set h"
  shows "filter (\<lambda>c. c \<noteq> CHR ''-'') (dashed h) = h"
proof -
  have keep: "filter (\<lambda>c. c \<noteq> CHR ''-'') g = g" if "set g \<subseteq> set h" for g
    using that assms by (auto intro: filter_True)
  have "set (take k (drop j h)) \<subseteq> set h" for k j
    by (meson set_drop_subset set_take_subset subset_trans)
  then show ?thesis
    using dashed_split [of h, symmetric]
    by (simp add: dashed_def keep set_take_subset set_drop_subset)
qed

lemma rfc4122_pkg_ok: "uuid_pkg_ok rfc4122_pkg"
proof -
  have nodash: "CHR ''-'' \<notin> set (uuid_hex u)" for u
    by (auto simp: uuid_hex_def hex_char_not_dash [symmetric] dest: be_digits_less [rotated])
  have "map (hex_value \<circ> hex_char) (be_digits 16 32 n) = be_digits 16 32 n" for n
    by (rule map_idI) (auto dest: be_digits_less [rotated] simp: hex_value_hex_char)
  then have "up_parse rfc4122_pkg (uuid_text u) = Inr u" for u
    using unat_uuid_less [of u] nodash [of u]
    by (simp add: rfc4122_pkg_def uuid_text_def filter_dashed)
      (simp add: uuid_hex_def dashed_def of_be_digits_be_digits)
  then show ?thesis by (simp add: uuid_pkg_ok_def rfc4122_pkg_def)
qed

section \<open>Splitting the whole identifier space\<close>

lemma uuid_pkg_from_bytes:
  "uuid_pkg_ok L \<Longrightarrow> length bs = 16 \<Longrightarrow> up_from_bytes L bs = Inr (uuid_of_bytes bs)"
  "uuid_pkg_ok L \<Longrightarrow> length bs \<noteq> 16 \<Longrightarrow> \<exists>e. up_from_bytes L bs = Inl e"
  by (auto simp: uuid_pkg_ok_def)

lemma uuid_pkg_string [simp]: "uuid_pkg_ok L \<Longrightarrow> up_string L u = uuid_text u"
  by (simp add: uuid_pkg_ok_def)

lemma uuid_pkg_parse: "uuid_pkg_ok L \<Longrightarrow> up_parse L (uuid_text u) = Inr u"
  by (simp add: uuid_pkg_ok_def)

lemma range_loop_ok:
  assumes "uuid_pkg_ok L"
  shows "\<forall>p \<in> set ps. 2 ^ 120 \<le> S * (p + 1) \<and> S * (p + 1) < 2 ^ 128 \<Longrightarrow>
    range_loop L S ps = Returns (map (\<lambda>p. of_nat (S * (p + 1))) ps)"
proof (induction ps)
  case (Cons p ps)
  then have "length (big_bytes (S * (p + 1))) = 16"
    by (simp only: length_big_bytes_16) simp
  then have "up_from_bytes L (big_bytes (S * (p + 1))) = Inr (of_nat (S * (p + 1)))"
    by (simp add: uuid_pkg_from_bytes(1) [OF assms] uuid_of_bytes_def del: mult_Suc_right of_nat_mult)
  with Cons show ?case by (simp del: mult_Suc_right of_nat_mult)
qed simp

lemma range_loop_fails:
  assumes "uuid_pkg_ok L" "\<not> (2 ^ 120 \<le> S * (p + 1) \<and> S * (p + 1) < 2 ^ 128)"
  shows "\<exists>e. range_loop L S (p # ps) = Fails e"
proof -
  have "length (big_bytes (S * (p + 1))) \<noteq> 16"
    unfolding length_big_bytes_16 by (rule assms(2))
  then show ?thesis
    using uuid_pkg_from_bytes(2) [OF assms(1)] by (fastforce simp del: mult_Suc_right)
qed

lemma part_size_eq:
  assumes "start < end" "0 < n"
  shows "part_size start end n = (unat end - unat start + 1) div nat n"
proof -
  have "unat start \<le> unat end" using assms(1) by (simp add: word_less_nat_alt)
  then have "int (big_set_bytes (uuid_bytes end)) - int (big_set_bytes (uuid_bytes start)) + 1
      = int (unat end - unat start + 1)"
    unfolding big_set_bytes_uuid by linarith
  moreover have "n = int (nat n)" using assms(2) by simp
  ultimately show ?thesis
    unfolding part_size_def by (metis nat_int zdiv_int)
qed

lemma be_digits_max: "0 < b \<Longrightarrow> be_digits b k (b ^ k - 1) = replicate k (b - 1)"
proof (induction k)
  case (Suc k)
  have "b ^ Suc k - 1 = b * (b ^ k - 1) + (b - 1)"
    using Suc.prems by (simp add: diff_mult_distrib2)
  moreover have "(b * q + r) div b = q" "(b * q + r) mod b = r" if "r < b" for q r
    using that by simp_all
  ultimately have "(b ^ Suc k - 1) div b = b ^ k - 1" "(b ^ Suc k - 1) mod b = b - 1"
    using Suc.prems by (metis diff_less zero_less_one)+
  with Suc show ?case
    by (simp add: replicate_append_same del: power_Suc)
qed simp

lemma hex_char_15: "hex_char 15 = CHR ''f''"
  by code_simp

lemma uuid_max_text: "uuid_text uuid_max = ''ffffffff-ffff-ffff-ffff-ffffffffffff''"
proof -
  have "unat uuid_max = 16 ^ 32 - 1" by (simp add: unsigned_minus_1_eq_mask mask_eq_exp_minus_1)
  then have "uuid_hex uuid_max = replicate 32 (CHR ''f'')"
    unfolding uuid_hex_def using be_digits_max [of 16 32] by (simp add: hex_char_15)
  then show ?thesis by (simp add: uuid_text_def dashed_def) (simp add: numeral_eq_Suc)
qed

lemma new_full_range_unfold:
  "uuid_pkg_ok L \<Longrightarrow> new_full_range L n = new_range L uuid_nil uuid_max n"
  by (simp add: new_full_range_def uuid_max_text [symmetric] uuid_pkg_parse)

definition full_range :: "nat \<Rightarrow> range" where
  "full_range n =
     \<lparr>range_start = 0,
      range_splits = map (\<lambda>p. of_nat (2 ^ 128 div n * (p + 1))) [0..<n - 1] @ [uuid_max]\<rparr>"

lemma unat_uuid_max: "unat uuid_max = 2 ^ 128 - 1"
  by (simp add: unsigned_minus_1_eq_mask mask_eq_exp_minus_1)

lemma uuid_nil_less_max: "uuid_nil < uuid_max"
  unfolding word_less_nat_alt unat_uuid_max by simp

lemma uuid_compare_nil_max: "\<not> 0 \<le> bytes_compare (uuid_bytes uuid_nil) (uuid_bytes uuid_max)"
  using uuid_nil_less_max by (simp add: uuid_bytes_less_iff not_le)

lemma part_size_full: "0 < n \<Longrightarrow> part_size uuid_nil uuid_max n = 2 ^ 128 div nat n"
  using uuid_nil_less_max by (simp add: part_size_eq unat_uuid_max)

lemma full_split_bound:
  assumes "p + 1 < n"
  shows "2 ^ 128 div n * (p + 1) < (2 ^ 128 :: nat)"
proof (cases "2 ^ 128 div n = (0 :: nat)")
  case False
  then have "2 ^ 128 div n * (p + 1) < 2 ^ 128 div n * n"
    using assms by (intro mult_strict_left_mono) auto
  also have "\<dots> \<le> (2 ^ 128 :: nat)" by (rule div_times_less_eq_dividend)
  finally show ?thesis .
qed simp

lemma full_split_first: "0 < n \<Longrightarrow> 2 ^ 120 \<le> (2 ^ 128 div n :: nat) \<longleftrightarrow> n \<le> 256"
  by (simp add: less_eq_div_iff_mult_less_eq)

lemma new_full_range_ok:
  assumes L: "uuid_pkg_ok L" and n: "1 \<le> n" "n \<le> 256"
  shows "new_full_range L n = Returns (full_range (nat n))"
proof -
  have "2 ^ 120 \<le> 2 ^ 128 div nat n * (p + 1) \<and> 2 ^ 128 div nat n * (p + 1) < (2 ^ 128 :: nat)"
    if "p < nat n - 1" for p
  proof (intro conjI)
    have "(2 ^ 120 :: nat) \<le> 2 ^ 128 div nat n" using n by (subst full_split_first) auto
    also have "\<dots> \<le> 2 ^ 128 div nat n * (p + 1)" by simp
    finally show "2 ^ 120 \<le> 2 ^ 128 div nat n * (p + 1)" .
    show "2 ^ 128 div nat n * (p + 1) < (2 ^ 128 :: nat)"
      using that by (intro full_split_bound) simp
  qed
  then have "range_loop L (2 ^ 128 div nat n) [0..<nat n - 1]
      = Returns (map (\<lambda>p. of_nat (2 ^ 128 div nat n * (p + 1))) [0..<nat n - 1])"
    by (intro range_loop_ok [OF L]) simp
  then show ?thesis
    using n uuid_compare_nil_max
    by (simp add: new_full_range_unfold [OF L] new_range_def part_size_full full_range_def)
qed

lemma new_full_range_too_many:
  assumes L: "uuid_pkg_ok L" and n: "256 < n"
  shows "\<exists>e. new_full_range L n = Fails e"
proof -
  have "[0..<nat n - 1] = 0 # [1..<nat n - 1]" using n by (simp add: upt_conv_Cons)
  moreover have "\<not> 2 ^ 120 \<le> (2 ^ 128 div nat n * (0 + 1) :: nat)"
    using full_split_first [of "nat n"] n by simp
  ultimately obtain e where "range_loop L (2 ^ 128 div nat n) [0..<nat n - 1] = Fails e"
    using range_loop_fails [OF L, of "2 ^ 128 div nat n" 0 "[1..<nat n - 1]"] by auto
  then show ?thesis
    using n uuid_compare_nil_max
    by (simp add: new_full_range_unfold [OF L] new_range_def part_size_full)
qed

text \<open>
  C1.  \<^verbatim>\<open>NewFullRange(n)\<close> succeeds for 1 to 256 partitions, with the boundary of partition i at
  (i+1) times the floor of 2^128/n, and returns an error for every other n: from 257 on the
  first boundary has a leading zero byte, which \<^verbatim>\<open>big.Int.Bytes\<close> drops and
  \<^verbatim>\<open>uuid.FromBytes\<close> then rejects.
\<close>

theorem new_full_range_characterised:
  assumes "uuid_pkg_ok L"
  shows "(if 1 \<le> n \<and> n \<le> 256 then new_full_range L n = Returns (full_range (nat n))
          else \<exists>e. new_full_range L n = Fails e)"
proof -
  have "\<exists>e. new_full_range L n = Fails e" if "n < 1"
    using that uuid_compare_nil_max
    by (simp add: new_full_range_unfold [OF assms] new_range_def)
  then show ?thesis
    using new_full_range_ok [OF assms] new_full_range_too_many [OF assms, of n] by (simp add: not_le)
qed

theorem new_full_range_characterised_witness:
  "new_full_range rfc4122_pkg 2 = Returns (full_range 2) \<and>
   (\<exists>e. new_full_range rfc4122_pkg 257 = Fails e)"
  using new_full_range_characterised [OF rfc4122_pkg_ok, of 2]
    new_full_range_characterised [OF rfc4122_pkg_ok, of 257] by simp

section \<open>Partitions tile the range\<close>

definition boundaries :: "range \<Rightarrow> uuid list" where
  "boundaries r = range_start r # range_splits r"

lemma partition_extents_boundaries:
  "0 \<le> p \<Longrightarrow> p < int (length (range_splits r)) \<Longrightarrow>
   partition_extents r p = Returns (boundaries r ! nat p, boundaries r ! Suc (nat p))"
  by (auto simp: partition_extents_def boundaries_def nth_Cons' nat_diff_distrib)

lemma sorted_tiles:
  fixes bs :: "'a :: linorder list"
  assumes "sorted_wrt (<) bs" "bs \<noteq> []" "hd bs \<le> u" "u < last bs"
  shows "\<exists>!p. Suc p < length bs \<and> bs ! p \<le> u \<and> u < bs ! Suc p"
  using assms
proof (induction bs)
  case (Cons b bs)
  then obtain c cs where bs: "bs = c # cs" by (cases bs) auto
  show ?case
  proof (cases "u < c")
    case True
    have "p = 0" if "Suc p < length (b # bs)" "(b # bs) ! p \<le> u" for p
    proof (rule ccontr)
      assume "p \<noteq> 0"
      then obtain q where q: "p = Suc q" by (cases p) auto
      then have "c \<le> bs ! q"
        using Cons.prems(1) that(1) bs by (cases q) (auto intro: less_imp_le)
      then show False using that(2) True q by simp
    qed
    then show ?thesis using True Cons.prems bs by (intro ex1I [of _ 0]) auto
  next
    case False
    then have "\<exists>!p. Suc p < length bs \<and> bs ! p \<le> u \<and> u < bs ! Suc p"
      using Cons bs by auto
    then obtain p where p: "Suc p < length bs" "bs ! p \<le> u" "u < bs ! Suc p"
      and uniq: "\<And>q. Suc q < length bs \<and> bs ! q \<le> u \<and> u < bs ! Suc q \<Longrightarrow> q = p" by auto
    have "q = Suc p" if "Suc q < length (b # bs) \<and> (b # bs) ! q \<le> u \<and> u < (b # bs) ! Suc q" for q
    proof (cases q)
      case 0
      then show ?thesis using that False bs by simp
    next
      case (Suc q')
      then show ?thesis using that uniq [of q'] by simp
    qed
    then show ?thesis using p by (intro ex1I [of _ "Suc p"]) auto
  qed
qed simp

lemma unat_of_nat_uuid: "m < 2 ^ 128 \<Longrightarrow> unat (of_nat m :: uuid) = m"
  by (simp add: unat_of_nat)

lemma boundaries_full_range_sorted:
  assumes "1 \<le> n" "n \<le> 256"
  shows "sorted_wrt (<) (boundaries (full_range n))"
proof -
  define S :: nat where "S = 2 ^ 128 div n"
  define b :: "nat \<Rightarrow> uuid" where "b p = of_nat (S * (p + 1))" for p
  have S: "2 ^ 120 \<le> S" unfolding S_def using assms by (subst full_split_first) auto
  then have S0: "1 < S" by (rule less_le_trans [rotated]) simp
  have u: "unat (b p) = S * (p + 1)" if "p < n - 1" for p
    unfolding b_def S_def using that by (intro unat_of_nat_uuid full_split_bound) simp
  have less: "b p < b q" if "p < q" "q < n - 1" for p q
    using that S0 by (simp add: word_less_nat_alt u)
  have pos: "0 < b p" if "p < n - 1" for p
    using that S0 by (simp add: word_less_nat_alt u)
  have max: "b p < uuid_max" if "p < n - 1" for p
  proof -
    have "S * (p + 2) \<le> S * n" using that by (intro mult_le_mono2) auto
    also have "\<dots> \<le> 2 ^ 128" unfolding S_def by (rule div_times_less_eq_dividend)
    finally have "S * (p + 1) + S \<le> 2 ^ 128" by simp
    then have "S * (p + 1) < 2 ^ 128 - 1" using S0 by linarith
    then show ?thesis unfolding word_less_nat_alt unat_uuid_max u [OF that] .
  qed
  have "boundaries (full_range n) = 0 # map b [0..<n - 1] @ [uuid_max]"
    by (simp add: boundaries_def full_range_def b_def S_def)
  moreover have "sorted_wrt (<) (map b [0..<n - 1])"
    unfolding sorted_wrt_iff_nth_less by (simp add: less)
  ultimately show ?thesis
    using pos max uuid_nil_less_max by (auto simp: sorted_wrt_append)
qed

lemma full_range_extents:
  "0 \<le> q \<Longrightarrow> q < int n \<Longrightarrow>
   partition_extents (full_range n) q = Returns (boundaries (full_range n) ! nat q, boundaries (full_range n) ! Suc (nat q))"
  by (rule partition_extents_boundaries) (simp_all add: full_range_def)

lemma full_range_boundaries:
  assumes "1 \<le> n" "n \<le> 256" "u < uuid_max"
  shows "\<exists>!p. p < n \<and> boundaries (full_range n) ! p \<le> u \<and> u < boundaries (full_range n) ! Suc p"
proof -
  let ?bs = "boundaries (full_range n)"
  have len: "length ?bs = n + 1" using assms(1) by (simp add: boundaries_def full_range_def)
  have "\<exists>!p. Suc p < length ?bs \<and> ?bs ! p \<le> u \<and> u < ?bs ! Suc p"
  proof (rule sorted_tiles)
    show "sorted_wrt (<) ?bs" using assms by (intro boundaries_full_range_sorted)
    show "?bs \<noteq> []" "hd ?bs \<le> u" "u < last ?bs"
      using assms(3) by (simp_all add: boundaries_def full_range_def)
  qed
  then show ?thesis unfolding len by simp
qed

text \<open>
  C2.  The partitions of the full range tile it: every identifier below the maximum belongs to
  exactly one of the n half-open intervals that \<^verbatim>\<open>PartitionExtents\<close> returns.
\<close>

theorem full_range_tiles:
  assumes "1 \<le> n" "n \<le> 256" "u < uuid_max"
  shows "\<exists>!p. 0 \<le> p \<and> p < int n \<and>
    (\<exists>from to. partition_extents (full_range n) p = Returns (from, to) \<and> from \<le> u \<and> u < to)"
proof -
  let ?bs = "boundaries (full_range n)"
  obtain p where p: "p < n" "?bs ! p \<le> u" "u < ?bs ! Suc p"
    and uniq: "\<And>q. q < n \<Longrightarrow> ?bs ! q \<le> u \<Longrightarrow> u < ?bs ! Suc q \<Longrightarrow> q = p"
    using full_range_boundaries [OF assms] by (elim ex1E) blast
  show ?thesis
  proof (rule ex1I [of _ "int p"])
    show "0 \<le> int p \<and> int p < int n \<and> (\<exists>from to.
        partition_extents (full_range n) (int p) = Returns (from, to) \<and> from \<le> u \<and> u < to)"
      using p full_range_extents [of "int p" n] by simp
  next
    fix q assume "0 \<le> q \<and> q < int n \<and> (\<exists>from to.
        partition_extents (full_range n) q = Returns (from, to) \<and> from \<le> u \<and> u < to)"
    then show "q = int p" using uniq [of "nat q"] full_range_extents [of q n] by auto
  qed
qed

theorem full_range_tiles_witness:
  "\<exists>!p. 0 \<le> p \<and> p < int 3 \<and>
    (\<exists>from to. partition_extents (full_range 3) p = Returns (from, to) \<and> from \<le> 7 \<and> 7 < to)"
proof (rule full_range_tiles)
  show "(7 :: uuid) < uuid_max" unfolding word_less_nat_alt unat_uuid_max by simp
qed simp_all

section \<open>Ranges that do not start at zero\<close>

lemma range_loop_hd:
  assumes "uuid_pkg_ok L" "range_loop L S (p # ps) = Returns splits"
  shows "hd splits = of_nat (S * (p + 1)) \<and> 2 ^ 120 \<le> S * (p + 1) \<and> S * (p + 1) < 2 ^ 128"
proof -
  have bound: "2 ^ 120 \<le> S * (p + 1) \<and> S * (p + 1) < 2 ^ 128"
  proof (rule ccontr)
    assume "\<not> ?thesis"
    from range_loop_fails [OF assms(1) this, of ps] assms(2) show False by auto
  qed
  then have "length (big_bytes (S * (p + 1))) = 16" by (simp only: length_big_bytes_16)
  then have "up_from_bytes L (big_bytes (S * (p + 1))) = Inr (of_nat (S * (p + 1)))"
    by (simp add: uuid_pkg_from_bytes(1) [OF assms(1)] uuid_of_bytes_def
        del: mult_Suc_right of_nat_mult)
  then show ?thesis using bound assms(2) by (auto simp del: mult_Suc_right of_nat_mult)
qed

text \<open>
  \<^verbatim>\<open>NewRange\<close> does not add the start of the range to the boundaries it computes: the first
  partition ends at the partition size itself, so it is an empty or inverted interval exactly
  when the range starts at or above that size.
\<close>

theorem new_range_first_partition:
  assumes L: "uuid_pkg_ok L" and r: "new_range L start end n = Returns r" and n: "2 \<le> n"
  shows "\<exists>to. partition_extents r 0 = Returns (start, to) \<and>
    unat to = (unat end - unat start + 1) div nat n \<and>
    (to \<le> start \<longleftrightarrow> (unat end - unat start + 1) div nat n \<le> unat start)"
proof -
  let ?S = "part_size start end n"
  have lt: "start < end"
    using r by (simp add: new_range_def uuid_bytes_less_iff [symmetric] split: if_splits)
  then have S: "?S = (unat end - unat start + 1) div nat n"
    using n by (intro part_size_eq) auto
  have upt: "[0..<nat n - 1] = 0 # [1..<nat n - 1]" using n by (simp add: upt_conv_Cons)
  obtain splits where "range_loop L ?S [0..<nat n - 1] = Returns splits"
    and req: "r = \<lparr>range_start = start, range_splits = splits @ [end]\<rparr>"
    using r n by (auto simp: new_range_def split: if_splits)
  then have splits: "range_loop L ?S (0 # [1..<nat n - 1]) = Returns splits"
    unfolding upt by simp
  have hd: "hd splits = of_nat ?S" "?S < 2 ^ 128"
    using range_loop_hd [OF L splits] by simp_all
  have "splits \<noteq> []" using splits by (auto split: sum.splits)
  then have "partition_extents r 0 = Returns (start, of_nat ?S)"
    using hd(1) by (simp add: partition_extents_def req nth_append hd_conv_nth)
  moreover have "unat (of_nat ?S :: uuid) = ?S" using hd(2) by (rule unat_of_nat_uuid)
  ultimately show ?thesis by (auto simp: S word_le_nat_alt)
qed

lemma new_range_upper_half:
  "new_range rfc4122_pkg (of_nat (2 ^ 127)) uuid_max 2 =
     Returns \<lparr>range_start = of_nat (2 ^ 127), range_splits = [of_nat (2 ^ 126), uuid_max]\<rparr>"
proof -
  have u: "unat (of_nat (2 ^ 127) :: uuid) = 2 ^ 127" by (rule unat_of_nat_uuid) simp
  then have lt: "(of_nat (2 ^ 127) :: uuid) < uuid_max"
    unfolding word_less_nat_alt unat_uuid_max by simp
  then have S: "part_size (of_nat (2 ^ 127)) uuid_max 2 = 2 ^ 126"
    using u by (simp only: part_size_eq unat_uuid_max) simp
  have "range_loop rfc4122_pkg (2 ^ 126) [0] = Returns (map (\<lambda>p. of_nat (2 ^ 126 * (p + 1))) [0])"
    by (rule range_loop_ok [OF rfc4122_pkg_ok]) simp
  moreover have "\<not> 0 \<le> bytes_compare (uuid_bytes (of_nat (2 ^ 127))) (uuid_bytes uuid_max)"
    using lt by (simp only: uuid_bytes_less_iff not_le)
  moreover have "[0..<nat 2 - 1] = [0]" by simp
  ultimately show ?thesis
    unfolding new_range_def S by (simp del: of_nat_power)
qed

theorem new_range_first_partition_witness:
  "\<exists>to. partition_extents
      \<lparr>range_start = of_nat (2 ^ 127), range_splits = [of_nat (2 ^ 126), uuid_max]\<rparr> 0
      = Returns (of_nat (2 ^ 127), to) \<and> to \<le> of_nat (2 ^ 127)"
proof -
  have u: "unat (of_nat (2 ^ 127) :: uuid) = 2 ^ 127" by (rule unat_of_nat_uuid) simp
  have "(unat uuid_max - 2 ^ 127 + 1) div nat 2 \<le> 2 ^ 127"
    unfolding unat_uuid_max by simp
  then show ?thesis
    using new_range_first_partition [OF rfc4122_pkg_ok new_range_upper_half] u
    by (metis order_refl)
qed

section \<open>Detecting the partition\<close>

text \<open>
  C3.  In a stateful set the detector reads the partition number off the host name: for the host
  name \<^verbatim>\<open>prefix-k\<close> it answers k and the number of SRV records; while the records cannot be
  looked up it answers \<^verbatim>\<open>ErrNoPartitionDataAvailableYet\<close>, the error the services retry on.
\<close>

theorem srv_partition_info_stateful_set:
  assumes "k < 2 ^ 31"
  shows "srv_partition_info (Inr (prefix @ ''-'' @ dec_nat k)) lookup srv =
    (case lookup srv of
       Inl e \<Rightarrow> Fails (Sentinel ErrNoPartitionDataAvailableYet)
     | Inr addrs \<Rightarrow> Returns (int k, int (length addrs)))"
proof -
  let ?tokens = "split_on (CHR ''-'') (prefix @ ''-'' @ dec_nat k)"
  have "?tokens ! (length ?tokens - 1) = last ?tokens"
    by (simp add: last_conv_nth)
  also have "\<dots> = dec_nat k"
    using last_split_on_append [OF dec_nat_no_dash [of k], of prefix] by simp
  finally have "parse_int 32 (?tokens ! (length ?tokens - 1)) = (int k, None)"
    using assms by (simp only:) (rule parse_int_dec_nat, simp)
  then show ?thesis
    by (simp add: srv_partition_info_def Let_def)
qed

theorem srv_partition_info_stateful_set_witness:
  "srv_partition_info (Inr (''crawler'' @ ''-'' @ dec_nat 3)) (\<lambda>_. Inr [''a'', ''b'', ''c'', ''d'']) ''srv''
     = Returns (3, 4)"
  by (subst srv_partition_info_stateful_set) simp_all

end
