(* ===== verification/InMemGraph.thy ===== *)
theory InMemGraph
  imports LinkGraph Partition
begin

text \<open>
  The package \<^verbatim>\<open>inmem\<close>: an in-memory link graph.  The Go maps hold pointers: \<^verbatim>\<open>links\<close> and
  \<^verbatim>\<open>linkFromURL\<close> share their \<^verbatim>\<open>*graph.Link\<close> values, and iterators keep pointers to links and edges
  that later calls overwrite or delete.  The model has explicit heaps of link and edge objects,
  addresses as pointers and allocation of the next address.

  Every method of \<^verbatim>\<open>Graph\<close> holds the lock for its whole body, so calls are atomic steps on the
  state.  The order in which Go iterates a map is unspecified; it is an argument of the
  definitions that iterate one.  So are the draws of \<^verbatim>\<open>uuid.New\<close> and the reading of the clock.
\<close>

section \<open>State\<close>

record mem_graph =
  link_heap :: "nat \<Rightarrow> link"
  edge_heap :: "nat \<Rightarrow> edge"
  next_link :: nat
  next_edge :: nat
  mg_links :: "uuid \<rightharpoonup> nat"
  mg_edges :: "uuid \<rightharpoonup> nat"
  link_from_url :: "string \<rightharpoonup> nat"
  link_edges :: "uuid \<rightharpoonup> uuid list"

definition new_mem_graph :: mem_graph where
  "new_mem_graph =
     \<lparr>link_heap = (\<lambda>_. zero_link), edge_heap = (\<lambda>_. zero_edge), next_link = 0, next_edge = 0,
      mg_links = Map.empty, mg_edges = Map.empty, link_from_url = Map.empty, link_edges = Map.empty\<rparr>"

text \<open>Reading a missing key of \<^verbatim>\<open>linkEdges\<close> gives the nil slice.\<close>

definition edge_list :: "mem_graph \<Rightarrow> uuid \<Rightarrow> uuid list" where
  "edge_list g s = (case link_edges g s of None \<Rightarrow> [] | Some es \<Rightarrow> es)"

text \<open>The loops that draw identifiers until one is not in use.\<close>

fun fresh_uuid :: "(uuid \<rightharpoonup> nat) \<Rightarrow> uuid list \<Rightarrow> uuid option" where
  "fresh_uuid used [] = None"
| "fresh_uuid used (d # ds) = (if used d = None then Some d else fresh_uuid used ds)"

section \<open>Links\<close>

definition upsert_link :: "uuid list \<Rightarrow> link \<Rightarrow> mem_graph \<Rightarrow> (link outcome \<times> mem_graph) option" where
  "upsert_link draws link g =
     (case link_from_url g (link_url link) of
        Some a \<Rightarrow>
          let existing = link_heap g a;
              link' = link\<lparr>link_id := link_id existing\<rparr>;
              origTs = link_retrieved_at existing;
              saved = (if link_retrieved_at link' < origTs
                       then link'\<lparr>link_retrieved_at := origTs\<rparr> else link')
          in Some (Returns link', g\<lparr>link_heap := (link_heap g)(a := saved)\<rparr>)
      | None \<Rightarrow>
          (case fresh_uuid (mg_links g) draws of
             None \<Rightarrow> None
           | Some i \<Rightarrow>
               let link' = link\<lparr>link_id := i\<rparr>; a = next_link g
               in Some (Returns link',
                    g\<lparr>link_heap := (link_heap g)(a := link'), next_link := Suc a,
                      link_from_url := (link_from_url g)(link_url link' \<mapsto> a),
                      mg_links := (mg_links g)(i \<mapsto> a)\<rparr>)))"

definition find_link :: "uuid \<Rightarrow> mem_graph \<Rightarrow> link outcome" where
  "find_link i g =
     (case mg_links g i of
        None \<Rightarrow> Fails (Wrap ''find link'' (Sentinel GraphErrNotFound))
      | Some a \<Rightarrow> Returns (link_heap g a))"

record link_iterator =
  li_links :: "nat list"
  li_curr :: nat

text \<open>\<open>order\<close> lists the keys of the map in the order in which this call iterates them.\<close>

definition links_in_range ::
  "uuid_pkg \<Rightarrow> uuid list \<Rightarrow> uuid \<Rightarrow> uuid \<Rightarrow> go_time \<Rightarrow> mem_graph \<Rightarrow> link_iterator" where
  "links_in_range L order fromID toID retrievedBefore g =
     (let from = up_string L fromID; to = up_string L toID;
          pick = (\<lambda>i. case mg_links g i of
             None \<Rightarrow> []
           | Some a \<Rightarrow>
               (let s = up_string L i
                in if s \<ge> from \<and> s < to \<and> link_retrieved_at (link_heap g a) < retrievedBefore
                   then [a] else []))
      in \<lparr>li_links = concat (map pick order), li_curr = 0\<rparr>)"

definition link_iterator_next :: "link_iterator \<Rightarrow> bool \<times> link_iterator" where
  "link_iterator_next it =
     (if li_curr it \<ge> length (li_links it) then (False, it)
      else (True, it\<lparr>li_curr := li_curr it + 1\<rparr>))"

definition link_iterator_link :: "mem_graph \<Rightarrow> link_iterator \<Rightarrow> link outcome" where
  "link_iterator_link g it =
     (if li_curr it = 0 \<or> length (li_links it) < li_curr it then Panics ''index out of range''
      else Returns (link_heap g (li_links it ! (li_curr it - 1))))"

section \<open>Edges\<close>

text \<open>The scan of the source's edge list; dereferencing a nil pointer panics.\<close>

fun scan_edges :: "mem_graph \<Rightarrow> uuid \<Rightarrow> uuid \<Rightarrow> uuid list \<Rightarrow> nat option outcome" where
  "scan_edges g src dst [] = Returns None"
| "scan_edges g src dst (e # es) =
     (case mg_edges g e of
        None \<Rightarrow> Panics ''nil pointer dereference''
      | Some a \<Rightarrow>
          if edge_src (edge_heap g a) = src \<and> edge_dst (edge_heap g a) = dst
          then Returns (Some a) else scan_edges g src dst es)"

definition upsert_edge ::
  "uuid list \<Rightarrow> go_time \<Rightarrow> edge \<Rightarrow> mem_graph \<Rightarrow> (edge outcome \<times> mem_graph) option" where
  "upsert_edge draws now edge g =
     (if mg_links g (edge_src edge) = None \<or> mg_links g (edge_dst edge) = None
      then Some (Fails (Wrap ''upsert edge'' (Sentinel GraphErrUnknownEdgeLinks)), g)
      else (case scan_edges g (edge_src edge) (edge_dst edge) (edge_list g (edge_src edge)) of
              Panics m \<Rightarrow> Some (Panics m, g)
            | Fails e \<Rightarrow> Some (Fails e, g)
            | Returns (Some a) \<Rightarrow>
                let existing = (edge_heap g a)\<lparr>edge_updated_at := now\<rparr>
                in Some (Returns existing, g\<lparr>edge_heap := (edge_heap g)(a := existing)\<rparr>)
            | Returns None \<Rightarrow>
                (case fresh_uuid (mg_edges g) draws of
                   None \<Rightarrow> None
                 | Some i \<Rightarrow>
                     let edge' = edge\<lparr>edge_id := i, edge_updated_at := now\<rparr>; a = next_edge g
                     in Some (Returns edge',
                          g\<lparr>edge_heap := (edge_heap g)(a := edge'), next_edge := Suc a,
                            mg_edges := (mg_edges g)(i \<mapsto> a),
                            link_edges := (link_edges g)(edge_src edge \<mapsto>
                               edge_list g (edge_src edge) @ [i])\<rparr>))))"

record edge_iterator =
  ei_edges :: "nat list"
  ei_curr :: nat

fun edges_of_link :: "mem_graph \<Rightarrow> go_time \<Rightarrow> uuid list \<Rightarrow> nat list outcome" where
  "edges_of_link g updatedBefore [] = Returns []"
| "edges_of_link g updatedBefore (e # es) =
     (case mg_edges g e of
        None \<Rightarrow> Panics ''nil pointer dereference''
      | Some a \<Rightarrow>
          outcome_bind (edges_of_link g updatedBefore es) (\<lambda>rest.
            Returns (if edge_updated_at (edge_heap g a) < updatedBefore then a # rest else rest)))"

fun edges_scan ::
  "uuid_pkg \<Rightarrow> string \<Rightarrow> string \<Rightarrow> go_time \<Rightarrow> mem_graph \<Rightarrow> uuid list \<Rightarrow> nat list outcome" where
  "edges_scan L from to updatedBefore g [] = Returns []"
| "edges_scan L from to updatedBefore g (i # order) =
     (if mg_links g i = None \<or> up_string L i < from \<or> up_string L i \<ge> to
      then edges_scan L from to updatedBefore g order
      else outcome_bind (edges_of_link g updatedBefore (edge_list g i)) (\<lambda>es.
             outcome_bind (edges_scan L from to updatedBefore g order) (\<lambda>rest. Returns (es @ rest))))"

definition edges_in_range ::
  "uuid_pkg \<Rightarrow> uuid list \<Rightarrow> uuid \<Rightarrow> uuid \<Rightarrow> go_time \<Rightarrow> mem_graph \<Rightarrow> edge_iterator outcome" where
  "edges_in_range L order fromID toID updatedBefore g =
     outcome_bind (edges_scan L (up_string L fromID) (up_string L toID) updatedBefore g order)
       (\<lambda>es. Returns \<lparr>ei_edges = es, ei_curr = 0\<rparr>)"

definition edge_iterator_next :: "edge_iterator \<Rightarrow> bool \<times> edge_iterator" where
  "edge_iterator_next it =
     (if ei_curr it \<ge> length (ei_edges it) then (False, it)
      else (True, it\<lparr>ei_curr := ei_curr it + 1\<rparr>))"

definition edge_iterator_edge :: "mem_graph \<Rightarrow> edge_iterator \<Rightarrow> edge outcome" where
  "edge_iterator_edge g it =
     (if ei_curr it = 0 \<or> length (ei_edges it) < ei_curr it then Panics ''index out of range''
      else Returns (edge_heap g (ei_edges it ! (ei_curr it - 1))))"

text \<open>The loop of \<^verbatim>\<open>RemoveStaleEdges\<close>: it deletes from \<^verbatim>\<open>edges\<close> as it goes and collects the rest.\<close>

fun stale_loop ::
  "go_time \<Rightarrow> (nat \<Rightarrow> edge) \<Rightarrow> (uuid \<rightharpoonup> nat) \<Rightarrow> uuid list \<Rightarrow> uuid list \<Rightarrow>
   (uuid list outcome) \<times> (uuid \<rightharpoonup> nat)" where
  "stale_loop t heap edges fresh [] = (Returns fresh, edges)"
| "stale_loop t heap edges fresh (e # es) =
     (case edges e of
        None \<Rightarrow> (Panics ''nil pointer dereference'', edges)
      | Some a \<Rightarrow>
          if edge_updated_at (heap a) < t then stale_loop t heap (edges(e := None)) fresh es
          else stale_loop t heap edges (fresh @ [e]) es)"

definition remove_stale_edges ::
  "uuid \<Rightarrow> go_time \<Rightarrow> mem_graph \<Rightarrow> unit outcome \<times> mem_graph" where
  "remove_stale_edges fromID updatedBefore g =
     (case stale_loop updatedBefore (edge_heap g) (mg_edges g) [] (edge_list g fromID) of
        (Returns fresh, edges) \<Rightarrow>
          (Returns (), g\<lparr>mg_edges := edges, link_edges := (link_edges g)(fromID \<mapsto> fresh)\<rparr>)
      | (Fails err, edges) \<Rightarrow> (Fails err, g\<lparr>mg_edges := edges\<rparr>)
      | (Panics m, edges) \<Rightarrow> (Panics m, g\<lparr>mg_edges := edges\<rparr>))"

section \<open>Representation invariant and abstraction\<close>

definition links_inv :: "mem_graph \<Rightarrow> bool" where
  "links_inv g \<longleftrightarrow>
     (\<forall>u a. link_from_url g u = Some a \<longrightarrow>
        a < next_link g \<and> link_url (link_heap g a) = u \<and> mg_links g (link_id (link_heap g a)) = Some a) \<and>
     (\<forall>i a. mg_links g i = Some a \<longrightarrow>
        a < next_link g \<and> link_id (link_heap g a) = i \<and> link_from_url g (link_url (link_heap g a)) = Some a)"

definition edges_inv :: "mem_graph \<Rightarrow> bool" where
  "edges_inv g \<longleftrightarrow>
     (\<forall>i a. mg_edges g i = Some a \<longrightarrow>
        a < next_edge g \<and> edge_id (edge_heap g a) = i \<and>
        i \<in> set (edge_list g (edge_src (edge_heap g a))) \<and>
        mg_links g (edge_src (edge_heap g a)) \<noteq> None \<and> mg_links g (edge_dst (edge_heap g a)) \<noteq> None) \<and>
     (\<forall>s. distinct (edge_list g s)) \<and>
     (\<forall>s. \<forall>i \<in> set (edge_list g s). \<exists>a. mg_edges g i = Some a \<and> edge_src (edge_heap g a) = s) \<and>
     (\<forall>i j a b. mg_edges g i = Some a \<longrightarrow> mg_edges g j = Some b \<longrightarrow>
        edge_src (edge_heap g a) = edge_src (edge_heap g b) \<longrightarrow>
        edge_dst (edge_heap g a) = edge_dst (edge_heap g b) \<longrightarrow> i = j)"

definition mem_inv :: "mem_graph \<Rightarrow> bool" where
  "mem_inv g \<longleftrightarrow> links_inv g \<and> edges_inv g"

definition abs_graph :: "mem_graph \<Rightarrow> link_store" where
  "abs_graph g =
     \<lparr>st_links = (\<lambda>i. map_option (link_heap g) (mg_links g i)),
      st_edges = (\<lambda>i. map_option (edge_heap g) (mg_edges g i))\<rparr>"

lemma mem_inv_new: "mem_inv new_mem_graph"
  by (simp add: mem_inv_def links_inv_def edges_inv_def new_mem_graph_def edge_list_def)

lemma st_links_abs [simp]: "st_links (abs_graph g) i = map_option (link_heap g) (mg_links g i)"
  by (simp add: abs_graph_def)

lemma st_edges_abs [simp]: "st_edges (abs_graph g) i = map_option (edge_heap g) (mg_edges g i)"
  by (simp add: abs_graph_def)

lemma dom_st_links_abs [simp]: "dom (st_links (abs_graph g)) = dom (mg_links g)"
  by (auto simp: abs_graph_def)

lemma dom_st_edges_abs [simp]: "dom (st_edges (abs_graph g)) = dom (mg_edges g)"
  by (auto simp: abs_graph_def)

lemma abs_graph_eqI:
  assumes "\<And>j. st_links (abs_graph g) j = st_links A j" "\<And>j. st_edges (abs_graph g) j = st_edges A j"
  shows "abs_graph g = A"
  using assms by (intro link_store.equality) (auto simp: fun_eq_iff)

lemma links_invD:
  assumes "links_inv g"
  shows "link_from_url g u = Some a \<Longrightarrow> a < next_link g"
    and "link_from_url g u = Some a \<Longrightarrow> link_url (link_heap g a) = u"
    and "link_from_url g u = Some a \<Longrightarrow> mg_links g (link_id (link_heap g a)) = Some a"
    and "mg_links g i = Some a \<Longrightarrow> a < next_link g"
    and "mg_links g i = Some a \<Longrightarrow> link_id (link_heap g a) = i"
    and "mg_links g i = Some a \<Longrightarrow> link_from_url g (link_url (link_heap g a)) = Some a"
  using assms by (auto simp: links_inv_def)

lemma edges_invD:
  assumes "edges_inv g"
  shows "mg_edges g i = Some a \<Longrightarrow> a < next_edge g"
    and "mg_edges g i = Some a \<Longrightarrow> edge_id (edge_heap g a) = i"
    and "mg_edges g i = Some a \<Longrightarrow> i \<in> set (edge_list g (edge_src (edge_heap g a)))"
    and "mg_edges g i = Some a \<Longrightarrow> \<exists>b. mg_links g (edge_src (edge_heap g a)) = Some b"
    and "mg_edges g i = Some a \<Longrightarrow> \<exists>b. mg_links g (edge_dst (edge_heap g a)) = Some b"
    and "distinct (edge_list g s)"
    and "i \<in> set (edge_list g s) \<Longrightarrow> \<exists>a. mg_edges g i = Some a \<and> edge_src (edge_heap g a) = s"
    and "mg_edges g i = Some a \<Longrightarrow> mg_edges g j = Some b \<Longrightarrow>
      edge_src (edge_heap g a) = edge_src (edge_heap g b) \<Longrightarrow>
      edge_dst (edge_heap g a) = edge_dst (edge_heap g b) \<Longrightarrow> i = j"
  using assms by (auto simp: edges_inv_def)

lemma has_url_abs:
  assumes "links_inv g"
  shows "has_url (abs_graph g) i u \<longleftrightarrow> (\<exists>a. link_from_url g u = Some a \<and> link_id (link_heap g a) = i)"
  using links_invD [OF assms] by (fastforce simp: has_url_def)

lemma has_edge_abs:
  "has_edge (abs_graph g) i s d \<longleftrightarrow>
     (\<exists>a. mg_edges g i = Some a \<and> edge_src (edge_heap g a) = s \<and> edge_dst (edge_heap g a) = d)"
  by (auto simp: has_edge_def)

lemma abs_graph_ok:
  assumes "mem_inv g"
  shows "store_ok (abs_graph g)"
proof -
  have l: "links_inv g" and e: "edges_inv g" using assms by (auto simp: mem_inv_def)
  have "i = j" if "has_url (abs_graph g) i u" "has_url (abs_graph g) j u" for i j u
    using that by (auto simp: has_url_abs [OF l])
  moreover have "i = j" if "has_edge (abs_graph g) i s d" "has_edge (abs_graph g) j s d" for i j s d
    using that edges_invD(8) [OF e, of i _ j] by (auto simp: has_edge_abs)
  ultimately show ?thesis
    using links_invD [OF l] edges_invD [OF e] unfolding store_ok_def
    by (auto simp: dom_def)
qed

section \<open>Links: correctness\<close>

lemma fresh_uuid_Some: "fresh_uuid used draws = Some d \<Longrightarrow> used d = None \<and> d \<in> set draws"
  by (induction draws) (auto split: if_splits)

lemma fresh_uuid_exists: "d \<in> set draws \<Longrightarrow> used d = None \<Longrightarrow> \<exists>i. fresh_uuid used draws = Some i"
  by (induction draws) auto

lemma edge_list_link_update [simp]:
  "edge_list (g\<lparr>link_heap := h\<rparr>) s = edge_list g s"
  "edge_list (g\<lparr>next_link := n\<rparr>) s = edge_list g s"
  "edge_list (g\<lparr>link_from_url := f\<rparr>) s = edge_list g s"
  "edge_list (g\<lparr>mg_links := m\<rparr>) s = edge_list g s"
  "edge_list (g\<lparr>edge_heap := eh\<rparr>) s = edge_list g s"
  "edge_list (g\<lparr>next_edge := n\<rparr>) s = edge_list g s"
  "edge_list (g\<lparr>mg_edges := me\<rparr>) s = edge_list g s"
  by (simp_all add: edge_list_def)

lemma upsert_link_existing:
  assumes "mem_inv g" "link_from_url g (link_url x) = Some a"
  shows "\<exists>g'. upsert_link draws x g = Some (Returns (x\<lparr>link_id := link_id (link_heap g a)\<rparr>), g') \<and>
    mem_inv g' \<and> abs_graph g' = put_link (link_id (link_heap g a)) x (abs_graph g)"
proof -
  have l: "links_inv g" and e: "edges_inv g" using assms(1) by (auto simp: mem_inv_def)
  let ?i = "link_id (link_heap g a)"
  define saved where "saved = x\<lparr>link_id := ?i, link_retrieved_at :=
    max (link_retrieved_at (link_heap g a)) (link_retrieved_at x)\<rparr>"
  define g' where "g' = g\<lparr>link_heap := (link_heap g)(a := saved)\<rparr>"
  have a: "a < next_link g" "link_url (link_heap g a) = link_url x" "mg_links g ?i = Some a"
    using links_invD [OF l] assms(2) by auto
  have "upsert_link draws x g = Some (Returns (x\<lparr>link_id := ?i\<rparr>), g')"
    using assms(2) by (auto simp: upsert_link_def g'_def saved_def max_def Let_def)
  moreover have "links_inv g'"
    unfolding links_inv_def
  proof (intro conjI allI impI)
    fix u b assume "link_from_url g' u = Some b"
    then have b: "link_from_url g u = Some b" by (simp add: g'_def)
    then show "b < next_link g'" using links_invD(1) [OF l] by (simp add: g'_def)
    show "link_url (link_heap g' b) = u" "mg_links g' (link_id (link_heap g' b)) = Some b"
      using links_invD(2,3) [OF l b] a by (auto simp: g'_def saved_def)
  next
    fix j b assume "mg_links g' j = Some b"
    then have b: "mg_links g j = Some b" by (simp add: g'_def)
    then show "b < next_link g'" using links_invD(4) [OF l] by (simp add: g'_def)
    show "link_id (link_heap g' b) = j" "link_from_url g' (link_url (link_heap g' b)) = Some b"
      using links_invD(5,6) [OF l b] assms(2) by (auto simp: g'_def saved_def)
  qed
  moreover have "edges_inv g'"
    using e unfolding edges_inv_def g'_def by simp
  moreover have "abs_graph g' = put_link ?i x (abs_graph g)"
  proof (rule abs_graph_eqI)
    fix j
    have "mg_links g j \<noteq> Some a" if "j \<noteq> ?i" using links_invD(5) [OF l, of j a] that by auto
    then show "st_links (abs_graph g') j = st_links (put_link ?i x (abs_graph g)) j"
      using a(3) by (cases "mg_links g j") (auto simp: store_simps g'_def saved_def)
  qed (simp add: store_simps g'_def)
  ultimately show ?thesis by (auto simp: mem_inv_def)
qed

lemma upsert_link_new:
  assumes "mem_inv g" "link_from_url g (link_url x) = None" "fresh_uuid (mg_links g) draws = Some i"
  shows "\<exists>g'. upsert_link draws x g = Some (Returns (x\<lparr>link_id := i\<rparr>), g') \<and>
    mem_inv g' \<and> abs_graph g' = put_link i x (abs_graph g)"
proof -
  have l: "links_inv g" and e: "edges_inv g" using assms(1) by (auto simp: mem_inv_def)
  have i: "mg_links g i = None" using fresh_uuid_Some [OF assms(3)] by simp
  let ?x = "x\<lparr>link_id := i\<rparr>"
  define g' where "g' = g\<lparr>link_heap := (link_heap g)(next_link g := ?x), next_link := Suc (next_link g),
    link_from_url := (link_from_url g)(link_url x \<mapsto> next_link g),
    mg_links := (mg_links g)(i \<mapsto> next_link g)\<rparr>"
  have ret: "upsert_link draws x g = Some (Returns ?x, g')"
    using assms(2,3) by (simp add: upsert_link_def g'_def Let_def)
  have "mg_links g j \<noteq> Some (next_link g)" "link_from_url g u \<noteq> Some (next_link g)" for j u
    using links_invD(1,4) [OF l] by (meson less_irrefl)+
  moreover have "link_url (link_heap g b) \<noteq> link_url x" if "mg_links g j = Some b" for j b
    using links_invD(6) [OF l that] assms(2) by auto
  ultimately have "links_inv g'"
    using links_invD [OF l] i assms(2) unfolding links_inv_def g'_def
    by (auto simp: less_Suc_eq)
  moreover have "edges_inv g'"
    using e unfolding edges_inv_def g'_def by auto
  moreover have "abs_graph g' = put_link i x (abs_graph g)"
  proof (rule abs_graph_eqI)
    fix j
    show "st_links (abs_graph g') j = st_links (put_link i x (abs_graph g)) j"
      using i links_invD(4) [OF l, of j] by (cases "mg_links g j") (auto simp: store_simps g'_def)
  qed (simp add: store_simps g'_def)
  ultimately show ?thesis using ret by (auto simp: mem_inv_def)
qed

section \<open>Edges: correctness\<close>

lemma scan_edges_spec:
  assumes "\<forall>e \<in> set es. \<exists>a. mg_edges g e = Some a"
  shows "(\<exists>e a. e \<in> set es \<and> mg_edges g e = Some a \<and> edge_src (edge_heap g a) = src \<and>
            edge_dst (edge_heap g a) = dst \<and> scan_edges g src dst es = Returns (Some a)) \<or>
         (\<forall>e \<in> set es. \<forall>a. mg_edges g e = Some a \<longrightarrow>
            \<not> (edge_src (edge_heap g a) = src \<and> edge_dst (edge_heap g a) = dst)) \<and>
         scan_edges g src dst es = Returns None"
  using assms
proof (induction es)
  case (Cons e es)
  then obtain a where a: "mg_edges g e = Some a" by auto
  show ?case
  proof (cases "edge_src (edge_heap g a) = src \<and> edge_dst (edge_heap g a) = dst")
    case True
    then show ?thesis using a by auto
  next
    case False
    then show ?thesis using a Cons by (simp del: split_paired_Ex) blast
  qed
qed simp

lemma scan_edges_found:
  assumes "edges_inv g" "has_edge (abs_graph g) i src dst"
  shows "\<exists>a. mg_edges g i = Some a \<and> scan_edges g src dst (edge_list g src) = Returns (Some a)"
proof -
  obtain a where a: "mg_edges g i = Some a" "edge_src (edge_heap g a) = src" "edge_dst (edge_heap g a) = dst"
    using assms(2) by (auto simp: has_edge_abs)
  then have "i \<in> set (edge_list g src)" using edges_invD(3) [OF assms(1) a(1)] by simp
  moreover have "\<forall>e \<in> set (edge_list g src). \<exists>a. mg_edges g e = Some a"
    using edges_invD(7) [OF assms(1)] by blast
  ultimately obtain j b where j: "mg_edges g j = Some b" "edge_src (edge_heap g b) = src"
      "edge_dst (edge_heap g b) = dst" "scan_edges g src dst (edge_list g src) = Returns (Some b)"
    using scan_edges_spec [of "edge_list g src" g src dst] a by blast
  then have "j = i" using edges_invD(8) [OF assms(1) j(1) a(1)] a by simp
  then show ?thesis using j by auto
qed

lemma scan_edges_not_found:
  assumes "edges_inv g" "\<forall>i. \<not> has_edge (abs_graph g) i src dst"
  shows "scan_edges g src dst (edge_list g src) = Returns None"
proof -
  have "\<forall>e \<in> set (edge_list g src). \<exists>a. mg_edges g e = Some a"
    using edges_invD(7) [OF assms(1)] by blast
  then show ?thesis
    using scan_edges_spec [of "edge_list g src" g src dst] assms(2) by (auto simp: has_edge_abs)
qed

lemma upsert_edge_existing:
  assumes "mem_inv g" "has_edge (abs_graph g) i (edge_src x) (edge_dst x)"
  shows "\<exists>y g'. upsert_edge draws now x g = Some (Returns y, g') \<and> edge_id y = i \<and> mem_inv g' \<and>
    abs_graph g' = put_edge i (edge_src x) (edge_dst x) now (abs_graph g)"
proof -
  have l: "links_inv g" and e: "edges_inv g" using assms(1) by (auto simp: mem_inv_def)
  obtain a where a: "mg_edges g i = Some a"
      "scan_edges g (edge_src x) (edge_dst x) (edge_list g (edge_src x)) = Returns (Some a)"
    using scan_edges_found [OF e assms(2)] by auto
  have sd: "edge_src (edge_heap g a) = edge_src x" "edge_dst (edge_heap g a) = edge_dst x"
    using assms(2) a(1) by (auto simp: has_edge_abs)
  define y where "y = (edge_heap g a)\<lparr>edge_updated_at := now\<rparr>"
  define g' where "g' = g\<lparr>edge_heap := (edge_heap g)(a := y)\<rparr>"
  obtain b c where "mg_links g (edge_src x) = Some b" "mg_links g (edge_dst x) = Some c"
    using edges_invD(4,5) [OF e a(1)] sd by auto
  then have "upsert_edge draws now x g = Some (Returns y, g')"
    using a by (simp add: upsert_edge_def Let_def y_def g'_def)
  moreover have "edge_id y = i" using edges_invD(2) [OF e a(1)] by (simp add: y_def)
  moreover have "links_inv g'" using l by (simp add: links_inv_def g'_def)
  moreover have same: "edge_src (edge_heap g' b) = edge_src (edge_heap g b)"
    "edge_dst (edge_heap g' b) = edge_dst (edge_heap g b)"
    "edge_id (edge_heap g' b) = edge_id (edge_heap g b)" for b
    by (simp_all add: g'_def y_def)
  then have "edges_inv g'"
    using e unfolding edges_inv_def same by (simp add: g'_def)
  moreover have "abs_graph g' = put_edge i (edge_src x) (edge_dst x) now (abs_graph g)"
  proof (rule abs_graph_eqI)
    fix j
    have "mg_edges g j \<noteq> Some a" if "j \<noteq> i" using edges_invD(2) [OF e] a(1) that by metis
    then show "st_edges (abs_graph g') j = st_edges (put_edge i (edge_src x) (edge_dst x) now (abs_graph g)) j"
      using a(1) sd edges_invD(2) [OF e a(1)]
      by (cases "mg_edges g j") (auto simp: store_simps g'_def y_def)
  qed (simp add: store_simps g'_def)
  ultimately show ?thesis by (auto simp: mem_inv_def)
qed

lemma upsert_edge_new:
  assumes "mem_inv g" "\<forall>i. \<not> has_edge (abs_graph g) i (edge_src x) (edge_dst x)"
    "edge_src x \<in> dom (mg_links g)" "edge_dst x \<in> dom (mg_links g)"
    "fresh_uuid (mg_edges g) draws = Some i"
  shows "\<exists>y g'. upsert_edge draws now x g = Some (Returns y, g') \<and> edge_id y = i \<and> mem_inv g' \<and>
    abs_graph g' = put_edge i (edge_src x) (edge_dst x) now (abs_graph g)"
proof -
  have l: "links_inv g" and e: "edges_inv g" using assms(1) by (auto simp: mem_inv_def)
  have i: "mg_edges g i = None" using fresh_uuid_Some [OF assms(5)] by simp
  define y where "y = x\<lparr>edge_id := i, edge_updated_at := now\<rparr>"
  define g' where "g' = g\<lparr>edge_heap := (edge_heap g)(next_edge g := y), next_edge := Suc (next_edge g),
    mg_edges := (mg_edges g)(i \<mapsto> next_edge g),
    link_edges := (link_edges g)(edge_src x \<mapsto> edge_list g (edge_src x) @ [i])\<rparr>"
  have ret: "upsert_edge draws now x g = Some (Returns y, g')"
    using scan_edges_not_found [OF e assms(2)] assms(3-5)
    by (auto simp: upsert_edge_def Let_def y_def g'_def)
  have el: "edge_list g' s = (if s = edge_src x then edge_list g s @ [i] else edge_list g s)" for s
    by (simp add: edge_list_def g'_def)
  have notin: "i \<notin> set (edge_list g s)" for s using edges_invD(7) [OF e, of i s] i by auto
  have old: "mg_edges g j \<noteq> Some (next_edge g)" for j using edges_invD(1) [OF e] by (meson less_irrefl)
  have me: "mg_edges g' j = (if j = i then Some (next_edge g) else mg_edges g j)" for j
    by (simp add: g'_def)
  have heap: "edge_heap g' b = (if b = next_edge g then y else edge_heap g b)" for b
    by (simp add: g'_def)
  have ml: "mg_links g' = mg_links g" by (simp add: g'_def)
  have ne: "next_edge g' = Suc (next_edge g)" by (simp add: g'_def)
  have "edges_inv g'"
    unfolding edges_inv_def
  proof (intro conjI allI impI ballI)
    fix j b assume j: "mg_edges g' j = Some b"
    show "b < next_edge g'" "edge_id (edge_heap g' b) = j"
        "j \<in> set (edge_list g' (edge_src (edge_heap g' b)))"
        "mg_links g' (edge_src (edge_heap g' b)) \<noteq> None" "mg_links g' (edge_dst (edge_heap g' b)) \<noteq> None"
      using j edges_invD(1-5) [OF e, of j b] assms(3,4) old
      by (auto simp: me heap el ml ne y_def less_Suc_eq split: if_splits)
  next
    show "distinct (edge_list g' s)" for s
      using edges_invD(6) [OF e] notin by (simp add: el)
  next
    fix s j assume j: "j \<in> set (edge_list g' s)"
    show "\<exists>a. mg_edges g' j = Some a \<and> edge_src (edge_heap g' a) = s"
    proof (cases "j = i")
      case True
      then show ?thesis using j notin by (auto simp: el me heap y_def split: if_splits)
    next
      case False
      then have "j \<in> set (edge_list g s)" using j by (auto simp: el split: if_splits)
      then obtain a where "mg_edges g j = Some a" "edge_src (edge_heap g a) = s"
        using edges_invD(7) [OF e] by blast
      then show ?thesis using False old [of j] by (auto simp: me heap)
    qed
  next
    fix j k a b
    assume jk: "mg_edges g' j = Some a" "mg_edges g' k = Some b"
      "edge_src (edge_heap g' a) = edge_src (edge_heap g' b)"
      "edge_dst (edge_heap g' a) = edge_dst (edge_heap g' b)"
    have no: "\<not> (edge_src (edge_heap g c) = edge_src x \<and> edge_dst (edge_heap g c) = edge_dst x)"
      if "mg_edges g m = Some c" for m c using assms(2) that by (auto simp: has_edge_abs)
    have entry: "m = i \<and> edge_src (edge_heap g' c) = edge_src x \<and> edge_dst (edge_heap g' c) = edge_dst x \<or>
        m \<noteq> i \<and> mg_edges g m = Some c \<and> edge_heap g' c = edge_heap g c"
      if "mg_edges g' m = Some c" for m c
      using that old [of m] by (cases "m = i") (auto simp: me heap y_def)
    show "j = k"
    proof (cases "j = i \<or> k = i")
      case True
      then show ?thesis using entry [OF jk(1)] entry [OF jk(2)] jk(3,4) no by metis
    next
      case False
      then have old: "mg_edges g j = Some a" "mg_edges g k = Some b"
          "edge_heap g' a = edge_heap g a" "edge_heap g' b = edge_heap g b"
        using entry [OF jk(1)] entry [OF jk(2)] by blast+
      show ?thesis
        using jk(3,4) unfolding old(3,4) by (rule edges_invD(8) [OF e old(1,2)])
    qed
  qed
  moreover have "links_inv g'" using l by (simp add: links_inv_def g'_def)
  moreover have "abs_graph g' = put_edge i (edge_src x) (edge_dst x) now (abs_graph g)"
  proof (rule abs_graph_eqI)
    fix j
    show "st_edges (abs_graph g') j = st_edges (put_edge i (edge_src x) (edge_dst x) now (abs_graph g)) j"
      using old [of j] by (cases "mg_edges g j") (auto simp: store_simps me heap y_def)
  qed (simp add: store_simps g'_def)
  ultimately show ?thesis using ret by (auto simp: mem_inv_def y_def)
qed

lemma stale_loop_spec:
  assumes "distinct es" "\<forall>e \<in> set es. \<exists>a. edges e = Some a"
  shows "stale_loop t heap edges fresh es =
    (Returns (fresh @ filter (\<lambda>e. \<not> edge_updated_at (heap (the (edges e))) < t) es),
     (\<lambda>e. if e \<in> set es \<and> edge_updated_at (heap (the (edges e))) < t then None else edges e))"
  using assms
proof (induction es arbitrary: edges fresh)
  case (Cons e es)
  then obtain a where a: "edges e = Some a" by auto
  show ?case
  proof (cases "edge_updated_at (heap a) < t")
    case True
    define E where "E = edges(e := None)"
    have E: "E x = (if x = e then None else edges x)" for x by (simp add: E_def)
    have "\<forall>x \<in> set es. \<exists>a. E x = Some a" using Cons.prems by (auto simp: E)
    moreover have "filter (\<lambda>x. \<not> edge_updated_at (heap (the (E x))) < t) es
        = filter (\<lambda>x. \<not> edge_updated_at (heap (the (edges x))) < t) es"
      using Cons.prems(1) by (intro filter_cong) (auto simp: E)
    moreover have "(\<lambda>x. if x \<in> set es \<and> edge_updated_at (heap (the (E x))) < t then None else E x)
        = (\<lambda>x. if x \<in> set (e # es) \<and> edge_updated_at (heap (the (edges x))) < t then None else edges x)"
      using a True Cons.prems(1) by (intro ext) (auto simp: E)
    ultimately have "stale_loop t heap E fresh es =
      (Returns (fresh @ filter (\<lambda>e. \<not> edge_updated_at (heap (the (edges e))) < t) es),
       (\<lambda>x. if x \<in> set (e # es) \<and> edge_updated_at (heap (the (edges x))) < t then None else edges x))"
      using Cons.prems(1) Cons.IH [of E fresh] by simp
    then show ?thesis using a True by (simp add: E_def)
  next
    case False
    then have "(\<lambda>x. if x \<in> set es \<and> edge_updated_at (heap (the (edges x))) < t then None else edges x)
        = (\<lambda>x. if x \<in> set (e # es) \<and> edge_updated_at (heap (the (edges x))) < t then None else edges x)"
      using a by (intro ext) auto
    then show ?thesis using a False Cons by simp
  qed
qed simp

lemma remove_stale_spec:
  assumes "mem_inv g"
  shows "\<exists>g'. remove_stale_edges from t g = (Returns (), g') \<and> mem_inv g' \<and>
    abs_graph g' = drop_stale from t (abs_graph g)"
proof -
  have l: "links_inv g" and e: "edges_inv g" using assms by (auto simp: mem_inv_def)
  let ?es = "edge_list g from"
  let ?old = "\<lambda>i. edge_updated_at (edge_heap g (the (mg_edges g i))) < t"
  define g' where "g' = g\<lparr>mg_edges := (\<lambda>i. if i \<in> set ?es \<and> ?old i then None else mg_edges g i),
    link_edges := (link_edges g)(from \<mapsto> filter (\<lambda>i. \<not> ?old i) ?es)\<rparr>"
  have "\<forall>i \<in> set ?es. \<exists>a. mg_edges g i = Some a" using edges_invD(7) [OF e] by blast
  then have ret: "remove_stale_edges from t g = (Returns (), g')"
    using edges_invD(6) [OF e] by (simp add: remove_stale_edges_def stale_loop_spec g'_def)
  have el: "edge_list g' s = (if s = from then filter (\<lambda>i. \<not> ?old i) ?es else edge_list g s)" for s
    by (simp add: edge_list_def g'_def)
  have heap: "edge_heap g' = edge_heap g" "mg_links g' = mg_links g" "next_edge g' = next_edge g"
    by (simp_all add: g'_def)
  have me: "mg_edges g' i = Some a \<longleftrightarrow>
      mg_edges g i = Some a \<and> \<not> (edge_src (edge_heap g a) = from \<and> edge_updated_at (edge_heap g a) < t)"
    for i a
    using edges_invD(3) [OF e, of i a] edges_invD(7) [OF e, of i "from"] by (auto simp: g'_def)
  have "edges_inv g'"
    unfolding edges_inv_def
  proof (intro conjI allI impI ballI)
    fix j b assume "mg_edges g' j = Some b"
    then have j: "mg_edges g j = Some b"
        "\<not> (edge_src (edge_heap g b) = from \<and> edge_updated_at (edge_heap g b) < t)" by (auto simp: me)
    show "b < next_edge g'" "edge_id (edge_heap g' b) = j"
        "mg_links g' (edge_src (edge_heap g' b)) \<noteq> None" "mg_links g' (edge_dst (edge_heap g' b)) \<noteq> None"
      using edges_invD(1,2,4,5) [OF e j(1)] by (auto simp: heap)
    show "j \<in> set (edge_list g' (edge_src (edge_heap g' b)))"
      using edges_invD(3) [OF e j(1)] j by (auto simp: el heap)
  next
    show "distinct (edge_list g' s)" for s using edges_invD(6) [OF e] by (simp add: el)
  next
    fix s j assume j: "j \<in> set (edge_list g' s)"
    then have "j \<in> set (edge_list g s)" by (auto simp: el split: if_splits)
    then obtain a where a: "mg_edges g j = Some a" "edge_src (edge_heap g a) = s"
      using edges_invD(7) [OF e] by blast
    then show "\<exists>a. mg_edges g' j = Some a \<and> edge_src (edge_heap g' a) = s"
      using j by (auto simp: me heap el split: if_splits)
  next
    fix j k a b
    assume jk: "mg_edges g' j = Some a" "mg_edges g' k = Some b"
      and same: "edge_src (edge_heap g' a) = edge_src (edge_heap g' b)"
        "edge_dst (edge_heap g' a) = edge_dst (edge_heap g' b)"
    have "mg_edges g j = Some a" "mg_edges g k = Some b" using jk unfolding me by blast+
    then show "j = k" using same unfolding heap by (rule edges_invD(8) [OF e])
  qed
  moreover have "links_inv g'" using l by (simp add: links_inv_def g'_def)
  moreover have "abs_graph g' = drop_stale from t (abs_graph g)"
  proof (rule abs_graph_eqI)
    fix j
    have "st_edges (abs_graph g') j = Some x \<longleftrightarrow> st_edges (drop_stale from t (abs_graph g)) j = Some x" for x
      by (auto simp: store_simps me heap is_stale_def)
    then show "st_edges (abs_graph g') j = st_edges (drop_stale from t (abs_graph g)) j"
      by (cases "st_edges (drop_stale from t (abs_graph g)) j") (auto, metis option.exhaust)
  qed (simp add: store_simps g'_def)
  ultimately show ?thesis using ret by (auto simp: mem_inv_def)
qed

section \<open>The in-memory graph implements the contract\<close>

lemma upsert_link_abs:
  assumes "mem_inv g" "upsert_link draws x g = Some (r, g')"
  shows "\<exists>y. r = Returns y \<and> mem_inv g' \<and> link_url y = link_url x \<and>
    abs_graph g' = put_link (link_id y) x (abs_graph g) \<and>
    (has_url (abs_graph g) (link_id y) (link_url x) \<or>
     link_id y \<in> set draws \<and> link_id y \<notin> dom (st_links (abs_graph g)) \<and>
     (\<forall>i. \<not> has_url (abs_graph g) i (link_url x)))"
proof (cases "link_from_url g (link_url x)")
  case None
  then obtain i where i: "fresh_uuid (mg_links g) draws = Some i"
    using assms(2) by (auto simp: upsert_link_def split: option.splits)
  have "links_inv g" using assms(1) by (simp add: mem_inv_def)
  then show ?thesis
    using upsert_link_new [OF assms(1) None i] assms(2) fresh_uuid_Some [OF i] None
    by (auto simp: has_url_abs)
next
  case (Some a)
  have "links_inv g" using assms(1) by (simp add: mem_inv_def)
  then show ?thesis
    using upsert_link_existing [OF assms(1) Some, of draws] assms(2) Some by (auto simp: has_url_abs)
qed

lemma upsert_edge_abs:
  assumes "mem_inv g" "edge_src x \<in> dom (mg_links g)" "edge_dst x \<in> dom (mg_links g)"
    "upsert_edge draws now x g = Some (r, g')"
  shows "\<exists>y. r = Returns y \<and> mem_inv g' \<and>
    abs_graph g' = put_edge (edge_id y) (edge_src x) (edge_dst x) now (abs_graph g) \<and>
    (has_edge (abs_graph g) (edge_id y) (edge_src x) (edge_dst x) \<or>
     edge_id y \<in> set draws \<and> edge_id y \<notin> dom (st_edges (abs_graph g)) \<and>
     (\<forall>i. \<not> has_edge (abs_graph g) i (edge_src x) (edge_dst x)))"
proof (cases "\<exists>i. has_edge (abs_graph g) i (edge_src x) (edge_dst x)")
  case True
  then show ?thesis using upsert_edge_existing [OF assms(1), of _ x draws now] assms(4) by fastforce
next
  case False
  have "edges_inv g" using assms(1) by (simp add: mem_inv_def)
  from scan_edges_not_found [OF this] False assms(2,3,4)
  obtain i where i: "fresh_uuid (mg_edges g) draws = Some i"
    by (fastforce simp: upsert_edge_def dom_def split: option.splits)
  then show ?thesis
    using upsert_edge_new [OF assms(1) _ assms(2,3) i, of now] False assms(4) fresh_uuid_Some [OF i]
    by fastforce
qed

interpretation inmem: link_graph_store mem_inv abs_graph upsert_link upsert_edge remove_stale_edges
proof
  show "\<exists>err. upsert_edge draws now e s = Some (Fails err, s) \<and> errors_is err GraphErrUnknownEdgeLinks"
    if "edge_src e \<notin> dom (st_links (abs_graph s)) \<or> edge_dst e \<notin> dom (st_links (abs_graph s))"
    for s draws now e
    using that by (auto simp: upsert_edge_def)
  show "\<exists>rs. upsert_link draws x s = Some rs"
    if "mem_inv s" "(\<exists>i. has_url (abs_graph s) i (link_url x)) \<or> (\<exists>d \<in> set draws. d \<notin> dom (st_links (abs_graph s)))"
    for s draws x
  proof (cases "link_from_url s (link_url x)")
    case None
    then have "\<exists>d \<in> set draws. mg_links s d = None"
      using that by (auto simp: has_url_abs mem_inv_def dom_def)
    then show ?thesis using None fresh_uuid_exists [of _ draws "mg_links s"]
      by (fastforce simp: upsert_link_def Let_def)
  qed (auto simp: upsert_link_def Let_def)
  show "\<exists>rs. upsert_edge draws now e s = Some rs"
    if inv: "mem_inv s" and dom: "edge_src e \<in> dom (st_links (abs_graph s))" "edge_dst e \<in> dom (st_links (abs_graph s))"
      and or: "(\<exists>i. has_edge (abs_graph s) i (edge_src e) (edge_dst e)) \<or>
           (\<exists>d \<in> set draws. d \<notin> dom (st_edges (abs_graph s)))"
    for s e draws now
  proof (cases "\<exists>i. has_edge (abs_graph s) i (edge_src e) (edge_dst e)")
    case True
    then show ?thesis using upsert_edge_existing [OF inv] by blast
  next
    case False
    then obtain d where "d \<in> set draws" "mg_edges s d = None" using or by (auto simp: dom_def)
    then obtain i where "fresh_uuid (mg_edges s) draws = Some i" using fresh_uuid_exists by blast
    then show ?thesis using upsert_edge_new [OF inv, of e draws i now] False dom by auto
  qed
qed (use abs_graph_ok upsert_link_abs upsert_edge_abs remove_stale_spec in \<open>simp_all\<close>)

text \<open>\<^verbatim>\<open>FindLink\<close> looks the store up.\<close>

lemma find_link_abs:
  "find_link i g = (case st_links (abs_graph g) i of
     None \<Rightarrow> Fails (Wrap ''find link'' (Sentinel GraphErrNotFound)) | Some l \<Rightarrow> Returns l)"
  by (simp add: find_link_def split: option.splits)

section \<open>Sequences of calls\<close>

datatype mem_call =
    UpsertLink "uuid list" link
  | UpsertEdge "uuid list" go_time edge
  | RemoveStaleEdges uuid go_time

fun mem_call_step :: "mem_call \<Rightarrow> mem_graph \<Rightarrow> (unit outcome \<times> mem_graph) option" where
  "mem_call_step (UpsertLink draws x) g =
     map_option (\<lambda>(r, g'). (outcome_bind r (\<lambda>_. Returns ()), g')) (upsert_link draws x g)"
| "mem_call_step (UpsertEdge draws now x) g =
     map_option (\<lambda>(r, g'). (outcome_bind r (\<lambda>_. Returns ()), g')) (upsert_edge draws now x g)"
| "mem_call_step (RemoveStaleEdges from t) g = Some (remove_stale_edges from t g)"

inductive mem_reachable :: "mem_graph \<Rightarrow> bool" where
  reach_new: "mem_reachable new_mem_graph"
| reach_call: "mem_reachable g \<Longrightarrow> mem_call_step c g = Some (r, g') \<Longrightarrow> mem_reachable g'"

lemma mem_call_step_inv:
  assumes "mem_inv g" "mem_call_step c g = Some (r, g')"
  shows "mem_inv g' \<and> \<not> panics r"
proof (cases c)
  case (UpsertLink draws x)
  then show ?thesis using assms upsert_link_abs [OF assms(1), of draws x] by fastforce
next
  case (UpsertEdge draws now x)
  show ?thesis
  proof (cases "edge_src x \<in> dom (mg_links g) \<and> edge_dst x \<in> dom (mg_links g)")
    case True
    then show ?thesis
      using UpsertEdge assms(2) upsert_edge_abs [OF assms(1), of x draws now] by fastforce
  next
    case False
    then have "upsert_edge draws now x g
        = Some (Fails (Wrap ''upsert edge'' (Sentinel GraphErrUnknownEdgeLinks)), g)"
      by (auto simp: upsert_edge_def)
    then show ?thesis using UpsertEdge assms by auto
  qed
next
  case (RemoveStaleEdges "from" t)
  then show ?thesis using assms remove_stale_spec [OF assms(1), of "from" t] by auto
qed

lemma mem_reachable_inv: "mem_reachable g \<Longrightarrow> mem_inv g"
  by (induction rule: mem_reachable.induct) (auto simp: mem_inv_new dest: mem_call_step_inv)

text \<open>
  C4.  Whatever sequence of calls a graph has seen since \<^verbatim>\<open>NewGraph\<close>, the next call does not panic,
  and the graph denotes a well-formed store: rows filed under their own identifiers, URLs
  unique, one edge per source and destination, both of them links of the graph.
\<close>

theorem mem_graph_well_formed:
  assumes "mem_reachable g"
  shows "store_ok (abs_graph g) \<and> (\<forall>c r g'. mem_call_step c g = Some (r, g') \<longrightarrow> \<not> panics r)"
  using mem_reachable_inv [OF assms] abs_graph_ok mem_call_step_inv by blast

theorem mem_graph_well_formed_witness:
  "store_ok (abs_graph (snd (the (upsert_link [5] \<lparr>link_id = 0, link_url = ''a'', link_retrieved_at = 3\<rparr> new_mem_graph))))"
proof -
  let ?x = "\<lparr>link_id = 0, link_url = ''a'', link_retrieved_at = 3\<rparr> :: link"
  obtain r g where g: "upsert_link [5] ?x new_mem_graph = Some (r, g)"
    by (simp add: upsert_link_def new_mem_graph_def Let_def)
  then have "mem_call_step (UpsertLink [5] ?x) new_mem_graph = Some (outcome_bind r (\<lambda>_. Returns ()), g)"
    by simp
  then have "mem_reachable g" by (rule reach_call [OF reach_new])
  from mem_graph_well_formed [OF this] show ?thesis using g by simp
qed

section \<open>What each call does\<close>

text \<open>
  C5.  \<^verbatim>\<open>UpsertLink\<close> is an upsert by URL: the stored link keeps the identifier it had, or gets one
  not in use, and the later of the two timestamps; \<^verbatim>\<open>FindLink\<close> then returns it, and every other
  identifier is looked up as before.
\<close>

theorem upsert_link_then_find:
  assumes "mem_reachable g" "upsert_link draws x g = Some (r, g')"
  shows "\<exists>y. r = Returns y \<and> link_url y = link_url x \<and>
    (\<exists>z. find_link (link_id y) g' = Returns z \<and> link_id z = link_id y \<and> link_url z = link_url x \<and>
       link_retrieved_at z = (case find_link (link_id y) g of
           Returns l \<Rightarrow> max (link_retrieved_at l) (link_retrieved_at x)
         | _ \<Rightarrow> link_retrieved_at x)) \<and>
    (\<forall>i l. find_link i g = Returns l \<and> link_url l = link_url x \<longrightarrow> i = link_id y) \<and>
    (\<forall>j. j \<noteq> link_id y \<longrightarrow> find_link j g' = find_link j g)"
proof -
  have inv: "mem_inv g" using assms(1) by (rule mem_reachable_inv)
  obtain y where y: "r = Returns y" "link_url y = link_url x"
      "abs_graph g' = put_link (link_id y) x (abs_graph g)"
      "has_url (abs_graph g) (link_id y) (link_url x) \<or> (\<forall>i. \<not> has_url (abs_graph g) i (link_url x))"
    using upsert_link_abs [OF inv assms(2)] by blast
  have uniq: "i = link_id y" if "st_links (abs_graph g) i = Some l" "link_url l = link_url x" for i l
  proof -
    have "has_url (abs_graph g) i (link_url x)" using that by (auto simp: has_url_def)
    then show ?thesis using y(4) store_okD(5) [OF abs_graph_ok [OF inv]] by blast
  qed
  let ?t = "case st_links (abs_graph g) (link_id y) of
      None \<Rightarrow> link_retrieved_at x | Some l \<Rightarrow> max (link_retrieved_at l) (link_retrieved_at x)"
  have stored: "find_link (link_id y) g' = Returns (x\<lparr>link_id := link_id y, link_retrieved_at := ?t\<rparr>)"
    unfolding find_link_abs y(3) by (simp only: store_simps) simp
  have time: "?t = (case find_link (link_id y) g of
      Returns l \<Rightarrow> max (link_retrieved_at l) (link_retrieved_at x) | _ \<Rightarrow> link_retrieved_at x)"
    unfolding find_link_abs by (cases "mg_links g (link_id y)") simp_all
  have others: "find_link j g' = find_link j g" if "j \<noteq> link_id y" for j
    unfolding find_link_abs y(3) using that by (simp only: store_simps if_False)
  have same: "i = link_id y" if "find_link i g = Returns l" "link_url l = link_url x" for i l
    using that uniq [of i l] unfolding find_link_abs by (cases "mg_links g i") simp_all
  show ?thesis
  proof (rule exI [of _ y], intro conjI allI impI)
    show "\<exists>z. find_link (link_id y) g' = Returns z \<and> link_id z = link_id y \<and> link_url z = link_url x \<and>
       link_retrieved_at z = (case find_link (link_id y) g of
           Returns l \<Rightarrow> max (link_retrieved_at l) (link_retrieved_at x) | _ \<Rightarrow> link_retrieved_at x)"
      unfolding stored time [symmetric] by simp
  qed (use y(1,2) same others in blast)+
qed

theorem upsert_link_then_find_witness:
  "\<exists>z. find_link 5 (snd (the (upsert_link [5] \<lparr>link_id = 0, link_url = ''a'', link_retrieved_at = 3\<rparr> new_mem_graph)))
     = Returns z \<and> link_url z = ''a''"
proof -
  let ?x = "\<lparr>link_id = 0, link_url = ''a'', link_retrieved_at = 3\<rparr> :: link"
  obtain g where g: "upsert_link [5] ?x new_mem_graph = Some (Returns (?x\<lparr>link_id := 5\<rparr>), g)"
    by (simp add: upsert_link_def new_mem_graph_def Let_def)
  show ?thesis using upsert_link_then_find [OF reach_new g] g by auto
qed

lemma concat_map_if: "concat (map (\<lambda>x. if P x then [f x] else []) xs) = map f (filter P xs)"
  by (induction xs) auto

lemma pick_links_eq:
  assumes "uuid_pkg_ok L"
  shows "li_links (links_in_range L order from to t g) =
    map (\<lambda>i. the (mg_links g i)) (filter (\<lambda>i. \<exists>a. mg_links g i = Some a \<and>
      from \<le> i \<and> i < to \<and> link_retrieved_at (link_heap g a) < t) order)"
proof -
  have "li_links (links_in_range L order from to t g) =
    concat (map (\<lambda>i. if (\<exists>a. mg_links g i = Some a \<and> from \<le> i \<and> i < to \<and>
       link_retrieved_at (link_heap g a) < t) then [the (mg_links g i)] else []) order)"
    unfolding links_in_range_def Let_def link_iterator.simps
    by (intro arg_cong [where f = concat] map_cong refl)
      (auto simp: assms uuid_text_less_iff uuid_text_le_iff split: option.splits)
  then show ?thesis unfolding concat_map_if .
qed

text \<open>
  \<^verbatim>\<open>Links(from, to, t)\<close> yields, whatever order the map is iterated in, exactly the links whose
  identifiers lie in [from, to) and that were retrieved before t, each of them once: comparing
  the textual forms selects the range the bytes span.
\<close>

lemma links_in_range_exact:
  assumes "uuid_pkg_ok L" "mem_inv g" "distinct order" "set order = dom (mg_links g)"
  shows "distinct (li_links (links_in_range L order from to t g)) \<and>
    link_heap g ` set (li_links (links_in_range L order from to t g)) =
      {l. \<exists>i. st_links (abs_graph g) i = Some l \<and> from \<le> i \<and> i < to \<and> link_retrieved_at l < t}"
proof
  have l: "links_inv g" using assms(2) by (simp add: mem_inv_def)
  have "inj_on (\<lambda>i. the (mg_links g i)) (dom (mg_links g))"
    using links_invD(5) [OF l] by (intro inj_onI) (metis domD option.sel)
  then show "distinct (li_links (links_in_range L order from to t g))"
    using assms(3,4) by (auto simp: pick_links_eq [OF assms(1)] distinct_map intro: inj_on_subset)
  show "link_heap g ` set (li_links (links_in_range L order from to t g)) =
      {l. \<exists>i. st_links (abs_graph g) i = Some l \<and> from \<le> i \<and> i < to \<and> link_retrieved_at l < t}"
    unfolding pick_links_eq [OF assms(1)] using assms(4) by (force simp: dom_def)
qed

lemma edges_of_link_spec:
  assumes "\<forall>e \<in> set es. \<exists>a. mg_edges g e = Some a"
  shows "edges_of_link g t es =
    Returns (map (\<lambda>e. the (mg_edges g e)) (filter (\<lambda>e. edge_updated_at (edge_heap g (the (mg_edges g e))) < t) es))"
  using assms by (induction es) auto

lemma edges_scan_spec:
  assumes "uuid_pkg_ok L" "edges_inv g"
  shows "edges_scan L (uuid_text from) (uuid_text to) t g order =
    Returns (map (\<lambda>e. the (mg_edges g e))
      (concat (map (\<lambda>i. filter (\<lambda>e. edge_updated_at (edge_heap g (the (mg_edges g e))) < t) (edge_list g i))
        (filter (\<lambda>i. mg_links g i \<noteq> None \<and> from \<le> i \<and> i < to) order))))"
proof (induction order)
  case (Cons i order)
  have "\<forall>e \<in> set (edge_list g i). \<exists>a. mg_edges g e = Some a" using edges_invD(7) [OF assms(2)] by blast
  then show ?case
    using Cons assms(1)
    by (cases "mg_links g i \<noteq> None \<and> from \<le> i \<and> i < to")
      (auto simp: edges_of_link_spec uuid_text_less_iff uuid_text_le_iff not_less not_le)
qed simp

text \<open>
  \<^verbatim>\<open>Edges(from, to, t)\<close> never dereferences a missing edge, and yields exactly the edges whose source
  lies in [from, to) and that were updated before t, each once, in any iteration order.
\<close>

lemma edges_in_range_exact:
  assumes "uuid_pkg_ok L" "mem_inv g" "distinct order" "set order = dom (mg_links g)"
  shows "\<exists>it. edges_in_range L order from to t g = Returns it \<and> distinct (ei_edges it) \<and>
    set (ei_edges it) \<subseteq> ran (mg_edges g) \<and> edge_heap g ` set (ei_edges it) =
      {e. \<exists>i. st_edges (abs_graph g) i = Some e \<and> from \<le> edge_src e \<and> edge_src e < to \<and> edge_updated_at e < t}"
proof -
  have e: "edges_inv g" using assms(2) by (simp add: mem_inv_def)
  define sel where "sel = (\<lambda>i. filter (\<lambda>e. edge_updated_at (edge_heap g (the (mg_edges g e))) < t) (edge_list g i))"
  define srcs where "srcs = filter (\<lambda>i. mg_links g i \<noteq> None \<and> from \<le> i \<and> i < to) order"
  define ids where "ids = concat (map sel srcs)"
  have ret: "edges_in_range L order from to t g
      = Returns \<lparr>ei_edges = map (\<lambda>e. the (mg_edges g e)) ids, ei_curr = 0\<rparr>"
    unfolding edges_in_range_def uuid_pkg_string [OF assms(1)] edges_scan_spec [OF assms(1) e]
    by (simp add: ids_def sel_def srcs_def)
  have sel: "x \<in> set (sel i) \<longleftrightarrow> (\<exists>a. mg_edges g x = Some a \<and> edge_src (edge_heap g a) = i \<and>
      edge_updated_at (edge_heap g a) < t)" for x i
    using edges_invD(7) [OF e, of x i] edges_invD(3) [OF e, of x] by (auto simp: sel_def)
  have srcs: "i \<in> set srcs \<longleftrightarrow> (\<exists>b. mg_links g i = Some b) \<and> from \<le> i \<and> i < to" for i
    using assms(4) by (auto simp: srcs_def)
  have ids: "x \<in> set ids \<longleftrightarrow> (\<exists>a. mg_edges g x = Some a \<and> from \<le> edge_src (edge_heap g a) \<and>
      edge_src (edge_heap g a) < to \<and> edge_updated_at (edge_heap g a) < t)" for x
    using edges_invD(4) [OF e, of x] by (auto simp: ids_def sel srcs)
  have "distinct ids"
    unfolding ids_def
  proof (rule distinct_concat_map)
    show "distinct srcs" using assms(3) by (simp add: srcs_def)
    show "distinct (sel i)" for i using edges_invD(6) [OF e] by (simp add: sel_def)
    show "set (sel i) \<inter> set (sel j) = {}" if "i \<noteq> j" for i j using that by (auto simp: sel)
  qed
  have "inj_on (\<lambda>i. the (mg_edges g i)) (set ids)"
    using edges_invD(2) [OF e] by (intro inj_onI) (auto simp: ids, metis)
  then have "distinct (map (\<lambda>e. the (mg_edges g e)) ids)"
    using \<open>distinct ids\<close> by (simp add: distinct_map)
  moreover have "edge_heap g ` set (map (\<lambda>e. the (mg_edges g e)) ids) =
      {x. \<exists>i. st_edges (abs_graph g) i = Some x \<and> from \<le> edge_src x \<and> edge_src x < to \<and> edge_updated_at x < t}"
    by (force simp: ids)
  moreover have "set (map (\<lambda>e. the (mg_edges g e)) ids) \<subseteq> ran (mg_edges g)" by (auto simp: ids) (erule ranI)
  ultimately show ?thesis using ret by simp
qed

text \<open>
  C6. Listing a range of the graph, in whatever order the map is iterated.  \<^verbatim>\<open>Links(from, to, t)\<close>
  yields exactly the links whose identifiers lie in [from, to) and that were retrieved before t,
  each once; \<^verbatim>\<open>Edges(from, to, t)\<close> never dereferences a missing edge and yields exactly the edges
  whose source lies in [from, to) and that were updated before t, each once.
\<close>

theorem graph_listings_exact:
  assumes "uuid_pkg_ok L" "mem_reachable g" "distinct order" "set order = dom (mg_links g)"
  shows "distinct (li_links (links_in_range L order from to t g)) \<and>
    link_heap g ` set (li_links (links_in_range L order from to t g)) =
      {l. \<exists>i. st_links (abs_graph g) i = Some l \<and> from \<le> i \<and> i < to \<and> link_retrieved_at l < t} \<and>
    (\<exists>it. edges_in_range L order from to t g = Returns it \<and> distinct (ei_edges it) \<and>
      edge_heap g ` set (ei_edges it) =
        {e. \<exists>i. st_edges (abs_graph g) i = Some e \<and> from \<le> edge_src e \<and> edge_src e < to \<and> edge_updated_at e < t})"
  using links_in_range_exact [OF assms(1) mem_reachable_inv [OF assms(2)] assms(3,4), of "from" to t]
    edges_in_range_exact [OF assms(1) mem_reachable_inv [OF assms(2)] assms(3,4), of "from" to t] by blast

theorem graph_listings_exact_witness:
  "distinct (li_links (links_in_range rfc4122_pkg [] 0 9 7 new_mem_graph)) \<and>
   (\<exists>it. edges_in_range rfc4122_pkg [] 0 9 7 new_mem_graph = Returns it \<and> distinct (ei_edges it))"
proof -
  have "set [] = dom (mg_links new_mem_graph)" by (simp add: new_mem_graph_def)
  from graph_listings_exact [OF rfc4122_pkg_ok reach_new _ this, of 0 9 7] show ?thesis by auto
qed

text \<open>
  C7.  \<^verbatim>\<open>RemoveStaleEdges\<close> always succeeds and removes the edges of the given source that were updated
  before the given instant, those and no others; the links are untouched.
\<close>

theorem remove_stale_edges_exact:
  assumes "mem_reachable g"
  shows "\<exists>g'. remove_stale_edges from t g = (Returns (), g') \<and>
    (\<forall>i. find_link i g' = find_link i g) \<and>
    (\<forall>i e. st_edges (abs_graph g') i = Some e \<longleftrightarrow>
       st_edges (abs_graph g) i = Some e \<and> \<not> (edge_src e = from \<and> edge_updated_at e < t))"
proof -
  obtain g' where g': "remove_stale_edges from t g = (Returns (), g')"
      "abs_graph g' = drop_stale from t (abs_graph g)"
    using remove_stale_spec [OF mem_reachable_inv [OF assms]] by blast
  have "find_link i g' = find_link i g" for i
    unfolding find_link_abs g'(2) by (simp only: store_simps)
  moreover have "st_edges (abs_graph g') i = Some e \<longleftrightarrow>
      st_edges (abs_graph g) i = Some e \<and> \<not> (edge_src e = from \<and> edge_updated_at e < t)" for i e
    unfolding g'(2) by (simp only: store_simps is_stale_def)
  ultimately show ?thesis using g'(1) by blast
qed

theorem remove_stale_edges_exact_witness:
  "\<exists>g'. remove_stale_edges 3 10 new_mem_graph = (Returns (), g')"
  using remove_stale_edges_exact [OF reach_new, of 3 10] by blast

end
