(* ===== verification/CdbGraph.thy ===== *)
theory CdbGraph
  imports LinkGraph
begin

text \<open>
  The link graph on CockroachDB (\<^verbatim>\<open>cdb/graph.go\<close>, \<^verbatim>\<open>cdb/link.go\<close>, \<^verbatim>\<open>cdb/edge.go\<close>).  The database
  is two tables; the statements of \<^verbatim>\<open>graph.go\<close> are functions on them that respect the constraints
  of the schema in \<^verbatim>\<open>cdb/migrations\<close>.

  Parameters: \<open>ts\<close> rounds an instant to the precision of a TIMESTAMP column, \<open>gen\<close> is what
  \<^verbatim>\<open>gen_random_uuid()\<close> returns, \<open>now\<close> what \<^verbatim>\<open>NOW()\<close> returns, and \<open>conn\<close> is what happens to the connection
  during a call.
\<close>

section \<open>The database\<close>

record db =
  tb_links :: "link list"
  tb_edges :: "edge list"

text \<open>An error is \<^verbatim>\<open>sql.ErrNoRows\<close>, a \<^verbatim>\<open>pq.Error\<close> with the name of its code, or another one.\<close>

datatype db_error = ErrNoRows | PqError string | ConnError go_error

fun db_go_error :: "db_error \<Rightarrow> go_error" where
  "db_go_error ErrNoRows = External ''sql: no rows in result set''"
| "db_go_error (PqError code) = External code"
| "db_go_error (ConnError err) = err"

definition link_with_url :: "string \<Rightarrow> db \<Rightarrow> link option" where
  "link_with_url url D = find (\<lambda>l. link_url l = url) (tb_links D)"

definition link_with_id :: "uuid \<Rightarrow> db \<Rightarrow> link option" where
  "link_with_id i D = find (\<lambda>l. link_id l = i) (tb_links D)"

definition edge_between :: "uuid \<Rightarrow> uuid \<Rightarrow> db \<Rightarrow> edge option" where
  "edge_between s d D = find (\<lambda>e. edge_src e = s \<and> edge_dst e = d) (tb_edges D)"

text \<open>\<^verbatim>\<open>upsertLinkQuery\<close>: the row it returns.\<close>

definition upsert_link_query ::
  "(go_time \<Rightarrow> go_time) \<Rightarrow> uuid \<Rightarrow> string \<Rightarrow> go_time \<Rightarrow> db \<Rightarrow> (db_error + uuid \<times> go_time) \<times> db" where
  "upsert_link_query ts gen url t D =
     (case link_with_url url D of
        Some l \<Rightarrow>
          let t' = max (link_retrieved_at l) (ts t)
          in (Inr (link_id l, t'),
              D\<lparr>tb_links := map (\<lambda>r. if link_url r = url then r\<lparr>link_retrieved_at := t'\<rparr> else r) (tb_links D)\<rparr>)
      | None \<Rightarrow>
          if link_with_id gen D \<noteq> None then (Inl (PqError ''unique_violation''), D)
          else (Inr (gen, ts t),
                D\<lparr>tb_links := tb_links D @ [\<lparr>link_id = gen, link_url = url, link_retrieved_at = ts t\<rparr>]\<rparr>))"

definition find_link_query :: "uuid \<Rightarrow> db \<Rightarrow> db_error + string \<times> go_time" where
  "find_link_query i D =
     (case link_with_id i D of
        Some l \<Rightarrow> Inr (link_url l, link_retrieved_at l)
      | None \<Rightarrow> Inl ErrNoRows)"

definition links_in_partition_query :: "(go_time \<Rightarrow> go_time) \<Rightarrow> uuid \<Rightarrow> uuid \<Rightarrow> go_time \<Rightarrow> db \<Rightarrow> link list" where
  "links_in_partition_query ts fromID toID t D =
     filter (\<lambda>l. fromID \<le> link_id l \<and> link_id l < toID \<and> link_retrieved_at l < ts t) (tb_links D)"

definition upsert_edge_query ::
  "uuid \<Rightarrow> go_time \<Rightarrow> uuid \<Rightarrow> uuid \<Rightarrow> db \<Rightarrow> (db_error + uuid \<times> go_time) \<times> db" where
  "upsert_edge_query gen now s d D =
     (case edge_between s d D of
        Some e \<Rightarrow>
          (Inr (edge_id e, now),
           D\<lparr>tb_edges := map (\<lambda>r. if edge_src r = s \<and> edge_dst r = d then r\<lparr>edge_updated_at := now\<rparr> else r) (tb_edges D)\<rparr>)
      | None \<Rightarrow>
          if link_with_id s D = None \<or> link_with_id d D = None then (Inl (PqError ''foreign_key_violation''), D)
          else if gen \<in> edge_id ` set (tb_edges D) then (Inl (PqError ''unique_violation''), D)
          else (Inr (gen, now),
                D\<lparr>tb_edges := tb_edges D @ [\<lparr>edge_id = gen, edge_src = s, edge_dst = d, edge_updated_at = now\<rparr>]\<rparr>))"

definition edges_in_partition_query :: "(go_time \<Rightarrow> go_time) \<Rightarrow> uuid \<Rightarrow> uuid \<Rightarrow> go_time \<Rightarrow> db \<Rightarrow> edge list" where
  "edges_in_partition_query ts fromID toID t D =
     filter (\<lambda>e. fromID \<le> edge_src e \<and> edge_src e < toID \<and> edge_updated_at e < ts t) (tb_edges D)"

definition remove_stale_edges_query :: "(go_time \<Rightarrow> go_time) \<Rightarrow> uuid \<Rightarrow> go_time \<Rightarrow> db \<Rightarrow> db" where
  "remove_stale_edges_query ts from t D =
     D\<lparr>tb_edges := filter (\<lambda>e. \<not> (edge_src e = from \<and> edge_updated_at e < ts t)) (tb_edges D)\<rparr>"

section \<open>Rows and iterators\<close>

text \<open>
  \<^verbatim>\<open>sql.Rows\<close>: the rows that arrive before the stream ends, each with the error of scanning it,
  the error that ended the stream, if any, and the error of closing it.
\<close>

record 'a sql_rows =
  rw_rows :: "('a \<times> go_error option) list"
  rw_err :: "go_error option"
  rw_close_err :: "go_error option"

record 'a row_iterator =
  ri_rows :: "'a sql_rows"
  ri_last_err :: "go_error option"
  ri_latched :: "'a option"

text \<open>\<^verbatim>\<open>Next\<close> of both iterators; the conversion to UTC does not change the instant.\<close>

definition row_iterator_next :: "'a row_iterator \<Rightarrow> bool \<times> 'a row_iterator" where
  "row_iterator_next i =
     (case (ri_last_err i, rw_rows (ri_rows i)) of
        (None, (x, scan_err) # rest) \<Rightarrow>
          let i' = i\<lparr>ri_rows := (ri_rows i)\<lparr>rw_rows := rest\<rparr>, ri_last_err := scan_err\<rparr>
          in if scan_err \<noteq> None then (False, i') else (True, i'\<lparr>ri_latched := Some x\<rparr>)
      | _ \<Rightarrow> (False, i))"

definition row_iterator_error :: "'a row_iterator \<Rightarrow> go_error option" where
  "row_iterator_error i = ri_last_err i"

definition row_iterator_close :: "string \<Rightarrow> 'a row_iterator \<Rightarrow> go_error option" where
  "row_iterator_close msg i = map_option (Wrap msg) (rw_close_err (ri_rows i))"

definition link_iterator_close :: "link row_iterator \<Rightarrow> go_error option" where
  "link_iterator_close = row_iterator_close ''link iterator''"

definition edge_iterator_close :: "edge row_iterator \<Rightarrow> go_error option" where
  "edge_iterator_close = row_iterator_close ''edge iterator''"

fun row_iterator_drain :: "nat \<Rightarrow> 'a row_iterator \<Rightarrow> 'a list \<times> 'a row_iterator" where
  "row_iterator_drain 0 i = ([], i)"
| "row_iterator_drain (Suc n) i =
     (let (more, i') = row_iterator_next i
      in if more then (let (xs, i'') = row_iterator_drain n i' in (the (ri_latched i') # xs, i'')) else ([], i'))"

section \<open>The operations\<close>

text \<open>
  A connection that is lost during a call may be lost before the server executed the statement
  or after: the caller gets an error in both cases.
\<close>

datatype connection = Connected | LostBefore go_error | LostAfter go_error

fun over :: "connection \<Rightarrow> (db_error + 'a) \<times> db \<Rightarrow> db \<Rightarrow> (db_error + 'a) \<times> db" where
  "over Connected answer D = answer"
| "over (LostBefore err) answer D = (Inl (ConnError err), D)"
| "over (LostAfter err) answer D = (Inl (ConnError err), snd answer)"

definition cdb_upsert_link ::
  "(go_time \<Rightarrow> go_time) \<Rightarrow> connection \<Rightarrow> uuid \<Rightarrow> link \<Rightarrow> db \<Rightarrow> link outcome \<times> db" where
  "cdb_upsert_link ts conn gen link D =
     (case over conn (upsert_link_query ts gen (link_url link) (link_retrieved_at link) D) D of
        (Inl err, D') \<Rightarrow> (Fails (Wrap ''upsert link'' (db_go_error err)), D')
      | (Inr (i, t), D') \<Rightarrow> (Returns (link\<lparr>link_id := i, link_retrieved_at := t\<rparr>), D'))"

definition cdb_find_link :: "connection \<Rightarrow> uuid \<Rightarrow> db \<Rightarrow> link outcome" where
  "cdb_find_link conn i D =
     (case fst (over conn (find_link_query i D, D) D) of
        Inl ErrNoRows \<Rightarrow> Fails (Wrap ''find link'' (Sentinel GraphErrNotFound))
      | Inl err \<Rightarrow> Fails (Wrap ''find link'' (db_go_error err))
      | Inr (url, t) \<Rightarrow> Returns \<lparr>link_id = i, link_url = url, link_retrieved_at = t\<rparr>)"

text \<open>\<open>wire\<close> is what the connection makes of the rows of a result.\<close>

definition cdb_links ::
  "(go_time \<Rightarrow> go_time) \<Rightarrow> (link list \<Rightarrow> go_error + link sql_rows) \<Rightarrow> uuid \<Rightarrow> uuid \<Rightarrow> go_time \<Rightarrow> db \<Rightarrow>
   go_error + link row_iterator" where
  "cdb_links ts wire fromID toID accessedBefore D =
     (case wire (links_in_partition_query ts fromID toID accessedBefore D) of
        Inl err \<Rightarrow> Inl (Wrap ''links'' err)
      | Inr rows \<Rightarrow> Inr \<lparr>ri_rows = rows, ri_last_err = None, ri_latched = None\<rparr>)"

definition is_foreign_key_violation_error :: "db_error \<Rightarrow> bool" where
  "is_foreign_key_violation_error err =
     (case err of PqError code \<Rightarrow> code = ''foreign_key_violation'' | _ \<Rightarrow> False)"

definition cdb_upsert_edge :: "connection \<Rightarrow> uuid \<Rightarrow> go_time \<Rightarrow> edge \<Rightarrow> db \<Rightarrow> edge outcome \<times> db" where
  "cdb_upsert_edge conn gen now edge D =
     (case over conn (upsert_edge_query gen now (edge_src edge) (edge_dst edge) D) D of
        (Inl err, D') \<Rightarrow>
          (Fails (Wrap ''upsert edge''
             (if is_foreign_key_violation_error err then Sentinel GraphErrUnknownEdgeLinks else db_go_error err)), D')
      | (Inr (i, t), D') \<Rightarrow> (Returns (edge\<lparr>edge_id := i, edge_updated_at := t\<rparr>), D'))"

definition cdb_edges ::
  "(go_time \<Rightarrow> go_time) \<Rightarrow> (edge list \<Rightarrow> go_error + edge sql_rows) \<Rightarrow> uuid \<Rightarrow> uuid \<Rightarrow> go_time \<Rightarrow> db \<Rightarrow>
   go_error + edge row_iterator" where
  "cdb_edges ts wire fromID toID updatedBefore D =
     (case wire (edges_in_partition_query ts fromID toID updatedBefore D) of
        Inl err \<Rightarrow> Inl (Wrap ''edges'' err)
      | Inr rows \<Rightarrow> Inr \<lparr>ri_rows = rows, ri_last_err = None, ri_latched = None\<rparr>)"

definition cdb_remove_stale_edges ::
  "(go_time \<Rightarrow> go_time) \<Rightarrow> connection \<Rightarrow> uuid \<Rightarrow> go_time \<Rightarrow> db \<Rightarrow> unit outcome \<times> db" where
  "cdb_remove_stale_edges ts conn from t D =
     (case over conn (Inr (), remove_stale_edges_query ts from t D) D of
        (Inl err, D') \<Rightarrow> (Fails (Wrap ''remove stale edges'' (db_go_error err)), D')
      | (Inr _, D') \<Rightarrow> (Returns (), D'))"

section \<open>The abstract store\<close>

definition abs_db :: "db \<Rightarrow> link_store" where
  "abs_db D = \<lparr>st_links = (\<lambda>i. link_with_id i D), st_edges = (\<lambda>i. find (\<lambda>e. edge_id e = i) (tb_edges D))\<rparr>"

text \<open>The constraints of the schema.\<close>

definition db_ok :: "db \<Rightarrow> bool" where
  "db_ok D \<longleftrightarrow> distinct (map link_id (tb_links D)) \<and> distinct (map link_url (tb_links D)) \<and>
     distinct (map edge_id (tb_edges D)) \<and> distinct (map (\<lambda>e. (edge_src e, edge_dst e)) (tb_edges D)) \<and>
     (\<forall>e \<in> set (tb_edges D). edge_src e \<in> link_id ` set (tb_links D) \<and> edge_dst e \<in> link_id ` set (tb_links D))"

text \<open>Looking up by a key that is unique.\<close>

lemma find_unique:
  "distinct (map f xs) \<Longrightarrow> find (\<lambda>x. f x = k) xs = Some x \<longleftrightarrow> x \<in> set xs \<and> f x = k"
  by (induction xs) (auto simp: image_iff)

lemma find_none: "find (\<lambda>x. f x = k) xs = None \<longleftrightarrow> k \<notin> f ` set xs"
  by (auto simp: find_None_iff)

lemma find_map_unique:
  "(\<And>x. f (g x) = f x) \<Longrightarrow> find (\<lambda>x. f x = k) (map g xs) = map_option g (find (\<lambda>x. f x = k) xs)"
  by (induction xs) auto

lemma find_append: "find P (xs @ ys) = (case find P xs of Some x \<Rightarrow> Some x | None \<Rightarrow> find P ys)"
  by (induction xs) auto

lemma find_filter_unique:
  "distinct (map f xs) \<Longrightarrow> find (\<lambda>x. f x = k) (filter P xs) =
     (case find (\<lambda>x. f x = k) xs of Some x \<Rightarrow> if P x then Some x else None | None \<Rightarrow> None)"
proof (induction xs)
  case (Cons x xs)
  show ?case
  proof (cases "f x = k")
    case True
    then have "find (\<lambda>x. f x = k) (filter P xs) = None"
      using Cons.prems unfolding find_none by auto
    then show ?thesis using True by simp
  next
    case False
    then show ?thesis using Cons by simp
  qed
qed simp

lemma abs_db_links: "st_links (abs_db D) i = link_with_id i D"
  by (simp add: abs_db_def)

lemma db_ok_link_iff: "db_ok D \<Longrightarrow> link_with_id i D = Some l \<longleftrightarrow> l \<in> set (tb_links D) \<and> link_id l = i"
  by (simp add: link_with_id_def find_unique db_ok_def)

lemma db_ok_url_iff: "db_ok D \<Longrightarrow> link_with_url u D = Some l \<longleftrightarrow> l \<in> set (tb_links D) \<and> link_url l = u"
  by (simp add: link_with_url_def find_unique db_ok_def)

lemma db_ok_edge_iff:
  "db_ok D \<Longrightarrow> edge_between s d D = Some e \<longleftrightarrow> e \<in> set (tb_edges D) \<and> edge_src e = s \<and> edge_dst e = d"
  using find_unique [of "\<lambda>e. (edge_src e, edge_dst e)" "tb_edges D" "(s, d)" e]
  by (auto simp: edge_between_def db_ok_def)

lemma st_edges_abs_db: "db_ok D \<Longrightarrow> st_edges (abs_db D) i = Some e \<longleftrightarrow> e \<in> set (tb_edges D) \<and> edge_id e = i"
  by (simp add: abs_db_def find_unique db_ok_def)

lemma st_links_abs_db: "db_ok D \<Longrightarrow> st_links (abs_db D) i = Some l \<longleftrightarrow> l \<in> set (tb_links D) \<and> link_id l = i"
  by (simp add: abs_db_links db_ok_link_iff)

lemma dom_find: "dom (\<lambda>i. find (\<lambda>x. f x = i) xs) = f ` set xs"
  unfolding dom_def find_none by simp

lemma dom_links_abs_db: "dom (st_links (abs_db D)) = link_id ` set (tb_links D)"
  by (simp add: abs_db_def link_with_id_def dom_find)

lemma dom_edges_abs_db: "dom (st_edges (abs_db D)) = edge_id ` set (tb_edges D)"
  by (simp add: abs_db_def dom_find)

lemma distinct_map_inj: "distinct (map f xs) \<Longrightarrow> x \<in> set xs \<Longrightarrow> y \<in> set xs \<Longrightarrow> f x = f y \<Longrightarrow> x = y"
  by (meson distinct_map inj_onD)

lemma has_url_abs_db: "db_ok D \<Longrightarrow> has_url (abs_db D) i u \<longleftrightarrow> (\<exists>l \<in> set (tb_links D). link_id l = i \<and> link_url l = u)"
  by (auto simp: has_url_def st_links_abs_db)

lemma has_edge_abs_db: "db_ok D \<Longrightarrow> has_edge (abs_db D) i s d \<longleftrightarrow>
    (\<exists>e \<in> set (tb_edges D). edge_id e = i \<and> edge_src e = s \<and> edge_dst e = d)"
  by (auto simp: has_edge_def st_edges_abs_db)

lemma abs_db_store_ok:
  assumes ok: "db_ok D"
  shows "store_ok (abs_db D)"
proof -
  have links: "distinct (map link_url (tb_links D))"
    and edges: "distinct (map (\<lambda>e. (edge_src e, edge_dst e)) (tb_edges D))"
    and fk: "\<forall>e \<in> set (tb_edges D). edge_src e \<in> link_id ` set (tb_links D) \<and> edge_dst e \<in> link_id ` set (tb_links D)"
    using ok by (simp_all add: db_ok_def)
  have url: "i = j" if "has_url (abs_db D) i u" "has_url (abs_db D) j u" for i j u
  proof -
    from that obtain l l' where "l \<in> set (tb_links D)" "link_id l = i" "link_url l = u"
      "l' \<in> set (tb_links D)" "link_id l' = j" "link_url l' = u"
      unfolding has_url_abs_db [OF ok] by (elim bexE conjE) (rule that)
    with distinct_map_inj [OF links, of l l'] show ?thesis by simp
  qed
  have edge: "i = j" if "has_edge (abs_db D) i s d" "has_edge (abs_db D) j s d" for i j s d
  proof -
    from that obtain e e' where "e \<in> set (tb_edges D)" "edge_id e = i" "edge_src e = s" "edge_dst e = d"
      "e' \<in> set (tb_edges D)" "edge_id e' = j" "edge_src e' = s" "edge_dst e' = d"
      unfolding has_edge_abs_db [OF ok] by (elim bexE conjE) (rule that)
    with distinct_map_inj [OF edges, of e e'] show ?thesis by simp
  qed
  show ?thesis
    unfolding store_ok_def dom_links_abs_db
  proof (intro conjI allI impI)
    show "link_id l = i" if "st_links (abs_db D) i = Some l" for i l
      using that by (simp add: st_links_abs_db [OF ok])
    show "edge_id e = i" if "st_edges (abs_db D) i = Some e" for i e
      using that by (simp add: st_edges_abs_db [OF ok])
    show "edge_src e \<in> link_id ` set (tb_links D)" if "st_edges (abs_db D) i = Some e" for i e
      using that fk by (simp add: st_edges_abs_db [OF ok])
    show "edge_dst e \<in> link_id ` set (tb_links D)" if "st_edges (abs_db D) i = Some e" for i e
      using that fk by (simp add: st_edges_abs_db [OF ok])
  qed (rule url edge; assumption)+
qed

lemma new_db_ok: "db_ok \<lparr>tb_links = [], tb_edges = []\<rparr>"
  by (simp add: db_ok_def)

section \<open>The operations on the abstract store\<close>

lemma map_update_fields:
  "map f (map (\<lambda>r. if P r then g r else r) xs) = map f xs" if "\<And>r. f (g r) = f r"
  using that by (induction xs) auto

lemma put_link_row:
  "put_link i \<lparr>link_id = a, link_url = link_url x, link_retrieved_at = t\<rparr> A = put_link i (x\<lparr>link_retrieved_at := t\<rparr>) A"
  by (cases x; cases "st_links A i") (simp_all add: put_link_def)

lemma upsert_link_query_existing:
  assumes ok: "db_ok D" and l: "link_with_url url D = Some l"
  shows "\<exists>D'. upsert_link_query ts gen url t D = (Inr (link_id l, max (link_retrieved_at l) (ts t)), D') \<and> db_ok D' \<and>
    abs_db D' = put_link (link_id l) \<lparr>link_id = link_id l, link_url = url, link_retrieved_at = ts t\<rparr> (abs_db D) \<and>
    has_url (abs_db D) (link_id l) url"
proof -
  let ?g = "\<lambda>r. if link_url r = url then r\<lparr>link_retrieved_at := max (link_retrieved_at l) (ts t)\<rparr> else r"
  define D' where "D' = D\<lparr>tb_links := map ?g (tb_links D)\<rparr>"
  have in_D: "l \<in> set (tb_links D)" "link_url l = url" using l by (simp_all add: db_ok_url_iff [OF ok])
  have ids: "map link_id (tb_links D') = map link_id (tb_links D)" "map link_url (tb_links D') = map link_url (tb_links D)"
    "tb_edges D' = tb_edges D"
    by (simp_all add: D'_def)
  then have "link_id ` set (tb_links D') = link_id ` set (tb_links D)" by (metis list.set_map)
  then have ok': "db_ok D'" using ok unfolding db_ok_def ids by simp
  have same: "r = l" if "r \<in> set (tb_links D)" "link_url r = url" for r
    using that in_D ok distinct_map_inj [of link_url "tb_links D" r l] by (simp add: db_ok_def)
  have "link_with_id i D' = map_option ?g (link_with_id i D)" for i
    unfolding link_with_id_def D'_def by (simp, rule find_map_unique) simp
  moreover have "link_with_id (link_id l) D = Some l" using in_D ok by (simp add: db_ok_link_iff)
  ultimately have upd: "st_links (abs_db D') i = st_links (put_link (link_id l)
      \<lparr>link_id = link_id l, link_url = url, link_retrieved_at = ts t\<rparr> (abs_db D)) i" for i
  proof (cases "link_with_id i D")
    case None
    then have "i \<noteq> link_id l" using \<open>link_with_id (link_id l) D = Some l\<close> by auto
    then show ?thesis using None \<open>link_with_id i D' = map_option ?g (link_with_id i D)\<close>
      by (simp add: abs_db_links st_links_put_link)
  next
    case (Some r)
    then have r: "r \<in> set (tb_links D)" "link_id r = i" by (simp_all add: db_ok_link_iff [OF ok])
    show ?thesis
    proof (cases "i = link_id l")
      case True
      then have "r = l" using Some \<open>link_with_id (link_id l) D = Some l\<close> by simp
      then show ?thesis
        using Some True in_D \<open>link_with_id i D' = map_option ?g (link_with_id i D)\<close>
        by (simp add: abs_db_links st_links_put_link)
    next
      case False
      then have "link_url r \<noteq> url" using same [OF r(1)] r(2) by auto
      then show ?thesis
        using Some False \<open>link_with_id i D' = map_option ?g (link_with_id i D)\<close>
        by (simp add: abs_db_links st_links_put_link)
    qed
  qed
  then have "abs_db D' = put_link (link_id l) \<lparr>link_id = link_id l, link_url = url, link_retrieved_at = ts t\<rparr> (abs_db D)"
    by (simp add: put_link_def abs_db_def ids(3) fun_eq_iff)
  moreover have "has_url (abs_db D) (link_id l) url" using in_D by (auto simp: has_url_abs_db [OF ok])
  ultimately show ?thesis
    using ok' by (simp add: upsert_link_query_def l Let_def D'_def)
qed

lemma upsert_link_query_new:
  assumes ok: "db_ok D" and none: "link_with_url url D = None" and gen: "gen \<notin> link_id ` set (tb_links D)"
  shows "\<exists>D'. upsert_link_query ts gen url t D = (Inr (gen, ts t), D') \<and> db_ok D' \<and>
    abs_db D' = put_link gen \<lparr>link_id = gen, link_url = url, link_retrieved_at = ts t\<rparr> (abs_db D) \<and>
    gen \<notin> dom (st_links (abs_db D)) \<and> (\<forall>i. \<not> has_url (abs_db D) i url)"
proof -
  define x where "x = \<lparr>link_id = gen, link_url = url, link_retrieved_at = ts t\<rparr>"
  define D' where "D' = D\<lparr>tb_links := tb_links D @ [x]\<rparr>"
  have url: "url \<notin> link_url ` set (tb_links D)"
    using none unfolding link_with_url_def find_none .
  have free: "link_with_id gen D = None" using gen unfolding link_with_id_def find_none .
  have "db_ok D'" using ok gen url unfolding db_ok_def D'_def x_def by auto
  moreover have "link_with_id i D' = (if i = gen then Some x else link_with_id i D)" for i
    using free by (auto simp: link_with_id_def D'_def find_append x_def split: option.splits)
  then have "abs_db D' = put_link gen x (abs_db D)"
    using free by (auto simp: abs_db_def put_link_def D'_def x_def fun_eq_iff)
  moreover have "\<not> has_url (abs_db D) i url" for i
    using url by (auto simp: has_url_abs_db [OF ok])
  ultimately show ?thesis
    using none free gen by (simp add: upsert_link_query_def D'_def x_def dom_links_abs_db)
qed

lemma upsert_edge_query_existing:
  assumes ok: "db_ok D" and e: "edge_between s d D = Some e"
  shows "\<exists>D'. upsert_edge_query gen now s d D = (Inr (edge_id e, now), D') \<and> db_ok D' \<and>
    abs_db D' = put_edge (edge_id e) s d now (abs_db D) \<and> has_edge (abs_db D) (edge_id e) s d"
proof -
  let ?g = "\<lambda>r. if edge_src r = s \<and> edge_dst r = d then r\<lparr>edge_updated_at := now\<rparr> else r"
  define D' where "D' = D\<lparr>tb_edges := map ?g (tb_edges D)\<rparr>"
  have in_D: "e \<in> set (tb_edges D)" "edge_src e = s" "edge_dst e = d" using e by (simp_all add: db_ok_edge_iff [OF ok])
  have ids: "map edge_id (tb_edges D') = map edge_id (tb_edges D)"
    "map (\<lambda>r. (edge_src r, edge_dst r)) (tb_edges D') = map (\<lambda>r. (edge_src r, edge_dst r)) (tb_edges D)"
    "tb_links D' = tb_links D"
    by (simp_all add: D'_def)
  have "\<forall>r \<in> set (tb_edges D'). \<exists>r' \<in> set (tb_edges D). edge_src r = edge_src r' \<and> edge_dst r = edge_dst r'"
    by (auto simp: D'_def)
  then have ok': "db_ok D'" using ok unfolding db_ok_def ids by metis
  have same: "r = e" if "r \<in> set (tb_edges D)" "edge_src r = s" "edge_dst r = d" for r
    using that in_D ok distinct_map_inj [of "\<lambda>e. (edge_src e, edge_dst e)" "tb_edges D" r e] by (simp add: db_ok_def)
  have look: "st_edges (abs_db D') i = map_option ?g (st_edges (abs_db D) i)" for i
    unfolding abs_db_def D'_def by (simp, rule find_map_unique) simp
  have e_id: "st_edges (abs_db D) (edge_id e) = Some e" using in_D by (simp add: st_edges_abs_db [OF ok])
  have "st_edges (abs_db D') i = st_edges (put_edge (edge_id e) s d now (abs_db D)) i" for i
  proof (cases "st_edges (abs_db D) i")
    case None
    then show ?thesis using e_id by (auto simp: look st_edges_put_edge)
  next
    case (Some r)
    then have r: "r \<in> set (tb_edges D)" "edge_id r = i" by (simp_all add: st_edges_abs_db [OF ok])
    show ?thesis
    proof (cases "i = edge_id e")
      case True
      then have "r = e" using Some e_id by simp
      then show ?thesis using Some True in_D by (simp add: look st_edges_put_edge)
    next
      case False
      then have "\<not> (edge_src r = s \<and> edge_dst r = d)" using same [OF r(1)] r(2) by auto
      then show ?thesis using Some False by (auto simp: look st_edges_put_edge)
    qed
  qed
  then have "abs_db D' = put_edge (edge_id e) s d now (abs_db D)"
    by (simp add: put_edge_def abs_db_def link_with_id_def ids(3) fun_eq_iff)
  moreover have "has_edge (abs_db D) (edge_id e) s d" using in_D by (auto simp: has_edge_abs_db [OF ok])
  ultimately show ?thesis using ok' by (simp add: upsert_edge_query_def e D'_def)
qed

lemma upsert_edge_query_new:
  assumes ok: "db_ok D" and none: "edge_between s d D = None"
    and ends: "s \<in> dom (st_links (abs_db D))" "d \<in> dom (st_links (abs_db D))" and gen: "gen \<notin> edge_id ` set (tb_edges D)"
  shows "\<exists>D'. upsert_edge_query gen now s d D = (Inr (gen, now), D') \<and> db_ok D' \<and>
    abs_db D' = put_edge gen s d now (abs_db D) \<and> gen \<notin> dom (st_edges (abs_db D)) \<and>
    (\<forall>i. \<not> has_edge (abs_db D) i s d)"
proof -
  define x where "x = \<lparr>edge_id = gen, edge_src = s, edge_dst = d, edge_updated_at = now\<rparr>"
  define D' where "D' = D\<lparr>tb_edges := tb_edges D @ [x]\<rparr>"
  have pair: "\<forall>e \<in> set (tb_edges D). \<not> (edge_src e = s \<and> edge_dst e = d)"
    using none by (auto simp: edge_between_def find_None_iff)
  have "db_ok D'" using ok gen pair ends unfolding db_ok_def D'_def x_def dom_links_abs_db by auto
  moreover have "find (\<lambda>e. edge_id e = gen) (tb_edges D) = None" using gen unfolding find_none .
  then have "abs_db D' = put_edge gen s d now (abs_db D)"
    by (auto simp: abs_db_def put_edge_def D'_def x_def fun_eq_iff find_append link_with_id_def split: option.splits)
  moreover have "\<not> has_edge (abs_db D) i s d" for i
    using pair by (auto simp: has_edge_abs_db [OF ok])
  moreover have "link_with_id s D \<noteq> None" "link_with_id d D \<noteq> None"
    using ends by (auto simp: abs_db_links dom_def)
  ultimately show ?thesis
    using none gen by (auto simp: upsert_edge_query_def D'_def x_def dom_edges_abs_db)
qed

lemma upsert_edge_query_unknown:
  assumes ok: "db_ok D" and ends: "s \<notin> dom (st_links (abs_db D)) \<or> d \<notin> dom (st_links (abs_db D))"
  shows "upsert_edge_query gen now s d D = (Inl (PqError ''foreign_key_violation''), D)"
proof -
  have "edge_between s d D = None"
  proof (rule ccontr)
    assume "edge_between s d D \<noteq> None"
    then obtain e where "e \<in> set (tb_edges D)" "edge_src e = s" "edge_dst e = d"
      by (auto simp: db_ok_edge_iff [OF ok])
    then show False using ok ends by (auto simp: db_ok_def dom_links_abs_db)
  qed
  then show ?thesis using ends by (auto simp: upsert_edge_query_def abs_db_links dom_def)
qed

lemma remove_stale_edges_query_abs:
  assumes ok: "db_ok D"
  shows "db_ok (remove_stale_edges_query ts from t D) \<and>
    abs_db (remove_stale_edges_query ts from t D) = drop_stale from (ts t) (abs_db D)"
proof -
  let ?D' = "remove_stale_edges_query ts from t D"
  have ok': "db_ok ?D'"
    using ok by (auto simp: db_ok_def remove_stale_edges_query_def intro: distinct_map_filter)
  have "st_edges (abs_db ?D') = st_edges (drop_stale from (ts t) (abs_db D))"
    using ok by (simp add: abs_db_def remove_stale_edges_query_def drop_stale_def find_filter_unique db_ok_def is_stale_def
        fun_eq_iff split: option.splits)
  then show ?thesis
    using ok' by (simp add: abs_db_def drop_stale_def link_with_id_def remove_stale_edges_query_def)
qed

text \<open>The operations as effects on the store: a row that is stored, and the store after it.\<close>

definition link_stored :: "(go_time \<Rightarrow> go_time) \<Rightarrow> link \<Rightarrow> link \<Rightarrow> link_store \<Rightarrow> link_store \<Rightarrow> bool" where
  "link_stored ts x y A A' \<longleftrightarrow> link_url y = link_url x \<and> st_links A' (link_id y) = Some y \<and>
     A' = put_link (link_id y) (x\<lparr>link_retrieved_at := ts (link_retrieved_at x)\<rparr>) A"

definition edge_stored :: "go_time \<Rightarrow> edge \<Rightarrow> edge \<Rightarrow> link_store \<Rightarrow> link_store \<Rightarrow> bool" where
  "edge_stored now e y A A' \<longleftrightarrow> st_edges A' (edge_id y) = Some y \<and>
     A' = put_edge (edge_id y) (edge_src e) (edge_dst e) now A"

definition url_known :: "link_store \<Rightarrow> string \<Rightarrow> bool" where
  "url_known A url \<longleftrightarrow> (\<exists>i. has_url A i url)"

definition ends_known :: "link_store \<Rightarrow> edge \<Rightarrow> bool" where
  "ends_known A e \<longleftrightarrow> edge_src e \<in> dom (st_links A) \<and> edge_dst e \<in> dom (st_links A)"

definition edge_known :: "link_store \<Rightarrow> edge \<Rightarrow> bool" where
  "edge_known A e \<longleftrightarrow> (\<exists>i. has_edge A i (edge_src e) (edge_dst e))"

lemma url_known_abs: "db_ok D \<Longrightarrow> url_known (abs_db D) url \<longleftrightarrow> link_with_url url D \<noteq> None"
  by (auto simp: url_known_def has_url_abs_db link_with_url_def find_None_iff)

lemma edge_known_abs: "db_ok D \<Longrightarrow> edge_known (abs_db D) e \<longleftrightarrow> edge_between (edge_src e) (edge_dst e) D \<noteq> None"
  by (auto simp: edge_known_def has_edge_abs_db edge_between_def find_None_iff)

lemma cdb_upsert_link_connected:
  assumes ok: "db_ok D" and gen: "url_known (abs_db D) (link_url x) \<or> gen \<notin> dom (st_links (abs_db D))"
  shows "\<exists>y D'. cdb_upsert_link ts Connected gen x D = (Returns y, D') \<and> db_ok D' \<and>
    link_stored ts x y (abs_db D) (abs_db D') \<and>
    (if url_known (abs_db D) (link_url x) then has_url (abs_db D) (link_id y) (link_url x) else link_id y = gen)"
proof (cases "link_with_url (link_url x) D")
  case (Some l)
  from upsert_link_query_existing [OF ok Some, of ts gen "link_retrieved_at x"] obtain D' where
    D': "upsert_link_query ts gen (link_url x) (link_retrieved_at x) D =
        (Inr (link_id l, max (link_retrieved_at l) (ts (link_retrieved_at x))), D')" "db_ok D'"
      "abs_db D' = put_link (link_id l) \<lparr>link_id = link_id l, link_url = link_url x,
         link_retrieved_at = ts (link_retrieved_at x)\<rparr> (abs_db D)" "has_url (abs_db D) (link_id l) (link_url x)"
    by (elim exE conjE) (rule that)
  have "st_links (abs_db D) (link_id l) = Some l" using Some ok by (simp add: st_links_abs_db db_ok_url_iff)
  moreover have "url_known (abs_db D) (link_url x)" using D'(4) by (auto simp: url_known_def)
  ultimately show ?thesis using D'(4)
    by (simp add: cdb_upsert_link_def D'(1,2)) (simp add: link_stored_def D'(3) [unfolded put_link_row] st_links_put_link)
next
  case None
  then have unknown: "\<not> url_known (abs_db D) (link_url x)" by (simp add: url_known_abs [OF ok])
  then have free: "gen \<notin> link_id ` set (tb_links D)" using gen by (simp add: dom_links_abs_db)
  from upsert_link_query_new [OF ok None free, of ts "link_retrieved_at x"] obtain D' where
    D': "upsert_link_query ts gen (link_url x) (link_retrieved_at x) D = (Inr (gen, ts (link_retrieved_at x)), D')"
      "db_ok D'" "abs_db D' = put_link gen \<lparr>link_id = gen, link_url = link_url x,
         link_retrieved_at = ts (link_retrieved_at x)\<rparr> (abs_db D)" "gen \<notin> dom (st_links (abs_db D))"
    by (elim exE conjE) (rule that)
  have "st_links (abs_db D) gen = None" using D'(4) by (simp add: dom_def)
  then show ?thesis using unknown
    by (simp add: cdb_upsert_link_def D'(1,2)) (simp add: link_stored_def D'(3) [unfolded put_link_row] st_links_put_link)
qed

lemma cdb_upsert_edge_connected:
  assumes ok: "db_ok D" and ends: "ends_known (abs_db D) e"
    and gen: "edge_known (abs_db D) e \<or> gen \<notin> dom (st_edges (abs_db D))"
  shows "\<exists>y D'. cdb_upsert_edge Connected gen now e D = (Returns y, D') \<and> db_ok D' \<and>
    edge_stored now e y (abs_db D) (abs_db D') \<and>
    (if edge_known (abs_db D) e then has_edge (abs_db D) (edge_id y) (edge_src e) (edge_dst e) else edge_id y = gen)"
proof (cases "edge_between (edge_src e) (edge_dst e) D")
  case (Some e0)
  from upsert_edge_query_existing [OF ok Some, of gen now] obtain D' where
    D': "upsert_edge_query gen now (edge_src e) (edge_dst e) D = (Inr (edge_id e0, now), D')" "db_ok D'"
      "abs_db D' = put_edge (edge_id e0) (edge_src e) (edge_dst e) now (abs_db D)"
      "has_edge (abs_db D) (edge_id e0) (edge_src e) (edge_dst e)" by (elim exE conjE) (rule that)
  have "edge_known (abs_db D) e" using D'(4) by (auto simp: edge_known_def)
  then show ?thesis using D'(4)
    by (simp add: cdb_upsert_edge_def D'(1,2)) (simp add: edge_stored_def D'(3) put_edge_def)
next
  case None
  then have unknown: "\<not> edge_known (abs_db D) e" by (simp add: edge_known_abs [OF ok])
  then have free: "gen \<notin> edge_id ` set (tb_edges D)" using gen by (simp add: dom_edges_abs_db)
  from upsert_edge_query_new [OF ok None _ _ free, of now] ends obtain D' where
    D': "upsert_edge_query gen now (edge_src e) (edge_dst e) D = (Inr (gen, now), D')" "db_ok D'"
      "abs_db D' = put_edge gen (edge_src e) (edge_dst e) now (abs_db D)"
    unfolding ends_known_def by blast
  show ?thesis using unknown
    by (simp add: cdb_upsert_edge_def D'(1,2)) (simp add: edge_stored_def D'(3) put_edge_def)
qed

lemma cdb_upsert_edge_unknown:
  assumes ok: "db_ok D"
  shows "(\<exists>err D'. cdb_upsert_edge Connected gen now e D = (Fails err, D') \<and> errors_is err GraphErrUnknownEdgeLinks) \<longleftrightarrow>
      \<not> ends_known (abs_db D) e"
    "\<not> ends_known (abs_db D) e \<Longrightarrow> \<exists>err. cdb_upsert_edge Connected gen now e D = (Fails err, D)"
proof -
  show "\<exists>err. cdb_upsert_edge Connected gen now e D = (Fails err, D)" if "\<not> ends_known (abs_db D) e"
    using upsert_edge_query_unknown [OF ok, of "edge_src e" "edge_dst e" gen now] that
    by (auto simp: ends_known_def cdb_upsert_edge_def)
  show "(\<exists>err D'. cdb_upsert_edge Connected gen now e D = (Fails err, D') \<and> errors_is err GraphErrUnknownEdgeLinks) \<longleftrightarrow>
      \<not> ends_known (abs_db D) e"
  proof (cases "ends_known (abs_db D) e")
    case True
    then have "link_with_id (edge_src e) D \<noteq> None" "link_with_id (edge_dst e) D \<noteq> None"
      by (auto simp: ends_known_def dom_def abs_db_links)
    then show ?thesis using True
      by (auto simp: cdb_upsert_edge_def upsert_edge_query_def is_foreign_key_violation_error_def
          split: option.splits if_splits)
  next
    case False
    then show ?thesis
      using upsert_edge_query_unknown [OF ok, of "edge_src e" "edge_dst e" gen now]
      by (auto simp: ends_known_def cdb_upsert_edge_def is_foreign_key_violation_error_def)
  qed
qed

text \<open>
  A connection that is lost: the statement has been executed, once, or not at all.  Doing the
  call again over a connection that holds then has the effect of one call.
\<close>

lemma put_link_again: "put_link i x (put_link i x A) = put_link i x A"
  by (cases "st_links A i") (simp_all add: put_link_def)

lemma put_edge_again: "put_edge i s d now' (put_edge i s d now A) = put_edge i s d now' A"
  by (simp add: put_edge_def)

lemma drop_stale_again: "drop_stale i t (drop_stale i t A) = drop_stale i t A"
  by (auto simp: drop_stale_def fun_eq_iff split: option.splits)

lemma link_stored_twice:
  "link_stored ts x y1 A A1 \<Longrightarrow> link_stored ts x y A1 A2 \<Longrightarrow> link_id y = link_id y1 \<Longrightarrow> link_stored ts x y A A2"
  unfolding link_stored_def by (metis put_link_again)

lemma edge_stored_twice:
  "edge_stored now e y1 A A1 \<Longrightarrow> edge_stored now' e y A1 A2 \<Longrightarrow> edge_id y = edge_id y1 \<Longrightarrow> edge_stored now' e y A A2"
  unfolding edge_stored_def by (metis put_edge_again)

lemma has_url_unique: "db_ok D \<Longrightarrow> has_url (abs_db D) i u \<Longrightarrow> has_url (abs_db D) j u \<Longrightarrow> i = j"
  using abs_db_store_ok unfolding store_ok_def by blast

lemma has_edge_unique: "db_ok D \<Longrightarrow> has_edge (abs_db D) i s d \<Longrightarrow> has_edge (abs_db D) j s d \<Longrightarrow> i = j"
  using abs_db_store_ok unfolding store_ok_def by blast

lemma over_lost:
  assumes "conn = LostBefore err \<or> conn = LostAfter err"
  shows "over conn answer D = (Inl (ConnError err), if conn = LostAfter err then snd answer else D)"
  using assms by auto

lemma upsert_link_after:
  assumes ok: "db_ok D"
  shows "snd (upsert_link_query ts gen (link_url x) (link_retrieved_at x) D) = D \<or>
    db_ok (snd (upsert_link_query ts gen (link_url x) (link_retrieved_at x) D)) \<and>
    (\<exists>y. link_stored ts x y (abs_db D) (abs_db (snd (upsert_link_query ts gen (link_url x) (link_retrieved_at x) D))))"
proof (cases "url_known (abs_db D) (link_url x) \<or> gen \<notin> dom (st_links (abs_db D))")
  case True
  from cdb_upsert_link_connected [OF ok True, of ts] obtain y D' where
    "cdb_upsert_link ts Connected gen x D = (Returns y, D')" "db_ok D'" "link_stored ts x y (abs_db D) (abs_db D')"
    by blast
  then show ?thesis by (auto simp: cdb_upsert_link_def split: prod.splits sum.splits)
next
  case False
  then show ?thesis
    by (auto simp: url_known_abs [OF ok] upsert_link_query_def dom_def abs_db_links)
qed

lemma cdb_upsert_link_lost:
  assumes ok: "db_ok D" and lost: "conn = LostBefore err \<or> conn = LostAfter err"
    and gen': "url_known (abs_db D) (link_url x) \<or> gen' \<notin> dom (st_links (abs_db D))"
  shows "\<exists>D1 y D2. cdb_upsert_link ts conn gen x D = (Fails (Wrap ''upsert link'' err), D1) \<and> db_ok D1 \<and>
    cdb_upsert_link ts Connected gen' x D1 = (Returns y, D2) \<and> db_ok D2 \<and> link_stored ts x y (abs_db D) (abs_db D2)"
proof -
  define D1 where "D1 = (if conn = LostAfter err
    then snd (upsert_link_query ts gen (link_url x) (link_retrieved_at x) D) else D)"
  have call: "cdb_upsert_link ts conn gen x D = (Fails (Wrap ''upsert link'' err), D1)"
    using lost by (auto simp: cdb_upsert_link_def D1_def)
  consider "D1 = D" | y1 where "db_ok D1" "link_stored ts x y1 (abs_db D) (abs_db D1)"
    using upsert_link_after [OF ok, of ts gen x] by (cases "conn = LostAfter err") (auto simp: D1_def)
  then show ?thesis
  proof cases
    case 1
    then show ?thesis using call ok cdb_upsert_link_connected [OF ok gen', of ts] by metis
  next
    case 2
    then have url1: "has_url (abs_db D1) (link_id y1) (link_url x)"
      unfolding link_stored_def has_url_def by blast
    then have known: "url_known (abs_db D1) (link_url x)" by (auto simp: url_known_def)
    from cdb_upsert_link_connected [OF 2(1) disjI1 [OF known], of ts gen'] known obtain y D2 where
      D2: "cdb_upsert_link ts Connected gen' x D1 = (Returns y, D2)" "db_ok D2"
        "link_stored ts x y (abs_db D1) (abs_db D2)" "has_url (abs_db D1) (link_id y) (link_url x)" by auto
    have "link_id y = link_id y1" by (rule has_url_unique [OF 2(1) D2(4) url1])
    then have "link_stored ts x y (abs_db D) (abs_db D2)"
      using link_stored_twice [OF 2(2) D2(3)] by simp
    then show ?thesis using call 2(1) D2(1,2) by blast
  qed
qed

lemma upsert_edge_after:
  assumes ok: "db_ok D"
  shows "snd (upsert_edge_query gen now (edge_src e) (edge_dst e) D) = D \<or>
    db_ok (snd (upsert_edge_query gen now (edge_src e) (edge_dst e) D)) \<and>
    (\<exists>y. edge_stored now e y (abs_db D) (abs_db (snd (upsert_edge_query gen now (edge_src e) (edge_dst e) D))))"
proof (cases "ends_known (abs_db D) e \<and> (edge_known (abs_db D) e \<or> gen \<notin> dom (st_edges (abs_db D)))")
  case True
  then have "ends_known (abs_db D) e" "edge_known (abs_db D) e \<or> gen \<notin> dom (st_edges (abs_db D))" by simp_all
  from cdb_upsert_edge_connected [OF ok this, of now] obtain y D' where
    "cdb_upsert_edge Connected gen now e D = (Returns y, D')" "db_ok D'" "edge_stored now e y (abs_db D) (abs_db D')"
    by blast
  then show ?thesis by (auto simp: cdb_upsert_edge_def split: prod.splits sum.splits)
next
  case False
  show ?thesis
  proof (cases "ends_known (abs_db D) e")
    case True
    with False show ?thesis
      by (auto simp: edge_known_abs [OF ok] upsert_edge_query_def dom_edges_abs_db)
  next
    case False
    then show ?thesis
      using upsert_edge_query_unknown [OF ok, of "edge_src e" "edge_dst e" gen now] by (auto simp: ends_known_def)
  qed
qed

lemma cdb_upsert_edge_lost:
  assumes ok: "db_ok D" and lost: "conn = LostBefore err \<or> conn = LostAfter err" and ends: "ends_known (abs_db D) e"
    and gen': "edge_known (abs_db D) e \<or> gen' \<notin> dom (st_edges (abs_db D))"
  shows "\<exists>D1 y D2. cdb_upsert_edge conn gen now e D = (Fails (Wrap ''upsert edge'' err), D1) \<and> db_ok D1 \<and>
    cdb_upsert_edge Connected gen' now' e D1 = (Returns y, D2) \<and> db_ok D2 \<and> edge_stored now' e y (abs_db D) (abs_db D2)"
proof -
  define D1 where "D1 = (if conn = LostAfter err
    then snd (upsert_edge_query gen now (edge_src e) (edge_dst e) D) else D)"
  have call: "cdb_upsert_edge conn gen now e D = (Fails (Wrap ''upsert edge'' err), D1)"
    using lost by (auto simp: cdb_upsert_edge_def D1_def is_foreign_key_violation_error_def)
  consider "D1 = D" | y1 where "db_ok D1" "edge_stored now e y1 (abs_db D) (abs_db D1)"
    using upsert_edge_after [OF ok, of gen now e] by (cases "conn = LostAfter err") (auto simp: D1_def)
  then show ?thesis
  proof cases
    case 1
    then show ?thesis using call ok cdb_upsert_edge_connected [OF ok ends gen', of now'] by metis
  next
    case 2
    then have edge1: "has_edge (abs_db D1) (edge_id y1) (edge_src e) (edge_dst e)"
      by (simp add: edge_stored_def has_edge_def put_edge_def)
    then have known: "edge_known (abs_db D1) e" by (auto simp: edge_known_def)
    have ends1: "ends_known (abs_db D1) e" using ends 2(2) by (simp add: edge_stored_def ends_known_def put_edge_def)
    from cdb_upsert_edge_connected [OF 2(1) ends1 disjI1 [OF known], of gen' now'] known obtain y D2 where
      D2: "cdb_upsert_edge Connected gen' now' e D1 = (Returns y, D2)" "db_ok D2"
        "edge_stored now' e y (abs_db D1) (abs_db D2)" "has_edge (abs_db D1) (edge_id y) (edge_src e) (edge_dst e)" by auto
    have "edge_id y = edge_id y1" by (rule has_edge_unique [OF 2(1) D2(4) edge1])
    then have "edge_stored now' e y (abs_db D) (abs_db D2)"
      using edge_stored_twice [OF 2(2) D2(3)] by simp
    then show ?thesis using call 2(1) D2(1,2) by blast
  qed
qed

lemma cdb_remove_stale_edges_lost:
  assumes ok: "db_ok D" and lost: "conn = LostBefore err \<or> conn = LostAfter err"
  shows "\<exists>D1 D2. cdb_remove_stale_edges ts conn from t D = (Fails (Wrap ''remove stale edges'' err), D1) \<and> db_ok D1 \<and>
    cdb_remove_stale_edges ts Connected from t D1 = (Returns (), D2) \<and> db_ok D2 \<and>
    abs_db D2 = drop_stale from (ts t) (abs_db D)"
proof -
  define D1 where "D1 = (if conn = LostAfter err then remove_stale_edges_query ts from t D else D)"
  have "cdb_remove_stale_edges ts conn from t D = (Fails (Wrap ''remove stale edges'' err), D1)"
    using lost by (auto simp: cdb_remove_stale_edges_def D1_def)
  moreover have "db_ok D1" "abs_db D1 \<in> {abs_db D, drop_stale from (ts t) (abs_db D)}"
    using remove_stale_edges_query_abs [OF ok, of ts "from" t] ok by (auto simp: D1_def)
  ultimately show ?thesis
    using remove_stale_edges_query_abs [OF \<open>db_ok D1\<close>, of ts "from" t]
    by (auto simp: cdb_remove_stale_edges_def drop_stale_again)
qed

text \<open>
  C29. The CockroachDB graph implements the store.  While the connection holds, UpsertLink of a
  known URL, or with an unused identifier from the generator, succeeds with exactly the effect
  of the abstract operation and returns the row that is then stored: the one of the URL if there
  was one, otherwise a new one.  So does UpsertEdge if both end points are links; it reports
  unknown end points as such exactly if one of them is not, and then changes nothing.
  RemoveStaleEdges succeeds and removes the stale edges, FindLink returns the stored link or
  reports that there is none, and all of them keep the constraints of the schema.  When the
  connection is lost the caller gets its error and does not know whether the statement was
  executed; doing the call again over a connection that holds, even with another identifier
  from the generator, succeeds and has the effect of one call on the store before.  Times have the
  precision of the column.
\<close>

theorem cdb_operations_refine_store:
  assumes ok: "db_ok D"
  shows "(url_known (abs_db D) (link_url x) \<or> gen \<notin> dom (st_links (abs_db D)) \<longrightarrow>
     (\<exists>y D'. cdb_upsert_link ts Connected gen x D = (Returns y, D') \<and> db_ok D' \<and>
        link_stored ts x y (abs_db D) (abs_db D') \<and>
        (if url_known (abs_db D) (link_url x) then has_url (abs_db D) (link_id y) (link_url x) else link_id y = gen)) \<and>
     (conn = LostBefore err \<or> conn = LostAfter err \<longrightarrow>
        (\<exists>D1 y D2. cdb_upsert_link ts conn gen' x D = (Fails (Wrap ''upsert link'' err), D1) \<and> db_ok D1 \<and>
           cdb_upsert_link ts Connected gen x D1 = (Returns y, D2) \<and> db_ok D2 \<and>
           link_stored ts x y (abs_db D) (abs_db D2)))) \<and>
   (ends_known (abs_db D) e \<and> (edge_known (abs_db D) e \<or> gen \<notin> dom (st_edges (abs_db D))) \<longrightarrow>
     (\<exists>y D'. cdb_upsert_edge Connected gen now e D = (Returns y, D') \<and> db_ok D' \<and>
        edge_stored now e y (abs_db D) (abs_db D') \<and>
        (if edge_known (abs_db D) e then has_edge (abs_db D) (edge_id y) (edge_src e) (edge_dst e) else edge_id y = gen)) \<and>
     (conn = LostBefore err \<or> conn = LostAfter err \<longrightarrow>
        (\<exists>D1 y D2. cdb_upsert_edge conn gen' now' e D = (Fails (Wrap ''upsert edge'' err), D1) \<and> db_ok D1 \<and>
           cdb_upsert_edge Connected gen now e D1 = (Returns y, D2) \<and> db_ok D2 \<and>
           edge_stored now e y (abs_db D) (abs_db D2)))) \<and>
   ((\<exists>err D'. cdb_upsert_edge Connected gen now e D = (Fails err, D') \<and> errors_is err GraphErrUnknownEdgeLinks) \<longleftrightarrow>
      \<not> ends_known (abs_db D) e) \<and>
   (\<not> ends_known (abs_db D) e \<longrightarrow> (\<exists>err. cdb_upsert_edge Connected gen now e D = (Fails err, D))) \<and>
   (\<exists>D'. cdb_remove_stale_edges ts Connected from t D = (Returns (), D') \<and> db_ok D' \<and>
      abs_db D' = drop_stale from (ts t) (abs_db D)) \<and>
   (conn = LostBefore err \<or> conn = LostAfter err \<longrightarrow>
      (\<exists>D1 D2. cdb_remove_stale_edges ts conn from t D = (Fails (Wrap ''remove stale edges'' err), D1) \<and> db_ok D1 \<and>
         cdb_remove_stale_edges ts Connected from t D1 = (Returns (), D2) \<and> db_ok D2 \<and>
         abs_db D2 = drop_stale from (ts t) (abs_db D))) \<and>
   (case st_links (abs_db D) i of
       Some l \<Rightarrow> cdb_find_link Connected i D = Returns l
     | None \<Rightarrow> \<exists>err. cdb_find_link Connected i D = Fails err \<and> errors_is err GraphErrNotFound)"
proof (intro conjI impI, goal_cases)
  case 1
  then show ?case by (rule cdb_upsert_link_connected [OF ok])
next
  case 2
  from 2(2) 2(1) show ?case by (rule cdb_upsert_link_lost [OF ok])
next
  case 3
  from conjunct1 [OF 3] conjunct2 [OF 3] show ?case by (rule cdb_upsert_edge_connected [OF ok])
next
  case 4
  from 4(2) conjunct1 [OF 4(1)] conjunct2 [OF 4(1)] show ?case by (rule cdb_upsert_edge_lost [OF ok])
next
  case 5
  show ?case by (rule cdb_upsert_edge_unknown(1) [OF ok])
next
  case 6
  then show ?case by (rule cdb_upsert_edge_unknown(2) [OF ok])
next
  case 7
  show ?case using remove_stale_edges_query_abs [OF ok, of ts "from" t] by (simp add: cdb_remove_stale_edges_def)
next
  case 8
  then show ?case by (rule cdb_remove_stale_edges_lost [OF ok])
next
  case 9
  show ?case
  proof (cases "link_with_id i D")
    case None
    then show ?thesis by (simp add: abs_db_links cdb_find_link_def find_link_query_def)
  next
    case (Some l)
    then have "link_id l = i" by (simp add: db_ok_link_iff [OF ok])
    then show ?thesis using Some by (simp add: abs_db_links cdb_find_link_def find_link_query_def)
  qed
qed

text \<open>A link that is stored before the connection breaks, and the same call done again.\<close>

lemma cdb_operations_refine_store_witness:
  "\<exists>D1 y D2. cdb_upsert_link id (LostAfter (External ''EOF'')) 3 (zero_link\<lparr>link_url := ''a''\<rparr>)
       \<lparr>tb_links = [], tb_edges = []\<rparr> = (Fails (Wrap ''upsert link'' (External ''EOF'')), D1) \<and>
     length (tb_links D1) = 1 \<and>
     cdb_upsert_link id Connected 4 (zero_link\<lparr>link_url := ''a''\<rparr>) D1 = (Returns y, D2) \<and> link_id y = 3 \<and> db_ok D2 \<and>
     link_stored id (zero_link\<lparr>link_url := ''a''\<rparr>) y (abs_db \<lparr>tb_links = [], tb_edges = []\<rparr>) (abs_db D2)"
proof -
  have free: "4 \<notin> dom (st_links (abs_db \<lparr>tb_links = [], tb_edges = []\<rparr>))"
    by (simp add: abs_db_def link_with_id_def)
  obtain D1 y D2 where
    r: "cdb_upsert_link id (LostAfter (External ''EOF'')) 3 (zero_link\<lparr>link_url := ''a''\<rparr>)
         \<lparr>tb_links = [], tb_edges = []\<rparr> = (Fails (Wrap ''upsert link'' (External ''EOF'')), D1)"
      "cdb_upsert_link id Connected 4 (zero_link\<lparr>link_url := ''a''\<rparr>) D1 = (Returns y, D2)" "db_ok D2"
      "link_stored id (zero_link\<lparr>link_url := ''a''\<rparr>) y (abs_db \<lparr>tb_links = [], tb_edges = []\<rparr>) (abs_db D2)"
    using cdb_operations_refine_store [where D = "\<lparr>tb_links = [], tb_edges = []\<rparr>" and ts = id
      and conn = "LostAfter (External ''EOF'')" and err = "External ''EOF''" and gen' = 3 and gen = 4
      and x = "zero_link\<lparr>link_url := ''a''\<rparr>", OF new_db_ok, THEN conjunct1, rule_format, OF disjI2 [OF free]] by auto
  moreover have "length (tb_links D1) = 1 \<and> link_id y = 3"
    using r(1,2) by (auto simp: cdb_upsert_link_def upsert_link_query_def link_with_url_def link_with_id_def Let_def)
  ultimately show ?thesis by blast
qed

section \<open>The interface\<close>

text \<open>
  The contract of the interface holds while the connection does not fail and the generator
  returns unused identifiers: of the successive draws the first unused one is taken.
\<close>

definition cdb_ul :: "uuid list \<Rightarrow> link \<Rightarrow> db \<Rightarrow> (link outcome \<times> db) option" where
  "cdb_ul draws x D =
     (if link_with_url (link_url x) D \<noteq> None then Some (cdb_upsert_link id Connected 0 x D)
      else map_option (\<lambda>gen. cdb_upsert_link id Connected gen x D)
             (find (\<lambda>i. i \<notin> link_id ` set (tb_links D)) draws))"

definition cdb_ue :: "uuid list \<Rightarrow> go_time \<Rightarrow> edge \<Rightarrow> db \<Rightarrow> (edge outcome \<times> db) option" where
  "cdb_ue draws now e D =
     (if edge_between (edge_src e) (edge_dst e) D \<noteq> None \<or> link_with_id (edge_src e) D = None \<or>
         link_with_id (edge_dst e) D = None
      then Some (cdb_upsert_edge Connected 0 now e D)
      else map_option (\<lambda>gen. cdb_upsert_edge Connected gen now e D)
             (find (\<lambda>i. i \<notin> edge_id ` set (tb_edges D)) draws))"

lemma find_in: "find P xs = Some x \<Longrightarrow> x \<in> set xs \<and> P x"
  by (auto simp: find_Some_iff)

interpretation cdb: link_graph_store db_ok abs_db cdb_ul cdb_ue "cdb_remove_stale_edges id Connected"
proof (unfold_locales, goal_cases)
  case (1 s)
  then show ?case by (rule abs_db_store_ok)
next
  case (2 s draws x r s')
  note ok = 2(1)
  show ?case
  proof (cases "link_with_url (link_url x) s")
    case (Some l)
    from upsert_link_query_existing [OF ok Some, of id 0 "link_retrieved_at x"] obtain D' where
      D': "upsert_link_query id 0 (link_url x) (link_retrieved_at x) s =
          (Inr (link_id l, max (link_retrieved_at l) (link_retrieved_at x)), D')" "db_ok D'"
        "abs_db D' = put_link (link_id l) \<lparr>link_id = link_id l, link_url = link_url x,
           link_retrieved_at = link_retrieved_at x\<rparr> (abs_db s)" "has_url (abs_db s) (link_id l) (link_url x)"
      by (elim exE conjE) (simp add: that)
    then show ?thesis using 2(2) Some by (auto simp: cdb_ul_def cdb_upsert_link_def put_link_row)
  next
    case None
    then obtain gen where gen: "find (\<lambda>i. i \<notin> link_id ` set (tb_links s)) draws = Some gen"
      and run: "cdb_upsert_link id Connected gen x s = (r, s')" using 2(2) by (auto simp: cdb_ul_def)
    then have fresh: "gen \<notin> link_id ` set (tb_links s)" "gen \<in> set draws" using find_in by fastforce+
    from upsert_link_query_new [OF ok None fresh(1), of id "link_retrieved_at x"] obtain D' where
      D': "upsert_link_query id gen (link_url x) (link_retrieved_at x) s = (Inr (gen, link_retrieved_at x), D')" "db_ok D'"
        "abs_db D' = put_link gen \<lparr>link_id = gen, link_url = link_url x, link_retrieved_at = link_retrieved_at x\<rparr> (abs_db s)"
        "gen \<notin> dom (st_links (abs_db s))" "\<forall>i. \<not> has_url (abs_db s) i (link_url x)"
      by (elim exE conjE) (simp add: that)
    then show ?thesis using run fresh(2) by (auto simp: cdb_upsert_link_def put_link_row)
  qed
next
  case (3 s x draws)
  show ?case
  proof (cases "link_with_url (link_url x) s")
    case None
    then have "link_url x \<notin> link_url ` set (tb_links s)" unfolding link_with_url_def find_none .
    then have "\<not> has_url (abs_db s) i (link_url x)" for i
      unfolding has_url_abs_db [OF 3(1)] by (metis imageI)
    then obtain d where "d \<in> set draws" "d \<notin> link_id ` set (tb_links s)"
      using 3(2) by (auto simp: dom_links_abs_db)
    then have "find (\<lambda>i. i \<notin> link_id ` set (tb_links s)) draws \<noteq> None" by (auto simp: find_None_iff)
    then show ?thesis using None by (auto simp: cdb_ul_def)
  qed (simp add: cdb_ul_def)
next
  case (4 s e draws now)
  then show ?case
    using upsert_edge_query_unknown [OF 4(1) 4(2), of 0 now]
    by (auto simp: cdb_ue_def abs_db_links dom_def cdb_upsert_edge_def is_foreign_key_violation_error_def)
next
  case (5 s e draws now re s')
  note ok = 5(1)
  have ends: "link_with_id (edge_src e) s \<noteq> None" "link_with_id (edge_dst e) s \<noteq> None"
    using 5(2,3) by (auto simp: abs_db_links dom_def)
  show ?case
  proof (cases "edge_between (edge_src e) (edge_dst e) s")
    case (Some e0)
    from upsert_edge_query_existing [OF ok Some, of 0 now] obtain D' where
      "upsert_edge_query 0 now (edge_src e) (edge_dst e) s = (Inr (edge_id e0, now), D')" "db_ok D'"
      "abs_db D' = put_edge (edge_id e0) (edge_src e) (edge_dst e) now (abs_db s)"
      "has_edge (abs_db s) (edge_id e0) (edge_src e) (edge_dst e)" by (elim exE conjE) (rule that)
    then show ?thesis using 5(4) Some by (auto simp: cdb_ue_def cdb_upsert_edge_def)
  next
    case None
    then obtain gen where gen: "find (\<lambda>i. i \<notin> edge_id ` set (tb_edges s)) draws = Some gen"
      and run: "cdb_upsert_edge Connected gen now e s = (re, s')" using 5(4) ends by (auto simp: cdb_ue_def)
    then have fresh: "gen \<notin> edge_id ` set (tb_edges s)" "gen \<in> set draws" using find_in by fastforce+
    from upsert_edge_query_new [OF ok None 5(2,3) fresh(1), of now] obtain D' where
      "upsert_edge_query gen now (edge_src e) (edge_dst e) s = (Inr (gen, now), D')" "db_ok D'"
      "abs_db D' = put_edge gen (edge_src e) (edge_dst e) now (abs_db s)"
      "gen \<notin> dom (st_edges (abs_db s))" "\<forall>i. \<not> has_edge (abs_db s) i (edge_src e) (edge_dst e)"
      by (elim exE conjE) (rule that)
    then show ?thesis using run fresh(2) by (auto simp: cdb_upsert_edge_def)
  qed
next
  case (6 s e draws now)
  show ?case
  proof (cases "edge_between (edge_src e) (edge_dst e) s")
    case None
    then have "\<not> has_edge (abs_db s) i (edge_src e) (edge_dst e)" for i
      using 6(1) by (auto simp: has_edge_abs_db edge_between_def find_None_iff)
    then obtain d where "d \<in> set draws" "d \<notin> edge_id ` set (tb_edges s)"
      using 6(4) by (auto simp: dom_edges_abs_db)
    then have "find (\<lambda>i. i \<notin> edge_id ` set (tb_edges s)) draws \<noteq> None" by (auto simp: find_None_iff)
    then show ?thesis by (auto simp: cdb_ue_def)
  qed (simp add: cdb_ue_def)
next
  case (7 s "from" t)
  then show ?case
    using remove_stale_edges_query_abs [OF 7, of id "from" t] by (simp add: cdb_remove_stale_edges_def)
qed

section \<open>Reading\<close>

lemma row_iterator_drain_rows:
  "ri_last_err it = None \<Longrightarrow> rw_rows (ri_rows it) = map (\<lambda>x. (x, None)) xs \<Longrightarrow>
   \<exists>it'. row_iterator_drain (Suc (length xs)) it = (xs, it') \<and> ri_last_err it' = None"
proof (induction xs arbitrary: it)
  case Nil
  then show ?case by (simp add: row_iterator_next_def)
next
  case (Cons x xs)
  define it1 where "it1 = it\<lparr>ri_rows := (ri_rows it)\<lparr>rw_rows := map (\<lambda>x. (x, None)) xs\<rparr>, ri_latched := Some x\<rparr>"
  have "row_iterator_next it = (True, it1)"
    using Cons.prems by (simp add: row_iterator_next_def it1_def)
  moreover obtain it' where "row_iterator_drain (Suc (length xs)) it1 = (xs, it')" "ri_last_err it' = None"
    using Cons.IH [of it1] Cons.prems by (auto simp: it1_def)
  ultimately show ?case by (simp add: it1_def)
qed

text \<open>What a caller of \<^verbatim>\<open>Links\<close> and \<^verbatim>\<open>Edges\<close> gets by draining the iterators and closing them.\<close>

definition drained :: "('a row_iterator \<Rightarrow> go_error option) \<Rightarrow> 'a row_iterator \<Rightarrow> 'a api_iterator" where
  "drained close it =
     (let (xs, it') = row_iterator_drain (Suc (length (rw_rows (ri_rows it)))) it
      in \<lparr>it_items = xs, it_error = row_iterator_error it', it_close = close it'\<rparr>)"

definition cdb_links_api ::
  "(go_time \<Rightarrow> go_time) \<Rightarrow> (link list \<Rightarrow> go_error + link sql_rows) \<Rightarrow> db \<Rightarrow> uuid \<Rightarrow> uuid \<Rightarrow> go_time \<Rightarrow>
   go_error + link api_iterator" where
  "cdb_links_api ts wire D fromID toID t = map_sum id (drained link_iterator_close) (cdb_links ts wire fromID toID t D)"

definition cdb_edges_api ::
  "(go_time \<Rightarrow> go_time) \<Rightarrow> (edge list \<Rightarrow> go_error + edge sql_rows) \<Rightarrow> db \<Rightarrow> uuid \<Rightarrow> uuid \<Rightarrow> go_time \<Rightarrow>
   go_error + edge api_iterator" where
  "cdb_edges_api ts wire D fromID toID t = map_sum id (drained edge_iterator_close) (cdb_edges ts wire fromID toID t D)"

definition whole_rows :: "'a list \<Rightarrow> 'a sql_rows" where
  "whole_rows ls = \<lparr>rw_rows = map (\<lambda>x. (x, None)) ls, rw_err = None, rw_close_err = None\<rparr>"

lemma row_iterator_drain_close: "rw_close_err (ri_rows (snd (row_iterator_drain n it))) = rw_close_err (ri_rows it)"
proof (induction n arbitrary: it)
  case (Suc n)
  have "rw_close_err (ri_rows (snd (row_iterator_next it))) = rw_close_err (ri_rows it)"
    by (auto simp: row_iterator_next_def Let_def split: option.splits list.splits)
  then show ?case using Suc [of "snd (row_iterator_next it)"] by (auto split: prod.splits)
qed simp

lemma drained_whole_rows:
  assumes "\<And>it. rw_close_err (ri_rows it) = None \<Longrightarrow> close it = None"
  shows "drained close \<lparr>ri_rows = whole_rows ls, ri_last_err = None, ri_latched = None\<rparr> =
    \<lparr>it_items = ls, it_error = None, it_close = None\<rparr>"
proof -
  let ?it = "\<lparr>ri_rows = whole_rows ls, ri_last_err = None, ri_latched = None\<rparr>"
  obtain it' where it': "row_iterator_drain (Suc (length ls)) ?it = (ls, it')" "ri_last_err it' = None"
    using row_iterator_drain_rows [of ?it ls] by (auto simp: whole_rows_def)
  moreover have "rw_close_err (ri_rows it') = None"
    using row_iterator_drain_close [of "Suc (length ls)" ?it] it'(1) by (simp add: whole_rows_def del: row_iterator_drain.simps)
  moreover have "length (rw_rows (whole_rows ls)) = length ls" by (simp add: whole_rows_def)
  ultimately show ?thesis
    by (simp add: drained_def row_iterator_error_def assms del: row_iterator_drain.simps)
qed

lemma cdb_links_api_whole:
  assumes "\<And>ls. wire ls = Inr (whole_rows ls)"
  shows "cdb_links_api ts wire D f t b =
    Inr \<lparr>it_items = links_in_partition_query ts f t b D, it_error = None, it_close = None\<rparr>"
  by (simp add: cdb_links_api_def cdb_links_def assms)
    (rule drained_whole_rows, simp add: link_iterator_close_def row_iterator_close_def)

lemma cdb_edges_api_whole:
  assumes "\<And>es. wire es = Inr (whole_rows es)"
  shows "cdb_edges_api ts wire D f t b =
    Inr \<lparr>it_items = edges_in_partition_query ts f t b D, it_error = None, it_close = None\<rparr>"
  by (simp add: cdb_edges_api_def cdb_edges_def assms)
    (rule drained_whole_rows, simp add: edge_iterator_close_def row_iterator_close_def)

text \<open>
  C30. Reading the links of a partition from CockroachDB.  The iterator of Links yields the links
  of the partition retrieved before the instant, up to where the stream of rows ends, and then
  reports no error: also when the connection broke after some of the rows, because the
  iterators never ask for the error of the rows, so that a caller takes the part for the whole.
\<close>

theorem cdb_links_iterator_hides_broken_stream:
  assumes wire: "wire (links_in_partition_query ts fromID toID t D) =
      Inr \<lparr>rw_rows = map (\<lambda>x. (x, None)) (take k (links_in_partition_query ts fromID toID t D)),
           rw_err = stream_err, rw_close_err = None\<rparr>"
  shows "\<exists>it it'. cdb_links ts wire fromID toID t D = Inr it \<and>
    row_iterator_drain (Suc (length (take k (links_in_partition_query ts fromID toID t D)))) it =
      (take k (filter (\<lambda>l. fromID \<le> link_id l \<and> link_id l < toID \<and> link_retrieved_at l < ts t) (tb_links D)), it') \<and>
    row_iterator_error it' = None"
proof -
  define ls where "ls = links_in_partition_query ts fromID toID t D"
  define it where "it = \<lparr>ri_rows = \<lparr>rw_rows = map (\<lambda>x. (x, None)) (take k ls), rw_err = stream_err, rw_close_err = None\<rparr>,
    ri_last_err = None, ri_latched = None\<rparr>"
  have "cdb_links ts wire fromID toID t D = Inr it"
    using wire by (simp add: cdb_links_def ls_def it_def)
  moreover obtain it' where "row_iterator_drain (Suc (length (take k ls))) it = (take k ls, it')" "ri_last_err it' = None"
    using row_iterator_drain_rows [of it "take k ls"] by (auto simp: it_def)
  ultimately show ?thesis
    by (auto simp: row_iterator_error_def ls_def links_in_partition_query_def)
qed

definition two_links :: db where
  "two_links = \<lparr>tb_links = [zero_link, zero_link\<lparr>link_id := 1\<rparr>], tb_edges = []\<rparr>"

definition breaking_wire :: "link list \<Rightarrow> go_error + link sql_rows" where
  "breaking_wire ls = Inr \<lparr>rw_rows = map (\<lambda>x. (x, None)) (take 1 ls),
     rw_err = Some (Errorf ''connection reset''), rw_close_err = None\<rparr>"

theorem cdb_links_iterator_hides_broken_stream_witness:
  "\<exists>it it'. cdb_links id breaking_wire 0 9 5 two_links = Inr it \<and>
    row_iterator_drain (Suc (Suc 0)) it = ([zero_link], it') \<and> row_iterator_error it' = None"
proof -
  have ls: "links_in_partition_query id 0 9 5 two_links = [zero_link, zero_link\<lparr>link_id := 1\<rparr>]"
    by (simp add: links_in_partition_query_def two_links_def zero_link_def zero_time_def)
  then have sel: "filter (\<lambda>l. 0 \<le> link_id l \<and> link_id l < 9 \<and> link_retrieved_at l < id 5) (tb_links two_links) =
      [zero_link, zero_link\<lparr>link_id := 1\<rparr>]"
    by (simp add: links_in_partition_query_def)
  have wire: "breaking_wire (links_in_partition_query id 0 9 5 two_links) =
      Inr \<lparr>rw_rows = map (\<lambda>x. (x, None)) (take 1 (links_in_partition_query id 0 9 5 two_links)),
           rw_err = Some (Errorf ''connection reset''), rw_close_err = None\<rparr>"
    by (simp add: breaking_wire_def)
  from cdb_links_iterator_hides_broken_stream [of breaking_wire id 0 9 5 two_links 1
      "Some (Errorf ''connection reset'')", OF wire] show ?thesis
    unfolding ls sel by simp
qed

end
