(* ===== verification/CrawlerGraph.thy ===== *)
theory CrawlerGraph
  imports Crawler InMemGraph CdbGraph
begin

text \<open>
  The graph updater as a client of the link graph: its effect is derived from the contract
  \<open>link_graph_store\<close> alone, then instantiated with the in-memory graph and with CockroachDB.
\<close>

section \<open>Growing stores\<close>

text \<open>No link is lost and none changes its identifier or URL.\<close>

definition links_kept :: "link_store \<Rightarrow> link_store \<Rightarrow> bool" where
  "links_kept A B \<longleftrightarrow> (\<forall>i u. has_url A i u \<longrightarrow> has_url B i u)"

lemma links_kept_refl: "links_kept A A"
  by (simp add: links_kept_def)

lemma links_kept_trans: "links_kept A B \<Longrightarrow> links_kept B C \<Longrightarrow> links_kept A C"
  by (simp add: links_kept_def)

lemma has_url_dom: "has_url A i u \<Longrightarrow> i \<in> dom (st_links A)"
  by (auto simp: has_url_def)

lemma links_kept_dom: "links_kept A B \<Longrightarrow> i \<in> dom (st_links A) \<Longrightarrow> i \<in> dom (st_links B)"
  unfolding links_kept_def has_url_def by blast

lemma has_url_put_link: "has_url (put_link i x A) j u \<longleftrightarrow> (if j = i then link_url x = u else has_url A j u)"
  by (simp add: has_url_def store_simps)

lemma links_kept_put_link:
  "has_url A i (link_url x) \<or> i \<notin> dom (st_links A) \<Longrightarrow> links_kept A (put_link i x A)"
  by (auto simp: links_kept_def has_url_put_link) (auto simp: has_url_def)

lemma links_kept_put_edge: "links_kept A (put_edge i s d now A)"
  by (simp add: links_kept_def has_url_def store_simps)

text \<open>The edges of one source, as its targets; and the edges of all other sources.\<close>

definition targets :: "link_store \<Rightarrow> uuid \<Rightarrow> uuid set" where
  "targets A s = {d. \<exists>i. has_edge A i s d}"

definition other_edges_same :: "uuid \<Rightarrow> link_store \<Rightarrow> link_store \<Rightarrow> bool" where
  "other_edges_same s A B \<longleftrightarrow> (\<forall>i e. edge_src e \<noteq> s \<longrightarrow> st_edges A i = Some e \<longleftrightarrow> st_edges B i = Some e)"

text \<open>
  The effect of the loop over the links: an edge of source s that B has and A has not, or not
  with the same time, was stamped at t or later and leads to a page of \<open>urls\<close>; no edge of s is
  lost; and every page of \<open>urls\<close> is reached by an edge stamped at t or later.
\<close>

definition edges_added :: "uuid \<Rightarrow> go_time \<Rightarrow> string set \<Rightarrow> link_store \<Rightarrow> link_store \<Rightarrow> bool" where
  "edges_added s t urls A B \<longleftrightarrow>
     (\<forall>i e. st_edges B i = Some e \<longrightarrow> edge_src e = s \<longrightarrow>
        st_edges A i = Some e \<or> (t \<le> edge_updated_at e \<and> (\<exists>u\<in>urls. has_url B (edge_dst e) u))) \<and>
     (\<forall>i e. st_edges A i = Some e \<longrightarrow> edge_src e = s \<longrightarrow>
        (\<exists>e'. st_edges B i = Some e' \<and> edge_src e' = s \<and> edge_dst e' = edge_dst e \<and>
           (e' = e \<or> t \<le> edge_updated_at e'))) \<and>
     (\<forall>u\<in>urls. \<exists>i e. st_edges B i = Some e \<and> edge_src e = s \<and> has_url B (edge_dst e) u \<and> t \<le> edge_updated_at e)"

text \<open>The identifiers in use.\<close>

definition ids_within :: "uuid set \<Rightarrow> link_store \<Rightarrow> bool" where
  "ids_within D A \<longleftrightarrow> dom (st_links A) \<subseteq> D \<and> dom (st_edges A) \<subseteq> D"

context link_graph_store
begin

lemma upsert_url:
  assumes "inv s" "upsert_link ds x s = Some (r, s')"
  obtains y where "r = Returns y" "inv s'" "has_url (abs s') (link_id y) (link_url x)"
    "links_kept (abs s) (abs s')" "st_edges (abs s') = st_edges (abs s)"
    "abs s' = put_link (link_id y) x (abs s)"
proof -
  obtain y where y: "r = Returns y" "inv s'" "abs s' = put_link (link_id y) x (abs s)"
    "has_url (abs s) (link_id y) (link_url x) \<or> link_id y \<notin> dom (st_links (abs s))"
    using upsert_link_spec [OF assms] by blast
  show ?thesis
    by (rule that [of y]) (use y in \<open>simp_all add: has_url_put_link links_kept_put_link store_simps\<close>)
qed

lemma add_no_follow_spec:
  assumes "inv s" "add_no_follow upsert_link draws k urls s = Some (r, s')"
  shows "r = Forward () \<and> inv s' \<and> links_kept (abs s) (abs s') \<and> st_edges (abs s') = st_edges (abs s) \<and>
    (\<forall>u\<in>set urls. \<exists>i. has_url (abs s') i u)"
  using assms
proof (induction urls arbitrary: k s)
  case (Cons u urls)
  obtain r1 s1 where up: "upsert_link (draws k) (zero_link\<lparr>link_url := u\<rparr>) s = Some (r1, s1)"
    using Cons.prems(2) by (cases "upsert_link (draws k) (zero_link\<lparr>link_url := u\<rparr>) s") auto
  obtain y where y: "r1 = Returns y" "inv s1" "has_url (abs s1) (link_id y) u"
    "links_kept (abs s) (abs s1)" "st_edges (abs s1) = st_edges (abs s)"
    by (rule upsert_url [OF Cons.prems(1) up]) simp
  have "add_no_follow upsert_link draws (Suc k) urls s1 = Some (r, s')"
    using Cons.prems(2) up y(1) by simp
  note IH = Cons.IH [OF y(2) this]
  have "has_url (abs s') (link_id y) u" using IH y(3) by (simp add: links_kept_def)
  then show ?case
    using IH y(4,5) links_kept_trans by auto
qed (simp add: links_kept_refl)

lemma add_links_spec:
  assumes "inv s" "src \<in> dom (st_links (abs s))" "\<forall>n\<ge>k. t \<le> clock n"
    "add_links upsert_link upsert_edge draws clock src k urls s = Some (r, s')"
  shows "r = Forward () \<and> inv s' \<and> links_kept (abs s) (abs s') \<and> other_edges_same src (abs s) (abs s') \<and>
    edges_added src t (set urls) (abs s) (abs s')"
  using assms
proof (induction urls arbitrary: k s)
  case Nil
  then show ?case by (simp add: links_kept_refl other_edges_same_def edges_added_def)
next
  case (Cons u urls)
  obtain r1 s1 where up: "upsert_link (draws k) (zero_link\<lparr>link_url := u\<rparr>) s = Some (r1, s1)"
    using Cons.prems(4) by (cases "upsert_link (draws k) (zero_link\<lparr>link_url := u\<rparr>) s") auto
  obtain y where y: "r1 = Returns y" "inv s1" "has_url (abs s1) (link_id y) u"
    "links_kept (abs s) (abs s1)" "st_edges (abs s1) = st_edges (abs s)"
    by (rule upsert_url [OF Cons.prems(1) up]) simp
  have src1: "src \<in> dom (st_links (abs s1))" using Cons.prems(2) links_kept_dom [OF y(4)] by blast
  have dst1: "link_id y \<in> dom (st_links (abs s1))" using has_url_dom [OF y(3)] .
  let ?e = "zero_edge\<lparr>edge_src := src, edge_dst := link_id y\<rparr>"
  obtain r2 s2 where ue: "upsert_edge (draws (k + 1)) (clock (k + 1)) ?e s1 = Some (r2, s2)"
    using Cons.prems(4) up y(1) by (cases "upsert_edge (draws (k + 1)) (clock (k + 1)) ?e s1") auto
  obtain z where z: "r2 = Returns z" "inv s2"
    "abs s2 = put_edge (edge_id z) src (link_id y) (clock (k + 1)) (abs s1)"
    "has_edge (abs s1) (edge_id z) src (link_id y) \<or> edge_id z \<notin> dom (st_edges (abs s1))"
    using upsert_edge_spec [OF y(2) _ _ ue] src1 dst1 by auto
  have rest: "add_links upsert_link upsert_edge draws clock src (k + 2) urls s2 = Some (r, s')"
    using Cons.prems(4) up y(1) ue z(1) by simp
  have src2: "src \<in> dom (st_links (abs s2))" using src1 z(3) by (simp add: store_simps)
  have kept2: "links_kept (abs s1) (abs s2)" using z(3) links_kept_put_edge by simp
  have "\<forall>n\<ge>k + 2. t \<le> clock n" using Cons.prems(3) by simp
  note IH = Cons.IH [OF z(2) src2 this rest]
  have t: "t \<le> clock (k + 1)" using Cons.prems(3) by simp
  have edges2: "st_edges (abs s2) j = (if j = edge_id z
      then Some \<lparr>edge_id = edge_id z, edge_src = src, edge_dst = link_id y, edge_updated_at = clock (k + 1)\<rparr>
      else st_edges (abs s) j)" for j
    using z(3) y(5) by (simp add: store_simps)
  have old: "\<And>e. st_edges (abs s) (edge_id z) = Some e \<Longrightarrow> edge_src e = src"
    using z(4) y(5) by (auto simp: has_edge_def)
  have "other_edges_same src (abs s) (abs s2)"
    using old by (auto simp: other_edges_same_def edges2)
  then have others: "other_edges_same src (abs s) (abs s')"
    using IH unfolding other_edges_same_def by blast
  have urls': "has_url (abs s') (link_id y) u"
    using IH y(3) kept2 by (simp add: links_kept_def)
  have "edges_added src t (set (u # urls)) (abs s) (abs s')"
    unfolding edges_added_def
  proof (intro conjI allI impI ballI)
    fix i e assume e: "st_edges (abs s') i = Some e" "edge_src e = src"
    then consider "st_edges (abs s2) i = Some e"
      | "t \<le> edge_updated_at e" "\<exists>u\<in>set urls. has_url (abs s') (edge_dst e) u"
      using IH unfolding edges_added_def by blast
    then show "st_edges (abs s) i = Some e \<or>
        t \<le> edge_updated_at e \<and> (\<exists>u\<in>set (u # urls). has_url (abs s') (edge_dst e) u)"
    proof cases
      case 1
      then show ?thesis using t urls' by (cases "i = edge_id z") (auto simp: edges2)
    qed auto
  next
    fix i e assume e: "st_edges (abs s) i = Some e" "edge_src e = src"
    obtain e2 where e2: "st_edges (abs s2) i = Some e2" "edge_src e2 = src" "edge_dst e2 = edge_dst e"
      "e2 = e \<or> t \<le> edge_updated_at e2"
      using e z(4) y(5) t by (cases "i = edge_id z") (auto simp: edges2 has_edge_def)
    then obtain e' where "st_edges (abs s') i = Some e'" "edge_src e' = src" "edge_dst e' = edge_dst e2"
      "e' = e2 \<or> t \<le> edge_updated_at e'"
      using IH unfolding edges_added_def by blast
    then show "\<exists>e'. st_edges (abs s') i = Some e' \<and> edge_src e' = src \<and> edge_dst e' = edge_dst e \<and>
        (e' = e \<or> t \<le> edge_updated_at e')"
      using e2(3,4) by metis
  next
    fix w assume "w \<in> set (u # urls)"
    then consider "w \<in> set urls" | "w = u" by auto
    then show "\<exists>i e. st_edges (abs s') i = Some e \<and> edge_src e = src \<and> has_url (abs s') (edge_dst e) w \<and>
        t \<le> edge_updated_at e"
    proof cases
      case 1
      then show ?thesis using IH unfolding edges_added_def by blast
    next
      case 2
      let ?e2 = "\<lparr>edge_id = edge_id z, edge_src = src, edge_dst = link_id y, edge_updated_at = clock (k + 1)\<rparr>"
      have e2: "st_edges (abs s2) (edge_id z) = Some ?e2" by (simp add: edges2)
      obtain e where e: "st_edges (abs s') (edge_id z) = Some e" "edge_src e = src" "edge_dst e = link_id y"
        "e = ?e2 \<or> t \<le> edge_updated_at e"
      proof -
        have "\<forall>i e. st_edges (abs s2) i = Some e \<longrightarrow> edge_src e = src \<longrightarrow>
          (\<exists>e'. st_edges (abs s') i = Some e' \<and> edge_src e' = src \<and> edge_dst e' = edge_dst e \<and>
           (e' = e \<or> t \<le> edge_updated_at e'))"
          using IH unfolding edges_added_def by blast
        from this [rule_format, OF e2] show thesis using that by auto
      qed
      then have "t \<le> edge_updated_at e"
      proof (cases "e = ?e2")
        case True
        have "edge_updated_at e = clock (k + 1)" by (subst True) simp
        then show ?thesis using t by simp
      qed simp
      then show ?thesis using e urls' 2 by metis
    qed
  qed
  then show ?case using IH others y(4) kept2 links_kept_trans by blast
qed

text \<open>The whole stage.\<close>

lemma graph_updater_spec:
  assumes "inv s" "graph_updater_process upsert_link upsert_edge remove_stale_edges draws clock p s = Some (r, s')"
    "K = Suc (length (pl_no_follow_links p))" "\<forall>n\<ge>K. clock K \<le> clock n"
  obtains src where "r = Forward ()" "inv s'" "has_url (abs s') src (pl_url p)"
    "links_kept (abs s) (abs s')" "\<forall>u \<in> set (pl_no_follow_links p @ pl_links p). \<exists>i. has_url (abs s') i u"
    "other_edges_same src (abs s) (abs s')"
    "\<forall>e i. st_edges (abs s) i = Some e \<longrightarrow> edge_src e = src \<longrightarrow> edge_updated_at e < clock K \<Longrightarrow>
       targets (abs s') src = {d. \<exists>u \<in> set (pl_links p). has_url (abs s') d u}"
proof -
  let ?x = "\<lparr>link_id = pl_link_id p, link_url = pl_url p, link_retrieved_at = clock 0\<rparr>"
  obtain r1 s1 where up: "upsert_link (draws 0) ?x s = Some (r1, s1)"
    using assms(2) by (cases "upsert_link (draws 0) ?x s") (auto simp: graph_updater_process_def)
  obtain y where y: "r1 = Returns y" "inv s1" "has_url (abs s1) (link_id y) (pl_url p)"
    "links_kept (abs s) (abs s1)" "st_edges (abs s1) = st_edges (abs s)"
    by (rule upsert_url [OF assms(1) up]) simp
  obtain r2 s2 where nf: "add_no_follow upsert_link draws 1 (pl_no_follow_links p) s1 = Some (r2, s2)"
    using assms(2) up y(1)
    by (cases "add_no_follow upsert_link draws 1 (pl_no_follow_links p) s1") (auto simp: graph_updater_process_def)
  note N = add_no_follow_spec [OF y(2) nf]
  have src2: "link_id y \<in> dom (st_links (abs s2))"
    using has_url_dom [OF y(3)] links_kept_dom N by blast
  obtain r3 s3 where al: "add_links upsert_link upsert_edge draws clock (link_id y) (Suc K) (pl_links p) s2 = Some (r3, s3)"
    using assms(2,3) up y(1) nf N
    by (cases "add_links upsert_link upsert_edge draws clock (link_id y) (Suc K) (pl_links p) s2")
      (auto simp: graph_updater_process_def Let_def)
  have "inv s2" "\<forall>n\<ge>Suc K. clock K \<le> clock n" using N assms(4) by auto
  note A = add_links_spec [OF this(1) src2 this(2) al]
  obtain s4 where rs: "remove_stale_edges (link_id y) (clock K) s3 = (Returns (), s4)" "inv s4"
    "abs s4 = drop_stale (link_id y) (clock K) (abs s3)"
    using remove_stale_spec [of s3 "link_id y" "clock K"] A by blast
  have res: "r = Forward ()" "s' = s4"
    using assms(2,3) up y(1) nf N al A rs(1) by (auto simp: graph_updater_process_def Let_def)
  have url4: "has_url (abs s4) i u \<longleftrightarrow> has_url (abs s3) i u" for i u
    by (simp add: has_url_def rs(3) store_simps)
  have kept: "links_kept (abs s) (abs s2)" "links_kept (abs s2) (abs s3)" "links_kept (abs s1) (abs s3)"
    using y(4) N A links_kept_trans by blast+
  show ?thesis
  proof (rule that [of "link_id y"])
    show "r = Forward ()" "inv s'" using res rs(2) by simp_all
    show "has_url (abs s') (link_id y) (pl_url p)"
      using y(3) kept(3) by (simp add: res url4 links_kept_def)
    show "links_kept (abs s) (abs s')" using kept by (simp add: res url4 links_kept_def)
    show "\<forall>u \<in> set (pl_no_follow_links p @ pl_links p). \<exists>i. has_url (abs s') i u"
    proof
      fix u assume "u \<in> set (pl_no_follow_links p @ pl_links p)"
      then consider "u \<in> set (pl_no_follow_links p)" | "u \<in> set (pl_links p)" by auto
      then show "\<exists>i. has_url (abs s') i u"
      proof cases
        case 1
        then obtain i where "has_url (abs s2) i u" using N by blast
        then show ?thesis using kept(2) unfolding res url4 links_kept_def by blast
      next
        case 2
        then show ?thesis using A unfolding edges_added_def res url4 by blast
      qed
    qed
    have "other_edges_same (link_id y) (abs s2) (abs s4)"
      using A unfolding other_edges_same_def rs(3) by (auto simp: store_simps is_stale_def)
    then show "other_edges_same (link_id y) (abs s) (abs s')"
      using N y(5) by (simp add: other_edges_same_def res)
    assume old: "\<forall>e i. st_edges (abs s) i = Some e \<longrightarrow> edge_src e = link_id y \<longrightarrow> edge_updated_at e < clock K"
    have e4: "st_edges (abs s') i = Some e \<and> edge_src e = link_id y \<longleftrightarrow>
        st_edges (abs s3) i = Some e \<and> edge_src e = link_id y \<and> clock K \<le> edge_updated_at e" for i e
      by (auto simp: res rs(3) store_simps is_stale_def)
    show "targets (abs s') (link_id y) = {d. \<exists>u \<in> set (pl_links p). has_url (abs s') d u}"
    proof (intro set_eqI iffI)
      fix d assume "d \<in> targets (abs s') (link_id y)"
      then obtain i e where e: "st_edges (abs s') i = Some e" "edge_src e = link_id y" "edge_dst e = d"
        by (auto simp: targets_def has_edge_def)
      then have e3: "st_edges (abs s3) i = Some e" "clock K \<le> edge_updated_at e" using e4 by blast+
      have "st_edges (abs s2) i \<noteq> Some e" using old e(2) e3(2) N y(5) by (metis not_less)
      then show "d \<in> {d. \<exists>u \<in> set (pl_links p). has_url (abs s') d u}"
        using A e3(1) e(2,3) unfolding edges_added_def res url4 by blast
    next
      fix d assume "d \<in> {d. \<exists>u \<in> set (pl_links p). has_url (abs s') d u}"
      then obtain u where u: "u \<in> set (pl_links p)" "has_url (abs s3) d u" by (auto simp: res url4)
      then obtain i e where e: "st_edges (abs s3) i = Some e" "edge_src e = link_id y"
        "has_url (abs s3) (edge_dst e) u" "clock K \<le> edge_updated_at e"
        using A unfolding edges_added_def by blast
      have "edge_dst e = d" using store_okD(5) [OF abs_ok e(3) u(2)] A by blast
      then show "d \<in> targets (abs s') (link_id y)"
        using e4 e(1,2,4) unfolding targets_def has_edge_def by blast
    qed
  qed
qed

text \<open>With fresh identifiers at hand every call returns.\<close>

lemma upsert_link_fresh:
  assumes "inv s" "ids_within (D \<union> f ` {..<k}) (abs s)" "inj_on f {..<N}" "\<forall>n<N. f n \<notin> D" "k < N"
  shows "\<exists>y s'. upsert_link [f k] x s = Some (Returns y, s') \<and> inv s' \<and> ids_within (D \<union> f ` {..<Suc k}) (abs s')"
proof -
  have "f k \<notin> D \<union> f ` {..<k}" using assms(3,4,5) by (auto dest: inj_onD)
  then have "f k \<notin> dom (st_links (abs s))" using assms(2) by (auto simp: ids_within_def)
  then obtain r s' where r: "upsert_link [f k] x s = Some (r, s')"
    using upsert_link_returns [OF assms(1), of x "[f k]"] by fastforce
  obtain y where y: "r = Returns y" "inv s'" "abs s' = put_link (link_id y) x (abs s)"
    "has_url (abs s) (link_id y) (link_url x) \<or> link_id y = f k"
    using upsert_link_spec [OF assms(1) r] by auto
  have "link_id y \<in> D \<union> f ` {..<Suc k}"
    using y(4) has_url_dom [of "abs s" "link_id y"] assms(2) by (auto simp: ids_within_def lessThan_Suc)
  then have "ids_within (D \<union> f ` {..<Suc k}) (abs s')"
    using assms(2) unfolding ids_within_def y(3) by (auto simp: put_link_def lessThan_Suc)
  then show ?thesis using r y by blast
qed

lemma upsert_edge_fresh:
  assumes "inv s" "ids_within (D \<union> f ` {..<k}) (abs s)" "inj_on f {..<N}" "\<forall>n<N. f n \<notin> D" "k < N"
    "edge_src e \<in> dom (st_links (abs s))" "edge_dst e \<in> dom (st_links (abs s))"
  shows "\<exists>y s'. upsert_edge [f k] now e s = Some (Returns y, s') \<and> inv s' \<and>
    ids_within (D \<union> f ` {..<Suc k}) (abs s') \<and> st_links (abs s') = st_links (abs s)"
proof -
  have "f k \<notin> D \<union> f ` {..<k}" using assms(3,4,5) by (auto dest: inj_onD)
  then have "f k \<notin> dom (st_edges (abs s))" using assms(2) by (auto simp: ids_within_def)
  then obtain r s' where r: "upsert_edge [f k] now e s = Some (r, s')"
    using upsert_edge_returns [OF assms(1,6,7), of "[f k]" now] by fastforce
  obtain y where y: "r = Returns y" "inv s'"
    "abs s' = put_edge (edge_id y) (edge_src e) (edge_dst e) now (abs s)"
    "has_edge (abs s) (edge_id y) (edge_src e) (edge_dst e) \<or> edge_id y = f k"
    using upsert_edge_spec [OF assms(1,6,7) r] by auto
  have "edge_id y \<in> D \<union> f ` {..<Suc k}"
    using y(4) assms(2) by (auto simp: ids_within_def lessThan_Suc has_edge_def)
  then have "ids_within (D \<union> f ` {..<Suc k}) (abs s')"
    using assms(2) unfolding ids_within_def y(3) by (auto simp: put_edge_def lessThan_Suc)
  then show ?thesis using r y by (auto simp: put_edge_def)
qed

lemma add_no_follow_returns:
  assumes "inv s" "ids_within (D \<union> f ` {..<k}) (abs s)" "inj_on f {..<N}" "\<forall>n<N. f n \<notin> D"
    "k + length urls \<le> N"
  shows "\<exists>s'. add_no_follow upsert_link (\<lambda>k. [f k]) k urls s = Some (Forward (), s') \<and> inv s' \<and>
    ids_within (D \<union> f ` {..<k + length urls}) (abs s')"
  using assms(1,2,5)
proof (induction urls arbitrary: k s)
  case (Cons u urls)
  obtain y s1 where up: "upsert_link [f k] (zero_link\<lparr>link_url := u\<rparr>) s = Some (Returns y, s1)" "inv s1"
    "ids_within (D \<union> f ` {..<Suc k}) (abs s1)"
    using upsert_link_fresh [OF Cons.prems(1,2) assms(3,4), of "zero_link\<lparr>link_url := u\<rparr>"] Cons.prems(3) by auto
  have "Suc k + length urls \<le> N" using Cons.prems(3) by simp
  from Cons.IH [OF up(2,3) this] show ?case using up(1) by simp
qed simp

lemma add_links_returns:
  assumes "inv s" "ids_within (D \<union> f ` {..<k}) (abs s)" "inj_on f {..<N}" "\<forall>n<N. f n \<notin> D"
    "src \<in> dom (st_links (abs s))" "k + 2 * length urls \<le> N"
  shows "\<exists>s'. add_links upsert_link upsert_edge (\<lambda>k. [f k]) clock src k urls s = Some (Forward (), s') \<and> inv s'"
  using assms(1,2,5,6)
proof (induction urls arbitrary: k s)
  case (Cons u urls)
  have k: "k < N" "Suc k < N" "k + 2 + 2 * length urls \<le> N" using Cons.prems(4) by auto
  obtain y s1 where up: "upsert_link [f k] (zero_link\<lparr>link_url := u\<rparr>) s = Some (Returns y, s1)" "inv s1"
    "ids_within (D \<union> f ` {..<Suc k}) (abs s1)"
    using upsert_link_fresh [OF Cons.prems(1,2) assms(3,4) k(1)] by blast
  obtain y' where y': "Returns y = Returns y'" "has_url (abs s1) (link_id y') u" "links_kept (abs s) (abs s1)"
    by (rule upsert_url [OF Cons.prems(1) up(1)]) simp
  have d: "src \<in> dom (st_links (abs s1))" "link_id y \<in> dom (st_links (abs s1))"
    using Cons.prems(3) links_kept_dom [OF y'(3)] y'(1) has_url_dom [OF y'(2)] by auto
  obtain z s2 where ue: "upsert_edge [f (Suc k)] (clock (Suc k)) (zero_edge\<lparr>edge_src := src, edge_dst := link_id y\<rparr>) s1 =
      Some (Returns z, s2)" "inv s2" "ids_within (D \<union> f ` {..<Suc (Suc k)}) (abs s2)"
    "st_links (abs s2) = st_links (abs s1)"
    using upsert_edge_fresh [OF up(2,3) assms(3,4) k(2), of "zero_edge\<lparr>edge_src := src, edge_dst := link_id y\<rparr>" "clock (Suc k)"] d
    by auto
  have "src \<in> dom (st_links (abs s2))" using d(1) ue(4) by simp
  from Cons.IH [OF ue(2) _ this] show ?case using up(1) ue(1,3) k(3) by simp
qed simp

lemma graph_updater_returns:
  assumes "inv s" "ids_within D (abs s)" "inj_on f {..<N}" "\<forall>n<N. f n \<notin> D"
    "Suc (Suc (length (pl_no_follow_links p))) + 2 * length (pl_links p) \<le> N"
  shows "\<exists>s'. graph_updater_process upsert_link upsert_edge remove_stale_edges (\<lambda>k. [f k]) clock p s =
    Some (Forward (), s')"
proof -
  let ?x = "\<lparr>link_id = pl_link_id p, link_url = pl_url p, link_retrieved_at = clock 0\<rparr>"
  have "ids_within (D \<union> f ` {..<0}) (abs s)" using assms(2) by simp
  from upsert_link_fresh [OF assms(1) this assms(3,4), of ?x]
  obtain y s1 where up: "upsert_link [f 0] ?x s = Some (Returns y, s1)" "inv s1" "ids_within (D \<union> f ` {..<1}) (abs s1)"
    using assms(5) by auto
  obtain y' where y': "Returns y = Returns y'" "has_url (abs s1) (link_id y') (pl_url p)"
    by (rule upsert_url [OF assms(1) up(1)]) simp
  obtain s2 where nf: "add_no_follow upsert_link (\<lambda>k. [f k]) 1 (pl_no_follow_links p) s1 = Some (Forward (), s2)"
    "inv s2" "ids_within (D \<union> f ` {..<1 + length (pl_no_follow_links p)}) (abs s2)"
    using add_no_follow_returns [OF up(2,3) assms(3,4), of "pl_no_follow_links p"] assms(5) by auto
  let ?K = "Suc (length (pl_no_follow_links p))"
  have "links_kept (abs s1) (abs s2)" using add_no_follow_spec [OF up(2) nf(1)] by simp
  then have d: "link_id y \<in> dom (st_links (abs s2))"
    using y' has_url_dom [OF y'(2)] links_kept_dom by auto
  have "ids_within (D \<union> f ` {..<Suc ?K}) (abs s2)"
    using nf(3) by (auto simp: ids_within_def lessThan_Suc)
  from add_links_returns [OF nf(2) this assms(3,4) d, of "pl_links p"] assms(5) obtain s3 where
    al: "add_links upsert_link upsert_edge (\<lambda>k. [f k]) clock (link_id y) (Suc ?K) (pl_links p) s2 = Some (Forward (), s3)" "inv s3"
    by auto
  obtain s4 where "remove_stale_edges (link_id y) (clock ?K) s3 = (Returns (), s4)"
    using remove_stale_spec [OF al(2)] by blast
  then show ?thesis using up(1) nf(1) al(1) by (simp add: graph_updater_process_def Let_def)
qed

end

section \<open>On the in-memory graph\<close>

text \<open>
  C16. Processing a crawled page brings the link graph up to date, on the in-memory graph in any
  state its calls can reach, when every call draws an identifier not used before and the clock
  does not run backwards during the call.  The stage succeeds; the page is in the graph, under
  the identifier it had if it was known; every link is in the graph, nofollow or not; no link is
  lost or renamed and no edge of another page changes; and if the edges the page had were older
  than the call, its edges now lead exactly to the pages of its links, nofollow links excluded.
\<close>

theorem crawled_page_updates_graph:
  assumes "mem_reachable g"
    "inj_on f {..<N}" "\<forall>n<N. f n \<notin> dom (mg_links g) \<union> dom (mg_edges g)"
    "Suc (Suc (length (pl_no_follow_links p))) + 2 * length (pl_links p) \<le> N"
    "\<forall>n \<ge> Suc (length (pl_no_follow_links p)). clock (Suc (length (pl_no_follow_links p))) \<le> clock n"
    "\<forall>e i. st_edges (abs_graph g) i = Some e \<longrightarrow> edge_updated_at e < clock (Suc (length (pl_no_follow_links p)))"
  shows "\<exists>g' src. graph_updater_process upsert_link upsert_edge remove_stale_edges (\<lambda>k. [f k]) clock p g =
      Some (Forward (), g') \<and>
    has_url (abs_graph g') src (pl_url p) \<and>
    (\<forall>u \<in> set (pl_no_follow_links p @ pl_links p). \<exists>i. has_url (abs_graph g') i u) \<and>
    (\<forall>i u. has_url (abs_graph g) i u \<longrightarrow> has_url (abs_graph g') i u) \<and>
    (\<forall>i e. edge_src e \<noteq> src \<longrightarrow> st_edges (abs_graph g) i = Some e \<longleftrightarrow> st_edges (abs_graph g') i = Some e) \<and>
    {d. \<exists>i. has_edge (abs_graph g') i src d} = {d. \<exists>u \<in> set (pl_links p). has_url (abs_graph g') d u}"
proof -
  have inv: "mem_inv g" using assms(1) by (rule mem_reachable_inv)
  have "ids_within (dom (mg_links g) \<union> dom (mg_edges g)) (abs_graph g)" by (auto simp: ids_within_def)
  from inmem.graph_updater_returns [OF inv this assms(2,3,4)] obtain g' where
    g': "graph_updater_process upsert_link upsert_edge remove_stale_edges (\<lambda>k. [f k]) clock p g = Some (Forward (), g')"
    by blast
  show ?thesis
    by (rule inmem.graph_updater_spec [OF inv g' refl assms(5)])
      (use g' assms(6) in \<open>auto simp: links_kept_def other_edges_same_def targets_def\<close>)
qed

definition demo_page :: payload where
  "demo_page = \<lparr>pl_link_id = 0, pl_url = ''a'', pl_retrieved_at = 0, pl_raw_content = [],
     pl_no_follow_links = [], pl_links = [''b''], pl_title = [], pl_text_content = []\<rparr>"

lemma crawled_page_updates_graph_witness:
  "\<exists>g' src. graph_updater_process upsert_link upsert_edge remove_stale_edges (\<lambda>k. [of_nat k])
      (\<lambda>k. int k) demo_page new_mem_graph = Some (Forward (), g') \<and>
    has_url (abs_graph g') src ''a'' \<and> (\<exists>d. has_url (abs_graph g') d ''b'' \<and> (\<exists>i. has_edge (abs_graph g') i src d))"
proof -
  have inj: "inj_on (of_nat :: nat \<Rightarrow> uuid) {..<4}"
  proof (rule inj_onI)
    fix a b :: nat assume ab: "a \<in> {..<4}" "b \<in> {..<4}" and eq: "(of_nat a :: uuid) = of_nat b"
    have "unat (of_nat a :: uuid) = a" "unat (of_nat b :: uuid) = b"
      using ab
      by (simp_all add: unsigned_of_nat take_bit_nat_eq_self)
    then show "a = b" using eq by metis
  qed
  have used: "\<forall>n<4. (of_nat n :: uuid) \<notin> dom (mg_links new_mem_graph) \<union> dom (mg_edges new_mem_graph)"
    by (simp add: new_mem_graph_def)
  have len: "Suc (Suc (length (pl_no_follow_links demo_page))) + 2 * length (pl_links demo_page) \<le> 4"
    by (simp add: demo_page_def)
  have old: "\<forall>e i. st_edges (abs_graph new_mem_graph) i = Some e \<longrightarrow>
      edge_updated_at e < int (Suc (length (pl_no_follow_links demo_page)))"
    by (simp add: new_mem_graph_def)
  obtain g' src where g': "graph_updater_process upsert_link upsert_edge remove_stale_edges (\<lambda>k. [of_nat k])
      (\<lambda>k. int k) demo_page new_mem_graph = Some (Forward (), g')" "has_url (abs_graph g') src (pl_url demo_page)"
    "\<forall>u \<in> set (pl_no_follow_links demo_page @ pl_links demo_page). \<exists>i. has_url (abs_graph g') i u"
    "{d. \<exists>i. has_edge (abs_graph g') i src d} = {d. \<exists>u \<in> set (pl_links demo_page). has_url (abs_graph g') d u}"
    using crawled_page_updates_graph [OF reach_new inj used len, of "\<lambda>k. int k"] old by auto
  then obtain d where d: "has_url (abs_graph g') d ''b''" by (auto simp: demo_page_def)
  then have "d \<in> {d. \<exists>i. has_edge (abs_graph g') i src d}" using g'(4) by (simp add: demo_page_def)
  then show ?thesis using g'(1,2) d by (intro exI [of _ g'] exI [of _ src]) (auto simp: demo_page_def)
qed

text \<open>
  The same on CockroachDB, while the connection holds and the generator returns unused
  identifiers.
\<close>

lemma crawled_page_updates_cdb:
  assumes "db_ok D"
    and "inj_on f {..<N}" "\<forall>n<N. f n \<notin> link_id ` set (tb_links D) \<union> edge_id ` set (tb_edges D)"
    and "Suc (Suc (length (pl_no_follow_links p))) + 2 * length (pl_links p) \<le> N"
    and "\<forall>n \<ge> Suc (length (pl_no_follow_links p)). clock (Suc (length (pl_no_follow_links p))) \<le> clock n"
    and "\<forall>e i. st_edges (abs_db D) i = Some e \<longrightarrow> edge_updated_at e < clock (Suc (length (pl_no_follow_links p)))"
  shows "\<exists>D' src. graph_updater_process cdb_ul cdb_ue (cdb_remove_stale_edges id Connected) (\<lambda>k. [f k]) clock p D =
      Some (Forward (), D') \<and> db_ok D' \<and> has_url (abs_db D') src (pl_url p) \<and>
    {d. \<exists>i. has_edge (abs_db D') i src d} = {d. \<exists>u \<in> set (pl_links p). has_url (abs_db D') d u}"
proof -
  have "ids_within (link_id ` set (tb_links D) \<union> edge_id ` set (tb_edges D)) (abs_db D)"
    by (auto simp: ids_within_def dom_links_abs_db dom_edges_abs_db)
  from cdb.graph_updater_returns [OF assms(1) this assms(2,3,4)] obtain D' where
    D': "graph_updater_process cdb_ul cdb_ue (cdb_remove_stale_edges id Connected) (\<lambda>k. [f k]) clock p D = Some (Forward (), D')"
    by blast
  show ?thesis
    by (rule cdb.graph_updater_spec [OF assms(1) D' refl assms(5)])
      (use D' assms(6) in \<open>auto simp: targets_def\<close>)
qed

end
