(* ===== verification/CrawlerStages.thy ===== *)
theory CrawlerStages
  imports Crawler "HOL-Library.Multiset"
begin

text \<open>
  Properties of the fetcher, the link extractor and the payloads of the crawler pipeline.
\<close>

section \<open>Payloads\<close>

text \<open>
  A payload that was processed and taken from the pool again carries nothing over from the
  page it held before: it equals a new one.  A clone has the contents of the original, but
  taking it empties the original's buffer.
\<close>

theorem payload_reuse_and_clone:
  "link_source_payload (payload_mark_as_processed p) l = link_source_payload new_payload l \<and>
   fst (payload_clone (payload_mark_as_processed q) p) = p \<and>
   snd (payload_clone (payload_mark_as_processed q) p) = p\<lparr>pl_raw_content := []\<rparr>"
  by (simp add: link_source_payload_def payload_mark_as_processed_def new_payload_def payload_clone_def)

section \<open>An example\<close>

text \<open>
  A small URL package for the examples: a URL is its host and path, all of them http, and every
  target is absolute.
\<close>

definition after_scheme :: "string \<Rightarrow> string" where
  "after_scheme s = drop 7 s"

definition demo_urls :: "string url_pkg" where
  "demo_urls = \<lparr>url_parse = (\<lambda>s. Inr \<lparr>u_scheme = ''http'', u_host = takeWhile (\<lambda>c. c \<noteq> CHR ''/'') (after_scheme s),
       u_fragment = [], u_rest = dropWhile (\<lambda>c. c \<noteq> CHR ''/'') (after_scheme s)\<rparr>),
     url_resolve_reference = (\<lambda>base u. u),
     url_string = (\<lambda>u. u_scheme u @ ''://'' @ u_host u @ u_rest u),
     url_hostname = u_host\<rparr>"

section \<open>The fetcher\<close>

text \<open>
  The workers of the fetch stage share the detector and the HTTP client.  A worker that is idle
  may take a payload; a busy one makes the next call of its program, and any answer may come
  back, so that the detector may even answer two questions about one host differently.  The log
  records, in the order in which they happen, what each worker does.
\<close>

datatype fetch_event =
    FetchStarted payload
  | LookedUp string "go_error + bool"
  | Requested string "go_error + http_response"
  | Fetched "payload processed"

record fetch_pool =
  fp_worker :: "nat \<Rightarrow> payload processed net_prog option"
  fp_log :: "(nat \<times> fetch_event) list"

definition idle_pool :: fetch_pool where
  "idle_pool = \<lparr>fp_worker = (\<lambda>_. None), fp_log = []\<rparr>"

definition fp_do :: "fetch_pool \<Rightarrow> nat \<Rightarrow> payload processed net_prog option \<Rightarrow> fetch_event \<Rightarrow> fetch_pool" where
  "fp_do s i c e = \<lparr>fp_worker = (fp_worker s)(i := c), fp_log = fp_log s @ [(i, e)]\<rparr>"

inductive fetch_step :: "'r url_pkg \<Rightarrow> fetch_pool \<Rightarrow> fetch_pool \<Rightarrow> bool" for U where
  fetch_start: "fp_worker s i = None \<Longrightarrow>
    fetch_step U s (fp_do s i (Some (link_fetcher_process U p)) (FetchStarted p))"
| fetch_ask: "fp_worker s i = Some (AskPrivate host k) \<Longrightarrow>
    fetch_step U s (fp_do s i (Some (k answer)) (LookedUp host answer))"
| fetch_get: "fp_worker s i = Some (SendGet url k) \<Longrightarrow>
    fetch_step U s (fp_do s i (Some (k answer)) (Requested url answer))"
| fetch_return: "fp_worker s i = Some (NetReturn r) \<Longrightarrow>
    fetch_step U s (fp_do s i None (Fetched r))"

definition events_of :: "nat \<Rightarrow> fetch_pool \<Rightarrow> fetch_event list" where
  "events_of i s = map snd (filter (\<lambda>x. fst x = i) (fp_log s))"

lemma events_of_do [simp]:
  "events_of j (fp_do s i c e) = events_of j s @ (if i = j then [e] else [])"
  "fp_worker (fp_do s i c e) j = (if i = j then c else fp_worker s j)"
  by (auto simp: events_of_def fp_do_def)

text \<open>The name that a URL is looked up under, if the fetcher gets as far as the lookup.\<close>

definition lookup_host :: "'r url_pkg \<Rightarrow> string \<Rightarrow> string option" where
  "lookup_host U url =
     (if match_string exclusion_regex url then None
      else (case url_parse U url of Inl _ \<Rightarrow> None | Inr u \<Rightarrow> Some (url_hostname U u)))"

text \<open>The result of a fetch that got a response.\<close>

definition response_result :: "payload \<Rightarrow> go_error + http_response \<Rightarrow> payload processed" where
  "response_result p response =
     (case response of
        Inr res \<Rightarrow>
          if res_status_code res \<in> {200..299} \<and> contains_str (res_content_type res) ''html''
          then (case res_body_error res of
                  None \<Rightarrow> Forward (p\<lparr>pl_raw_content := pl_raw_content p @ res_body res\<rparr>)
                | Some err \<Rightarrow> Aborted err)
          else Dropped
      | Inl _ \<Rightarrow> Dropped)"

lemma response_result_simps:
  "response_result p response = Forward q \<longleftrightarrow>
     (\<exists>res. response = Inr res \<and> res_status_code res \<in> {200..299} \<and>
        contains_str (res_content_type res) ''html'' \<and> res_body_error res = None \<and>
        q = p\<lparr>pl_raw_content := pl_raw_content p @ res_body res\<rparr>)"
  "response_result p response = Aborted err \<longleftrightarrow>
     (\<exists>res. response = Inr res \<and> res_status_code res \<in> {200..299} \<and>
        contains_str (res_content_type res) ''html'' \<and> res_body_error res = Some err)"
  "response_result p response \<noteq> Crashes m"
  by (auto simp: response_result_def split: sum.split option.split)

text \<open>How far a fetch of \<open>p\<close> is when its worker has seen the events \<open>t\<close> since its start.\<close>

definition fetch_rest ::
  "'r url_pkg \<Rightarrow> payload \<Rightarrow> fetch_event list \<Rightarrow> payload processed net_prog \<Rightarrow> bool" where
  "fetch_rest U p t c \<longleftrightarrow>
     (t = [] \<and> c = link_fetcher_process U p) \<or>
     (\<exists>host r. t = [LookedUp host r] \<and> lookup_host U (pl_url p) = Some host \<and>
        c = (if r = Inr False then SendGet (pl_url p) (\<lambda>response. NetReturn (response_result p response))
             else NetReturn Dropped)) \<or>
     (\<exists>host response. t = [LookedUp host (Inr False), Requested (pl_url p) response] \<and>
        lookup_host U (pl_url p) = Some host \<and> c = NetReturn (response_result p response))"

lemma link_fetcher_process_eq:
  "link_fetcher_process U p =
     (case lookup_host U (pl_url p) of
        None \<Rightarrow> NetReturn Dropped
      | Some host \<Rightarrow> AskPrivate host (\<lambda>r.
          if r = Inr False then SendGet (pl_url p) (\<lambda>response. NetReturn (response_result p response))
          else NetReturn Dropped))"
proof -
  have "(\<lambda>response. NetReturn
           (case response of
              Inl _ \<Rightarrow> Dropped
            | Inr res \<Rightarrow>
                if res_status_code res < 200 \<or> res_status_code res > 299 then Dropped
                else if \<not> contains_str (res_content_type res) ''html'' then Dropped
                else (case res_body_error res of
                        Some err \<Rightarrow> Aborted err
                      | None \<Rightarrow> Forward (p\<lparr>pl_raw_content := pl_raw_content p @ res_body res\<rparr>)))) =
      (\<lambda>response. NetReturn (response_result p response))"
    by (rule ext) (auto simp: response_result_def split: sum.split option.split)
  note body = this
  show ?thesis
    unfolding link_fetcher_process_def body
    by (auto simp: lookup_host_def fetcher_is_private_def fun_eq_iff split: sum.split bool.split)
qed

text \<open>Every worker that is busy is somewhere in the fetch of the payload that it took last.\<close>

definition fetch_inv :: "'r url_pkg \<Rightarrow> fetch_pool \<Rightarrow> bool" where
  "fetch_inv U s \<longleftrightarrow> (\<forall>i c. fp_worker s i = Some c \<longrightarrow>
     (\<exists>a p t. events_of i s = a @ FetchStarted p # t \<and> fetch_rest U p t c))"

lemma fetch_rest_ask:
  assumes "fetch_rest U p t (AskPrivate host k)"
  shows "t = [] \<and> fetch_rest U p [LookedUp host r] (k r)"
  using assms
  by (auto simp: fetch_rest_def link_fetcher_process_eq
      split: option.splits if_splits)

lemma fetch_rest_get:
  assumes "fetch_rest U p t (SendGet url k)"
  shows "\<exists>host. t = [LookedUp host (Inr False)] \<and> url = pl_url p \<and> lookup_host U url = Some host \<and>
    fetch_rest U p [LookedUp host (Inr False), Requested url r] (k r)"
  using assms
  by (auto simp: fetch_rest_def link_fetcher_process_eq
      split: option.splits if_splits)

lemma fetch_rest_return:
  assumes "fetch_rest U p t (NetReturn r)"
  shows "case lookup_host U (pl_url p) of
      None \<Rightarrow> t = [] \<and> r = Dropped
    | Some host \<Rightarrow> (\<exists>answer. answer \<noteq> Inr False \<and> t = [LookedUp host answer] \<and> r = Dropped) \<or>
        (\<exists>response. t = [LookedUp host (Inr False), Requested (pl_url p) response] \<and> r = response_result p response)"
  using assms
  by (auto simp: fetch_rest_def link_fetcher_process_eq
      split: option.splits if_splits)

lemma fetch_inv_worker:
  assumes "fetch_inv U s" "fp_worker s i = Some c"
  obtains a p t where "events_of i s = a @ FetchStarted p # t" "fetch_rest U p t c"
  using assms unfolding fetch_inv_def by blast

lemma fetch_inv_do:
  assumes "fetch_inv U s"
    and "\<And>c'. c = Some c' \<Longrightarrow> \<exists>a p t. events_of i s @ [e] = a @ FetchStarted p # t \<and> fetch_rest U p t c'"
  shows "fetch_inv U (fp_do s i c e)"
  using assms by (auto simp: fetch_inv_def)

lemma fetch_step_inv:
  assumes "fetch_step U s s'" "fetch_inv U s"
  shows "fetch_inv U s'"
  using assms
proof (induction rule: fetch_step.induct)
  case (fetch_start s i p)
  have "events_of i s @ [FetchStarted p] = events_of i s @ FetchStarted p # [] \<and>
      fetch_rest U p [] (link_fetcher_process U p)"
    by (simp add: fetch_rest_def)
  then show ?case by (intro fetch_inv_do [OF fetch_start(2)]) blast
next
  case (fetch_ask s i host k answer)
  obtain a p t where at: "events_of i s = a @ FetchStarted p # t" "fetch_rest U p t (AskPrivate host k)"
    by (rule fetch_inv_worker [OF fetch_ask(2,1)])
  show ?case using fetch_rest_ask [OF at(2), of answer] at(1)
    by (intro fetch_inv_do [OF fetch_ask(2)] exI [of _ a] exI [of _ p] exI [of _ "[LookedUp host answer]"]) auto
next
  case (fetch_get s i url k answer)
  obtain a p t where at: "events_of i s = a @ FetchStarted p # t" "fetch_rest U p t (SendGet url k)"
    by (rule fetch_inv_worker [OF fetch_get(2,1)])
  obtain host where "t = [LookedUp host (Inr False)]"
    "fetch_rest U p [LookedUp host (Inr False), Requested url answer] (k answer)"
    using fetch_rest_get [OF at(2), of answer] by auto
  then show ?case using at(1)
    by (intro fetch_inv_do [OF fetch_get(2)] exI [of _ a] exI [of _ p]
        exI [of _ "[LookedUp host (Inr False), Requested url answer]"]) auto
next
  case (fetch_return s i r)
  then show ?case by (intro fetch_inv_do) auto
qed

text \<open>What holds of an event and the events of its worker before it, in every log.\<close>

lemma fetch_log_induct:
  assumes reach: "(fetch_step U)\<^sup>*\<^sup>* idle_pool s"
    and step: "\<And>s i c e. fetch_inv U s \<Longrightarrow> fetch_step U s (fp_do s i c e) \<Longrightarrow> Q (events_of i s) e"
    and at: "events_of i s = a @ e # b"
  shows "Q a e"
proof -
  have "fetch_inv U s \<and> (\<forall>i a e b. events_of i s = a @ e # b \<longrightarrow> Q a e)"
    using reach
  proof (induction rule: rtranclp_induct)
    case base
    then show ?case by (simp add: fetch_inv_def idle_pool_def events_of_def)
  next
    case (step s s')
    then have inv: "fetch_inv U s" by simp
    obtain j c d where s': "s' = fp_do s j c d" using step(2) by (auto elim!: fetch_step.cases)
    have "Q a e" if "events_of i s' = a @ e # b" for i a e b
    proof (cases b rule: rev_cases)
      case Nil
      show ?thesis
      proof (cases "i = j")
        case True
        then have "a = events_of j s" "e = d" using that Nil by (simp_all add: s')
        then show ?thesis using assms(2) [OF inv] step(2) by (simp add: s')
      next
        case False
        then show ?thesis using that step(3) by (auto simp: s')
      qed
    next
      case (snoc b' x)
      then have "\<exists>b. events_of i s = a @ e # b"
        using that by (cases "i = j") (auto simp: s')
      then show ?thesis using step(3) by blast
    qed
    then show ?case using fetch_step_inv [OF step(2) inv] by blast
  qed
  then show ?thesis using at by blast
qed

lemma lookup_host_Some:
  "lookup_host U url = Some host \<longleftrightarrow> \<not> match_string exclusion_regex url \<and>
     (\<exists>u. url_parse U url = Inr u \<and> host = url_hostname U u)"
  by (auto simp: lookup_host_def split: sum.split)

lemma fp_do_eq [simp]: "fp_do s i c e = fp_do s j c' e' \<longleftrightarrow> i = j \<and> c = c' \<and> e = e'"
  by (auto simp: fp_do_def dest: fun_upd_eqD)

inductive_cases fetch_step_doE: "fetch_step U s (fp_do s i c e)"

lemma fetch_step_requested:
  assumes "fetch_inv U s" "fetch_step U s (fp_do s i c (Requested url response))"
  shows "\<exists>a p host. events_of i s = a @ [FetchStarted p, LookedUp host (Inr False)] \<and> url = pl_url p \<and>
    lookup_host U url = Some host"
proof -
  obtain k where "fp_worker s i = Some (SendGet url k)"
    using assms(2) by (auto elim!: fetch_step_doE)
  then obtain a p t where "events_of i s = a @ FetchStarted p # t" "fetch_rest U p t (SendGet url k)"
    by (rule fetch_inv_worker [OF assms(1)])
  then show ?thesis using fetch_rest_get by fastforce
qed

lemma fetch_step_fetched:
  assumes "fetch_inv U s" "fetch_step U s (fp_do s i c (Fetched r))"
  shows "\<exists>a p t. events_of i s = a @ FetchStarted p # t \<and> fetch_rest U p t (NetReturn r)"
proof -
  have "fp_worker s i = Some (NetReturn r)"
    using assms(2) by (auto elim!: fetch_step_doE)
  then show ?thesis using fetch_inv_worker [OF assms(1)] by metis
qed

lemma fetch_log_requested:
  assumes "(fetch_step U)\<^sup>*\<^sup>* idle_pool s" "events_of i s = a @ Requested url response # b"
  shows "\<exists>a' p host. a = a' @ [FetchStarted p, LookedUp host (Inr False)] \<and> url = pl_url p \<and>
    lookup_host U url = Some host"
proof -
  define Q where "Q = (\<lambda>a e. \<forall>url response. e = Requested url response \<longrightarrow>
    (\<exists>a' p host. a = a' @ [FetchStarted p, LookedUp host (Inr False)] \<and> url = pl_url p \<and>
       lookup_host U url = Some host))"
  have "Q a (Requested url response)"
  proof (rule fetch_log_induct [OF assms(1) _ assms(2)])
    show "Q (events_of i s) e" if "fetch_inv U s" "fetch_step U s (fp_do s i c e)" for s i c e
      unfolding Q_def using fetch_step_requested that by fast
  qed
  then show ?thesis unfolding Q_def by fast
qed

lemma fetch_log_fetched:
  assumes "(fetch_step U)\<^sup>*\<^sup>* idle_pool s" "events_of i s = a @ Fetched r # b"
  shows "\<exists>a' p t. a = a' @ FetchStarted p # t \<and> fetch_rest U p t (NetReturn r)"
proof -
  define Q where "Q = (\<lambda>a e. \<forall>r. e = Fetched r \<longrightarrow>
    (\<exists>a' p t. a = a' @ FetchStarted p # t \<and> fetch_rest U p t (NetReturn r)))"
  have "Q a (Fetched r)"
  proof (rule fetch_log_induct [OF assms(1) _ assms(2)])
    show "Q (events_of i s) e" if "fetch_inv U s" "fetch_step U s (fp_do s i c e)" for s i c e
      unfolding Q_def using fetch_step_fetched that by fast
  qed
  then show ?thesis unfolding Q_def by fast
qed

text \<open>
  C17. A run of any number of fetch workers, in any interleaving and with any answers of the
  detector and of the HTTP client.  Whenever a worker requests a URL, the two things that it did
  last were to take a payload with this URL and to ask the detector about the URL's host, which
  answered that it is not private; and the URL parses and is not excluded.  Whenever a worker is
  done with a payload it did nothing at all for it if the URL is excluded or does not parse, and
  otherwise it made this one lookup and, exactly when the answer was not private, this one
  request.  The page is forwarded exactly when the response came with a status of 2xx, an HTML
  type and a body that could be read, which is appended to the payload; a body of such a response
  that could not be read is the only error, every other payload is dropped.
\<close>

theorem fetcher_requests_only_crawlable:
  assumes "(fetch_step U)\<^sup>*\<^sup>* idle_pool s"
  shows "(events_of i s = a @ Requested url response # b \<longrightarrow>
      (\<exists>a' p u. a = a' @ [FetchStarted p, LookedUp (url_hostname U u) (Inr False)] \<and>
         url = pl_url p \<and> url_parse U url = Inr u \<and> \<not> match_string exclusion_regex url)) \<and>
    (events_of i s = a @ Fetched r # b \<longrightarrow>
      (\<exists>a' p t. a = a' @ FetchStarted p # t \<and>
         (t = [] \<longleftrightarrow> match_string exclusion_regex (pl_url p) \<or> (\<exists>err. url_parse U (pl_url p) = Inl err)) \<and>
         (t \<noteq> [] \<longrightarrow> (\<exists>u answer. url_parse U (pl_url p) = Inr u \<and>
            (if answer = Inr False
             then \<exists>response. t = [LookedUp (url_hostname U u) answer, Requested (pl_url p) response]
             else t = [LookedUp (url_hostname U u) answer]))) \<and>
         (\<forall>q. r = Forward q \<longleftrightarrow> (\<exists>host res. t = [LookedUp host (Inr False), Requested (pl_url p) (Inr res)] \<and>
            res_status_code res \<in> {200..299} \<and> contains_str (res_content_type res) ''html'' \<and>
            res_body_error res = None \<and> q = p\<lparr>pl_raw_content := pl_raw_content p @ res_body res\<rparr>)) \<and>
         (\<forall>err. r = Aborted err \<longleftrightarrow> (\<exists>host res. t = [LookedUp host (Inr False), Requested (pl_url p) (Inr res)] \<and>
            res_status_code res \<in> {200..299} \<and> contains_str (res_content_type res) ''html'' \<and>
            res_body_error res = Some err)) \<and>
         (\<forall>m. r \<noteq> Crashes m)))"
    (is "(_ \<longrightarrow> ?requested a url) \<and> (_ \<longrightarrow> ?fetched a r)")
proof (intro conjI impI)
  assume "events_of i s = a @ Requested url response # b"
  from fetch_log_requested [OF assms this] show "?requested a url"
    by (auto simp: lookup_host_Some)
next
  assume "events_of i s = a @ Fetched r # b"
  then obtain a' p t where a: "a = a' @ FetchStarted p # t" and rest: "fetch_rest U p t (NetReturn r)"
    using fetch_log_fetched [OF assms] by blast
  show "?fetched a r"
  proof (intro exI conjI)
    show "a = a' @ FetchStarted p # t" by (fact a)
    note ended = fetch_rest_return [OF rest]
    show "t = [] \<longleftrightarrow> match_string exclusion_regex (pl_url p) \<or> (\<exists>err. url_parse U (pl_url p) = Inl err)"
      using ended by (auto simp: lookup_host_def split: sum.splits if_splits)
    show "t \<noteq> [] \<longrightarrow> (\<exists>u answer. url_parse U (pl_url p) = Inr u \<and>
            (if answer = Inr False
             then \<exists>response. t = [LookedUp (url_hostname U u) answer, Requested (pl_url p) response]
             else t = [LookedUp (url_hostname U u) answer]))"
      using ended by (auto simp: lookup_host_def split: sum.splits if_splits)
    show "\<forall>q. r = Forward q \<longleftrightarrow> (\<exists>host res. t = [LookedUp host (Inr False), Requested (pl_url p) (Inr res)] \<and>
            res_status_code res \<in> {200..299} \<and> contains_str (res_content_type res) ''html'' \<and>
            res_body_error res = None \<and> q = p\<lparr>pl_raw_content := pl_raw_content p @ res_body res\<rparr>)"
      "\<forall>err. r = Aborted err \<longleftrightarrow> (\<exists>host res. t = [LookedUp host (Inr False), Requested (pl_url p) (Inr res)] \<and>
            res_status_code res \<in> {200..299} \<and> contains_str (res_content_type res) ''html'' \<and>
            res_body_error res = Some err)"
      "\<forall>m. r \<noteq> Crashes m"
      using ended by (auto simp: response_result_simps response_result_simps(3) [symmetric] split: option.splits)
  qed
qed

text \<open>
  Two workers: worker 0 fetches the page \<^verbatim>\<open>http://a/\<close>, worker 1 has asked about the private host of
  \<^verbatim>\<open>http://h/\<close> in between.
\<close>

definition public_page :: payload where
  "public_page = new_payload\<lparr>pl_url := ''http://a/''\<rparr>"

definition private_page :: payload where
  "private_page = new_payload\<lparr>pl_url := ''http://h/''\<rparr>"

definition html_response :: http_response where
  "html_response = \<lparr>res_status_code = 200, res_content_type = ''text/html'', res_body = ''hi'', res_body_error = None\<rparr>"

lemma demo_lookups:
  "link_fetcher_process demo_urls public_page = AskPrivate ''a'' (\<lambda>r.
     if r = Inr False then SendGet ''http://a/'' (\<lambda>response. NetReturn (response_result public_page response))
     else NetReturn Dropped)"
  "link_fetcher_process demo_urls private_page = AskPrivate ''h'' (\<lambda>r.
     if r = Inr False then SendGet ''http://h/'' (\<lambda>response. NetReturn (response_result private_page response))
     else NetReturn Dropped)"
proof -
  have url: "pl_url public_page = ''http://a/''" "pl_url private_page = ''http://h/''"
    by (simp_all add: public_page_def private_page_def)
  have host: "lookup_host demo_urls ''http://a/'' = Some ''a''" "lookup_host demo_urls ''http://h/'' = Some ''h''"
    by code_simp+
  show "link_fetcher_process demo_urls public_page = AskPrivate ''a'' (\<lambda>r.
     if r = Inr False then SendGet ''http://a/'' (\<lambda>response. NetReturn (response_result public_page response))
     else NetReturn Dropped)"
    by (simp only: link_fetcher_process_eq url host option.case)
  show "link_fetcher_process demo_urls private_page = AskPrivate ''h'' (\<lambda>r.
     if r = Inr False then SendGet ''http://h/'' (\<lambda>response. NetReturn (response_result private_page response))
     else NetReturn Dropped)"
    by (simp only: link_fetcher_process_eq url host option.case)
qed

lemma fetch_reach:
  assumes "(fetch_step U)\<^sup>*\<^sup>* idle_pool s"
  shows "fp_worker s i = None \<Longrightarrow> c = link_fetcher_process U p \<Longrightarrow>
      (fetch_step U)\<^sup>*\<^sup>* idle_pool (fp_do s i (Some c) (FetchStarted p))"
    "fp_worker s i = Some (AskPrivate host k) \<Longrightarrow> c = k answer \<Longrightarrow>
      (fetch_step U)\<^sup>*\<^sup>* idle_pool (fp_do s i (Some c) (LookedUp host answer))"
    "fp_worker s i = Some (SendGet url k') \<Longrightarrow> c = k' response \<Longrightarrow>
      (fetch_step U)\<^sup>*\<^sup>* idle_pool (fp_do s i (Some c) (Requested url response))"
    "fp_worker s i = Some (NetReturn r) \<Longrightarrow>
      (fetch_step U)\<^sup>*\<^sup>* idle_pool (fp_do s i None (Fetched r))"
  using assms by (auto intro: rtranclp.rtrancl_into_rtrancl fetch_step.intros)

lemma fetch_demo:
  "\<exists>s. (fetch_step demo_urls)\<^sup>*\<^sup>* idle_pool s \<and>
    events_of 0 s = [FetchStarted public_page, LookedUp ''a'' (Inr False), Requested ''http://a/'' (Inr html_response),
      Fetched (response_result public_page (Inr html_response))] \<and>
    events_of 1 s = [FetchStarted private_page, LookedUp ''h'' (Inr True)]"
proof -
  define s1 where "s1 = fp_do idle_pool 0 (Some (link_fetcher_process demo_urls public_page)) (FetchStarted public_page)"
  define s2 where "s2 = fp_do s1 1 (Some (link_fetcher_process demo_urls private_page)) (FetchStarted private_page)"
  define s3 where "s3 = fp_do s2 0 (Some (SendGet ''http://a/'' (\<lambda>response. NetReturn (response_result public_page response))))
      (LookedUp ''a'' (Inr False))"
  define s4 where "s4 = fp_do s3 1 (Some (NetReturn Dropped)) (LookedUp ''h'' (Inr True))"
  define s5 where "s5 = fp_do s4 0 (Some (NetReturn (response_result public_page (Inr html_response))))
      (Requested ''http://a/'' (Inr html_response))"
  define s6 where "s6 = fp_do s5 0 None (Fetched (response_result public_page (Inr html_response)))"
  have "(fetch_step demo_urls)\<^sup>*\<^sup>* idle_pool s1"
    unfolding s1_def by (rule fetch_reach(1)) (simp_all add: idle_pool_def)
  then have "(fetch_step demo_urls)\<^sup>*\<^sup>* idle_pool s2"
    unfolding s2_def by (rule fetch_reach(1)) (simp_all add: s1_def idle_pool_def)
  then have "(fetch_step demo_urls)\<^sup>*\<^sup>* idle_pool s3"
    unfolding s3_def by (rule fetch_reach(2), simp add: s2_def s1_def demo_lookups, simp)
  then have "(fetch_step demo_urls)\<^sup>*\<^sup>* idle_pool s4"
    unfolding s4_def by (rule fetch_reach(2), simp add: s3_def s2_def demo_lookups, simp)
  then have "(fetch_step demo_urls)\<^sup>*\<^sup>* idle_pool s5"
    unfolding s5_def by (rule fetch_reach(3), simp add: s4_def s3_def, simp)
  then have "(fetch_step demo_urls)\<^sup>*\<^sup>* idle_pool s6"
    unfolding s6_def by (rule fetch_reach(4)) (simp_all add: s5_def)
  then show ?thesis
    by (intro exI [of _ s6]) (simp add: s6_def s5_def s4_def s3_def s2_def s1_def events_of_def idle_pool_def fp_do_def)
qed

lemma fetcher_requests_only_crawlable_witness:
  "\<exists>s. (fetch_step demo_urls)\<^sup>*\<^sup>* idle_pool s \<and>
    events_of 0 s = [FetchStarted public_page, LookedUp ''a'' (Inr False), Requested ''http://a/'' (Inr html_response),
      Fetched (response_result public_page (Inr html_response))] \<and>
    events_of 1 s = [FetchStarted private_page, LookedUp ''h'' (Inr True)] \<and>
    \<not> match_string exclusion_regex ''http://a/''"
proof -
  obtain s where s: "(fetch_step demo_urls)\<^sup>*\<^sup>* idle_pool s"
    "events_of 0 s = [FetchStarted public_page, LookedUp ''a'' (Inr False), Requested ''http://a/'' (Inr html_response),
      Fetched (response_result public_page (Inr html_response))]"
    "events_of 1 s = [FetchStarted private_page, LookedUp ''h'' (Inr True)]"
    using fetch_demo by blast
  have "events_of 0 s = [FetchStarted public_page, LookedUp ''a'' (Inr False)] @ Requested ''http://a/'' (Inr html_response) #
      [Fetched (response_result public_page (Inr html_response))]"
    by (simp add: s(2))
  then have "\<not> match_string exclusion_regex ''http://a/''"
    using fetcher_requests_only_crawlable [OF s(1), of 0 "[FetchStarted public_page, LookedUp ''a'' (Inr False)]"] by blast
  then show ?thesis using s by blast
qed

text \<open>The result of a fetch in a world that answers by functions.\<close>

lemma fetch_eq:
  "fetch U is_private get p =
     (case lookup_host U (pl_url p) of
        None \<Rightarrow> Dropped
      | Some host \<Rightarrow> if is_private host = Inr False then response_result p (get (pl_url p)) else Dropped)"
  by (simp add: fetch_def link_fetcher_process_eq split: option.split)

section \<open>The link extractor\<close>

text \<open>A link the extractor may add, given the URL that relative links are resolved against.\<close>

definition vetted :: "'r url_pkg \<Rightarrow> (string \<Rightarrow> go_error + bool) \<Rightarrow> 'r go_url \<Rightarrow> string \<Rightarrow> bool" where
  "vetted U is_private relTo x \<longleftrightarrow>
     (\<exists>target u. resolve_url U relTo target = Some u \<and> x = url_string U (u\<lparr>u_fragment := []\<rparr>) \<and>
        (u_scheme u = ''http'' \<or> u_scheme u = ''https'') \<and>
        (url_hostname U u = url_hostname U relTo \<or> is_private (u_host u) = Inr False) \<and>
        \<not> match_string exclusion_regex x)"

lemma retain_link_vetted:
  "retain_link U is_private (url_hostname U relTo) link \<Longrightarrow>
    \<exists>u. link = Some u \<and> (u_scheme u = ''http'' \<or> u_scheme u = ''https'') \<and>
      (url_hostname U u = url_hostname U relTo \<or> is_private (u_host u) = Inr False)"
  by (auto simp: retain_link_def split: option.splits if_splits sum.splits)

abbreviation all_links :: "payload \<Rightarrow> string list" where
  "all_links p \<equiv> pl_links p @ pl_no_follow_links p"

text \<open>One round of the loop leaves the payload alone or adds one new vetted link.\<close>

lemma extract_loop_step:
  obtains "extract_loop U is_private relTo (m # ms) seen p = extract_loop U is_private relTo ms seen p"
  | x p' where "extract_loop U is_private relTo (m # ms) seen p = extract_loop U is_private relTo ms (insert x seen) p'"
    "x \<notin> seen" "vetted U is_private relTo x" "mset (all_links p') = add_mset x (mset (all_links p))"
proof -
  let ?link = "resolve_url U relTo (m ! 1)"
  let ?x = "url_string U ((the ?link)\<lparr>u_fragment := []\<rparr>)"
  show thesis
  proof (cases "retain_link U is_private (url_hostname U relTo) ?link \<and> ?x \<notin> seen \<and> \<not> match_string exclusion_regex ?x")
    case True
    then obtain u where u: "?link = Some u" "u_scheme u = ''http'' \<or> u_scheme u = ''https''"
      "url_hostname U u = url_hostname U relTo \<or> is_private (u_host u) = Inr False"
      using retain_link_vetted by metis
    let ?p = "if match_string nofollow_regex (m ! 0) then p\<lparr>pl_no_follow_links := pl_no_follow_links p @ [?x]\<rparr>
        else p\<lparr>pl_links := pl_links p @ [?x]\<rparr>"
    have ext: "extract_loop U is_private relTo (m # ms) seen p = extract_loop U is_private relTo ms (insert ?x seen) ?p"
      using True by (simp add: Let_def)
    have vet: "vetted U is_private relTo ?x"
      unfolding vetted_def using u True by (intro exI [of _ "m ! 1"] exI [of _ u]) simp
    show thesis by (rule that(2) [OF ext _ vet]) (use True in simp_all)
  next
    case False
    then show thesis by (intro that(1)) (auto simp: Let_def)
  qed
qed

lemma extract_loop_spec:
  assumes "set (all_links p) = seen" "distinct (all_links p)"
  shows "distinct (all_links (extract_loop U is_private relTo ms seen p)) \<and>
    (\<forall>x \<in> set (all_links (extract_loop U is_private relTo ms seen p)). x \<in> seen \<or> vetted U is_private relTo x)"
  using assms
proof (induction ms arbitrary: seen p)
  case (Cons m ms)
  show ?case
  proof (rule extract_loop_step [of U is_private relTo m ms seen p])
    assume same: "extract_loop U is_private relTo (m # ms) seen p = extract_loop U is_private relTo ms seen p"
    show ?thesis unfolding same by (rule Cons.IH [OF Cons.prems])
  next
    fix x p' assume *: "extract_loop U is_private relTo (m # ms) seen p = extract_loop U is_private relTo ms (insert x seen) p'"
      "x \<notin> seen" "vetted U is_private relTo x" "mset (all_links p') = add_mset x (mset (all_links p))"
    have "set (all_links p') = insert x seen"
      using arg_cong [OF *(4), of set_mset] Cons.prems(1) by simp
    moreover have "distinct (all_links p')"
    proof -
      have "mset (all_links p') = mset (x # all_links p)" using *(4) by simp
      then have "distinct (all_links p') = distinct (x # all_links p)" by (rule mset_eq_imp_distinct_iff)
      then show ?thesis using Cons.prems *(2) by auto
    qed
    ultimately have "distinct (all_links (extract_loop U is_private relTo ms (insert x seen) p')) \<and>
      (\<forall>y \<in> set (all_links (extract_loop U is_private relTo ms (insert x seen) p')).
         y \<in> insert x seen \<or> vetted U is_private relTo y)"
      by (rule Cons.IH)
    note IH = this
    show ?thesis unfolding *(1)
    proof (rule conjI [OF conjunct1 [OF IH]], rule ballI)
      fix y assume "y \<in> set (all_links (extract_loop U is_private relTo ms (insert x seen) p'))"
      then have "y \<in> insert x seen \<or> vetted U is_private relTo y" by (rule bspec [OF conjunct2 [OF IH]])
      then show "y \<in> seen \<or> vetted U is_private relTo y" using *(3) by auto
    qed
  qed
qed auto

text \<open>The URL that the links of a page are resolved against.\<close>

definition base_url :: "'r url_pkg \<Rightarrow> 'r go_url \<Rightarrow> string \<Rightarrow> 'r go_url outcome" where
  "base_url U page content =
     (let m = find_submatch base_href_regex content in
      if length m = 2
      then outcome_bind (ensure_has_trailing_slash (m ! 1)) (\<lambda>target.
             Returns (case resolve_url U page target of Some base \<Rightarrow> base | None \<Rightarrow> page))
      else Returns page)"

text \<open>
  C18. The extractor adds only vetted links to a new payload: each is the text of a resolved
  target of the page without its fragment, has the scheme http or https, is not excluded, occurs
  once among the followed and nofollow links together, and is on the host of the page's base URL
  or else on a host that is known not to be private.
\<close>

theorem extracted_links_vetted:
  assumes "pl_links p = []" "pl_no_follow_links p = []" "link_extractor_process U is_private p = Forward q"
  shows "\<exists>page relTo. url_parse U (pl_url p) = Inr page \<and> base_url U page (pl_raw_content p) = Returns relTo \<and>
    distinct (pl_links q @ pl_no_follow_links q) \<and>
    (\<forall>x \<in> set (pl_links q @ pl_no_follow_links q).
       \<exists>target u. resolve_url U relTo target = Some u \<and> x = url_string U (u\<lparr>u_fragment := []\<rparr>) \<and>
         (u_scheme u = ''http'' \<or> u_scheme u = ''https'') \<and>
         (url_hostname U u = url_hostname U relTo \<or> is_private (u_host u) = Inr False) \<and>
         \<not> match_string exclusion_regex x)"
proof -
  obtain page where page: "url_parse U (pl_url p) = Inr page"
    using assms(3) by (auto simp: link_extractor_process_def split: sum.splits)
  have *: "link_extractor_process U is_private p = (case base_url U page (pl_raw_content p) of
      Panics m \<Rightarrow> Crashes m | Fails err \<Rightarrow> Aborted err
    | Returns r \<Rightarrow> Forward (extract_loop U is_private r (find_all_submatch find_link_regex (pl_raw_content p)) {} p))"
    by (simp add: link_extractor_process_def page base_url_def Let_def)
  then obtain r where r: "base_url U page (pl_raw_content p) = Returns r"
    "q = extract_loop U is_private r (find_all_submatch find_link_regex (pl_raw_content p)) {} p"
    using assms(3) by (cases "base_url U page (pl_raw_content p)") auto
  show ?thesis
    using page r extract_loop_spec [of p "{}" U is_private r "find_all_submatch find_link_regex (pl_raw_content p)"] assms(1,2)
    unfolding vetted_def by (intro exI [of _ page] exI [of _ r]) simp
qed

definition quoted :: "string \<Rightarrow> string" where
  "quoted s = [quote_char] @ s @ [quote_char]"

definition link_page :: payload where
  "link_page = new_payload\<lparr>pl_url := ''http://a/'', pl_raw_content := ''<a href='' @ quoted ''http://b/'' @ ''>''\<rparr>"

lemma link_page_extracted:
  "link_extractor_process demo_urls (\<lambda>_. Inr False) link_page = Forward (link_page\<lparr>pl_links := [''http://b/'']\<rparr>)"
  by code_simp

lemma extracted_links_vetted_witness:
  "\<exists>q. link_extractor_process demo_urls (\<lambda>_. Inr False) link_page = Forward q \<and>
    pl_links q = [''http://b/''] \<and> distinct (pl_links q @ pl_no_follow_links q)"
  using extracted_links_vetted [OF _ _ link_page_extracted] link_page_extracted
  by (simp add: link_page_def new_payload_def)

text \<open>
  C19. The extractor panics exactly on pages whose first base tag has an empty address, such as
  the tag base with an empty href: \<^verbatim>\<open>ensureHasTrailingSlash\<close> reads the last byte of an empty
  string.  It fails with an error exactly when the page's own URL does not parse, and it never
  drops a page.
\<close>

theorem extractor_panics_on_empty_base:
  "((\<exists>m. link_extractor_process U is_private p = Crashes m) \<longleftrightarrow>
      (\<exists>page tag. url_parse U (pl_url p) = Inr page \<and>
        find_submatch base_href_regex (pl_raw_content p) = [tag, []])) \<and>
   (link_extractor_process U is_private p = Aborted err \<longleftrightarrow> url_parse U (pl_url p) = Inl err) \<and>
   link_extractor_process U is_private p \<noteq> Dropped \<and>
   find_submatch base_href_regex (''<base href='' @ quoted [] @ ''>'') = [''<base href='' @ quoted [], []]"
proof -
  have "find_submatch base_href_regex (''<base href='' @ quoted [] @ ''>'') = [''<base href='' @ quoted [], []]"
    by code_simp
  moreover have "((\<exists>m. link_extractor_process U is_private p = Crashes m) \<longleftrightarrow>
      (\<exists>page tag. url_parse U (pl_url p) = Inr page \<and>
        find_submatch base_href_regex (pl_raw_content p) = [tag, []])) \<and>
   (link_extractor_process U is_private p = Aborted err \<longleftrightarrow> url_parse U (pl_url p) = Inl err) \<and>
   link_extractor_process U is_private p \<noteq> Dropped"
  proof (cases "url_parse U (pl_url p)")
    case (Inl e)
    then show ?thesis by (auto simp: link_extractor_process_def)
  next
    case (Inr page)
    define m where "m = find_submatch base_href_regex (pl_raw_content p)"
    consider "length m \<noteq> 2" | tag where "m = [tag, []]" | tag c b where "m = [tag, c # b]"
    proof (cases "length m = 2")
      case True
      then obtain tag b where "m = [tag, b]" by (auto simp: length_Suc_conv numeral_2_eq_2)
      then show thesis using that(2,3) by (cases b) auto
    qed (use that(1) in simp)
    then show ?thesis
      by cases (auto simp: link_extractor_process_def Inr m_def [symmetric] Let_def ensure_has_trailing_slash_def)
  qed
  ultimately show ?thesis by blast
qed

text \<open>
  A base tag moves the host that counts as already checked: links of a public page to a
  private host are extracted without any check when the page's base tag names that host.
\<close>

theorem base_tag_bypasses_private_check:
  "link_extractor_process demo_urls is_private
     (new_payload\<lparr>pl_url := ''http://a/'', pl_raw_content :=
        ''<base href='' @ quoted ''http://10.0.0.1/'' @ ''><a href='' @ quoted ''http://10.0.0.1/x'' @ ''>''\<rparr>) =
   Forward (new_payload\<lparr>pl_url := ''http://a/'', pl_raw_content :=
        ''<base href='' @ quoted ''http://10.0.0.1/'' @ ''><a href='' @ quoted ''http://10.0.0.1/x'' @ ''>'',
        pl_links := [''http://10.0.0.1/x'']\<rparr>)"
  by code_simp

end
