(* ===== verification/BleveIndex.thy ===== *)
theory BleveIndex
  imports Documents Partition
begin

text \<open>
  The in-memory text index (\<^verbatim>\<open>bleve/indexer.go\<close>, \<^verbatim>\<open>bleve/iterator.go\<close>).  The bleve library is a
  parameter: what its index does with a document, and what a search answers.  No operation
  lets a pointer to a stored document out, so the map of documents is a map of values.
\<close>

section \<open>The library's interface\<close>

record bleve_document =
  bd_title :: string
  bd_content :: string
  bd_page_rank :: real

datatype bleve_query = MatchPhraseQuery string | MatchQuery string

record search_request =
  sq_query :: bleve_query
  sq_sort_by :: "string list"
  sq_size :: int
  sq_from :: int

record search_result =
  rs_total :: "64 word"
  rs_hits :: "string list"

record 'b bleve_pkg =
  bp_new_mem_only :: "go_error + 'b"
  bp_index :: "string \<Rightarrow> bleve_document \<Rightarrow> 'b \<Rightarrow> go_error option \<times> 'b"
  bp_search :: "search_request \<Rightarrow> 'b \<Rightarrow> go_error + search_result"
  bp_close :: "'b \<Rightarrow> go_error option"

section \<open>The indexer\<close>

definition batch_size :: int where
  "batch_size = 10"

record 'b bleve_indexer =
  bi_docs :: "string \<rightharpoonup> document"
  bi_idx :: 'b

definition new_bleve_indexer :: "'b bleve_pkg \<Rightarrow> go_error + 'b bleve_indexer" where
  "new_bleve_indexer B =
     (case bp_new_mem_only B of Inl err \<Rightarrow> Inl err | Inr idx \<Rightarrow> Inr \<lparr>bi_docs = Map.empty, bi_idx = idx\<rparr>)"

definition bleve_close :: "'b bleve_pkg \<Rightarrow> 'b bleve_indexer \<Rightarrow> go_error option" where
  "bleve_close B i = bp_close B (bi_idx i)"

definition make_bleve_doc :: "document \<Rightarrow> bleve_document" where
  "make_bleve_doc d = \<lparr>bd_title = doc_title d, bd_content = doc_content d, bd_page_rank = doc_page_rank d\<rparr>"

definition bleve_index ::
  "'b bleve_pkg \<Rightarrow> uuid_pkg \<Rightarrow> go_time \<Rightarrow> document \<Rightarrow> 'b bleve_indexer \<Rightarrow>
   go_error option \<times> document \<times> 'b bleve_indexer" where
  "bleve_index B L now doc i =
     (if doc_link_id doc = uuid_nil then (Some (Wrap ''index'' (Sentinel IndexErrMissingLinkID)), doc, i)
      else
        let doc' = doc\<lparr>doc_indexed_at := now\<rparr>;
            key = up_string L (doc_link_id doc');
            dcopy = (case bi_docs i key of
                       Some orig \<Rightarrow> doc'\<lparr>doc_page_rank := doc_page_rank orig\<rparr>
                     | None \<Rightarrow> doc')
        in (case bp_index B key (make_bleve_doc dcopy) (bi_idx i) of
              (Some err, idx') \<Rightarrow> (Some (Wrap ''index'' err), doc', i\<lparr>bi_idx := idx'\<rparr>)
            | (None, idx') \<Rightarrow> (None, doc', \<lparr>bi_docs = (bi_docs i)(key \<mapsto> dcopy), bi_idx = idx'\<rparr>)))"

definition bleve_find_by_key :: "string \<Rightarrow> 'b bleve_indexer \<Rightarrow> go_error + document" where
  "bleve_find_by_key key i =
     (case bi_docs i key of
        Some d \<Rightarrow> Inr d
      | None \<Rightarrow> Inl (Wrap ''find by ID'' (Sentinel IndexErrNotFound)))"

definition bleve_find_by_id :: "uuid_pkg \<Rightarrow> uuid \<Rightarrow> 'b bleve_indexer \<Rightarrow> go_error + document" where
  "bleve_find_by_id L linkID i = bleve_find_by_key (up_string L linkID) i"

definition bleve_update_score ::
  "'b bleve_pkg \<Rightarrow> uuid_pkg \<Rightarrow> uuid \<Rightarrow> real \<Rightarrow> 'b bleve_indexer \<Rightarrow> go_error option \<times> 'b bleve_indexer" where
  "bleve_update_score B L linkID score i =
     (let key = up_string L linkID;
          doc = (case bi_docs i key of Some d \<Rightarrow> d | None \<Rightarrow> zero_document\<lparr>doc_link_id := linkID\<rparr>);
          doc' = doc\<lparr>doc_page_rank := score\<rparr>;
          docs' = (bi_docs i)(key \<mapsto> doc')
      in (case bp_index B key (make_bleve_doc doc') (bi_idx i) of
            (Some err, idx') \<Rightarrow> (Some (Wrap ''update score'' err), \<lparr>bi_docs = docs', bi_idx = idx'\<rparr>)
          | (None, idx') \<Rightarrow> (None, \<lparr>bi_docs = docs', bi_idx = idx'\<rparr>)))"

section \<open>Searching\<close>

text \<open>
  The iterator; \<open>bit_open\<close> says that its references to the indexer and the request are not nil.
\<close>

record bleve_iterator =
  bit_open :: bool
  bit_req :: search_request
  bit_cum_idx :: "64 word"
  bit_rs_idx :: nat
  bit_rs :: "search_result option"
  bit_latched_doc :: "document option"
  bit_last_err :: "go_error option"

definition bleve_search ::
  "'b bleve_pkg \<Rightarrow> query \<Rightarrow> 'b bleve_indexer \<Rightarrow> go_error + bleve_iterator" where
  "bleve_search B q i =
     (let bq = (case query_type q of
                  QueryTypePhrase \<Rightarrow> MatchPhraseQuery (query_expression q)
                | _ \<Rightarrow> MatchQuery (query_expression q));
          searchReq = \<lparr>sq_query = bq, sq_sort_by = [''-PageRank'', ''-_score''], sq_size = batch_size,
                       sq_from = int_of_u64 (query_offset q)\<rparr>
      in (case bp_search B searchReq (bi_idx i) of
            Inl err \<Rightarrow> Inl (Wrap ''search'' err)
          | Inr rs \<Rightarrow> Inr \<lparr>bit_open = True, bit_req = searchReq, bit_cum_idx = query_offset q, bit_rs_idx = 0,
                          bit_rs = Some rs, bit_latched_doc = None, bit_last_err = None\<rparr>))"

definition bleve_it_close :: "bleve_iterator \<Rightarrow> bleve_iterator" where
  "bleve_it_close it =
     (let it' = it\<lparr>bit_open := False\<rparr>
      in (case bit_rs it of Some rs \<Rightarrow> it'\<lparr>bit_cum_idx := rs_total rs\<rparr> | None \<Rightarrow> it'))"

text \<open>The second half of \<^verbatim>\<open>Next\<close>, once a page of results is there.\<close>

definition bleve_it_latch :: "'b bleve_indexer \<Rightarrow> search_result \<Rightarrow> bleve_iterator \<Rightarrow> (bool \<times> bleve_iterator) outcome" where
  "bleve_it_latch i rs it =
     (if bit_rs_idx it \<ge> length (rs_hits rs) then Panics ''index out of range''
      else
        (case bleve_find_by_key (rs_hits rs ! bit_rs_idx it) i of
           Inl err \<Rightarrow> Returns (False, it\<lparr>bit_latched_doc := None, bit_last_err := Some err\<rparr>)
         | Inr d \<Rightarrow> Returns (True, it\<lparr>bit_latched_doc := Some d, bit_cum_idx := bit_cum_idx it + 1,
                                     bit_rs_idx := bit_rs_idx it + 1\<rparr>)))"

definition bleve_it_next ::
  "'b bleve_pkg \<Rightarrow> 'b bleve_indexer \<Rightarrow> bleve_iterator \<Rightarrow> (bool \<times> bleve_iterator) outcome" where
  "bleve_it_next B i it =
     (case (bit_last_err it, bit_rs it) of
        (None, Some rs) \<Rightarrow>
          if bit_cum_idx it \<ge> rs_total rs then Returns (False, it)
          else if \<not> bit_open it then Panics ''nil pointer dereference''
          else if bit_rs_idx it \<ge> length (rs_hits rs) then
            let req = (bit_req it)\<lparr>sq_from := wrap64 (sq_from (bit_req it) + sq_size (bit_req it))\<rparr>
            in (case bp_search B req (bi_idx i) of
                  Inl err \<Rightarrow> Returns (False, it\<lparr>bit_req := req, bit_rs := None, bit_last_err := Some err\<rparr>)
                | Inr rs' \<Rightarrow> bleve_it_latch i rs' (it\<lparr>bit_req := req, bit_rs := Some rs', bit_rs_idx := 0\<rparr>))
          else bleve_it_latch i rs it
      | _ \<Rightarrow> Returns (False, it))"

definition bleve_it_total_count :: "bleve_iterator \<Rightarrow> 64 word" where
  "bleve_it_total_count it = (case bit_rs it of None \<Rightarrow> 0 | Some rs \<Rightarrow> rs_total rs)"

text \<open>A caller's loop over the iterator, for at most \<open>n\<close> calls of \<^verbatim>\<open>Next\<close>.\<close>

fun bleve_drain ::
  "'b bleve_pkg \<Rightarrow> 'b bleve_indexer \<Rightarrow> nat \<Rightarrow> bleve_iterator \<Rightarrow> (document list \<times> bleve_iterator) outcome" where
  "bleve_drain B i 0 it = Returns ([], it)"
| "bleve_drain B i (Suc n) it =
     outcome_bind (bleve_it_next B i it) (\<lambda>(more, it').
       if more
       then outcome_bind (bleve_drain B i n it') (\<lambda>(ds, it''). Returns (the (bit_latched_doc it') # ds, it''))
       else Returns ([], it'))"

section \<open>The contract\<close>

definition bleve_abs :: "'b bleve_indexer \<Rightarrow> doc_store" where
  "bleve_abs i u = bi_docs i (uuid_text u)"

definition bleve_inv :: "'b bleve_indexer \<Rightarrow> bool" where
  "bleve_inv i \<longleftrightarrow> (\<forall>u d. bi_docs i (uuid_text u) = Some d \<longrightarrow> doc_link_id d = u)"

lemma bleve_contract:
  fixes B :: "'b bleve_pkg"
  assumes "uuid_pkg_ok L"
  shows "text_indexer bleve_inv bleve_abs (bleve_index B L)
    (\<lambda>u s. outcome_of (bleve_find_by_id L u s)) (bleve_update_score B L)"
proof (unfold_locales, goal_cases)
  case (1 s d now)
  then show ?case by (simp add: bleve_index_def)
next
  case (2 s d now d' s')
  then show ?case
    using assms
    by (auto simp: bleve_index_def Let_def bleve_inv_def bleve_abs_def put_doc_def fun_eq_iff
        split: prod.splits option.splits if_splits)
next
  case (3 s d now err d' s')
  then show ?case
    using assms
    by (auto simp: bleve_index_def Let_def bleve_inv_def bleve_abs_def fun_eq_iff split: prod.splits option.splits if_splits)
next
  case (4 s i d)
  then show ?case using assms by (simp add: bleve_find_by_id_def bleve_find_by_key_def bleve_abs_def)
next
  case (5 s i)
  then show ?case using assms by (simp add: bleve_find_by_id_def bleve_find_by_key_def bleve_abs_def)
next
  case (6 s i x s')
  then show ?case
    using assms
    by (auto simp: bleve_update_score_def Let_def bleve_inv_def bleve_abs_def put_score_def fun_eq_iff zero_document_def
        split: prod.splits option.splits if_splits)
next
  case (7 s i x err s')
  then show ?case
    using assms
    by (auto simp: bleve_update_score_def Let_def bleve_inv_def bleve_abs_def fun_eq_iff zero_document_def
        split: prod.splits option.splits if_splits)
qed

interpretation bleve: text_indexer bleve_inv bleve_abs "bleve_index B rfc4122_pkg"
    "\<lambda>u s. outcome_of (bleve_find_by_id rfc4122_pkg u s)" "bleve_update_score B rfc4122_pkg" for B :: "'b bleve_pkg"
  by (rule bleve_contract) (rule rfc4122_pkg_ok)

section \<open>Iteration\<close>

text \<open>
  The documented paging of bleve, for one request: the hits from \<^verbatim>\<open>From\<close> on, \<^verbatim>\<open>Size\<close> at most,
  with the total.
\<close>

definition bleve_answers ::
  "'b bleve_pkg \<Rightarrow> bleve_query \<Rightarrow> string list \<Rightarrow> 'b \<Rightarrow> string list \<Rightarrow> bool" where
  "bleve_answers B bq srt idx ids \<longleftrightarrow>
     (\<forall>from. 0 \<le> from \<longrightarrow>
        bp_search B \<lparr>sq_query = bq, sq_sort_by = srt, sq_size = 10, sq_from = from\<rparr> idx =
          Inr \<lparr>rs_total = of_nat (length ids), rs_hits = take 10 (drop (nat from) ids)\<rparr>)"

text \<open>The iterator at position p of the results, its page starting at f.\<close>

definition at_position :: "bleve_query \<Rightarrow> string list \<Rightarrow> string list \<Rightarrow> nat \<Rightarrow> nat \<Rightarrow> bleve_iterator \<Rightarrow> bool" where
  "at_position bq srt ids f p it \<longleftrightarrow> f \<le> p \<and> p \<le> f + 10 \<and> bit_open it \<and> bit_last_err it = None \<and>
     bit_req it = \<lparr>sq_query = bq, sq_sort_by = srt, sq_size = 10, sq_from = int f\<rparr> \<and>
     bit_cum_idx it = of_nat p \<and> bit_rs_idx it = p - f \<and>
     bit_rs it = Some \<lparr>rs_total = of_nat (length ids), rs_hits = take 10 (drop f ids)\<rparr>"

lemma bleve_it_next_end:
  assumes "at_position bq srt ids f p it" "length ids \<le> p" "p < 2 ^ 63"
  shows "bleve_it_next B i it = Returns (False, it)"
proof -
  have "(of_nat (length ids) :: 64 word) \<le> of_nat p" using assms(2,3) by (subst uint64_le_iff) auto
  then show ?thesis using assms(1) by (simp add: bleve_it_next_def at_position_def)
qed

lemma bleve_it_next_more:
  assumes it: "at_position bq srt ids f p it" and p: "p < length ids" and len: "length ids + 10 < 2 ^ 63"
    and answers: "bleve_answers B bq srt (bi_idx i) ids" and stored: "bi_docs i (ids ! p) = Some d"
  shows "\<exists>f' it'. bleve_it_next B i it = Returns (True, it') \<and> at_position bq srt ids f' (p + 1) it' \<and>
    bit_latched_doc it' = Some d"
proof -
  have lt: "\<not> (of_nat (length ids) :: 64 word) \<le> of_nat p" using p len by (subst uint64_le_iff) auto
  have find: "bleve_find_by_key (ids ! p) i = Inr d" using stored by (simp add: bleve_find_by_key_def)
  have fp: "f \<le> p" "p \<le> f + 10" using it by (simp_all add: at_position_def)
  show ?thesis
  proof (cases "p = f + 10")
    case False
    then have "\<not> length (take 10 (drop f ids)) \<le> p - f" and nth: "take 10 (drop f ids) ! (p - f) = ids ! p"
      using page_exhausted [OF p fp] page_nth [OF p fp(1)] fp by auto
    then show ?thesis
      using it lt find False fp
      by (intro exI [of _ f]) (auto simp: bleve_it_next_def bleve_it_latch_def at_position_def Suc_diff_le add.commute)
  next
    case True
    then have full: "length (take 10 (drop f ids)) \<le> p - f"
      using page_exhausted [OF p fp] by simp
    have from_p: "wrap64 (int f + 10) = int p"
      using p len True by (subst wrap64_id) auto
    have search: "bp_search B \<lparr>sq_query = bq, sq_sort_by = srt, sq_size = 10, sq_from = int p\<rparr> (bi_idx i) =
        Inr \<lparr>rs_total = of_nat (length ids), rs_hits = take 10 (drop p ids)\<rparr>"
      using answers [unfolded bleve_answers_def, rule_format, of "int p"] by simp
    have nth: "take 10 (drop p ids) ! 0 = ids ! p" "take 10 (drop p ids) \<noteq> []" using p by simp_all
    show ?thesis
      using it lt find full search nth
      by (intro exI [of _ p])
        (auto simp: bleve_it_next_def bleve_it_latch_def at_position_def Let_def from_p add.commute)
  qed
qed

lemma bleve_drain_from:
  assumes "at_position bq srt ids f p it" "p < 2 ^ 63" "length ids + 10 < 2 ^ 63"
    and "bleve_answers B bq srt (bi_idx i) ids" "\<forall>x \<in> set ids. bi_docs i x \<noteq> None"
    and "length ids - p < n"
  shows "\<exists>it'. bleve_drain B i n it = Returns (map (the \<circ> bi_docs i) (drop p ids), it') \<and> bit_last_err it' = None"
  using assms
proof (induction n arbitrary: f p it)
  case (Suc n)
  show ?case
  proof (cases "p < length ids")
    case False
    then have "bleve_it_next B i it = Returns (False, it)"
      using Suc.prems by (intro bleve_it_next_end) auto
    then show ?thesis using Suc.prems(1) False by (simp add: at_position_def)
  next
    case True
    obtain d where d: "bi_docs i (ids ! p) = Some d" using Suc.prems(5) True nth_mem by blast
    obtain f' it1 where step: "bleve_it_next B i it = Returns (True, it1)"
      "at_position bq srt ids f' (p + 1) it1" "bit_latched_doc it1 = Some d"
      using bleve_it_next_more [OF Suc.prems(1) True Suc.prems(3,4) d] by (elim exE conjE) (rule that)
    obtain it' where "bleve_drain B i n it1 = Returns (map (the \<circ> bi_docs i) (drop (p + 1) ids), it')"
      "bit_last_err it' = None"
      using Suc.IH [OF step(2) _ Suc.prems(3-5)] Suc.prems(3,6) True by (fastforce simp: comp_def)
    moreover have "drop p ids = ids ! p # drop (p + 1) ids" using Cons_nth_drop_Suc [OF True] by simp
    ultimately show ?thesis using step d by simp
  qed
qed simp

definition bleve_query_of :: "query \<Rightarrow> bleve_query" where
  "bleve_query_of q =
     (case query_type q of QueryTypePhrase \<Rightarrow> MatchPhraseQuery (query_expression q) | _ \<Rightarrow> MatchQuery (query_expression q))"

lemma bleve_search_position:
  assumes answers: "bleve_answers B (bleve_query_of q) [''-PageRank'', ''-_score''] (bi_idx i) ids"
    and offset: "query_offset q = of_nat k" "k < 2 ^ 63"
  shows "\<exists>it. bleve_search B q i = Inr it \<and> bleve_it_total_count it = of_nat (length ids) \<and>
    at_position (bleve_query_of q) [''-PageRank'', ''-_score''] ids k k it"
proof -
  define srt where "srt = [''-PageRank'', ''-_score'']"
  define it where "it = \<lparr>bit_open = True,
    bit_req = \<lparr>sq_query = bleve_query_of q, sq_sort_by = srt, sq_size = 10, sq_from = int k\<rparr>,
    bit_cum_idx = of_nat k, bit_rs_idx = 0,
    bit_rs = Some \<lparr>rs_total = of_nat (length ids), rs_hits = take 10 (drop k ids)\<rparr>,
    bit_latched_doc = None, bit_last_err = None\<rparr>"
  have from_k: "int_of_u64 (of_nat k) = int k"
    using offset(2) by (subst int_of_u64_small) (auto simp: uint64_of_nat)
  have "bp_search B \<lparr>sq_query = bleve_query_of q, sq_sort_by = srt, sq_size = 10, sq_from = int k\<rparr> (bi_idx i) =
      Inr \<lparr>rs_total = of_nat (length ids), rs_hits = take 10 (drop k ids)\<rparr>"
    using answers [folded srt_def] by (simp add: bleve_answers_def)
  then have "bleve_search B q i = Inr it"
    by (simp add: bleve_search_def Let_def offset from_k batch_size_def bleve_query_of_def [symmetric] srt_def [symmetric] it_def)
  then show ?thesis by (simp add: it_def bleve_it_total_count_def at_position_def srt_def)
qed

lemma bleve_search_enumerates:
  assumes answers: "bleve_answers B (bleve_query_of q) [''-PageRank'', ''-_score''] (bi_idx i) ids"
    and stored: "\<forall>x \<in> set ids. bi_docs i x \<noteq> None" and len: "length ids + 10 < 2 ^ 63"
    and offset: "query_offset q = of_nat k" "k < 2 ^ 63"
  shows "\<exists>it. bleve_search B q i = Inr it \<and> bleve_it_total_count it = of_nat (length ids) \<and>
    (\<forall>n > length ids - k. \<exists>it'. bleve_drain B i n it = Returns (map (the \<circ> bi_docs i) (drop k ids), it') \<and>
       bit_last_err it' = None)"
  using bleve_search_position [OF answers offset] bleve_drain_from [OF _ offset(2) len answers stored] by blast

definition listing_bleve :: "string list bleve_pkg" where
  "listing_bleve = \<lparr>bp_new_mem_only = Inr [], bp_index = (\<lambda>key d ids. (None, List.insert key ids)),
     bp_search = (\<lambda>req ids. Inr \<lparr>rs_total = of_nat (length ids),
        rs_hits = take (nat (sq_size req)) (drop (nat (sq_from req)) ids)\<rparr>),
     bp_close = (\<lambda>_. None)\<rparr>"

definition stored_twelve :: "string list bleve_indexer" where
  "stored_twelve = \<lparr>bi_docs = (\<lambda>_. Some zero_document), bi_idx = map (\<lambda>n. replicate n CHR ''a'') [0..<12]\<rparr>"

end
