(* ===== verification/EsIndex.thy ===== *)
theory EsIndex
  imports Documents Partition
begin

text \<open>
  The Elasticsearch text index (\<^verbatim>\<open>elasticsearch/elasticsearch.go\<close>, \<^verbatim>\<open>indexer.go\<close>,
  \<^verbatim>\<open>iterator.go\<close>).  The client library and the cluster are a parameter; JSON documents are
  records of optional fields.  Printing the response of a failed request is left out.
\<close>

section \<open>Documents and responses\<close>

record es_document =
  ed_link_id :: string
  ed_url :: string
  ed_title :: string
  ed_content :: string
  ed_indexed_at :: go_time
  ed_page_rank :: real

text \<open>A JSON object with some of the fields.\<close>

record es_fields =
  ef_link_id :: "string option"
  ef_url :: "string option"
  ef_title :: "string option"
  ef_content :: "string option"
  ef_indexed_at :: "go_time option"
  ef_page_rank :: "real option"

definition no_fields :: es_fields where
  "no_fields = \<lparr>ef_link_id = None, ef_url = None, ef_title = None, ef_content = None, ef_indexed_at = None,
     ef_page_rank = None\<rparr>"

text \<open>Encoding omits a zero score; decoding leaves the zero value in a field that is missing.\<close>

definition encode_es_doc :: "es_document \<Rightarrow> es_fields" where
  "encode_es_doc d = \<lparr>ef_link_id = Some (ed_link_id d), ef_url = Some (ed_url d), ef_title = Some (ed_title d),
     ef_content = Some (ed_content d), ef_indexed_at = Some (ed_indexed_at d),
     ef_page_rank = (if ed_page_rank d = 0 then None else Some (ed_page_rank d))\<rparr>"

fun or_zero :: "'a \<Rightarrow> 'a option \<Rightarrow> 'a" where
  "or_zero z None = z"
| "or_zero z (Some x) = x"

definition decode_es_doc :: "es_fields \<Rightarrow> es_document" where
  "decode_es_doc f = \<lparr>ed_link_id = or_zero [] (ef_link_id f), ed_url = or_zero [] (ef_url f),
     ed_title = or_zero [] (ef_title f), ed_content = or_zero [] (ef_content f),
     ed_indexed_at = or_zero zero_time (ef_indexed_at f), ed_page_rank = or_zero 0 (ef_page_rank f)\<rparr>"

record es_search_result =
  hits_total :: "64 word"
  hit_list :: "es_document list"

datatype es_failure = EsError string string | OtherError go_error

fun es_failure_error :: "es_failure \<Rightarrow> go_error" where
  "es_failure_error (EsError typ reason) = External (typ @ '': '' @ reason)"
| "es_failure_error (OtherError err) = err"

text \<open>
  A response: whether its status is an error, and what decoding its body gives, as an error
  description and as a result.
\<close>

record 'a es_response =
  res_is_error :: bool
  res_error :: "go_error + string \<times> string"
  res_result :: "go_error + 'a"

definition unmarshal_response :: "'a es_response \<Rightarrow> es_failure + 'a" where
  "unmarshal_response res =
     (if res_is_error res
      then (case res_error res of
              Inl err \<Rightarrow> Inl (OtherError err)
            | Inr (typ, reason) \<Rightarrow> Inl (EsError typ reason))
      else (case res_result res of
              Inl err \<Rightarrow> Inl (OtherError err)
            | Inr a \<Rightarrow> Inr a))"

datatype es_query_body = MatchLinkID string | MultiMatch string string

record es_query =
  eq_query :: es_query_body
  eq_from :: "64 word"
  eq_size :: nat

record 'c es_client =
  ec_new_client :: "string list \<Rightarrow> go_error + 'c"
  ec_create_index :: "string \<Rightarrow> 'c \<Rightarrow> (go_error + unit es_response) \<times> 'c"
  ec_update :: "string \<Rightarrow> string \<Rightarrow> es_fields \<Rightarrow> 'c \<Rightarrow> (go_error + unit es_response) \<times> 'c"
  ec_search :: "es_query \<Rightarrow> 'c \<Rightarrow> go_error + es_search_result es_response"

section \<open>The indexer\<close>

definition es_index_name :: string where
  "es_index_name = ''textindexer''"

definition es_batch_size :: nat where
  "es_batch_size = 10"

record 'c es_indexer =
  ei_es :: 'c
  ei_refresh :: string

definition ensure_index :: "'c es_client \<Rightarrow> 'c \<Rightarrow> go_error option \<times> 'c" where
  "ensure_index C es =
     (case ec_create_index C es_index_name es of
        (Inl err, es') \<Rightarrow> (Some (Wrap ''cannot create ES index'' err), es')
      | (Inr res, es') \<Rightarrow>
          if res_is_error res
          then (case unmarshal_response res of
                  Inl (EsError typ reason) \<Rightarrow>
                    if typ = ''resource_already_exists_exception'' then (None, es')
                    else (Some (Wrap ''cannot create ES index'' (es_failure_error (EsError typ reason))), es')
                | Inl (OtherError err) \<Rightarrow> (Some (Wrap ''cannot create ES index'' err), es')
                | Inr _ \<Rightarrow> (Some (Errorf ''cannot create ES index''), es'))
          else (None, es'))"

definition new_es_indexer :: "'c es_client \<Rightarrow> string list \<Rightarrow> bool \<Rightarrow> go_error + 'c es_indexer" where
  "new_es_indexer C nodes syncUpdates =
     (case ec_new_client C nodes of
        Inl err \<Rightarrow> Inl err
      | Inr es \<Rightarrow>
          (case ensure_index C es of
             (Some err, _) \<Rightarrow> Inl err
           | (None, es') \<Rightarrow> Inr \<lparr>ei_es = es', ei_refresh = (if syncUpdates then ''true'' else ''false'')\<rparr>))"

definition make_es_doc :: "uuid_pkg \<Rightarrow> document \<Rightarrow> es_document" where
  "make_es_doc L d = \<lparr>ed_link_id = up_string L (doc_link_id d), ed_url = doc_url d, ed_title = doc_title d,
     ed_content = doc_content d, ed_indexed_at = doc_indexed_at d, ed_page_rank = 0\<rparr>"

text \<open>\<^verbatim>\<open>uuid.MustParse\<close> panics on a malformed identifier.\<close>

definition map_es_doc :: "uuid_pkg \<Rightarrow> es_document \<Rightarrow> document outcome" where
  "map_es_doc L d =
     (case up_parse L (ed_link_id d) of
        Inl err \<Rightarrow> Panics ''uuid: Parse''
      | Inr i \<Rightarrow> Returns \<lparr>doc_link_id = i, doc_url = ed_url d, doc_title = ed_title d, doc_content = ed_content d,
                         doc_indexed_at = ed_indexed_at d, doc_page_rank = ed_page_rank d\<rparr>)"

text \<open>An update request and the handling of its response, common to two operations.\<close>

definition es_update_request ::
  "'c es_client \<Rightarrow> string \<Rightarrow> string \<Rightarrow> es_fields \<Rightarrow> 'c es_indexer \<Rightarrow> go_error option \<times> 'c es_indexer" where
  "es_update_request C msg key doc i =
     (case ec_update C (ei_refresh i) key doc (ei_es i) of
        (Inl err, es') \<Rightarrow> (Some (Wrap msg err), i\<lparr>ei_es := es'\<rparr>)
      | (Inr res, es') \<Rightarrow>
          (case unmarshal_response res of
             Inl failure \<Rightarrow> (Some (Wrap msg (es_failure_error failure)), i\<lparr>ei_es := es'\<rparr>)
           | Inr _ \<Rightarrow> (None, i\<lparr>ei_es := es'\<rparr>)))"

definition es_index ::
  "'c es_client \<Rightarrow> uuid_pkg \<Rightarrow> document \<Rightarrow> 'c es_indexer \<Rightarrow> go_error option \<times> 'c es_indexer" where
  "es_index C L d i =
     (if doc_link_id d = uuid_nil then (Some (Wrap ''index'' (Sentinel IndexErrMissingLinkID)), i)
      else let doc = make_es_doc L d
           in es_update_request C ''index'' (ed_link_id doc) (encode_es_doc doc) i)"

definition es_update_score ::
  "'c es_client \<Rightarrow> uuid_pkg \<Rightarrow> uuid \<Rightarrow> real \<Rightarrow> 'c es_indexer \<Rightarrow> go_error option \<times> 'c es_indexer" where
  "es_update_score C L linkID score i =
     es_update_request C ''update score'' (up_string L linkID)
       (no_fields\<lparr>ef_link_id := Some (up_string L linkID), ef_page_rank := Some score\<rparr>) i"

definition run_es_search :: "'c es_client \<Rightarrow> 'c \<Rightarrow> es_query \<Rightarrow> go_error + es_search_result" where
  "run_es_search C es searchQuery =
     (case ec_search C searchQuery es of
        Inl err \<Rightarrow> Inl err
      | Inr res \<Rightarrow>
          (case unmarshal_response res of
             Inl failure \<Rightarrow> Inl (es_failure_error failure)
           | Inr searchRes \<Rightarrow> Inr searchRes))"

definition es_find_by_id :: "'c es_client \<Rightarrow> uuid_pkg \<Rightarrow> uuid \<Rightarrow> 'c es_indexer \<Rightarrow> document outcome" where
  "es_find_by_id C L linkID i =
     (case run_es_search C (ei_es i) \<lparr>eq_query = MatchLinkID (up_string L linkID), eq_from = 0, eq_size = 1\<rparr> of
        Inl err \<Rightarrow> Fails (Wrap ''find by ID'' err)
      | Inr searchRes \<Rightarrow>
          if length (hit_list searchRes) \<noteq> 1 then Fails (Wrap ''find by ID'' (Sentinel IndexErrNotFound))
          else map_es_doc L (hit_list searchRes ! 0))"

section \<open>Searching\<close>

record es_iterator =
  eit_search_req :: es_query
  eit_cum_idx :: "64 word"
  eit_rs_idx :: nat
  eit_rs :: "es_search_result option"
  eit_latched_doc :: "document option"
  eit_last_err :: "go_error option"

definition es_search :: "'c es_client \<Rightarrow> query \<Rightarrow> 'c es_indexer \<Rightarrow> go_error + es_iterator" where
  "es_search C q i =
     (let qtype = (case query_type q of QueryTypePhrase \<Rightarrow> ''phrase'' | _ \<Rightarrow> ''best_fields'');
          qry = \<lparr>eq_query = MultiMatch qtype (query_expression q), eq_from = query_offset q, eq_size = es_batch_size\<rparr>
      in (case run_es_search C (ei_es i) qry of
            Inl err \<Rightarrow> Inl (Wrap ''search'' err)
          | Inr searchRes \<Rightarrow>
              Inr \<lparr>eit_search_req = qry, eit_cum_idx = query_offset q, eit_rs_idx = 0, eit_rs = Some searchRes,
                   eit_latched_doc = None, eit_last_err = None\<rparr>))"

definition es_it_latch :: "uuid_pkg \<Rightarrow> es_search_result \<Rightarrow> es_iterator \<Rightarrow> (bool \<times> es_iterator) outcome" where
  "es_it_latch L rs it =
     (if eit_rs_idx it \<ge> length (hit_list rs) then Panics ''index out of range''
      else outcome_bind (map_es_doc L (hit_list rs ! eit_rs_idx it)) (\<lambda>d.
        Returns (True, it\<lparr>eit_latched_doc := Some d, eit_cum_idx := eit_cum_idx it + 1,
                         eit_rs_idx := eit_rs_idx it + 1\<rparr>)))"

definition es_it_next :: "'c es_client \<Rightarrow> uuid_pkg \<Rightarrow> 'c \<Rightarrow> es_iterator \<Rightarrow> (bool \<times> es_iterator) outcome" where
  "es_it_next C L es it =
     (case (eit_last_err it, eit_rs it) of
        (None, Some rs) \<Rightarrow>
          if eit_cum_idx it \<ge> hits_total rs then Returns (False, it)
          else if eit_rs_idx it \<ge> length (hit_list rs) then
            let req = (eit_search_req it)\<lparr>eq_from := eq_from (eit_search_req it) + of_nat es_batch_size\<rparr>
            in (case run_es_search C es req of
                  Inl err \<Rightarrow> Returns (False, it\<lparr>eit_search_req := req, eit_rs := None, eit_last_err := Some err\<rparr>)
                | Inr rs' \<Rightarrow> es_it_latch L rs' (it\<lparr>eit_search_req := req, eit_rs := Some rs', eit_rs_idx := 0\<rparr>))
          else es_it_latch L rs it
      | _ \<Rightarrow> Returns (False, it))"

text \<open>\<^verbatim>\<open>Close\<close> and \<^verbatim>\<open>TotalCount\<close> dereference the results.\<close>

definition es_it_close :: "es_iterator \<Rightarrow> es_iterator outcome" where
  "es_it_close it =
     (case eit_rs it of
        None \<Rightarrow> Panics ''nil pointer dereference''
      | Some rs \<Rightarrow> Returns (it\<lparr>eit_cum_idx := hits_total rs\<rparr>))"

definition es_it_total_count :: "es_iterator \<Rightarrow> 64 word outcome" where
  "es_it_total_count it =
     (case eit_rs it of None \<Rightarrow> Panics ''nil pointer dereference'' | Some rs \<Rightarrow> Returns (hits_total rs))"

fun es_drain ::
  "'c es_client \<Rightarrow> uuid_pkg \<Rightarrow> 'c \<Rightarrow> nat \<Rightarrow> es_iterator \<Rightarrow> (document list \<times> es_iterator) outcome" where
  "es_drain C L es 0 it = Returns ([], it)"
| "es_drain C L es (Suc n) it =
     outcome_bind (es_it_next C L es it) (\<lambda>(more, it').
       if more
       then outcome_bind (es_drain C L es n it') (\<lambda>(ds, it''). Returns (the (eit_latched_doc it') # ds, it''))
       else Returns ([], it'))"

section \<open>The contract\<close>

text \<open>
  What the cluster documents: an update with \<^verbatim>\<open>doc_as_upsert\<close> merges the fields into the document
  or creates it, and fails without an effect; a match on the keyword field \<^verbatim>\<open>LinkID\<close> finds the
  documents with that value.  \<open>stored\<close> is the content of the cluster as a search sees it.
  The refresh option the indexer passes on decides only when a search sees an update; the contract
  is the one of the option ''true'' (\<^verbatim>\<open>syncUpdates\<close>), assumed whatever option is passed, so the delay
  under ''false'' is left out.
\<close>

fun override :: "'a option \<Rightarrow> 'a option \<Rightarrow> 'a option" where
  "override x None = x"
| "override x (Some y) = Some y"

definition merge_fields :: "es_fields option \<Rightarrow> es_fields \<Rightarrow> es_fields" where
  "merge_fields old f =
     (let g = (case old of None \<Rightarrow> no_fields | Some g \<Rightarrow> g)
      in \<lparr>ef_link_id = override (ef_link_id g) (ef_link_id f), ef_url = override (ef_url g) (ef_url f),
          ef_title = override (ef_title g) (ef_title f), ef_content = override (ef_content g) (ef_content f),
          ef_indexed_at = override (ef_indexed_at g) (ef_indexed_at f),
          ef_page_rank = override (ef_page_rank g) (ef_page_rank f)\<rparr>)"

definition filed_by_link_id :: "(string \<rightharpoonup> es_fields) \<Rightarrow> bool" where
  "filed_by_link_id m \<longleftrightarrow> (\<forall>k f. m k = Some f \<longrightarrow> ef_link_id f = Some k \<and> k \<in> range uuid_text)"

definition es_update_ok :: "'c es_client \<Rightarrow> ('c \<Rightarrow> string \<rightharpoonup> es_fields) \<Rightarrow> bool" where
  "es_update_ok C stored \<longleftrightarrow>
     (\<forall>refresh key doc c.
        let (r, c') = ec_update C refresh key doc c in
        stored c' = (case r of
            Inl _ \<Rightarrow> stored c
          | Inr res \<Rightarrow> (case unmarshal_response res of
                Inl _ \<Rightarrow> stored c
              | Inr _ \<Rightarrow> (stored c)(key \<mapsto> merge_fields (stored c key) doc))))"

definition es_find_ok :: "'c es_client \<Rightarrow> ('c \<Rightarrow> string \<rightharpoonup> es_fields) \<Rightarrow> bool" where
  "es_find_ok C stored \<longleftrightarrow>
     (\<forall>c key. filed_by_link_id (stored c) \<longrightarrow>
        (\<exists>rs. run_es_search C c \<lparr>eq_query = MatchLinkID key, eq_from = 0, eq_size = 1\<rparr> = Inr rs \<and>
           hit_list rs = (case stored c key of None \<Rightarrow> [] | Some f \<Rightarrow> [decode_es_doc f])))"

definition es_inv :: "('c \<Rightarrow> string \<rightharpoonup> es_fields) \<Rightarrow> 'c es_indexer \<Rightarrow> bool" where
  "es_inv stored i \<longleftrightarrow> filed_by_link_id (stored (ei_es i))"

definition stored_doc :: "uuid \<Rightarrow> es_fields \<Rightarrow> document" where
  "stored_doc u f = \<lparr>doc_link_id = u, doc_url = or_zero [] (ef_url f), doc_title = or_zero [] (ef_title f),
     doc_content = or_zero [] (ef_content f), doc_indexed_at = or_zero zero_time (ef_indexed_at f),
     doc_page_rank = or_zero 0 (ef_page_rank f)\<rparr>"

definition es_abs :: "('c \<Rightarrow> string \<rightharpoonup> es_fields) \<Rightarrow> 'c es_indexer \<Rightarrow> doc_store" where
  "es_abs stored i u = map_option (stored_doc u) (stored (ei_es i) (uuid_text u))"

lemma stored_doc_score_of: "doc_page_rank (stored_doc u f) = or_zero 0 (ef_page_rank f)"
  by (simp add: stored_doc_def)

lemma es_update_request_stored:
  assumes "es_update_ok C stored" "es_update_request C msg key doc i = (r, i')"
  shows "stored (ei_es i') = (if r = None then (stored (ei_es i))(key \<mapsto> merge_fields (stored (ei_es i) key) doc)
    else stored (ei_es i))"
proof -
  obtain a c' where upd: "ec_update C (ei_refresh i) key doc (ei_es i) = (a, c')"
    by (cases "ec_update C (ei_refresh i) key doc (ei_es i)")
  have "stored c' = (case a of
      Inl _ \<Rightarrow> stored (ei_es i)
    | Inr res \<Rightarrow> (case unmarshal_response res of
          Inl _ \<Rightarrow> stored (ei_es i)
        | Inr _ \<Rightarrow> (stored (ei_es i))(key \<mapsto> merge_fields (stored (ei_es i) key) doc)))"
    using assms(1) [unfolded es_update_ok_def, rule_format, of "ei_refresh i" key doc "ei_es i"] by (simp add: upd)
  then show ?thesis
    using assms(2) by (auto simp: es_update_request_def upd split: sum.splits)
qed

lemma es_update_request_ok:
  "es_update_ok C stored \<Longrightarrow> es_update_request C msg key doc i = (None, i') \<Longrightarrow>
   stored (ei_es i') = (stored (ei_es i))(key \<mapsto> merge_fields (stored (ei_es i) key) doc)"
  using es_update_request_stored [of C stored msg key doc i None i'] by simp

lemma es_update_request_failed:
  "es_update_ok C stored \<Longrightarrow> es_update_request C msg key doc i = (Some err, i') \<Longrightarrow>
   stored (ei_es i') = stored (ei_es i)"
  using es_update_request_stored [of C stored msg key doc i "Some err" i'] by simp

lemma es_same_content: "stored (ei_es i') = stored (ei_es i) \<Longrightarrow>
    es_abs stored i' = es_abs stored i \<and> es_inv stored i' = es_inv stored i"
  by (auto simp: es_abs_def es_inv_def intro: ext)

lemma filed_by_link_id_update:
  "filed_by_link_id m \<Longrightarrow> ef_link_id f = Some (uuid_text u) \<Longrightarrow>
   filed_by_link_id (m(uuid_text u \<mapsto> merge_fields old f))"
  by (auto simp: filed_by_link_id_def merge_fields_def Let_def)

lemma stored_doc_index:
  assumes "uuid_pkg_ok L" "doc_link_id d = u"
  shows "stored_doc u (merge_fields old (encode_es_doc (make_es_doc L d))) =
    d\<lparr>doc_page_rank := (case old of None \<Rightarrow> 0 | Some f \<Rightarrow> or_zero 0 (ef_page_rank f))\<rparr>"
  using assms by (cases old) (auto simp: stored_doc_def merge_fields_def encode_es_doc_def make_es_doc_def no_fields_def)

lemma stored_doc_score:
  "stored_doc u (merge_fields old (no_fields\<lparr>ef_link_id := Some k, ef_page_rank := Some x\<rparr>)) =
    (case old of None \<Rightarrow> zero_document\<lparr>doc_link_id := u, doc_page_rank := x\<rparr>
     | Some f \<Rightarrow> (stored_doc u f)\<lparr>doc_page_rank := x\<rparr>)"
  by (cases old) (auto simp: stored_doc_def merge_fields_def no_fields_def zero_document_def)

lemma es_contract:
  fixes C :: "'c es_client"
  assumes L: "uuid_pkg_ok L" and C: "es_update_ok C stored" "es_find_ok C stored"
  shows "text_indexer (es_inv stored) (es_abs stored)
    (\<lambda>now d i. let (r, i') = es_index C L d i in (r, d, i')) (es_find_by_id C L) (es_update_score C L)"
proof (unfold_locales, goal_cases)
  case (1 s d now)
  then show ?case by (simp add: es_index_def)
next
  case (2 s d now d' s')
  then have req: "es_update_request C ''index'' (uuid_text (doc_link_id d)) (encode_es_doc (make_es_doc L d)) s = (None, s')"
    and d': "d' = d"
    using L by (auto simp: es_index_def Let_def make_es_doc_def split: prod.splits)
  have link: "ef_link_id (encode_es_doc (make_es_doc L d)) = Some (uuid_text (doc_link_id d))"
    using L by (simp add: encode_es_doc_def make_es_doc_def)
  note upd = es_update_request_ok [OF C(1) req]
  have "es_abs stored s' = put_doc (d\<lparr>doc_page_rank := 0\<rparr>) (doc_indexed_at d) (es_abs stored s)"
    by (rule ext) (auto simp: es_abs_def upd put_doc_def stored_doc_index [OF L refl] stored_doc_score_of split: option.splits)
  then show ?case
    using 2(1) filed_by_link_id_update [OF _ link] by (auto simp: es_inv_def upd d')
next
  case (3 s d now err d' s')
  then have "es_update_request C ''index'' (uuid_text (doc_link_id d)) (encode_es_doc (make_es_doc L d)) s = (Some err, s')"
    using L by (auto simp: es_index_def Let_def make_es_doc_def split: prod.splits)
  from es_update_request_failed [OF C(1) this] show ?case
    using 3(1) es_same_content [of stored s' s] by simp
next
  case (4 s i d)
  then obtain f where f: "stored (ei_es s) (uuid_text i) = Some f" "d = stored_doc i f"
    by (auto simp: es_abs_def)
  then obtain rs where "run_es_search C (ei_es s) \<lparr>eq_query = MatchLinkID (uuid_text i), eq_from = 0, eq_size = 1\<rparr> = Inr rs"
    "hit_list rs = [decode_es_doc f]"
    using C(2) 4(1) unfolding es_find_ok_def es_inv_def by fastforce
  moreover have "ef_link_id f = Some (uuid_text i)" using 4(1) f(1) by (simp add: es_inv_def filed_by_link_id_def)
  ultimately show ?case
    using L by (simp add: es_find_by_id_def map_es_doc_def decode_es_doc_def uuid_pkg_parse f(2) stored_doc_def)
next
  case (5 s i)
  then have "stored (ei_es s) (uuid_text i) = None" by (simp add: es_abs_def)
  then obtain rs where "run_es_search C (ei_es s) \<lparr>eq_query = MatchLinkID (uuid_text i), eq_from = 0, eq_size = 1\<rparr> = Inr rs"
    "hit_list rs = []"
    using C(2) 5(1) unfolding es_find_ok_def es_inv_def by fastforce
  then show ?case using L by (simp add: es_find_by_id_def)
next
  case (6 s i x s')
  note upd = es_update_request_ok [OF C(1) 6(2) [unfolded es_update_score_def uuid_pkg_string [OF L]]]
  have "es_abs stored s' = put_score i x (es_abs stored s)"
    by (rule ext) (auto simp: es_abs_def upd put_score_def stored_doc_score split: option.splits)
  then show ?case
    using 6(1) by (simp add: es_inv_def upd filed_by_link_id_update)
next
  case (7 s i x err s')
  from es_update_request_failed [OF C(1) 7(2) [unfolded es_update_score_def]] show ?case
    using 7(1) es_same_content [of stored s' s] by simp
qed

text \<open>A cluster that behaves as documented and never fails.\<close>

definition reference_cluster :: "(string \<rightharpoonup> es_fields) es_client" where
  "reference_cluster = \<lparr>
     ec_new_client = (\<lambda>_. Inr Map.empty),
     ec_create_index = (\<lambda>_ c. (Inr \<lparr>res_is_error = False, res_error = Inl (Errorf []), res_result = Inr ()\<rparr>, c)),
     ec_update = (\<lambda>_ key doc c. (Inr \<lparr>res_is_error = False, res_error = Inl (Errorf []), res_result = Inr ()\<rparr>,
        c(key \<mapsto> merge_fields (c key) doc))),
     ec_search = (\<lambda>q c. Inr \<lparr>res_is_error = False, res_error = Inl (Errorf []), res_result =
        Inr (case eq_query q of
               MatchLinkID key \<Rightarrow>
                 \<lparr>hits_total = 1, hit_list = (case c key of None \<Rightarrow> [] | Some f \<Rightarrow> [decode_es_doc f])\<rparr>
             | MultiMatch _ _ \<Rightarrow> \<lparr>hits_total = 0, hit_list = []\<rparr>)\<rparr>)\<rparr>"

lemma reference_cluster_ok: "es_update_ok reference_cluster id" "es_find_ok reference_cluster id"
  by (auto simp: es_update_ok_def es_find_ok_def reference_cluster_def unmarshal_response_def run_es_search_def)

interpretation es: text_indexer "es_inv id" "es_abs id"
    "\<lambda>now d i. let (r, i') = es_index reference_cluster rfc4122_pkg d i in (r, d, i')"
    "es_find_by_id reference_cluster rfc4122_pkg" "es_update_score reference_cluster rfc4122_pkg"
  by (rule es_contract) (rule rfc4122_pkg_ok reference_cluster_ok)+

section \<open>Iteration\<close>

text \<open>
  The documented paging of a query: ten hits from \<^verbatim>\<open>from\<close> on, with the total, as long as the page
  ends in the result window, whose default is 10000.
\<close>

definition es_result_window :: nat where
  "es_result_window = 10000"

definition es_page :: "es_document list \<Rightarrow> nat \<Rightarrow> es_search_result" where
  "es_page hits f = \<lparr>hits_total = of_nat (length hits), hit_list = take 10 (drop f hits)\<rparr>"

definition es_answers :: "'c es_client \<Rightarrow> 'c \<Rightarrow> es_query_body \<Rightarrow> es_document list \<Rightarrow> bool" where
  "es_answers C es body hits \<longleftrightarrow>
     (\<forall>f. f + 10 \<le> es_result_window \<longrightarrow> run_es_search C es \<lparr>eq_query = body, eq_from = of_nat f, eq_size = 10\<rparr> = Inr (es_page hits f))"

definition parses_as :: "uuid_pkg \<Rightarrow> es_document list \<Rightarrow> document list \<Rightarrow> bool" where
  "parses_as L hits ds = list_all2 (\<lambda>h d. map_es_doc L h = Returns d) hits ds"

definition es_at_position :: "es_query_body \<Rightarrow> es_document list \<Rightarrow> nat \<Rightarrow> nat \<Rightarrow> es_iterator \<Rightarrow> bool" where
  "es_at_position body hits f p it \<longleftrightarrow> f \<le> p \<and> p \<le> f + 10 \<and> eit_last_err it = None \<and>
     eit_search_req it = \<lparr>eq_query = body, eq_from = of_nat f, eq_size = 10\<rparr> \<and>
     eit_cum_idx it = of_nat p \<and> eit_rs_idx it = p - f \<and> eit_rs it = Some (es_page hits f)"

lemma es_it_next_end:
  assumes "es_at_position body hits f p it" "length hits \<le> p" "p < 2 ^ 63"
  shows "es_it_next C L es it = Returns (False, it)"
proof -
  have "(of_nat (length hits) :: 64 word) \<le> of_nat p" using assms(2,3) by (subst uint64_le_iff) auto
  then show ?thesis using assms(1) by (simp add: es_it_next_def es_at_position_def es_page_def)
qed

text \<open>Where the next document is on the page that is there, and where it is not.\<close>

lemma es_it_next_same_page:
  assumes it: "es_at_position body hits f p it" and p: "p < length hits" "p \<noteq> f + 10" and len: "length hits < 2 ^ 63"
    and doc: "map_es_doc L (hits ! p) = Returns d"
  shows "\<exists>it'. es_it_next C L es it = Returns (True, it') \<and> es_at_position body hits f (p + 1) it' \<and>
    eit_latched_doc it' = Some d"
proof -
  have lt: "\<not> (of_nat (length hits) :: 64 word) \<le> of_nat p" using p len by (subst uint64_le_iff) auto
  have fp: "f \<le> p" "p \<le> f + 10" using it by (simp_all add: es_at_position_def)
  have "\<not> length (take 10 (drop f hits)) \<le> p - f" and nth: "take 10 (drop f hits) ! (p - f) = hits ! p"
    using page_exhausted [OF p(1) fp] page_nth [OF p(1) fp(1)] fp p(2) by auto
  then show ?thesis
    using it lt doc fp p(2)
    by (auto simp: es_it_next_def es_it_latch_def es_at_position_def es_page_def Suc_diff_le add.commute)
qed

lemma es_it_next_new_page:
  assumes it: "es_at_position body hits f p it" and p: "p < length hits" "p = f + 10" and len: "length hits < 2 ^ 63"
  shows "es_it_next C L es it =
    (let req = \<lparr>eq_query = body, eq_from = of_nat p, eq_size = 10\<rparr> in
     case run_es_search C es req of
       Inl err \<Rightarrow> Returns (False, it\<lparr>eit_search_req := req, eit_rs := None, eit_last_err := Some err\<rparr>)
     | Inr rs' \<Rightarrow> es_it_latch L rs' (it\<lparr>eit_search_req := req, eit_rs := Some rs', eit_rs_idx := 0\<rparr>))"
proof -
  have lt: "\<not> (of_nat (length hits) :: 64 word) \<le> of_nat p" using p len by (subst uint64_le_iff) auto
  have "length (take 10 (drop f hits)) \<le> p - f" using page_exhausted [of p hits f] p by simp
  then show ?thesis
    using it lt p(2) by (simp add: es_it_next_def es_at_position_def es_page_def es_batch_size_def add.commute)
qed

lemma es_drain_from:
  assumes "es_at_position body hits f p it" "p < 2 ^ 63" "length hits + 10 \<le> es_result_window"
    and "es_answers C es body hits" "parses_as L hits ds" "length hits - p < n"
  shows "\<exists>it'. es_drain C L es n it = Returns (drop p ds, it') \<and> eit_last_err it' = None \<and> eit_rs it' \<noteq> None"
  using assms
proof (induction n arbitrary: f p it)
  case (Suc n)
  have len: "length ds = length hits" using Suc.prems(5) by (simp add: parses_as_def list_all2_lengthD)
  have small: "length hits < 2 ^ 63" using Suc.prems(3) by (simp add: es_result_window_def)
  show ?case
  proof (cases "p < length hits")
    case False
    then have "es_it_next C L es it = Returns (False, it)"
      using Suc.prems by (intro es_it_next_end) auto
    then show ?thesis using Suc.prems(1) False len by (simp add: es_at_position_def)
  next
    case True
    have doc: "map_es_doc L (hits ! p) = Returns (ds ! p)"
      using Suc.prems(5) True by (simp add: parses_as_def list_all2_conv_all_nth)
    have "\<exists>f' it'. es_it_next C L es it = Returns (True, it') \<and> es_at_position body hits f' (p + 1) it' \<and>
        eit_latched_doc it' = Some (ds ! p)"
    proof (cases "p = f + 10")
      case False
      show ?thesis
        by (rule exI [of _ f], rule es_it_next_same_page [OF Suc.prems(1) True False small doc])
    next
      case new: True
      have ans: "run_es_search C es \<lparr>eq_query = body, eq_from = of_nat p, eq_size = 10\<rparr> = Inr (es_page hits p)"
        using Suc.prems(3,4) True by (simp add: es_answers_def)
      have "take 10 (drop p hits) ! 0 = hits ! p" "take 10 (drop p hits) \<noteq> []" using True by simp_all
      then show ?thesis
        using Suc.prems(1) doc
        by (intro exI [of _ p])
          (auto simp: es_it_next_new_page [OF Suc.prems(1) True new small] ans Let_def es_it_latch_def es_page_def
            es_at_position_def add.commute)
    qed
    then obtain f' it1 where step: "es_it_next C L es it = Returns (True, it1)"
      "es_at_position body hits f' (p + 1) it1" "eit_latched_doc it1 = Some (ds ! p)"
      by (elim exE conjE) (rule that)
    obtain it' where "es_drain C L es n it1 = Returns (drop (p + 1) ds, it')" "eit_last_err it' = None" "eit_rs it' \<noteq> None"
      using Suc.IH [OF step(2) _ Suc.prems(3-5)] small Suc.prems(6) True by fastforce
    moreover have "drop p ds = ds ! p # drop (p + 1) ds" using Cons_nth_drop_Suc [of p ds] True len by simp
    ultimately show ?thesis using step by simp
  qed
qed simp

definition es_body :: "query \<Rightarrow> es_query_body" where
  "es_body q = MultiMatch (case query_type q of QueryTypePhrase \<Rightarrow> ''phrase'' | _ \<Rightarrow> ''best_fields'') (query_expression q)"

lemma es_search_first_page:
  assumes "run_es_search C (ei_es i) \<lparr>eq_query = es_body q, eq_from = of_nat k, eq_size = 10\<rparr> = Inr (es_page hits k)"
    and "query_offset q = of_nat k"
  shows "\<exists>it. es_search C q i = Inr it \<and> es_at_position (es_body q) hits k k it"
  using assms
  by (simp add: es_search_def es_body_def [symmetric] es_batch_size_def es_at_position_def Let_def)

lemma es_search_position:
  assumes "es_answers C (ei_es i) (es_body q) hits" "query_offset q = of_nat k" "k + 10 \<le> es_result_window"
  shows "\<exists>it. es_search C q i = Inr it \<and> es_it_total_count it = Returns (of_nat (length hits)) \<and>
    es_at_position (es_body q) hits k k it"
proof -
  have "run_es_search C (ei_es i) \<lparr>eq_query = es_body q, eq_from = of_nat k, eq_size = 10\<rparr> = Inr (es_page hits k)"
    using assms(1,3) by (simp add: es_answers_def)
  from es_search_first_page [OF this assms(2)] show ?thesis
    by (auto simp: es_it_total_count_def es_at_position_def es_page_def)
qed

text \<open>The iterator still has its results after the last document, so it can be closed.\<close>

lemma es_search_enumerates:
  assumes answers: "es_answers C (ei_es i) (es_body q) hits" and docs: "parses_as L hits ds"
    and len: "length hits + 10 \<le> es_result_window" and offset: "query_offset q = of_nat k" "k + 10 \<le> es_result_window"
  shows "\<exists>it. es_search C q i = Inr it \<and> es_it_total_count it = Returns (of_nat (length hits)) \<and>
    (\<forall>n > length hits - k. \<exists>it'. es_drain C L (ei_es i) n it = Returns (drop k ds, it') \<and> eit_last_err it' = None \<and>
       (\<exists>it''. es_it_close it' = Returns it''))"
proof -
  obtain it where it: "es_search C q i = Inr it" "es_it_total_count it = Returns (of_nat (length hits))"
    "es_at_position (es_body q) hits k k it"
    using es_search_position [OF answers offset] by blast
  have k: "k < 2 ^ 63" using offset(2) by (simp add: es_result_window_def)
  have "\<exists>it'. es_drain C L (ei_es i) n it = Returns (drop k ds, it') \<and> eit_last_err it' = None \<and>
      (\<exists>it''. es_it_close it' = Returns it'')" if "length hits - k < n" for n
    using es_drain_from [OF it(3) k len answers docs that] by (auto simp: es_it_close_def)
  with it(1,2) show ?thesis by blast
qed

lemma es_drain_failed_page:
  assumes failed: "run_es_search C es \<lparr>eq_query = body, eq_from = of_nat (k + 10), eq_size = 10\<rparr> = Inl err"
    and docs: "parses_as L hits ds" and more: "k + 10 < length hits" "length hits < 2 ^ 63"
    and m: "m \<le> 10" and at: "es_at_position body hits k (k + 10 - m) it"
  shows "\<exists>it'. es_drain C L es (Suc m) it = Returns (take m (drop (k + 10 - m) ds), it') \<and>
    eit_last_err it' = Some err \<and> eit_rs it' = None"
  using m at
proof (induction m arbitrary: it)
  case 0
  then have "es_at_position (body) hits k (k + 10) it" by simp
  from es_it_next_new_page [OF this more(1) refl more(2), of C L es]
  have "es_it_next C L es it = Returns (False,
      it\<lparr>eit_search_req := \<lparr>eq_query = body, eq_from = of_nat (k + 10), eq_size = 10\<rparr>,
         eit_rs := None, eit_last_err := Some err\<rparr>)"
    unfolding Let_def failed by simp
  then show ?case by simp
next
  case (Suc m)
  define p where "p = k + 10 - Suc m"
  have p: "p < length hits" "p \<noteq> k + 10" "p + 1 = k + 10 - m"
    using Suc.prems(1) more by (auto simp: p_def)
  have len: "length ds = length hits" using docs by (simp add: parses_as_def list_all2_lengthD)
  have doc: "map_es_doc L (hits ! p) = Returns (ds ! p)"
    using docs p(1) by (simp add: parses_as_def list_all2_conv_all_nth)
  obtain it1 where step: "es_it_next C L es it = Returns (True, it1)"
    "es_at_position (body) hits k (p + 1) it1" "eit_latched_doc it1 = Some (ds ! p)"
    using es_it_next_same_page [OF Suc.prems(2) [folded p_def] p(1,2) more(2) doc, of C es]
    by (elim exE conjE) (rule that)
  obtain it' where "es_drain C L es (Suc m) it1 = Returns (take m (drop (k + 10 - m) ds), it')"
    "eit_last_err it' = Some err" "eit_rs it' = None"
    using Suc.IH [of it1] Suc.prems(1) step(2) p(3) by auto
  moreover have "take (Suc m) (drop p ds) = ds ! p # take m (drop (k + 10 - m) ds)"
    using Cons_nth_drop_Suc [of p ds] p len by (metis Suc_eq_plus1 take_Suc_Cons)
  ultimately show ?case
    using step by (simp only: es_drain.simps outcome_bind.simps prod.case if_True option.sel p_def [symmetric]) simp
qed

text \<open>
  When a query has more than ten results from its offset on and fetching the next page
  fails, the iterator yields ten documents and reports the error, but it has lost its results:
  closing it, or asking for the total, then panics, where a caller expects an error.
\<close>

theorem es_close_panics_after_failed_page:
  assumes first: "run_es_search C (ei_es i) \<lparr>eq_query = es_body q, eq_from = of_nat k, eq_size = 10\<rparr> = Inr (es_page hits k)"
    and failed: "run_es_search C (ei_es i) \<lparr>eq_query = es_body q, eq_from = of_nat (k + 10), eq_size = 10\<rparr> = Inl err"
    and docs: "parses_as L hits ds" and more: "k + 10 < length hits" "length hits < 2 ^ 63"
    and offset: "query_offset q = of_nat k"
  shows "\<exists>it it'. es_search C q i = Inr it \<and> es_drain C L (ei_es i) 11 it = Returns (take 10 (drop k ds), it') \<and>
    eit_last_err it' = Some err \<and> panics (es_it_close it') \<and> panics (es_it_total_count it')"
proof -
  obtain it where it: "es_search C q i = Inr it" "es_at_position (es_body q) hits k k it"
    using es_search_first_page [OF first offset] by (elim exE conjE) (rule that)
  obtain it' where "es_drain C L (ei_es i) 11 it = Returns (take 10 (drop k ds), it')"
    "eit_last_err it' = Some err" "eit_rs it' = None"
    using es_drain_failed_page [OF failed docs more, of 10 it] it(2) by auto
  with it(1) show ?thesis by (auto simp: es_it_close_def es_it_total_count_def)
qed

text \<open>A cluster that answers every query with the same hits, and fails after the first page if told so.\<close>

definition listing_cluster :: "bool \<Rightarrow> (es_document list) es_client" where
  "listing_cluster fail = \<lparr>
     ec_new_client = (\<lambda>_. Inr []),
     ec_create_index = (\<lambda>_ c. (Inl (Errorf []), c)), ec_update = (\<lambda>_ key doc c. (Inl (Errorf []), c)),
     ec_search = (\<lambda>q c.
       if fail \<and> eq_from q > 0 then Inl (Errorf ''connection refused'')
       else Inr \<lparr>res_is_error = False, res_error = Inl (Errorf []), res_result = Inr (es_page c (unat (eq_from q)))\<rparr>)\<rparr>"

definition twelve_hits :: "es_document list" where
  "twelve_hits = replicate 12 (make_es_doc rfc4122_pkg zero_document)"

lemma twelve_hits_parse: "parses_as rfc4122_pkg twelve_hits (replicate 12 zero_document)"
proof -
  have "map_es_doc rfc4122_pkg (make_es_doc rfc4122_pkg zero_document) = Returns zero_document"
    using uuid_pkg_parse [OF rfc4122_pkg_ok, of 0] uuid_pkg_string [OF rfc4122_pkg_ok, of 0]
    by (simp add: map_es_doc_def make_es_doc_def zero_document_def)
  then show ?thesis by (simp add: parses_as_def twelve_hits_def list_all2_conv_all_nth)
qed

definition search_all :: query where
  "search_all = \<lparr>query_type = QueryTypeMatch, query_expression = ''a'', query_offset = 0\<rparr>"

lemma listing_cluster_answers: "es_answers (listing_cluster False) twelve_hits (es_body q) twelve_hits"
  unfolding es_answers_def
proof (intro allI impI)
  fix f :: nat
  assume "f + 10 \<le> es_result_window"
  then have "unat (of_nat f :: 64 word) = f"
    using uint64_of_nat [of f] by (simp add: es_result_window_def) (metis nat_int nat_uint_eq)
  then show "run_es_search (listing_cluster False) twelve_hits
      \<lparr>eq_query = es_body q, eq_from = of_nat f, eq_size = 10\<rparr> = Inr (es_page twelve_hits f)"
    by (simp add: run_es_search_def listing_cluster_def unmarshal_response_def)
qed

theorem es_close_panics_after_failed_page_witness:
  "\<exists>it it'. es_search (listing_cluster True) search_all \<lparr>ei_es = twelve_hits, ei_refresh = ''true''\<rparr> = Inr it \<and>
     es_drain (listing_cluster True) rfc4122_pkg twelve_hits 11 it = Returns (replicate 10 zero_document, it') \<and>
     panics (es_it_close it')"
proof -
  define i where "i = \<lparr>ei_es = twelve_hits, ei_refresh = ''true''\<rparr>"
  have "\<exists>it it'. es_search (listing_cluster True) search_all i = Inr it \<and>
      es_drain (listing_cluster True) rfc4122_pkg (ei_es i) 11 it = Returns (take 10 (drop 0 (replicate 12 zero_document)), it') \<and>
      eit_last_err it' = Some (Errorf ''connection refused'') \<and> panics (es_it_close it') \<and> panics (es_it_total_count it')"
  proof (rule es_close_panics_after_failed_page)
    show "parses_as rfc4122_pkg twelve_hits (replicate 12 zero_document)" by (rule twelve_hits_parse)
  qed (simp_all add: i_def run_es_search_def listing_cluster_def unmarshal_response_def twelve_hits_def search_all_def)
  then show ?thesis by (auto simp: i_def)
qed

end
