(* ===== verification/CrawlerIndex.thy ===== *)
theory CrawlerIndex
  imports Crawler BleveIndex EsIndex
begin

text \<open>
  The text indexer stage on an index: what the interface promises of an indexed page, once for
  every implementation, and then for the in-memory index.
\<close>

text \<open>The stage calls \<^verbatim>\<open>Index\<close> with a document of its own, so the stamp is not seen.\<close>

definition index_call ::
  "(go_time \<Rightarrow> document \<Rightarrow> 's \<Rightarrow> go_error option \<times> document \<times> 's) \<Rightarrow> go_time \<Rightarrow> document \<Rightarrow> 's \<Rightarrow>
   go_error option \<times> 's" where
  "index_call idx now d s = (case idx now d s of (r, _, s') \<Rightarrow> (r, s'))"

context text_indexer
begin

lemma indexed_page:
  assumes inv: "inv s" and id: "pl_link_id p \<noteq> 0"
    and run: "text_indexer_process (index_call index_doc now') now p s = (Forward p', s')"
  shows "p' = p \<and> inv s' \<and> (\<forall>j. j \<noteq> pl_link_id p \<longrightarrow> abs s' j = abs s j) \<and>
    (\<exists>e. find_by_id (pl_link_id p) s' = Returns e \<and> doc_url e = pl_url p \<and> doc_title e = pl_title p \<and>
       doc_content e = pl_text_content p \<and>
       doc_page_rank e = (case abs s (pl_link_id p) of None \<Rightarrow> 0 | Some o' \<Rightarrow> doc_page_rank o'))"
proof -
  define d where "d = \<lparr>doc_link_id = pl_link_id p, doc_url = pl_url p, doc_title = pl_title p,
    doc_content = pl_text_content p, doc_indexed_at = now, doc_page_rank = 0\<rparr>"
  have id': "doc_link_id d \<noteq> 0" using id by (simp add: d_def)
  obtain d' where idx: "index_doc now' d s = (None, d', s')" and p': "p' = p"
    using run by (auto simp: text_indexer_process_def index_call_def d_def split: prod.splits option.splits)
  from index_ok [OF inv id' idx] obtain x where "inv s'" "abs s' = put_doc (d\<lparr>doc_page_rank := x\<rparr>) (doc_indexed_at d') (abs s)"
    by (elim conjE bexE) (rule that)
  moreover obtain e where "find_by_id (doc_link_id d) s' = Returns e" "doc_url e = doc_url d" "doc_title e = doc_title d"
    "doc_content e = doc_content d"
    "case abs s (doc_link_id d) of None \<Rightarrow> doc_page_rank e \<in> {doc_page_rank d, 0} | Some o' \<Rightarrow> doc_page_rank e = doc_page_rank o'"
    using find_indexed [OF inv id' idx] by (elim exE conjE) (rule that)
  ultimately show ?thesis
    using p' by (auto simp: d_def put_doc_def split: option.splits)
qed

lemma failed_page:
  assumes "inv s" "pl_link_id p \<noteq> 0"
    and "text_indexer_process (index_call index_doc now') now p s = (Aborted err, s')"
  shows "inv s' \<and> abs s' = abs s"
  using assms index_failed [of s "\<lparr>doc_link_id = pl_link_id p, doc_url = pl_url p, doc_title = pl_title p,
    doc_content = pl_text_content p, doc_indexed_at = now, doc_page_rank = 0\<rparr>" now']
  by (auto simp: text_indexer_process_def index_call_def split: prod.splits option.splits)

end

text \<open>
  C28. The text indexer stage on the in-memory index, whatever the search library answers.  When
  the stage forwards a page, looking its identifier up gives the page's URL, title and text with
  the score the index already had for it, or zero, and every other entry is as before; when it
  fails no entry has changed.
\<close>

theorem indexed_page_found_in_bleve:
  assumes inv: "bleve_inv s" and id: "pl_link_id p \<noteq> 0"
    and run: "text_indexer_process (index_call (bleve_index B rfc4122_pkg) now') now p s = (r, s')"
  shows "bleve_inv s' \<and>
    (case r of
       Forward p' \<Rightarrow> p' = p \<and> (\<forall>j. j \<noteq> pl_link_id p \<longrightarrow> bleve_abs s' j = bleve_abs s j) \<and>
         (\<exists>e. bleve_find_by_id rfc4122_pkg (pl_link_id p) s' = Inr e \<and> doc_url e = pl_url p \<and>
            doc_title e = pl_title p \<and> doc_content e = pl_text_content p \<and>
            doc_page_rank e = (case bleve_abs s (pl_link_id p) of None \<Rightarrow> 0 | Some o' \<Rightarrow> doc_page_rank o'))
     | Aborted _ \<Rightarrow> bleve_abs s' = bleve_abs s
     | _ \<Rightarrow> False)"
proof -
  have cases: "(\<exists>p'. r = Forward p') \<or> (\<exists>err. r = Aborted err)"
    using run by (auto simp: text_indexer_process_def split: prod.splits option.splits)
  have found: "(outcome_of x = Returns e) = (x = Inr e)" for x :: "go_error + document" and e
    by (cases x) auto
  from cases show ?thesis
  proof (elim disjE exE)
    fix p'
    assume r: "r = Forward p'"
    from bleve.indexed_page [OF inv id run [unfolded r]] show ?thesis
      by (simp add: r found)
  next
    fix err
    assume r: "r = Aborted err"
    from bleve.failed_page [OF inv id run [unfolded r]] show ?thesis by (simp add: r)
  qed
qed

definition page_payload :: payload where
  "page_payload = new_payload\<lparr>pl_link_id := 5, pl_url := ''http://a/'', pl_title := ''T'', pl_text_content := ''text''\<rparr>"

theorem indexed_page_found_in_bleve_witness:
  "\<exists>s' e. text_indexer_process (index_call (bleve_index listing_bleve rfc4122_pkg) 8) 7 page_payload
      \<lparr>bi_docs = Map.empty, bi_idx = []\<rparr> = (Forward page_payload, s') \<and>
     bleve_find_by_id rfc4122_pkg 5 s' = Inr e \<and> doc_title e = ''T'' \<and> doc_page_rank e = 0"
proof -
  define s :: "string list bleve_indexer" where "s = \<lparr>bi_docs = Map.empty, bi_idx = []\<rparr>"
  have inv: "bleve_inv s" by (simp add: s_def bleve_inv_def)
  have id: "pl_link_id page_payload \<noteq> 0" by (simp add: page_payload_def)
  obtain s' where run: "text_indexer_process (index_call (bleve_index listing_bleve rfc4122_pkg) 8) 7 page_payload s
      = (Forward page_payload, s')"
    by (simp add: text_indexer_process_def index_call_def bleve_index_def listing_bleve_def page_payload_def s_def Let_def)
  from indexed_page_found_in_bleve [OF inv id run] run show ?thesis
    by (auto simp: s_def page_payload_def new_payload_def bleve_abs_def)
qed

end
