(* ===== verification/BspQueue.thy ===== *)
theory BspQueue
  imports Prelude "HOL-Library.Multiset"
begin

text \<open>
  Message queues of the package \<^verbatim>\<open>bsp\<close> (\<^verbatim>\<open>message.go\<close>, \<^verbatim>\<open>memory_queue.go\<close>): the contract of
  \<^verbatim>\<open>Queue\<close> together with its \<^verbatim>\<open>Iterator\<close>, as a locale, and the in-memory queue.  Every method
  of the in-memory queue holds its mutex, so calls are atomic.
\<close>

section \<open>The contract\<close>

text \<open>
  \<open>contents\<close> is what is pending.  An iterator takes the messages out one at a time, in an order
  the contract leaves open; \<^verbatim>\<open>Message\<close> returns the one \<^verbatim>\<open>Next\<close> took last.
\<close>

locale message_queue =
  fixes contents :: "'q \<Rightarrow> 'm multiset"
    and enqueue :: "'m \<Rightarrow> 'q \<Rightarrow> go_error option \<times> 'q"
    and pending :: "'q \<Rightarrow> bool"
    and discard :: "'q \<Rightarrow> go_error option \<times> 'q"
    and next_msg :: "'q \<Rightarrow> bool \<times> 'q"
    and message :: "'q \<Rightarrow> 'm option"
  assumes enqueue_contents: "enqueue m q = (None, q') \<Longrightarrow> contents q' = add_mset m (contents q)"
    and pending_iff: "pending q \<longleftrightarrow> contents q \<noteq> {#}"
    and discard_contents: "discard q = (None, q') \<Longrightarrow> contents q' = {#}"
    and next_none: "next_msg q = (False, q') \<Longrightarrow> contents q = {#} \<and> q' = q"
    and next_some: "next_msg q = (True, q') \<Longrightarrow>
      \<exists>m. message q' = Some m \<and> contents q = add_mset m (contents q')"

section \<open>The in-memory queue\<close>

record 'm queue =
  q_msgs :: "'m list"
  q_latched :: "'m option"

definition new_queue :: "'m queue" where
  "new_queue = \<lparr>q_msgs = [], q_latched = None\<rparr>"

definition queue_enqueue :: "'m \<Rightarrow> 'm queue \<Rightarrow> go_error option \<times> 'm queue" where
  "queue_enqueue msg q = (None, q\<lparr>q_msgs := q_msgs q @ [msg]\<rparr>)"

definition queue_pending :: "'m queue \<Rightarrow> bool" where
  "queue_pending q \<longleftrightarrow> length (q_msgs q) \<noteq> 0"

definition queue_discard :: "'m queue \<Rightarrow> go_error option \<times> 'm queue" where
  "queue_discard q = (None, q\<lparr>q_msgs := [], q_latched := None\<rparr>)"

definition queue_close :: "'m queue \<Rightarrow> go_error option" where
  "queue_close q = None"

text \<open>\<^verbatim>\<open>Next\<close> dequeues from the tail.\<close>

definition queue_next :: "'m queue \<Rightarrow> bool \<times> 'm queue" where
  "queue_next q =
     (let qLen = length (q_msgs q)
      in if qLen = 0 then (False, q)
         else (True, q\<lparr>q_latched := Some (q_msgs q ! (qLen - 1)), q_msgs := take (qLen - 1) (q_msgs q)\<rparr>))"

definition queue_message :: "'m queue \<Rightarrow> 'm option" where
  "queue_message q = q_latched q"

interpretation inmemq: message_queue
  "\<lambda>q. mset (q_msgs q)" queue_enqueue queue_pending queue_discard queue_next queue_message
proof
  fix q q' :: "'m queue"
  show "\<exists>m. queue_message q' = Some m \<and> mset (q_msgs q) = add_mset m (mset (q_msgs q'))"
    if "queue_next q = (True, q')"
  proof (cases "q_msgs q" rule: rev_exhaust)
    case (snoc ms m)
    then show ?thesis using that by (auto simp: queue_next_def queue_message_def Let_def)
  qed (use that in \<open>simp add: queue_next_def Let_def\<close>)
qed (auto simp: queue_enqueue_def queue_pending_def queue_discard_def queue_next_def Let_def
    split: if_splits)

section \<open>Reading a queue to the end\<close>

text \<open>The loop \<^verbatim>\<open>for it.Next() { s = f(it.Message(), s) }\<close>.\<close>

function queue_loop :: "('m option \<Rightarrow> 's \<Rightarrow> 's) \<Rightarrow> 's \<Rightarrow> 'm queue \<Rightarrow> 's \<times> 'm queue" where
  "queue_loop f s q =
     (if fst (queue_next q)
      then queue_loop f (f (queue_message (snd (queue_next q))) s) (snd (queue_next q))
      else (s, snd (queue_next q)))"
  by pat_completeness auto
termination
  by (relation "measure (\<lambda>(f, s, q). length (q_msgs q))")
    (auto simp: queue_next_def Let_def split: if_splits)

declare queue_loop.simps [simp del]

lemma queue_next_snoc:
  "q_msgs q = ms @ [m] \<Longrightarrow> queue_next q = (True, q\<lparr>q_latched := Some m, q_msgs := ms\<rparr>)"
  by (simp add: queue_next_def)

lemma queue_loop_foldr:
  "fst (queue_loop f s q) = fold (\<lambda>m. f (Some m)) (rev (q_msgs q)) s \<and>
   q_msgs (snd (queue_loop f s q)) = []"
proof (induction "q_msgs q" arbitrary: q s rule: rev_induct)
  case Nil
  then show ?case by (subst (1 2) queue_loop.simps) (simp add: queue_next_def)
next
  case (snoc m ms)
  let ?q = "q\<lparr>q_latched := Some m, q_msgs := ms\<rparr>"
  have nx: "queue_next q = (True, ?q)" using snoc.hyps(2) by (intro queue_next_snoc) simp
  have "queue_loop f s q = queue_loop f (f (Some m) s) ?q"
    by (subst queue_loop.simps) (simp add: nx queue_message_def)
  then show ?case using snoc.hyps(1) [of ?q "f (Some m) s"] by (simp add: snoc.hyps(2) [symmetric])
qed

end
