(* ===== verification/BspGraph.thy ===== *)
theory BspGraph
  imports BspQueue
begin

text \<open>
  The graph processor of the package \<^verbatim>\<open>bsp\<close> (\<^verbatim>\<open>graph.go\<close>, \<^verbatim>\<open>executor.go\<close>).

  Vertices live in the \<^verbatim>\<open>vertices\<close> map; a \<^verbatim>\<open>*Vertex\<close> is modelled by its identifier.  The compute
  function is a parameter of a superstep: a function on the identifier and the graph.  The
  worker pool hands every vertex to exactly one worker; the model runs the compute calls of
  one superstep one after the other, in an order that is a parameter, so that a theorem for
  every order covers every schedule of atomic compute calls.  A panic inside a worker ends the
  process, so it ends the run.
\<close>

section \<open>Vertices and edges\<close>

record 'e bsp_edge =
  be_value :: 'e
  be_dst :: string

record ('v, 'e, 'm) vertex =
  vx_id :: string
  vx_value :: 'v
  vx_active :: bool
  vx_queue0 :: "'m queue"
  vx_queue1 :: "'m queue"
  vx_edges :: "'e bsp_edge list"

record ('v, 'e, 'm, 'a) bsp_graph =
  superstep :: nat
  aggregators :: "string \<rightharpoonup> 'a"
  vertices :: "string \<rightharpoonup> ('v, 'e, 'm) vertex"
  relayer :: "(string \<Rightarrow> 'm \<Rightarrow> go_error option) option"

text \<open>\<^verbatim>\<open>v.msgQueue[k % 2]\<close>, read and written.\<close>

definition queue_at :: "nat \<Rightarrow> ('v, 'e, 'm) vertex \<Rightarrow> 'm queue" where
  "queue_at k v = (if k mod 2 = 0 then vx_queue0 v else vx_queue1 v)"

definition set_queue_at :: "nat \<Rightarrow> 'm queue \<Rightarrow> ('v, 'e, 'm) vertex \<Rightarrow> ('v, 'e, 'm) vertex" where
  "set_queue_at k q v = (if k mod 2 = 0 then v\<lparr>vx_queue0 := q\<rparr> else v\<lparr>vx_queue1 := q\<rparr>)"

definition put_vertex ::
  "string \<Rightarrow> ('v, 'e, 'm) vertex \<Rightarrow> ('v, 'e, 'm, 'a) bsp_graph \<Rightarrow> ('v, 'e, 'm, 'a) bsp_graph" where
  "put_vertex i v g = g\<lparr>vertices := (vertices g)(i \<mapsto> v)\<rparr>"

section \<open>Construction\<close>

text \<open>The configuration; the functions in it are opaque, only their presence is checked.\<close>

record ('q, 'c) graph_config =
  gc_queue_factory :: "'q option"
  gc_compute_fn :: "'c option"
  gc_compute_workers :: int

definition graph_config_validate ::
  "'q \<Rightarrow> ('q, 'c) graph_config \<Rightarrow> go_error option \<times> ('q, 'c) graph_config" where
  "graph_config_validate newInMemoryQueue c0 =
     (let c1 = (if gc_queue_factory c0 = None then c0\<lparr>gc_queue_factory := Some newInMemoryQueue\<rparr> else c0);
          c2 = (if gc_compute_workers c1 \<le> 0 then c1\<lparr>gc_compute_workers := 1\<rparr> else c1)
      in (if gc_compute_fn c2 = None
          then (multierror_append None (Errorf ''compute function not specified''), c2) else (None, c2)))"

definition new_bsp_graph :: "('v, 'e, 'm, 'a) bsp_graph" where
  "new_bsp_graph =
     \<lparr>superstep = 0, aggregators = Map.empty, vertices = Map.empty, relayer = None\<rparr>"

text \<open>\<open>order\<close> is the order in which the range loop of \<^verbatim>\<open>Reset\<close> visits the vertices.\<close>

fun close_queues :: "('v, 'e, 'm, 'a) bsp_graph \<Rightarrow> string list \<Rightarrow> go_error option" where
  "close_queues g [] = None"
| "close_queues g (i # order) =
     (case vertices g i of
        None \<Rightarrow> close_queues g order
      | Some v \<Rightarrow>
          (case queue_close (vx_queue0 v) of
             Some err \<Rightarrow> Some (Wrap ''closing message queue'' err)
           | None \<Rightarrow>
               (case queue_close (vx_queue1 v) of
                  Some err \<Rightarrow> Some (Wrap ''closing message queue'' err)
                | None \<Rightarrow> close_queues g order)))"

definition bsp_reset ::
  "string list \<Rightarrow> ('v, 'e, 'm, 'a) bsp_graph \<Rightarrow> go_error option \<times> ('v, 'e, 'm, 'a) bsp_graph" where
  "bsp_reset order g0 =
     (let g = g0\<lparr>superstep := 0\<rparr> in
      case close_queues g order of
        Some err \<Rightarrow> (Some err, g)
      | None \<Rightarrow> (None, g\<lparr>vertices := Map.empty, aggregators := Map.empty\<rparr>))"

text \<open>\<^verbatim>\<open>Close\<close>, once the workers have stopped.\<close>

definition bsp_close ::
  "string list \<Rightarrow> ('v, 'e, 'm, 'a) bsp_graph \<Rightarrow> go_error option \<times> ('v, 'e, 'm, 'a) bsp_graph" where
  "bsp_close order g = bsp_reset order g"

definition add_vertex ::
  "string \<Rightarrow> 'v \<Rightarrow> ('v, 'e, 'm, 'a) bsp_graph \<Rightarrow> ('v, 'e, 'm, 'a) bsp_graph" where
  "add_vertex i initValue g =
     (let v = (case vertices g i of
                 None \<Rightarrow> \<lparr>vx_id = i, vx_value = initValue, vx_active = True,
                          vx_queue0 = new_queue, vx_queue1 = new_queue, vx_edges = []\<rparr>
               | Some v \<Rightarrow> v)
      in put_vertex i (v\<lparr>vx_value := initValue\<rparr>) g)"

definition add_edge ::
  "string \<Rightarrow> string \<Rightarrow> 'e \<Rightarrow> ('v, 'e, 'm, 'a) bsp_graph \<Rightarrow>
   go_error option \<times> ('v, 'e, 'm, 'a) bsp_graph" where
  "add_edge srcID dstID initValue g =
     (case vertices g srcID of
        None \<Rightarrow> (Some (Wrap ''create edge'' (Sentinel BspErrUnknownEdgeSource)), g)
      | Some v \<Rightarrow>
          (None, put_vertex srcID (v\<lparr>vx_edges := vx_edges v @ [\<lparr>be_value = initValue, be_dst = dstID\<rparr>]\<rparr>) g))"

definition register_aggregator ::
  "string \<Rightarrow> 'a \<Rightarrow> ('v, 'e, 'm, 'a) bsp_graph \<Rightarrow> ('v, 'e, 'm, 'a) bsp_graph" where
  "register_aggregator name aggr g = g\<lparr>aggregators := (aggregators g)(name \<mapsto> aggr)\<rparr>"

definition register_relayer ::
  "(string \<Rightarrow> 'm \<Rightarrow> go_error option) \<Rightarrow> ('v, 'e, 'm, 'a) bsp_graph \<Rightarrow> ('v, 'e, 'm, 'a) bsp_graph" where
  "register_relayer r g = g\<lparr>relayer := Some r\<rparr>"

definition set_value ::
  "string \<Rightarrow> 'v \<Rightarrow> ('v, 'e, 'm, 'a) bsp_graph \<Rightarrow> ('v, 'e, 'm, 'a) bsp_graph" where
  "set_value i x g =
     (case vertices g i of None \<Rightarrow> g | Some v \<Rightarrow> put_vertex i (v\<lparr>vx_value := x\<rparr>) g)"

definition freeze ::
  "string \<Rightarrow> ('v, 'e, 'm, 'a) bsp_graph \<Rightarrow> ('v, 'e, 'm, 'a) bsp_graph" where
  "freeze i g =
     (case vertices g i of None \<Rightarrow> g | Some v \<Rightarrow> put_vertex i (v\<lparr>vx_active := False\<rparr>) g)"

section \<open>Messages\<close>

definition send_message ::
  "string \<Rightarrow> 'm \<Rightarrow> ('v, 'e, 'm, 'a) bsp_graph \<Rightarrow> go_error option \<times> ('v, 'e, 'm, 'a) bsp_graph" where
  "send_message dstID msg g =
     (case vertices g dstID of
        Some v \<Rightarrow>
          (case queue_enqueue msg (queue_at (superstep g + 1) v) of
             (err, q) \<Rightarrow> (err, put_vertex dstID (set_queue_at (superstep g + 1) q v) g))
      | None \<Rightarrow>
          let undeliverable =
            (Some (Wrap ''message cannot be delivered'' (Sentinel BspErrInvalidMessageDestination)), g)
          in (case relayer g of
                None \<Rightarrow> undeliverable
              | Some relay \<Rightarrow>
                  (case relay dstID msg of
                     None \<Rightarrow> (None, g)
                   | Some err \<Rightarrow>
                       if errors_is err BspErrDestinationIsLocal then undeliverable
                       else (Some err, g))))"

fun broadcast_to_neighbors ::
  "'e bsp_edge list \<Rightarrow> 'm \<Rightarrow> ('v, 'e, 'm, 'a) bsp_graph \<Rightarrow>
   go_error option \<times> ('v, 'e, 'm, 'a) bsp_graph" where
  "broadcast_to_neighbors [] msg g = (None, g)"
| "broadcast_to_neighbors (e # es) msg g =
     (case send_message (be_dst e) msg g of
        (Some err, g') \<Rightarrow> (Some err, g')
      | (None, g') \<Rightarrow> broadcast_to_neighbors es msg g')"

section \<open>A superstep\<close>

type_synonym ('v, 'e, 'm, 'a) compute_fn =
  "string \<Rightarrow> ('v, 'e, 'm, 'a) bsp_graph \<Rightarrow> (go_error option \<times> ('v, 'e, 'm, 'a) bsp_graph) outcome"

text \<open>The error channel holds one error; later ones are dropped.\<close>

definition try_emit_error :: "go_error option \<Rightarrow> go_error \<Rightarrow> go_error option" where
  "try_emit_error errCh err = (case errCh of None \<Rightarrow> Some err | Some e \<Rightarrow> Some e)"

definition discard_at ::
  "nat \<Rightarrow> string \<Rightarrow> ('v, 'e, 'm, 'a) bsp_graph \<Rightarrow> go_error option \<times> ('v, 'e, 'm, 'a) bsp_graph" where
  "discard_at buffer i g =
     (case vertices g i of
        None \<Rightarrow> (None, g)
      | Some v \<Rightarrow> (case queue_discard (queue_at buffer v) of
                     (err, q) \<Rightarrow> (err, put_vertex i (set_queue_at buffer q v) g)))"

text \<open>
  What a worker does with one vertex: \<open>acc\<close> holds the number of active vertices so far, the
  contents of the error channel and the graph.
\<close>

definition step_vertex ::
  "('v, 'e, 'm, 'a) compute_fn \<Rightarrow> string \<Rightarrow> nat \<times> go_error option \<times> ('v, 'e, 'm, 'a) bsp_graph \<Rightarrow>
   (nat \<times> go_error option \<times> ('v, 'e, 'm, 'a) bsp_graph) outcome" where
  "step_vertex compute i acc =
     (case acc of (activeInStep, errCh, g) \<Rightarrow>
        (case vertices g i of
           None \<Rightarrow> Returns acc
         | Some v \<Rightarrow>
             let buffer = superstep g mod 2 in
             if vx_active v \<or> queue_pending (queue_at buffer v) then
               outcome_bind (compute i (put_vertex i (v\<lparr>vx_active := True\<rparr>) g)) (\<lambda>(err, g').
                 Returns
                   (case err of
                      Some e \<Rightarrow> (activeInStep + 1,
                        try_emit_error errCh (Wrap ''running compute function for vertex failed'' e), g')
                    | None \<Rightarrow>
                        (case discard_at buffer i g' of
                           (None, g'') \<Rightarrow> (activeInStep + 1, errCh, g'')
                         | (Some e, g'') \<Rightarrow> (activeInStep + 1,
                             try_emit_error errCh (Wrap ''discarding unprocessed messages for vertex failed'' e), g''))))
             else Returns acc))"

fun step_vertices ::
  "('v, 'e, 'm, 'a) compute_fn \<Rightarrow> string list \<Rightarrow> nat \<times> go_error option \<times> ('v, 'e, 'm, 'a) bsp_graph \<Rightarrow>
   (nat \<times> go_error option \<times> ('v, 'e, 'm, 'a) bsp_graph) outcome" where
  "step_vertices compute [] acc = Returns acc"
| "step_vertices compute (i # order) acc =
     outcome_bind (step_vertex compute i acc) (step_vertices compute order)"

definition bsp_step ::
  "('v, 'e, 'm, 'a) compute_fn \<Rightarrow> string list \<Rightarrow> ('v, 'e, 'm, 'a) bsp_graph \<Rightarrow>
   (nat \<times> go_error option \<times> ('v, 'e, 'm, 'a) bsp_graph) outcome" where
  "bsp_step compute order g = step_vertices compute order (0, None, g)"

section \<open>The executor\<close>

text \<open>Callbacks, each optional; a callback may change the graph.\<close>

record 'g executor_callbacks =
  cb_pre_step :: "('g \<Rightarrow> (go_error option \<times> 'g) outcome) option"
  cb_post_step :: "(nat \<Rightarrow> 'g \<Rightarrow> (go_error option \<times> 'g) outcome) option"
  cb_keep_running :: "(nat \<Rightarrow> 'g \<Rightarrow> (bool \<times> go_error option \<times> 'g) outcome) option"

definition patch_empty_callbacks :: "'g executor_callbacks \<Rightarrow> 'g executor_callbacks" where
  "patch_empty_callbacks cb =
     \<lparr>cb_pre_step = Some (case cb_pre_step cb of None \<Rightarrow> (\<lambda>g. Returns (None, g)) | Some f \<Rightarrow> f),
      cb_post_step = Some (case cb_post_step cb of None \<Rightarrow> (\<lambda>_ g. Returns (None, g)) | Some f \<Rightarrow> f),
      cb_keep_running = Some (case cb_keep_running cb of None \<Rightarrow> (\<lambda>_ g. Returns (True, None, g)) | Some f \<Rightarrow> f)\<rparr>"

text \<open>
  One pass through the body of the loop in \<^verbatim>\<open>run\<close>: either the loop breaks with an error or
  without one, or it goes on.  \<open>ctxErr\<close> is what \<^verbatim>\<open>ctx.Err()\<close> answers, \<open>step\<close> the superstep.
\<close>

definition executor_body ::
  "go_error option \<Rightarrow> 'g executor_callbacks \<Rightarrow> ('g \<Rightarrow> (nat \<times> go_error option \<times> 'g) outcome) \<Rightarrow> 'g \<Rightarrow>
   (bool \<times> go_error option \<times> 'g) outcome" where
  "executor_body ctxErr cb step g =
     (case ctxErr of
        Some e \<Rightarrow> Returns (True, Some e, g)
      | None \<Rightarrow>
          outcome_bind (the (cb_pre_step cb) g) (\<lambda>(err1, g1).
          case err1 of
            Some e \<Rightarrow> Returns (True, Some e, g1)
          | None \<Rightarrow>
              outcome_bind (step g1) (\<lambda>(activeInStep, err2, g2).
              case err2 of
                Some e \<Rightarrow> Returns (True, Some e, g2)
              | None \<Rightarrow>
                  outcome_bind (the (cb_post_step cb) activeInStep g2) (\<lambda>(err3, g3).
                  case err3 of
                    Some e \<Rightarrow> Returns (True, Some e, g3)
                  | None \<Rightarrow>
                      outcome_bind (the (cb_keep_running cb) activeInStep g3)
                        (\<lambda>(keepRunning, err4, g4). Returns (\<not> keepRunning \<or> err4 \<noteq> None, err4, g4))))))"

definition advance_superstep :: "('v, 'e, 'm, 'a) bsp_graph \<Rightarrow> ('v, 'e, 'm, 'a) bsp_graph" where
  "advance_superstep g = g\<lparr>superstep := superstep g + 1\<rparr>"

text \<open>
  The loop itself: \<open>None\<close> when it never ends.  \<open>k\<close> counts the passes: \<open>ctxErr k\<close> and \<open>order k\<close>
  are the context's state and the vertex schedule of pass k.
\<close>

partial_function (option) executor_run ::
  "(nat \<Rightarrow> go_error option) \<Rightarrow> ('v, 'e, 'm, 'a) bsp_graph executor_callbacks \<Rightarrow>
   ('v, 'e, 'm, 'a) compute_fn \<Rightarrow> (nat \<Rightarrow> string list) \<Rightarrow> nat \<Rightarrow> int \<Rightarrow> ('v, 'e, 'm, 'a) bsp_graph \<Rightarrow>
   (go_error option \<times> ('v, 'e, 'm, 'a) bsp_graph) outcome option" where
  "executor_run ctxErr cb compute order k maxSteps g =
     (if maxSteps = 0 then Some (Returns (None, g))
      else (case executor_body (ctxErr k) cb (bsp_step compute (order k)) g of
              Panics m \<Rightarrow> Some (Panics m)
            | Fails e \<Rightarrow> Some (Fails e)
            | Returns (stop, err, g') \<Rightarrow>
                if stop then Some (Returns (err, g'))
                else executor_run ctxErr cb compute order (Suc k) (maxSteps - 1) (advance_superstep g')))"

definition new_executor :: "('v, 'e, 'm, 'a) bsp_graph \<Rightarrow> ('v, 'e, 'm, 'a) bsp_graph" where
  "new_executor g = g\<lparr>superstep := 0\<rparr>"

definition run_to_completion where
  "run_to_completion ctxErr cb compute order g =
     executor_run ctxErr (patch_empty_callbacks cb) compute order 0 (-1) g"

definition run_steps where
  "run_steps ctxErr cb compute order numSteps g =
     executor_run ctxErr (patch_empty_callbacks cb) compute order 0 numSteps g"

section \<open>Lemmas\<close>

text \<open>Closing an in-memory queue cannot fail, so neither can \<^verbatim>\<open>Reset\<close>.\<close>

definition cleared :: "('v, 'e, 'm, 'a) bsp_graph \<Rightarrow> ('v, 'e, 'm, 'a) bsp_graph" where
  "cleared g = g\<lparr>superstep := 0, vertices := Map.empty, aggregators := Map.empty\<rparr>"

lemma close_queues_None: "close_queues g order = None"
  by (induction order) (simp_all add: queue_close_def split: option.split)

lemma bsp_reset_cleared: "bsp_reset order g = (None, cleared g)"
  by (simp add: bsp_reset_def close_queues_None cleared_def Let_def)

named_theorems bsp_simps \<open>reading updated vertices and queues\<close>

lemma mod2_Suc: "(k + 1) mod 2 = 0 \<longleftrightarrow> k mod 2 = (1::nat)" "Suc k mod 2 = 0 \<longleftrightarrow> k mod 2 = 1"
  by presburger+

lemma queue_at_mod [bsp_simps]: "queue_at (k mod 2) v = queue_at k v"
  "set_queue_at (k mod 2) q v = set_queue_at k q v"
  by (simp_all add: queue_at_def set_queue_at_def)

lemma queue_at_set [bsp_simps]:
  "queue_at k (set_queue_at k q v) = q"
  "queue_at (Suc k) (set_queue_at k q v) = queue_at (Suc k) v"
  "queue_at k (set_queue_at (Suc k) q v) = queue_at k v"
  by (auto simp: queue_at_def set_queue_at_def mod2_Suc)

lemma queue_at_Suc_Suc [bsp_simps]: "queue_at (Suc (Suc k)) v = queue_at k v"
  by (simp add: queue_at_def)

lemma set_queue_at_fields [bsp_simps]:
  "vx_id (set_queue_at k q v) = vx_id v" "vx_value (set_queue_at k q v) = vx_value v"
  "vx_active (set_queue_at k q v) = vx_active v" "vx_edges (set_queue_at k q v) = vx_edges v"
  by (simp_all add: set_queue_at_def)

lemma queue_at_upd [bsp_simps]:
  "queue_at k (v\<lparr>vx_value := x\<rparr>) = queue_at k v"
  "queue_at k (v\<lparr>vx_active := b\<rparr>) = queue_at k v"
  "queue_at k (v\<lparr>vx_edges := es\<rparr>) = queue_at k v"
  by (simp_all add: queue_at_def)

lemma set_queue_at_idem [bsp_simps]:
  "set_queue_at k (queue_at k v) v = v"
  "set_queue_at k q (set_queue_at k q' v) = set_queue_at k q v"
  by (simp_all add: queue_at_def set_queue_at_def)

lemma put_vertex_fields [bsp_simps]:
  "superstep (put_vertex i v g) = superstep g" "aggregators (put_vertex i v g) = aggregators g"
  "relayer (put_vertex i v g) = relayer g" "vertices (put_vertex i v g) = (vertices g)(i \<mapsto> v)"
  by (simp_all add: put_vertex_def)

subsection \<open>Sending\<close>

definition enqueue_at :: "nat \<Rightarrow> 'm list \<Rightarrow> ('v, 'e, 'm) vertex \<Rightarrow> ('v, 'e, 'm) vertex" where
  "enqueue_at k ms v = set_queue_at k ((queue_at k v)\<lparr>q_msgs := q_msgs (queue_at k v) @ ms\<rparr>) v"

lemma enqueue_at_Nil [bsp_simps]: "enqueue_at k [] v = v"
  by (simp add: enqueue_at_def bsp_simps)

lemma enqueue_at_Nil_fun [bsp_simps]: "enqueue_at k [] = (\<lambda>v. v)"
  by (rule ext) (rule enqueue_at_Nil)

lemma enqueue_at_append: "enqueue_at k ms' (enqueue_at k ms v) = enqueue_at k (ms @ ms') v"
  by (simp add: enqueue_at_def bsp_simps)

lemma enqueue_at_fields [bsp_simps]:
  "vx_id (enqueue_at k ms v) = vx_id v" "vx_value (enqueue_at k ms v) = vx_value v"
  "vx_active (enqueue_at k ms v) = vx_active v" "vx_edges (enqueue_at k ms v) = vx_edges v"
  "queue_at k (enqueue_at (Suc k) ms v) = queue_at k v"
  "q_msgs (queue_at k (enqueue_at k ms v)) = q_msgs (queue_at k v) @ ms"
  by (simp_all add: enqueue_at_def bsp_simps)

lemma send_message_local:
  assumes "vertices g j = Some v"
  shows "send_message j m g = (None, put_vertex j (enqueue_at (Suc (superstep g)) [m] v) g)"
  using assms by (simp add: send_message_def queue_enqueue_def enqueue_at_def)

text \<open>Every neighbour gets one copy of the message per edge.\<close>

lemma broadcast_local:
  assumes "\<forall>e \<in> set es. be_dst e \<in> dom (vertices g)"
  shows "broadcast_to_neighbors es m g =
    (None, g\<lparr>vertices := (\<lambda>w. map_option
       (enqueue_at (Suc (superstep g)) (replicate (count_list (map be_dst es) w) m)) (vertices g w))\<rparr>)"
  using assms
proof (induction es arbitrary: g)
  case Nil
  have "(\<lambda>w. map_option (enqueue_at (Suc (superstep g)) []) (vertices g w)) = vertices g"
    by (rule ext) (simp add: bsp_simps option.map_ident)
  then show ?case by simp
next
  case (Cons e es)
  obtain v where v: "vertices g (be_dst e) = Some v" using Cons.prems by auto
  let ?g = "put_vertex (be_dst e) (enqueue_at (Suc (superstep g)) [m] v) g"
  have "\<forall>e \<in> set es. be_dst e \<in> dom (vertices ?g)" using Cons.prems by (simp add: put_vertex_def)
  note IH = Cons.IH [OF this]
  have "map_option (enqueue_at (Suc (superstep g)) (replicate (count_list (map be_dst es) w) m)) (vertices ?g w) =
      map_option (enqueue_at (Suc (superstep g)) (replicate (count_list (map be_dst (e # es)) w) m)) (vertices g w)" for w
    using v by (simp add: put_vertex_def enqueue_at_append replicate_app_Cons_same)
  then show ?case using IH v by (simp add: send_message_local put_vertex_def)
qed

text \<open>A message that cannot be delivered stops the broadcast.\<close>

lemma broadcast_unknown:
  assumes "e \<in> set es" "be_dst e \<notin> dom (vertices g)" "relayer g = None"
  shows "\<exists>err g'. broadcast_to_neighbors es m g = (Some err, g') \<and>
    errors_is err BspErrInvalidMessageDestination"
  using assms
proof (induction es arbitrary: g)
  case (Cons f es)
  show ?case
  proof (cases "vertices g (be_dst f)")
    case None
    then show ?thesis using Cons.prems by (simp add: send_message_def)
  next
    case (Some v)
    let ?g = "put_vertex (be_dst f) (enqueue_at (Suc (superstep g)) [m] v) g"
    have "e \<in> set es" "be_dst e \<notin> dom (vertices ?g)" "relayer ?g = None"
      using Cons.prems Some by (auto simp: put_vertex_def split: if_splits)
    then show ?thesis
      using Cons.IH [of ?g] Some by (simp add: send_message_local)
  qed
qed simp

subsection \<open>Running passes\<close>

text \<open>
  \<open>passes ctxErr cb compute order j n g g'\<close>: from pass j in state g, n passes that do not stop
  lead to g'.
\<close>

inductive passes ::
  "(nat \<Rightarrow> go_error option) \<Rightarrow> ('v, 'e, 'm, 'a) bsp_graph executor_callbacks \<Rightarrow>
   ('v, 'e, 'm, 'a) compute_fn \<Rightarrow> (nat \<Rightarrow> string list) \<Rightarrow> nat \<Rightarrow> nat \<Rightarrow>
   ('v, 'e, 'm, 'a) bsp_graph \<Rightarrow> ('v, 'e, 'm, 'a) bsp_graph \<Rightarrow> bool"
  for ctxErr cb compute order j where
  passes_0: "passes ctxErr cb compute order j 0 g g"
| passes_Suc: "passes ctxErr cb compute order j n g g1 \<Longrightarrow>
    executor_body (ctxErr (j + n)) cb (bsp_step compute (order (j + n))) g1 = Returns (False, err, g2) \<Longrightarrow>
    passes ctxErr cb compute order j (Suc n) g (advance_superstep g2)"

lemma executor_run_passes:
  assumes "passes ctxErr cb compute order j n g g'" "maxSteps < 0 \<or> int n \<le> maxSteps"
  shows "executor_run ctxErr cb compute order j maxSteps g =
    executor_run ctxErr cb compute order (j + n) (maxSteps - int n) g'"
  using assms
proof (induction rule: passes.induct)
  case (passes_Suc n g g1 err g2)
  then have "maxSteps - int n \<noteq> 0" "maxSteps < 0 \<or> int n \<le> maxSteps" by linarith+
  with passes_Suc show ?case
    by (simp add: executor_run.simps [of _ _ _ _ "j + n"] algebra_simps)
qed simp

lemma executor_run_stop:
  assumes "executor_body (ctxErr k) cb (bsp_step compute (order k)) g = Returns (True, err, g')" "maxSteps \<noteq> 0"
  shows "executor_run ctxErr cb compute order k maxSteps g = Some (Returns (err, g'))"
  using assms by (subst executor_run.simps) simp

text \<open>
  A run without a bound on its steps that returns is stopped by some pass; so it does not
  return when an invariant keeps every pass from stopping it.
\<close>

inductive stops ::
  "(nat \<Rightarrow> go_error option) \<Rightarrow> ('v, 'e, 'm, 'a) bsp_graph executor_callbacks \<Rightarrow>
   ('v, 'e, 'm, 'a) compute_fn \<Rightarrow> (nat \<Rightarrow> string list) \<Rightarrow> nat \<Rightarrow> ('v, 'e, 'm, 'a) bsp_graph \<Rightarrow> bool"
  for ctxErr cb compute order where
  stops_now: "\<forall>err g'. executor_body (ctxErr k) cb (bsp_step compute (order k)) g \<noteq> Returns (False, err, g') \<Longrightarrow>
    stops ctxErr cb compute order k g"
| stops_later: "executor_body (ctxErr k) cb (bsp_step compute (order k)) g = Returns (False, err, g') \<Longrightarrow>
    stops ctxErr cb compute order (Suc k) (advance_superstep g') \<Longrightarrow> stops ctxErr cb compute order k g"

lemma executor_run_stops:
  assumes "executor_run ctxErr cb compute order k maxSteps g = Some r"
  shows "maxSteps < 0 \<longrightarrow> stops ctxErr cb compute order k g"
proof (rule executor_run.raw_induct [where P = "\<lambda>ctxErr cb compute order k maxSteps g r.
    maxSteps < 0 \<longrightarrow> stops ctxErr cb compute order k g", OF _ assms])
  fix run ctxErr cb compute order k g r and maxSteps :: int
  assume IH: "\<And>ctxErr cb compute order k maxSteps g r. run ctxErr cb compute order k maxSteps g = Some r \<Longrightarrow>
      maxSteps < 0 \<longrightarrow> stops ctxErr cb compute order k g"
    and run: "(if maxSteps = 0 then Some (Returns (None, g))
      else (case executor_body (ctxErr k) cb (bsp_step compute (order k)) g of
              Panics m \<Rightarrow> Some (Panics m)
            | Fails e \<Rightarrow> Some (Fails e)
            | Returns (stop, err, g') \<Rightarrow>
                if stop then Some (Returns (err, g'))
                else run ctxErr cb compute order (Suc k) (maxSteps - 1) (advance_superstep g'))) = Some r"
  show "maxSteps < 0 \<longrightarrow> stops ctxErr cb compute order k g"
  proof
    assume neg: "maxSteps < 0"
    show "stops ctxErr cb compute order k g"
    proof (cases "executor_body (ctxErr k) cb (bsp_step compute (order k)) g")
      case (Returns x)
      obtain stop err g' where x: "x = (stop, err, g')" by (cases x)
      show ?thesis
      proof (cases stop)
        case True
        then show ?thesis using Returns x by (intro stops_now) simp
      next
        case False
        then have "run ctxErr cb compute order (Suc k) (maxSteps - 1) (advance_superstep g') = Some r"
          using run Returns x neg by simp
        then have "stops ctxErr cb compute order (Suc k) (advance_superstep g')"
          using IH neg by fastforce
        then show ?thesis using Returns x False stops_later by metis
      qed
    qed (intro stops_now, simp)+
  qed
qed

lemma invariant_not_stops:
  assumes "stops ctxErr cb compute order k g" "Inv k g"
    "\<And>k g. Inv k g \<Longrightarrow> \<exists>err g'. executor_body (ctxErr k) cb (bsp_step compute (order k)) g = Returns (False, err, g') \<and>
      Inv (Suc k) (advance_superstep g')"
  shows False
  using assms(1,2)
proof (induction rule: stops.induct)
  case (stops_now k g)
  then show ?case using assms(3) by blast
next
  case (stops_later k g err g')
  then show ?case using assms(3) [OF stops_later.prems] by auto
qed

lemma executor_run_diverges:
  assumes "Inv k g"
    "\<And>k g. Inv k g \<Longrightarrow> \<exists>err g'. executor_body (ctxErr k) cb (bsp_step compute (order k)) g = Returns (False, err, g') \<and>
      Inv (Suc k) (advance_superstep g')"
    "maxSteps < 0"
  shows "executor_run ctxErr cb compute order k maxSteps g = None"
  using executor_run_stops [of ctxErr cb compute order k maxSteps g] invariant_not_stops [OF _ assms(1,2)] assms(3)
  by (cases "executor_run ctxErr cb compute order k maxSteps g") auto

end
