(* ===== verification/BspAccumulator.thy ===== *)
theory BspAccumulator
  imports Prelude "HOL-Library.Multiset"
begin

text \<open>
  The accumulators of the package \<^verbatim>\<open>bsp\<close> (\<^verbatim>\<open>accumulator.go\<close>).  The first part gives the effect of
  a call that runs alone.  The second part models the compare-and-swap loops of
  \<^verbatim>\<open>Float64Accumulator\<close> as a step relation of threads that share the two cells, one atomic load
  or swap per step, and shows that concurrent calls behave as if they ran one at a time.
  The arithmetic is a parameter, so the results hold for rounded addition too.
\<close>

section \<open>Calls that run alone\<close>

record 'v acc =
  acc_prev :: 'v
  acc_cur :: 'v

definition acc_get :: "'v acc \<Rightarrow> 'v" where
  "acc_get a = acc_cur a"

definition acc_set :: "'v \<Rightarrow> 'v acc \<Rightarrow> 'v acc" where
  "acc_set v a = a\<lparr>acc_cur := v, acc_prev := v\<rparr>"

definition acc_aggregate :: "('v \<Rightarrow> 'v \<Rightarrow> 'v) \<Rightarrow> 'v \<Rightarrow> 'v acc \<Rightarrow> 'v acc" where
  "acc_aggregate add v a = a\<lparr>acc_cur := add (acc_cur a) v\<rparr>"

definition acc_delta :: "('v \<Rightarrow> 'v \<Rightarrow> 'v) \<Rightarrow> 'v acc \<Rightarrow> 'v \<times> 'v acc" where
  "acc_delta sub a = (sub (acc_cur a) (acc_prev a), a\<lparr>acc_prev := acc_cur a\<rparr>)"

text \<open>\<^verbatim>\<open>IntAccumulator\<close> adds 64-bit integers with wrap-around.\<close>

definition int_acc_aggregate :: "int \<Rightarrow> int acc \<Rightarrow> int acc" where
  "int_acc_aggregate v a = acc_aggregate (\<lambda>x y. wrap64 (x + y)) v a"

definition int_acc_delta :: "int acc \<Rightarrow> int \<times> int acc" where
  "int_acc_delta a = acc_delta (\<lambda>x y. wrap64 (x - y)) a"

section \<open>Compare-and-swap loops\<close>

text \<open>
  The point a thread has reached, with its local variables.  A thread that has not started a
  call is \<open>Idle\<close>; a finished one is \<open>Done\<close>, or \<open>DeltaDone\<close> with the value \<^verbatim>\<open>Delta\<close> returns.
\<close>

datatype 'v pc =
    Idle
  | AggLoad 'v
  | AggCas 'v 'v                      \<comment> \<open>operand, loaded value\<close>
  | SetLoadCur 'v
  | SetLoadPrev 'v 'v                 \<comment> \<open>value, loaded current sum\<close>
  | SetCasCur 'v 'v 'v                \<comment> \<open>value, loaded current and previous sum\<close>
  | SetCasPrev 'v 'v bool             \<comment> \<open>value, loaded previous sum, was the first swap done\<close>
  | DeltaLoadCur
  | DeltaLoadPrev 'v                  \<comment> \<open>loaded current sum\<close>
  | DeltaCas 'v 'v                    \<comment> \<open>loaded current and previous sum\<close>
  | Done
  | DeltaDone 'v

type_synonym 'v acc_state = "'v acc \<times> (nat \<Rightarrow> 'v pc)"

inductive acc_step ::
  "('v \<Rightarrow> 'v \<Rightarrow> 'v) \<Rightarrow> ('v \<Rightarrow> 'v \<Rightarrow> 'v) \<Rightarrow> 'v acc_state \<Rightarrow> 'v acc_state \<Rightarrow> bool"
  for add sub where
  agg_load: "t i = AggLoad v \<Longrightarrow> acc_step add sub (a, t) (a, t(i := AggCas v (acc_cur a)))"
| agg_swap: "t i = AggCas v old \<Longrightarrow> acc_cur a = old \<Longrightarrow>
    acc_step add sub (a, t) (a\<lparr>acc_cur := add old v\<rparr>, t(i := Done))"
| agg_retry: "t i = AggCas v old \<Longrightarrow> acc_cur a \<noteq> old \<Longrightarrow>
    acc_step add sub (a, t) (a, t(i := AggLoad v))"
| set_load_cur: "t i = SetLoadCur v \<Longrightarrow>
    acc_step add sub (a, t) (a, t(i := SetLoadPrev v (acc_cur a)))"
| set_load_prev: "t i = SetLoadPrev v oc \<Longrightarrow>
    acc_step add sub (a, t) (a, t(i := SetCasCur v oc (acc_prev a)))"
| set_swap_cur: "t i = SetCasCur v oc op \<Longrightarrow> acc_cur a = oc \<Longrightarrow>
    acc_step add sub (a, t) (a\<lparr>acc_cur := v\<rparr>, t(i := SetCasPrev v op True))"
| set_fail_cur: "t i = SetCasCur v oc op \<Longrightarrow> acc_cur a \<noteq> oc \<Longrightarrow>
    acc_step add sub (a, t) (a, t(i := SetCasPrev v op False))"
| set_swap_prev: "t i = SetCasPrev v op b \<Longrightarrow> acc_prev a = op \<Longrightarrow>
    acc_step add sub (a, t) (a\<lparr>acc_prev := v\<rparr>, t(i := (if b then Done else SetLoadCur v)))"
| set_fail_prev: "t i = SetCasPrev v op b \<Longrightarrow> acc_prev a \<noteq> op \<Longrightarrow>
    acc_step add sub (a, t) (a, t(i := SetLoadCur v))"
| delta_load_cur: "t i = DeltaLoadCur \<Longrightarrow>
    acc_step add sub (a, t) (a, t(i := DeltaLoadPrev (acc_cur a)))"
| delta_load_prev: "t i = DeltaLoadPrev c \<Longrightarrow>
    acc_step add sub (a, t) (a, t(i := DeltaCas c (acc_prev a)))"
| delta_swap: "t i = DeltaCas c p \<Longrightarrow> acc_prev a = p \<Longrightarrow>
    acc_step add sub (a, t) (a\<lparr>acc_prev := c\<rparr>, t(i := DeltaDone (sub c p)))"
| delta_retry: "t i = DeltaCas c p \<Longrightarrow> acc_prev a \<noteq> p \<Longrightarrow>
    acc_step add sub (a, t) (a, t(i := DeltaLoadCur))"

inductive acc_run ::
  "('v \<Rightarrow> 'v \<Rightarrow> 'v) \<Rightarrow> ('v \<Rightarrow> 'v \<Rightarrow> 'v) \<Rightarrow> 'v acc_state \<Rightarrow> 'v acc_state \<Rightarrow> bool"
  for add sub s0 where
  run_start: "acc_run add sub s0 s0"
| run_step: "acc_run add sub s0 s \<Longrightarrow> acc_step add sub s s' \<Longrightarrow> acc_run add sub s0 s'"

lemma acc_run_trans: "acc_run add sub s1 s2 \<Longrightarrow> acc_run add sub s0 s1 \<Longrightarrow> acc_run add sub s0 s2"
  by (induction rule: acc_run.induct) (auto intro: acc_run.run_step)

section \<open>Concurrent aggregation is sequential aggregation\<close>

text \<open>
  The calls under way: \<open>ops i\<close> is the operand of thread i's \<^verbatim>\<open>Aggregate\<close>, if it makes one; the
  other threads may run \<^verbatim>\<open>Delta\<close> but not \<^verbatim>\<open>Set\<close>.
\<close>

definition agg_start :: "(nat \<rightharpoonup> 'v) \<Rightarrow> (nat \<Rightarrow> 'v pc) \<Rightarrow> bool" where
  "agg_start ops t \<longleftrightarrow>
     (\<forall>i. case ops i of Some v \<Rightarrow> t i = AggLoad v | None \<Rightarrow> t i = Idle \<or> t i = DeltaLoadCur)"

text \<open>Where a thread may be: \<open>agg_pc (Some v)\<close> for an \<^verbatim>\<open>Aggregate\<close> of v, \<open>agg_pc None\<close> for the others.\<close>

fun agg_pc :: "'v option \<Rightarrow> 'v pc \<Rightarrow> bool" where
  "agg_pc (Some v) (AggLoad w) \<longleftrightarrow> w = v"
| "agg_pc (Some v) (AggCas w _) \<longleftrightarrow> w = v"
| "agg_pc (Some v) Done \<longleftrightarrow> True"
| "agg_pc None Idle \<longleftrightarrow> True"
| "agg_pc None DeltaLoadCur \<longleftrightarrow> True"
| "agg_pc None (DeltaLoadPrev _) \<longleftrightarrow> True"
| "agg_pc None (DeltaCas _ _) \<longleftrightarrow> True"
| "agg_pc None (DeltaDone _) \<longleftrightarrow> True"
| "agg_pc _ _ \<longleftrightarrow> False"

definition agg_inv :: "('v \<Rightarrow> 'v \<Rightarrow> 'v) \<Rightarrow> (nat \<rightharpoonup> 'v) \<Rightarrow> 'v \<Rightarrow> 'v acc_state \<Rightarrow> nat list \<Rightarrow> bool" where
  "agg_inv add ops init s order \<longleftrightarrow>
     distinct order \<and>
     (\<forall>i. i \<in> set order \<longleftrightarrow> snd s i = Done) \<and>
     (\<forall>i. agg_pc (ops i) (snd s i)) \<and>
     acc_cur (fst s) = foldl (\<lambda>c i. add c (the (ops i))) init order"

lemma agg_pc_start: "agg_start ops t \<Longrightarrow> agg_pc (ops i) (t i) \<and> t i \<noteq> Done"
  unfolding agg_start_def by (drule spec [of _ i]) (auto split: option.splits)

lemma agg_inv_start: "agg_start ops t \<Longrightarrow> agg_inv add ops (acc_cur a) (a, t) []"
  using agg_pc_start [of ops t] by (simp add: agg_inv_def)

lemma agg_inv_keep:
  assumes "agg_inv add ops init (a, t) order" "acc_cur a' = acc_cur a"
    "agg_pc (ops i) x" "x \<noteq> Done" "t i \<noteq> Done"
  shows "agg_inv add ops init (a', t(i := x)) order"
  using assms by (simp add: agg_inv_def)

lemma agg_inv_keepE:
  assumes "agg_inv add ops init (a, t) order" "acc_cur a' = acc_cur a"
    "agg_pc (ops i) x" "x \<noteq> Done" "t i \<noteq> Done"
  shows "\<exists>order'. agg_inv add ops init (a', t(i := x)) order'"
  using agg_inv_keep [OF assms] ..

lemma agg_pc_cases:
  assumes "agg_inv add ops init (a, t) order"
  shows "agg_pc (ops i) (t i)"
  using assms by (simp add: agg_inv_def)

lemma agg_inv_swap:
  assumes "agg_inv add ops init (a, t) order" "t i = AggCas v (acc_cur a)"
  shows "agg_inv add ops init (a\<lparr>acc_cur := add (acc_cur a) v\<rparr>, t(i := Done)) (order @ [i])"
proof -
  have "ops i = Some v"
    using agg_pc_cases [OF assms(1), of i] assms(2) by (cases "ops i") auto
  moreover have "i \<notin> set order" using assms by (simp add: agg_inv_def)
  ultimately show ?thesis using assms(1) by (auto simp: agg_inv_def)
qed

lemma agg_inv_step:
  assumes "acc_step add sub s s'" "agg_inv add ops init s order"
  shows "\<exists>order'. agg_inv add ops init s' order'"
  using assms
proof (induction rule: acc_step.induct)
  case (agg_load t i v a)
  then show ?case using agg_pc_cases [of add ops init a t order i]
    by (intro agg_inv_keepE [where i = i]) (cases "ops i"; simp)+
next
  case (agg_swap t i v old a)
  then show ?case using agg_inv_swap [of add ops init a t order i v] by auto
next
  case (agg_retry t i v old a)
  then show ?case using agg_pc_cases [of add ops init a t order i]
    by (intro agg_inv_keepE [where i = i]) (cases "ops i"; simp)+
next
  case (delta_load_cur t i a)
  then show ?case using agg_pc_cases [of add ops init a t order i]
    by (intro agg_inv_keepE [where i = i]) (cases "ops i"; simp)+
next
  case (delta_load_prev t i c a)
  then show ?case using agg_pc_cases [of add ops init a t order i]
    by (intro agg_inv_keepE [where i = i]) (cases "ops i"; simp)+
next
  case (delta_swap t i c p a)
  then show ?case using agg_pc_cases [of add ops init a t order i]
    by (intro agg_inv_keepE [where i = i]) (cases "ops i"; simp)+
next
  case (delta_retry t i c p a)
  then show ?case using agg_pc_cases [of add ops init a t order i]
    by (intro agg_inv_keepE [where i = i]) (cases "ops i"; simp)+
next
  case (set_load_cur t i v a)
  then show ?case using agg_pc_cases [of add ops init a t order i] by (cases "ops i") auto
next
  case (set_load_prev t i v oc a)
  then show ?case using agg_pc_cases [of add ops init a t order i] by (cases "ops i") auto
next
  case (set_swap_cur t i v oc op a)
  then show ?case using agg_pc_cases [of add ops init a t order i] by (cases "ops i") auto
next
  case (set_fail_cur t i v oc op a)
  then show ?case using agg_pc_cases [of add ops init a t order i] by (cases "ops i") auto
next
  case (set_swap_prev t i v op b a)
  then show ?case using agg_pc_cases [of add ops init a t order i] by (cases "ops i") auto
next
  case (set_fail_prev t i v op b a)
  then show ?case using agg_pc_cases [of add ops init a t order i] by (cases "ops i") auto
qed

lemma agg_inv_run:
  assumes "acc_run add sub (a, t) s" "agg_start ops t"
  shows "\<exists>order. agg_inv add ops (acc_cur a) s order"
  using assms(1)
proof (induction rule: acc_run.induct)
  case run_start
  show ?case using agg_inv_start [OF assms(2)] ..
next
  case (run_step s s')
  then show ?case using agg_inv_step by metis
qed

section \<open>Calls that run alone, on the step relation\<close>

lemma acc_run_step:
  "acc_run add sub s0 (a, t) \<Longrightarrow> acc_step add sub (a, t) (a', t') \<Longrightarrow> acc_run add sub s0 (a', t')"
  by (rule acc_run.run_step)

lemma acc_run_to:
  assumes "acc_run add sub s0 (a, t(i := x))"
    "acc_step add sub (a, t(i := x)) (a', (t(i := x))(i := y))"
  shows "acc_run add sub s0 (a', t(i := y))"
  using acc_run_step [OF assms] by (simp only: fun_upd_upd)

lemma acc_run_to0: "t i = x \<Longrightarrow> acc_run add sub (a, t) (a, t(i := x))"
  using acc_run.run_start [of add sub "(a, t)"] by (simp add: fun_upd_idem)

lemma solo_aggregate:
  assumes "t i = AggLoad v"
  shows "acc_run add sub (a, t) (acc_aggregate add v a, t(i := Done))"
proof -
  have "acc_run add sub (a, t) (a, t(i := AggLoad v))" by (rule acc_run_to0) fact
  then have "acc_run add sub (a, t) (a, t(i := AggCas v (acc_cur a)))"
    by (rule acc_run_to) (rule agg_load, simp)
  then show ?thesis unfolding acc_aggregate_def
    by (rule acc_run_to) (rule agg_swap, simp_all)
qed

lemma solo_set:
  assumes "t i = SetLoadCur v"
  shows "acc_run add sub (a, t) (acc_set v a, t(i := Done))"
proof -
  have "acc_run add sub (a, t) (a, t(i := SetLoadCur v))" by (rule acc_run_to0) fact
  then have "acc_run add sub (a, t) (a, t(i := SetLoadPrev v (acc_cur a)))"
    by (rule acc_run_to) (rule set_load_cur, simp)
  then have "acc_run add sub (a, t) (a, t(i := SetCasCur v (acc_cur a) (acc_prev a)))"
    by (rule acc_run_to) (rule set_load_prev, simp)
  then have "acc_run add sub (a, t) (a\<lparr>acc_cur := v\<rparr>, t(i := SetCasPrev v (acc_prev a) True))"
    by (rule acc_run_to) (rule set_swap_cur, simp_all)
  then have "acc_run add sub (a, t) (a\<lparr>acc_cur := v, acc_prev := v\<rparr>,
      t(i := (if True then Done else SetLoadCur v)))"
    by (rule acc_run_to) (rule set_swap_prev, simp_all)
  then show ?thesis by (simp add: acc_set_def)
qed

lemma solo_delta:
  assumes "t i = DeltaLoadCur"
  shows "acc_run add sub (a, t) (snd (acc_delta sub a), t(i := DeltaDone (fst (acc_delta sub a))))"
proof -
  have "acc_run add sub (a, t) (a, t(i := DeltaLoadCur))" by (rule acc_run_to0) fact
  then have "acc_run add sub (a, t) (a, t(i := DeltaLoadPrev (acc_cur a)))"
    by (rule acc_run_to) (rule delta_load_cur, simp)
  then have "acc_run add sub (a, t) (a, t(i := DeltaCas (acc_cur a) (acc_prev a)))"
    by (rule acc_run_to) (rule delta_load_prev, simp)
  then show ?thesis unfolding acc_delta_def fst_conv snd_conv
    by (rule acc_run_to) (rule delta_swap, simp_all)
qed

section \<open>Deltas telescope\<close>

fun delta_result :: "'v::zero pc \<Rightarrow> 'v" where
  "delta_result (DeltaDone r) = r"
| "delta_result _ = 0"

fun sets_value :: "'v pc \<Rightarrow> bool" where
  "sets_value (SetLoadCur _) \<longleftrightarrow> True"
| "sets_value (SetLoadPrev _ _) \<longleftrightarrow> True"
| "sets_value (SetCasCur _ _ _) \<longleftrightarrow> True"
| "sets_value (SetCasPrev _ _ _) \<longleftrightarrow> True"
| "sets_value _ \<longleftrightarrow> False"

definition delta_done :: "'v pc \<Rightarrow> bool" where
  "delta_done x \<longleftrightarrow> (\<exists>r. x = DeltaDone r)"

definition delta_sum :: "(nat \<Rightarrow> 'v::ab_group_add pc) \<Rightarrow> nat list \<Rightarrow> 'v" where
  "delta_sum t order = (\<Sum>i\<leftarrow>order. delta_result (t i))"

definition delta_inv :: "'v::ab_group_add \<Rightarrow> 'v acc_state \<Rightarrow> nat list \<Rightarrow> bool" where
  "delta_inv prev0 s order \<longleftrightarrow>
     distinct order \<and> (\<forall>i. i \<in> set order \<longleftrightarrow> delta_done (snd s i)) \<and>
     acc_prev (fst s) = prev0 + delta_sum (snd s) order \<and> (\<forall>i. \<not> sets_value (snd s i))"

lemma delta_sum_other: "i \<notin> set order \<Longrightarrow> delta_sum (t(i := x)) order = delta_sum t order"
  unfolding delta_sum_def by (rule arg_cong [where f = sum_list], rule map_cong) auto

lemma delta_sum_snoc: "delta_sum t (order @ [i]) = delta_sum t order + delta_result (t i)"
  by (simp add: delta_sum_def)

lemma delta_inv_keep:
  assumes "delta_inv prev0 (a, t) order" "acc_prev a' = acc_prev a"
    "\<not> delta_done x" "\<not> delta_done (t i)" "\<not> sets_value x"
  shows "\<exists>order'. delta_inv prev0 (a', t(i := x)) order'"
proof -
  have "i \<notin> set order" using assms(1,4) by (simp add: delta_inv_def)
  then have "delta_inv prev0 (a', t(i := x)) order"
    using assms by (simp add: delta_inv_def delta_sum_other)
  then show ?thesis ..
qed

lemma delta_inv_swap:
  assumes "delta_inv prev0 (a, t) order" "t i = DeltaCas c (acc_prev a)"
  shows "delta_inv prev0 (a\<lparr>acc_prev := c\<rparr>, t(i := DeltaDone (c - acc_prev a))) (order @ [i])"
proof -
  have "i \<notin> set order" using assms by (simp add: delta_inv_def delta_done_def)
  then show ?thesis
    using assms by (simp add: delta_inv_def delta_sum_other delta_sum_snoc delta_done_def)
qed

lemma delta_inv_step:
  assumes "acc_step add (-) s s'" "delta_inv prev0 s order"
  shows "\<exists>order'. delta_inv prev0 s' order'"
  using assms
proof (induction rule: acc_step.induct)
  case (delta_swap t i c p a)
  then show ?case using delta_inv_swap [of prev0 a t order i c] by blast
next
  case (set_load_cur t i v a)
  then show ?case by (simp add: delta_inv_def) (metis sets_value.simps(1))
next
  case (set_load_prev t i v oc a)
  then show ?case by (simp add: delta_inv_def) (metis sets_value.simps(2))
next
  case (set_swap_cur t i v oc op a)
  then show ?case by (simp add: delta_inv_def) (metis sets_value.simps(3))
next
  case (set_fail_cur t i v oc op a)
  then show ?case by (simp add: delta_inv_def) (metis sets_value.simps(3))
next
  case (set_swap_prev t i v op b a)
  then show ?case by (simp add: delta_inv_def) (metis sets_value.simps(4))
next
  case (set_fail_prev t i v op b a)
  then show ?case by (simp add: delta_inv_def) (metis sets_value.simps(4))
qed (erule delta_inv_keep; simp add: delta_done_def)+

lemma delta_inv_run:
  assumes "acc_run add (-) (a, t) s" "agg_start ops t"
  shows "\<exists>order. delta_inv (acc_prev a) s order"
  using assms(1)
proof (induction rule: acc_run.induct)
  case run_start
  have "\<not> delta_done (t i) \<and> \<not> sets_value (t i)" for i
    using assms(2) unfolding agg_start_def delta_done_def
    by (drule_tac spec [of _ i]) (auto split: option.splits)
  then show ?case by (intro exI [of _ "[]"]) (simp add: delta_inv_def delta_sum_def)
next
  case (run_step s s')
  then show ?case using delta_inv_step by metis
qed

section \<open>Properties\<close>

text \<open>
  C9. Threads share an accumulator: each thread i with \<open>ops i = Some v\<close> calls
  \<^verbatim>\<open>Aggregate(v)\<close>, any of the others may call \<^verbatim>\<open>Delta\<close>.  In every state that any interleaving of
  their atomic loads and swaps can reach, the current sum is what the calls that have returned
  give when made one after the other, each exactly once, in some order: no update is lost or
  applied twice, whatever the addition rounds.  A call that has not returned yet has no effect.
\<close>

theorem aggregate_linearizable:
  assumes "agg_start ops t" and "acc_run add sub (a, t) (a', t')"
  shows "\<exists>order. distinct order \<and> set order = {i. t' i = Done} \<and>
           (\<forall>i \<in> set order. ops i \<noteq> None) \<and>
           acc_get a' = acc_get (fold (\<lambda>i. acc_aggregate add (the (ops i))) order a)"
proof -
  obtain order where inv: "agg_inv add ops (acc_cur a) (a', t') order"
    using agg_inv_run [OF assms(2,1)] by blast
  have "acc_cur (fold (\<lambda>i. acc_aggregate add (the (ops i))) order a) =
      foldl (\<lambda>c i. add c (the (ops i))) (acc_cur a) order"
    by (induction order arbitrary: a) (simp_all add: acc_aggregate_def)
  moreover have "ops i \<noteq> None" if "i \<in> set order" for i
    using inv that agg_pc_cases [OF inv, of i] by (cases "ops i") (auto simp: agg_inv_def)
  ultimately show ?thesis
    using inv by (intro exI [of _ order]) (auto simp: agg_inv_def acc_get_def)
qed

lemma aggregate_linearizable_witness:
  "\<exists>(t::nat \<Rightarrow> int pc) (t'::nat \<Rightarrow> int pc) order. agg_start [0 \<mapsto> 3, 1 \<mapsto> 4] t \<and>
     {i. t' i = Done} = {0, 1} \<and> set order = {i. t' i = Done} \<and>
     acc_get (fold (\<lambda>i. acc_aggregate (+) (the ([0 \<mapsto> 3, 1 \<mapsto> 4] i))) order
         \<lparr>acc_prev = 0, acc_cur = 0\<rparr>) = (7::int)"
proof -
  define t where "t = (\<lambda>i. if i = (0::nat) then AggLoad (3::int) else if i = 1 then AggLoad 4 else Idle)"
  define a where "a = \<lparr>acc_prev = 0, acc_cur = 0 :: int\<rparr>"
  define t1 where "t1 = t(0 := Done)"
  define t2 where "t2 = t1(1 := Done)"
  have st: "agg_start [0 \<mapsto> 3, 1 \<mapsto> 4] t"
    by (simp add: agg_start_def t_def)
  have "acc_run (+) (-) (a, t) (acc_aggregate (+) 3 a, t1)"
    unfolding t1_def by (rule solo_aggregate) (simp add: t_def)
  moreover have "acc_run (+) (-) (acc_aggregate (+) 3 a, t1) (acc_aggregate (+) 4 (acc_aggregate (+) 3 a), t2)"
    unfolding t2_def by (rule solo_aggregate) (simp add: t1_def t_def)
  ultimately have run: "acc_run (+) (-) (a, t) (acc_aggregate (+) 4 (acc_aggregate (+) 3 a), t2)"
    by (rule acc_run_trans [rotated])
  have done2: "{i. t2 i = Done} = {0, 1}" by (auto simp: t2_def t1_def t_def split: if_splits)
  have "acc_get (acc_aggregate (+) 4 (acc_aggregate (+) 3 a)) = 7"
    by (simp add: a_def acc_aggregate_def acc_get_def)
  moreover obtain order where "set order = {i. t2 i = Done}"
    "acc_get (acc_aggregate (+) 4 (acc_aggregate (+) 3 a)) =
       acc_get (fold (\<lambda>i. acc_aggregate (+) (the ([0 \<mapsto> 3, 1 \<mapsto> 4] i))) order a)"
    using aggregate_linearizable [OF st run] by blast
  ultimately show ?thesis
    using st done2 unfolding a_def
    by - (rule exI [of _ t], rule exI [of _ t2], rule exI [of _ order], intro conjI, simp_all only:)
qed

text \<open>
  In exact arithmetic, however the calls interleave, the current sum has grown by the
  operands of the \<^verbatim>\<open>Aggregate\<close> calls that have returned, and the values returned by the \<^verbatim>\<open>Delta\<close>
  calls add up to the growth of the previous sum: together with one more \<^verbatim>\<open>Delta\<close> they
  account for every operand exactly once.
\<close>

theorem deltas_account_for_aggregates:
  fixes a a' :: "'v::ab_group_add acc"
  assumes "agg_start ops t" and "acc_run (+) (-) (a, t) (a', t')"
  shows "finite {i. t' i = Done} \<and> finite {i. delta_done (t' i)} \<and>
     acc_cur a' = acc_cur a + (\<Sum>i | t' i = Done. the (ops i)) \<and>
     (\<Sum>i | delta_done (t' i). delta_result (t' i)) + fst (acc_delta (-) a') =
       (\<Sum>i | t' i = Done. the (ops i)) + fst (acc_delta (-) a)"
proof -
  obtain order where o1: "agg_inv (+) ops (acc_cur a) (a', t') order"
    using agg_inv_run [OF assms(2,1)] by blast
  obtain ds where o2: "delta_inv (acc_prev a) (a', t') ds"
    using delta_inv_run [OF assms(2,1)] by blast
  have "foldl (\<lambda>c i. c + f i) x order = x + (\<Sum>i\<leftarrow>order. f i)" for f and x :: 'v
    by (induction order arbitrary: x) (simp_all add: add.assoc)
  then have cur: "acc_cur a' = acc_cur a + (\<Sum>i\<leftarrow>order. the (ops i))"
    using o1 by (simp add: agg_inv_def)
  have s1: "set order = {i. t' i = Done}" "distinct order" using o1 by (auto simp: agg_inv_def)
  have s2: "set ds = {i. delta_done (t' i)}" "distinct ds" using o2 by (auto simp: delta_inv_def)
  have "(\<Sum>i\<leftarrow>order. the (ops i)) = (\<Sum>i | t' i = Done. the (ops i))"
    using s1 by (simp add: sum_list_distinct_conv_sum_set)
  moreover have "delta_sum t' ds = (\<Sum>i | delta_done (t' i). delta_result (t' i))"
    using s2 by (simp add: delta_sum_def sum_list_distinct_conv_sum_set)
  moreover have "acc_prev a' = acc_prev a + delta_sum t' ds" using o2 by (simp add: delta_inv_def)
  moreover have "finite {i. t' i = Done}" "finite {i. delta_done (t' i)}"
    using s1(1) s2(1) by (metis finite_set)+
  ultimately show ?thesis using cur by (simp add: acc_delta_def)
qed

lemma deltas_account_for_aggregates_witness:
  "\<exists>t'. delta_done (t' (1::nat)) \<and> t' 0 = Done \<and>
     (\<Sum>i | delta_done (t' i). delta_result (t' i)) = (5::int)"
proof -
  define t where "t = (\<lambda>i. if i = (0::nat) then AggLoad (5::int) else if i = 1 then DeltaLoadCur else Idle)"
  define a where "a = \<lparr>acc_prev = 0, acc_cur = 0 :: int\<rparr>"
  define a1 where "a1 = acc_aggregate (+) 5 a"
  define t1 where "t1 = t(0 := Done)"
  define t2 where "t2 = t1(1 := DeltaDone (fst (acc_delta (-) a1)))"
  have st: "agg_start [0 \<mapsto> 5] t" by (simp add: agg_start_def t_def)
  have "acc_run (+) (-) (a, t) (a1, t1)"
    unfolding t1_def a1_def by (rule solo_aggregate) (simp add: t_def)
  moreover have "acc_run (+) (-) (a1, t1) (snd (acc_delta (-) a1), t2)"
    unfolding t2_def by (rule solo_delta) (simp add: t1_def t_def)
  ultimately have run: "acc_run (+) (-) (a, t) (snd (acc_delta (-) a1), t2)"
    by (rule acc_run_trans [rotated])
  have d: "{i. t2 i = Done} = {0}" by (auto simp: t2_def t1_def t_def split: if_splits)
  have "fst (acc_delta (-) (snd (acc_delta (-) a1))) = 0" "fst (acc_delta (-) a) = 0"
    by (simp_all add: acc_delta_def a_def)
  then have "(\<Sum>i | delta_done (t2 i). delta_result (t2 i)) = 5"
    using deltas_account_for_aggregates [OF st run] by (simp add: d)
  then show ?thesis by (intro exI [of _ t2]) (simp add: delta_done_def t2_def t1_def)
qed

end
