(* ===== verification/PageRank.thy ===== *)
theory PageRank
  imports BspGraph BspAccumulator
begin

text \<open>
  The PageRank calculator (\<^verbatim>\<open>pagerank/compute.go\<close>, \<^verbatim>\<open>pagerank/calculator.go\<close>,
  \<^verbatim>\<open>pagerank/config.go\<close>) on the graph processor of the package \<^verbatim>\<open>bsp\<close>.

  A \<^verbatim>\<open>float64\<close> is a real number; the results of float operations go through the rounding
  function \<open>fl\<close>, a parameter (\<open>fl = id\<close> is exact arithmetic).  NaN and the infinities are
  outside the model: divisions by zero do not arise once superstep 0 has counted a page.
\<close>

section \<open>Configuration\<close>

record pr_config =
  damping_factor :: real
  min_sad :: real
  pr_compute_workers :: int

definition pr_config_validate :: "pr_config \<Rightarrow> go_error option \<times> pr_config" where
  "pr_config_validate c0 =
     (let (err1, c1) =
            (if damping_factor c0 < 0 \<or> damping_factor c0 > 1
             then (multierror_append None (Errorf ''DampingFactor must be in the range (0, 1]''), c0)
             else if damping_factor c0 = 0 then (None, c0\<lparr>damping_factor := 85 / 100\<rparr>)
             else (None, c0));
          (err2, c2) =
            (if min_sad c1 < 0 \<or> min_sad c1 \<ge> 1
             then (multierror_append err1 (Errorf ''MinSADForConvergence must be in the range (0, 1)''), c1)
             else if min_sad c1 = 0 then (err1, c1\<lparr>min_sad := 1 / 1000\<rparr>)
             else (err1, c1));
          c3 = (if pr_compute_workers c2 \<le> 0 then c2\<lparr>pr_compute_workers := 1\<rparr> else c2)
      in (err2, c3))"

section \<open>Aggregators and dynamic values\<close>

text \<open>What the interface values passed to and from aggregators hold.\<close>

datatype agg_val = VInt int | VFloat real

datatype pr_acc = IntAcc "int acc" | FloatAcc "real acc"

datatype score_msg = IncomingScoreMessage (msg_score: real)

type_synonym pr_graph = "(real, unit, score_msg, pr_acc) bsp_graph"

definition new_int_acc :: pr_acc where
  "new_int_acc = IntAcc \<lparr>acc_prev = 0, acc_cur = 0\<rparr>"

definition new_float_acc :: pr_acc where
  "new_float_acc = FloatAcc \<lparr>acc_prev = 0, acc_cur = 0\<rparr>"

definition aggr_get :: "string \<Rightarrow> pr_graph \<Rightarrow> agg_val outcome" where
  "aggr_get name g =
     (case aggregators g name of
        None \<Rightarrow> Panics ''nil aggregator''
      | Some (IntAcc a) \<Rightarrow> Returns (VInt (acc_get a))
      | Some (FloatAcc a) \<Rightarrow> Returns (VFloat (acc_get a)))"

definition aggr_set :: "string \<Rightarrow> agg_val \<Rightarrow> pr_graph \<Rightarrow> pr_graph outcome" where
  "aggr_set name x g =
     (case (aggregators g name, x) of
        (Some (IntAcc a), VInt i) \<Rightarrow> Returns (g\<lparr>aggregators := (aggregators g)(name \<mapsto> IntAcc (acc_set i a))\<rparr>)
      | (Some (FloatAcc a), VFloat r) \<Rightarrow> Returns (g\<lparr>aggregators := (aggregators g)(name \<mapsto> FloatAcc (acc_set r a))\<rparr>)
      | (None, _) \<Rightarrow> Panics ''nil aggregator''
      | _ \<Rightarrow> Panics ''interface conversion'')"

definition aggr_aggregate :: "(real \<Rightarrow> real) \<Rightarrow> string \<Rightarrow> agg_val \<Rightarrow> pr_graph \<Rightarrow> pr_graph outcome" where
  "aggr_aggregate fl name x g =
     (case (aggregators g name, x) of
        (Some (IntAcc a), VInt i) \<Rightarrow>
          Returns (g\<lparr>aggregators := (aggregators g)(name \<mapsto> IntAcc (int_acc_aggregate i a))\<rparr>)
      | (Some (FloatAcc a), VFloat r) \<Rightarrow>
          Returns (g\<lparr>aggregators := (aggregators g)(name \<mapsto> FloatAcc (acc_aggregate (\<lambda>x y. fl (x + y)) r a))\<rparr>)
      | (None, _) \<Rightarrow> Panics ''nil aggregator''
      | _ \<Rightarrow> Panics ''interface conversion'')"

text \<open>The type assertions \<^verbatim>\<open>x.(int)\<close> and \<^verbatim>\<open>x.(float64)\<close>.\<close>

fun as_int :: "agg_val \<Rightarrow> int outcome" where
  "as_int (VInt i) = Returns i"
| "as_int (VFloat r) = Panics ''interface conversion''"

fun as_float :: "agg_val \<Rightarrow> real outcome" where
  "as_float (VFloat r) = Returns r"
| "as_float (VInt i) = Panics ''interface conversion''"

definition residual_output_acc_name :: "nat \<Rightarrow> string" where
  "residual_output_acc_name step = (if step mod 2 = 0 then ''residual_0'' else ''residual_1'')"

definition residual_input_acc_name :: "nat \<Rightarrow> string" where
  "residual_input_acc_name step = (if (step + 1) mod 2 = 0 then ''residual_0'' else ''residual_1'')"

section \<open>The compute function\<close>

text \<open>
  The message loop: it empties the queue of vertex i and adds the damped scores to the new
  score.  A nil message would fail the type assertion; the loop reads one only after \<^verbatim>\<open>Next\<close>.
\<close>

definition add_incoming ::
  "(real \<Rightarrow> real) \<Rightarrow> real \<Rightarrow> score_msg option \<Rightarrow> real outcome \<Rightarrow> real outcome" where
  "add_incoming fl d msg acc =
     (case msg of
        None \<Rightarrow> Panics ''interface conversion''
      | Some (IncomingScoreMessage score) \<Rightarrow>
          outcome_bind acc (\<lambda>newScore. Returns (fl (newScore + fl (d * score)))))"

definition read_scores ::
  "(real \<Rightarrow> real) \<Rightarrow> real \<Rightarrow> string \<Rightarrow> real \<Rightarrow> pr_graph \<Rightarrow> (real \<times> pr_graph) outcome" where
  "read_scores fl d i start g =
     (case vertices g i of
        None \<Rightarrow> Panics ''nil vertex''
      | Some v \<Rightarrow>
          (case queue_loop (add_incoming fl d) (Returns start) (queue_at (superstep g) v) of
             (r, q) \<Rightarrow> outcome_bind r (\<lambda>newScore.
               Returns (newScore, put_vertex i (set_queue_at (superstep g) q v) g))))"

text \<open>The switch on the superstep.\<close>

definition new_score ::
  "(real \<Rightarrow> real) \<Rightarrow> real \<Rightarrow> string \<Rightarrow> real \<Rightarrow> pr_graph \<Rightarrow> (real \<times> pr_graph) outcome" where
  "new_score fl d i pageCount g =
     (if superstep g = 1 then Returns (fl (1 / pageCount), g)
      else outcome_bind (read_scores fl d i (fl (fl (1 - d) / pageCount)) g) (\<lambda>(s1, g1).
           outcome_bind (aggr_get (residual_input_acc_name (superstep g)) g1) (\<lambda>res.
           outcome_bind (as_float res) (\<lambda>r. Returns (fl (s1 + fl (d * r)), g1)))))"

text \<open>
  \<open>publish_score\<close> is what follows the switch; \<open>pr_compute\<close> is the closure that
  \<^verbatim>\<open>makeComputeFunc\<close> returns.
\<close>

definition publish_score ::
  "(real \<Rightarrow> real) \<Rightarrow> string \<Rightarrow> real \<Rightarrow> real \<Rightarrow> pr_graph \<Rightarrow> (go_error option \<times> pr_graph) outcome" where
  "publish_score fl i pageCount newScore g =
     (case vertices g i of
        None \<Rightarrow> Panics ''nil vertex''
      | Some v \<Rightarrow>
          let absDelta = \<bar>fl (vx_value v - newScore)\<bar> in
          outcome_bind (aggr_aggregate fl ''SAD'' (VFloat absDelta) g) (\<lambda>g1.
          let g2 = set_value i newScore g1;
              numOutLinks = fl (real (length (vx_edges v)))
          in if numOutLinks = 0
             then outcome_bind (aggr_aggregate fl (residual_output_acc_name (superstep g2))
                                  (VFloat (fl (newScore / pageCount))) g2)
                    (\<lambda>g3. Returns (None, g3))
             else Returns (broadcast_to_neighbors (vx_edges v)
                             (IncomingScoreMessage (fl (newScore / numOutLinks))) g2)))"

definition pr_compute :: "(real \<Rightarrow> real) \<Rightarrow> real \<Rightarrow> (real, unit, score_msg, pr_acc) compute_fn" where
  "pr_compute fl d i g =
     (if superstep g = 0
      then outcome_bind (aggr_aggregate fl ''page_count'' (VInt 1) g) (\<lambda>g1. Returns (None, g1))
      else outcome_bind (aggr_get ''page_count'' g) (\<lambda>pc.
           outcome_bind (as_int pc) (\<lambda>n.
           let pageCount = fl (real_of_int n) in
           outcome_bind (new_score fl d i pageCount g) (\<lambda>(newScore, g1).
           publish_score fl i pageCount newScore g1))))"

section \<open>The calculator\<close>

record calculator =
  calc_g :: pr_graph
  calc_cfg :: pr_config

definition new_calculator :: "pr_config \<Rightarrow> go_error + calculator" where
  "new_calculator cfg =
     (case pr_config_validate cfg of
        (Some err, _) \<Rightarrow> Inl (Wrap ''PageRank calculator config validation failed'' err)
      | (None, cfg') \<Rightarrow> Inr \<lparr>calc_g = new_bsp_graph, calc_cfg = cfg'\<rparr>)"

definition calc_add_vertex :: "string \<Rightarrow> pr_graph \<Rightarrow> pr_graph" where
  "calc_add_vertex i g = add_vertex i 0 g"

definition calc_add_edge :: "string \<Rightarrow> string \<Rightarrow> pr_graph \<Rightarrow> go_error option \<times> pr_graph" where
  "calc_add_edge src dst g = (if src = dst then (None, g) else add_edge src dst () g)"

definition register_aggregators :: "pr_graph \<Rightarrow> pr_graph" where
  "register_aggregators g =
     register_aggregator ''SAD'' new_float_acc
       (register_aggregator ''residual_1'' new_float_acc
         (register_aggregator ''residual_0'' new_float_acc
           (register_aggregator ''page_count'' new_int_acc g)))"

definition pr_pre_step :: "pr_graph \<Rightarrow> (go_error option \<times> pr_graph) outcome" where
  "pr_pre_step g =
     outcome_bind (aggr_set ''SAD'' (VFloat 0) g) (\<lambda>g1.
     outcome_bind (aggr_set (residual_output_acc_name (superstep g1)) (VFloat 0) g1) (\<lambda>g2.
     Returns (None, g2)))"

definition pr_keep_running ::
  "real \<Rightarrow> nat \<Rightarrow> pr_graph \<Rightarrow> (bool \<times> go_error option \<times> pr_graph) outcome" where
  "pr_keep_running minSAD activeInStep g =
     outcome_bind (aggr_get ''SAD'' g) (\<lambda>x. outcome_bind (as_float x) (\<lambda>sad.
     Returns (\<not> (superstep g > 1 \<and> sad < minSAD), None, g)))"

definition pr_callbacks :: "real \<Rightarrow> pr_graph executor_callbacks" where
  "pr_callbacks minSAD =
     \<lparr>cb_pre_step = Some pr_pre_step, cb_post_step = None,
      cb_keep_running = Some (pr_keep_running minSAD)\<rparr>"

text \<open>\<^verbatim>\<open>Executor\<close> and, on what it returns, \<^verbatim>\<open>RunToCompletion\<close>.\<close>

definition calc_executor :: "pr_graph \<Rightarrow> pr_graph" where
  "calc_executor g = new_executor (register_aggregators g)"

definition calc_run ::
  "(real \<Rightarrow> real) \<Rightarrow> pr_config \<Rightarrow> (nat \<Rightarrow> go_error option) \<Rightarrow> (nat \<Rightarrow> string list) \<Rightarrow> pr_graph \<Rightarrow>
   (go_error option \<times> pr_graph) outcome option" where
  "calc_run fl cfg ctxErr order g =
     run_to_completion ctxErr (pr_callbacks (min_sad cfg)) (pr_compute fl (damping_factor cfg)) order
       (calc_executor g)"

text \<open>\<open>order\<close> is the order in which the range loop visits the map.\<close>

fun scores_loop ::
  "(string \<Rightarrow> real \<Rightarrow> 's \<Rightarrow> go_error option \<times> 's) \<Rightarrow> pr_graph \<Rightarrow> string list \<Rightarrow> 's \<Rightarrow> go_error option \<times> 's" where
  "scores_loop visitFn g [] s = (None, s)"
| "scores_loop visitFn g (i # order) s =
     (case vertices g i of
        None \<Rightarrow> scores_loop visitFn g order s
      | Some v \<Rightarrow>
          (case visitFn i (vx_value v) s of
             (Some err, s') \<Rightarrow> (Some err, s')
           | (None, s') \<Rightarrow> scores_loop visitFn g order s'))"

end
