(* ===== verification/PageRankSpec.thy ===== *)
theory PageRankSpec
  imports Prelude
begin

text \<open>
  The mathematics the PageRank calculator implements: the score of every page after each round
  of the iterative algorithm, on a finite set V of pages with link lists \<open>out\<close>.  Nothing here
  mentions the program; \<^verbatim>\<open>PageRankRun\<close> shows that the program computes it.
\<close>

text \<open>
  What page v receives when every page hands its score r on: a page with links gives each
  link an equal share, a dead end gives every page of V an equal share.
\<close>

definition push :: "string set \<Rightarrow> (string \<Rightarrow> string list) \<Rightarrow> (string \<Rightarrow> real) \<Rightarrow> string \<Rightarrow> real" where
  "push V out r v =
     (\<Sum>u\<in>V. if out u = [] then r u / card V else count_list (out u) v * (r u / length (out u)))"

fun rank :: "string set \<Rightarrow> (string \<Rightarrow> string list) \<Rightarrow> real \<Rightarrow> nat \<Rightarrow> string \<Rightarrow> real" where
  "rank V out d 0 v = 0"
| "rank V out d (Suc 0) v = 1 / card V"
| "rank V out d (Suc (Suc k)) v = (1 - d) / card V + d * push V out (rank V out d (Suc k)) v"

definition sad :: "string set \<Rightarrow> (string \<Rightarrow> string list) \<Rightarrow> real \<Rightarrow> nat \<Rightarrow> real" where
  "sad V out d k = (\<Sum>v\<in>V. \<bar>rank V out d (k - 1) v - rank V out d k v\<bar>)"

definition closed_graph :: "string set \<Rightarrow> (string \<Rightarrow> string list) \<Rightarrow> bool" where
  "closed_graph V out \<longleftrightarrow> finite V \<and> V \<noteq> {} \<and> (\<forall>u\<in>V. set (out u) \<subseteq> V)"

lemma rank_step: "k \<ge> 1 \<Longrightarrow> rank V out d (Suc k) v = (1 - d) / card V + d * push V out (rank V out d k) v"
  by (cases k) simp_all

lemma closed_card: "closed_graph V out \<Longrightarrow> real (card V) > 0"
  by (simp add: closed_graph_def card_gt_0_iff)

text \<open>\<open>push\<close> is linear, keeps signs, and loses nothing.\<close>

lemma push_diff: "push V out r v - push V out s v = push V out (\<lambda>u. r u - s u) v"
  unfolding push_def sum_subtractf [symmetric]
  by (rule sum.cong) (simp_all add: diff_divide_distrib right_diff_distrib)

lemma push_nonneg: "(\<And>u. u \<in> V \<Longrightarrow> 0 \<le> r u) \<Longrightarrow> 0 \<le> push V out r v"
  unfolding push_def by (rule sum_nonneg) simp

lemma push_abs: "\<bar>push V out r v\<bar> \<le> push V out (\<lambda>u. \<bar>r u\<bar>) v"
  unfolding push_def
proof (rule order_trans [OF sum_abs], rule sum_mono)
  fix u
  show "\<bar>if out u = [] then r u / card V else count_list (out u) v * (r u / length (out u))\<bar>
    \<le> (if out u = [] then \<bar>r u\<bar> / card V else count_list (out u) v * (\<bar>r u\<bar> / length (out u)))"
    by (simp add: abs_mult)
qed

lemma sum_shares:
  assumes "closed_graph V out" "u \<in> V"
  shows "(\<Sum>v\<in>V. if out u = [] then r u / card V else count_list (out u) v * (r u / length (out u))) = r u"
proof (cases "out u = []")
  case True
  then show ?thesis using closed_card [OF assms(1)] by simp
next
  case False
  have "(\<Sum>v\<in>V. count_list (out u) v) = length (out u)"
    using assms sum_count_set [of "out u" V] by (simp add: closed_graph_def)
  then have "(\<Sum>v\<in>V. real (count_list (out u) v)) = length (out u)"
    by (metis of_nat_sum)
  then show ?thesis using False by (simp add: sum_distrib_right [symmetric] sum_divide_distrib [symmetric])
qed

lemma sum_push:
  assumes "closed_graph V out"
  shows "(\<Sum>v\<in>V. push V out r v) = (\<Sum>u\<in>V. r u)"
  unfolding push_def
  by (subst sum.swap, rule sum.cong) (simp_all add: sum_shares [OF assms])

section \<open>Scores are a distribution\<close>

lemma rank_nonneg: "0 \<le> d \<Longrightarrow> d \<le> 1 \<Longrightarrow> 0 \<le> rank V out d k v"
proof (induction k arbitrary: v rule: less_induct)
  case (less k)
  consider "k = 0" | "k = Suc 0" | j where "k = Suc (Suc j)" by (metis not0_implies_Suc)
  then show ?case
  proof cases
    case 3
    then have "0 \<le> push V out (rank V out d (Suc j)) v" using less by (intro push_nonneg) simp
    then show ?thesis using 3 less.prems by simp
  qed simp_all
qed

lemma rank_sum:
  assumes "closed_graph V out" "k \<ge> 1"
  shows "(\<Sum>v\<in>V. rank V out d k v) = 1"
  using assms(2)
proof (induction k rule: dec_induct)
  case base
  then show ?case using closed_card [OF assms(1)] by simp
next
  case (step k)
  then show ?case using closed_card [OF assms(1)]
    by (simp add: rank_step sum.distrib sum_distrib_left [symmetric] sum_push [OF assms(1)])
qed

section \<open>The iteration contracts\<close>

lemma sad_step:
  assumes "closed_graph V out" "0 \<le> d" "k \<ge> 2"
  shows "sad V out d (Suc k) \<le> d * sad V out d k"
proof -
  have k: "Suc (k - 1) = k" "k \<ge> 1" "k - 1 \<ge> 1" using assms(3) by auto
  let ?r = "rank V out d"
  have "\<bar>?r k v - ?r (Suc k) v\<bar> \<le> d * push V out (\<lambda>u. \<bar>?r (k - 1) u - ?r k u\<bar>) v" for v
  proof -
    have "?r k v - ?r (Suc k) v = d * push V out (\<lambda>u. ?r (k - 1) u - ?r k u) v"
      using rank_step [of "k - 1" V out d v] rank_step [of k V out d v] k
      by (simp add: push_diff [symmetric] right_diff_distrib)
    then show ?thesis using assms(2) push_abs by (simp add: abs_mult mult_left_mono)
  qed
  then have "sad V out d (Suc k) \<le> (\<Sum>v\<in>V. d * push V out (\<lambda>u. \<bar>?r (k - 1) u - ?r k u\<bar>) v)"
    unfolding sad_def by (intro sum_mono) simp
  then show ?thesis by (simp add: sum_distrib_left [symmetric] sum_push [OF assms(1)] sad_def)
qed

lemma sad_2:
  assumes "closed_graph V out" "0 \<le> d" "d \<le> 1"
  shows "sad V out d 2 \<le> 2"
proof -
  have "sad V out d 2 \<le> (\<Sum>v\<in>V. rank V out d 1 v + rank V out d 2 v)"
    unfolding sad_def
    by (intro sum_mono) (use rank_nonneg [OF assms(2,3), of V out] in \<open>simp add: abs_le_iff\<close>)
  also have "\<dots> = 2"
    using rank_sum [OF assms(1), of 1 d] rank_sum [OF assms(1), of 2 d] by (simp only: sum.distrib)
  finally show ?thesis .
qed

lemma sad_bound:
  assumes "closed_graph V out" "0 \<le> d" "d \<le> 1"
  shows "sad V out d (k + 2) \<le> 2 * d ^ k"
proof (induction k)
  case 0
  show ?case using sad_2 [OF assms] by (simp add: numeral_2_eq_2)
next
  case (Suc k)
  have "sad V out d (Suc (k + 2)) \<le> d * sad V out d (k + 2)" by (rule sad_step [OF assms(1,2)]) simp
  also have "\<dots> \<le> d * (2 * d ^ k)" using Suc assms(2) by (rule mult_left_mono)
  finally show ?case by simp
qed

lemma sad_below:
  assumes "closed_graph V out" "0 \<le> d" "d < 1" "0 < e"
  shows "\<exists>k \<ge> 2. sad V out d k < e"
proof -
  obtain n where "d ^ n < e / 2" using real_arch_pow_inv [of "e / 2" d] assms by auto
  then have "sad V out d (n + 2) < e" using sad_bound [OF assms(1,2), of n] assms(3) by simp
  then show ?thesis by (intro exI [of _ "n + 2"]) simp
qed

end
