(* ===== verification/PageRankRun.thy ===== *)
theory PageRankRun
  imports PageRank PageRankSpec
begin

text \<open>
  The calculator of \<^verbatim>\<open>PageRank\<close> computes the scores of \<^verbatim>\<open>PageRankSpec\<close> in exact arithmetic
  (\<open>fl = exact\<close>), whatever the order in which the workers take the vertices.
\<close>

definition exact :: "real \<Rightarrow> real" where
  [simp]: "exact x = x"

section \<open>Aggregators\<close>

definition facc :: "pr_graph \<Rightarrow> string \<Rightarrow> real option" where
  "facc g name = (case aggregators g name of Some (FloatAcc a) \<Rightarrow> Some (acc_cur a) | _ \<Rightarrow> None)"

definition iacc :: "pr_graph \<Rightarrow> string \<Rightarrow> int option" where
  "iacc g name = (case aggregators g name of Some (IntAcc a) \<Rightarrow> Some (acc_cur a) | _ \<Rightarrow> None)"

definition add_facc :: "string \<Rightarrow> real \<Rightarrow> pr_graph \<Rightarrow> pr_graph" where
  "add_facc name x g = (case aggregators g name of
      Some (FloatAcc a) \<Rightarrow> g\<lparr>aggregators := (aggregators g)(name \<mapsto> FloatAcc (acc_aggregate (+) x a))\<rparr>
    | _ \<Rightarrow> g)"

definition set_facc :: "string \<Rightarrow> real \<Rightarrow> pr_graph \<Rightarrow> pr_graph" where
  "set_facc name x g = (case aggregators g name of
      Some (FloatAcc a) \<Rightarrow> g\<lparr>aggregators := (aggregators g)(name \<mapsto> FloatAcc (acc_set x a))\<rparr>
    | _ \<Rightarrow> g)"

lemma add_facc_cases:
  obtains (float) a where "aggregators g name = Some (FloatAcc a)" "facc g name = Some (acc_cur a)"
      "add_facc name x g = g\<lparr>aggregators := (aggregators g)(name \<mapsto> FloatAcc (acc_aggregate (+) x a))\<rparr>"
      "set_facc name x g = g\<lparr>aggregators := (aggregators g)(name \<mapsto> FloatAcc (acc_set x a))\<rparr>"
  | (other) "facc g name = None" "add_facc name x g = g" "set_facc name x g = g"
proof (cases "aggregators g name")
  case (Some acc)
  then show ?thesis using that by (cases acc) (simp_all add: facc_def add_facc_def set_facc_def)
qed (use that in \<open>simp add: facc_def add_facc_def set_facc_def\<close>)

lemma add_facc_fields [bsp_simps]:
  "vertices (add_facc name x g) = vertices g" "superstep (add_facc name x g) = superstep g"
  "relayer (add_facc name x g) = relayer g"
  by (cases rule: add_facc_cases [of g name x]; simp)+

lemma set_facc_fields [bsp_simps]:
  "vertices (set_facc name x g) = vertices g" "superstep (set_facc name x g) = superstep g"
  "relayer (set_facc name x g) = relayer g"
  by (cases rule: add_facc_cases [of g name x]; simp)+

lemma facc_add [bsp_simps]:
  "facc (add_facc name x g) name' = (if name' = name then map_option (\<lambda>y. y + x) (facc g name) else facc g name')"
  by (cases rule: add_facc_cases [of g name x]) (simp_all add: facc_def acc_aggregate_def)

lemma facc_set [bsp_simps]:
  "facc (set_facc name x g) name' = (if name' = name then map_option (\<lambda>y. x) (facc g name) else facc g name')"
  by (cases rule: add_facc_cases [of g name x]) (simp_all add: facc_def acc_set_def)

lemma iacc_add [bsp_simps]:
  "iacc (add_facc name x g) name' = iacc g name'" "iacc (set_facc name x g) name' = iacc g name'"
  by (cases rule: add_facc_cases [of g name x]; simp add: iacc_def)+

lemma acc_vertices [bsp_simps]:
  "facc (g\<lparr>vertices := vs\<rparr>) name = facc g name" "iacc (g\<lparr>vertices := vs\<rparr>) name = iacc g name"
  "facc (g\<lparr>superstep := k\<rparr>) name = facc g name" "iacc (g\<lparr>superstep := k\<rparr>) name = iacc g name"
  "facc (put_vertex i v g) name = facc g name" "iacc (put_vertex i v g) name = iacc g name"
  by (simp_all add: facc_def iacc_def put_vertex_def)

lemma aggr_get_facc: "facc g name = Some x \<Longrightarrow> aggr_get name g = Returns (VFloat x)"
  by (auto simp: facc_def aggr_get_def acc_get_def split: option.splits pr_acc.splits)

lemma aggr_get_iacc: "iacc g name = Some x \<Longrightarrow> aggr_get name g = Returns (VInt x)"
  by (auto simp: iacc_def aggr_get_def acc_get_def split: option.splits pr_acc.splits)

lemma aggr_aggregate_facc:
  "facc g name = Some y \<Longrightarrow> aggr_aggregate exact name (VFloat x) g = Returns (add_facc name x g)"
  by (auto simp: facc_def aggr_aggregate_def add_facc_def split: option.splits pr_acc.splits)

lemma aggr_set_facc: "facc g name = Some y \<Longrightarrow> aggr_set name (VFloat x) g = Returns (set_facc name x g)"
  by (auto simp: facc_def aggr_set_def set_facc_def split: option.splits pr_acc.splits)

lemma residual_names:
  "residual_input_acc_name (Suc k) = residual_output_acc_name k"
  "residual_input_acc_name k \<noteq> residual_output_acc_name k"
  "residual_output_acc_name (Suc k) \<noteq> residual_output_acc_name k"
  "residual_input_acc_name k \<noteq> ''SAD''" "residual_output_acc_name k \<noteq> ''SAD''"
  "residual_input_acc_name k \<noteq> ''page_count''" "residual_output_acc_name k \<noteq> ''page_count''"
  by (auto simp: residual_input_acc_name_def residual_output_acc_name_def mod2_Suc)

section \<open>One vertex\<close>

definition score_sum :: "score_msg queue \<Rightarrow> real" where
  "score_sum q = (\<Sum>m\<leftarrow>q_msgs q. msg_score m)"

lemma fold_add_incoming:
  "fold (\<lambda>m. add_incoming exact d (Some m)) ms (Returns s) = Returns (s + d * (\<Sum>m\<leftarrow>ms. msg_score m))"
proof (induction ms arbitrary: s)
  case (Cons m ms)
  then show ?case by (cases m) (simp add: add_incoming_def distrib_left)
qed simp

lemma queue_loop_scores:
  "\<exists>q'. queue_loop (add_incoming exact d) (Returns s) q = (Returns (s + d * score_sum q), q')"
proof -
  have "fst (queue_loop (add_incoming exact d) (Returns s) q) = Returns (s + d * score_sum q)"
    using queue_loop_foldr [of "add_incoming exact d" "Returns s" q]
    by (simp add: fold_add_incoming score_sum_def rev_map [symmetric] sum_list_rev)
  then show ?thesis by (metis prod.collapse)
qed

lemma queue_discard_new: "queue_discard q = (None, new_queue)"
  by (simp add: queue_discard_def new_queue_def)

text \<open>The score vertex i gets in superstep k.\<close>

definition exact_score :: "real \<Rightarrow> real \<Rightarrow> nat \<Rightarrow> score_msg queue \<Rightarrow> real \<Rightarrow> real" where
  "exact_score d n k q res = (if k = 1 then 1 / n else (1 - d) / n + d * score_sum q + d * res)"

lemma new_score_exact:
  assumes "vertices g i = Some v" "superstep g = k" "facc g (residual_input_acc_name k) = Some res"
  shows "\<exists>q. new_score exact d i n g =
    Returns (exact_score d n k (queue_at k v) res, put_vertex i (set_queue_at k q v) g)"
proof (cases "k = 1")
  case True
  then have "new_score exact d i n g = Returns (exact_score d n k (queue_at k v) res,
      put_vertex i (set_queue_at k (queue_at k v) v) g)"
    using assms by (simp add: new_score_def exact_score_def bsp_simps put_vertex_def map_upd_triv)
  then show ?thesis ..
next
  case False
  obtain q where q: "queue_loop (add_incoming exact d) (Returns ((1 - d) / n)) (queue_at k v) =
      (Returns ((1 - d) / n + d * score_sum (queue_at k v)), q)"
    using queue_loop_scores by blast
  have "facc (put_vertex i (set_queue_at k q v) g) (residual_input_acc_name k) = Some res"
    using assms by (simp add: bsp_simps)
  then show ?thesis using assms False q
    by (intro exI [of _ q]) (simp add: new_score_def read_scores_def aggr_get_facc exact_score_def)
qed

text \<open>The shares sent along the links.\<close>

definition send_shares :: "nat \<Rightarrow> real \<Rightarrow> unit bsp_edge list \<Rightarrow> pr_graph \<Rightarrow> pr_graph" where
  "send_shares k s es g = g\<lparr>vertices := (\<lambda>w. map_option
     (enqueue_at k (replicate (count_list (map be_dst es) w) (IncomingScoreMessage (s / length es)))) (vertices g w))\<rparr>"

lemma send_shares_Nil: "send_shares k s [] g = g"
  by (simp add: send_shares_def bsp_simps option.map_ident)

lemma put_vertex_put [bsp_simps]: "put_vertex i v (put_vertex i w g) = put_vertex i v g"
  by (simp add: put_vertex_def)

lemma add_facc_put [bsp_simps]: "add_facc name x (put_vertex i v g) = put_vertex i v (add_facc name x g)"
  by (cases rule: add_facc_cases [of g name x]) (simp_all add: put_vertex_def add_facc_def facc_def
      split: option.splits pr_acc.splits)

lemma set_queue_enqueue [bsp_simps]:
  "set_queue_at k q (enqueue_at (Suc k) ms v) = enqueue_at (Suc k) ms (set_queue_at k q v)"
  by (simp add: enqueue_at_def set_queue_at_def queue_at_def mod2_Suc)

lemma put_vertex_shares:
  "put_vertex i (enqueue_at k (replicate (count_list (map be_dst es) i) (IncomingScoreMessage (s / length es))) v)
     (send_shares k s es g) = send_shares k s es (put_vertex i v g)"
  by (simp add: put_vertex_def send_shares_def fun_eq_iff)

definition exact_step :: "nat \<Rightarrow> string \<Rightarrow> real \<Rightarrow> real \<Rightarrow> (real, unit, score_msg) vertex \<Rightarrow> pr_graph \<Rightarrow> pr_graph" where
  "exact_step k i n s v g =
     send_shares (Suc k) s (vx_edges v)
       (put_vertex i (set_queue_at k new_queue (v\<lparr>vx_active := True, vx_value := s\<rparr>))
         ((if vx_edges v = [] then add_facc (residual_output_acc_name k) (s / n) else (\<lambda>g. g))
           (add_facc ''SAD'' \<bar>vx_value v - s\<bar> g)))"

lemma step_vertex_exact:
  assumes "vertices g i = Some v" "vx_active v" "superstep g = k" "k \<ge> 1"
    "iacc g ''page_count'' = Some n" "facc g ''SAD'' = Some x"
    "facc g (residual_input_acc_name k) = Some res" "facc g (residual_output_acc_name k) = Some y"
    "\<forall>e \<in> set (vx_edges v). be_dst e \<in> dom (vertices g)"
  shows "step_vertex (pr_compute exact d) i (a, errCh, g) =
    Returns (a + 1, errCh, exact_step k i (real_of_int n) (exact_score d (real_of_int n) k (queue_at k v) res) v g)"
proof -
  define v0 where "v0 = v\<lparr>vx_active := True\<rparr>"
  define g0 where "g0 = put_vertex i v0 g"
  define s where "s = exact_score d (real_of_int n) k (queue_at k v) res"
  note g0 = g0_def v0_def
  have "vertices g0 i = Some v0" "superstep g0 = k" "facc g0 (residual_input_acc_name k) = Some res"
    using assms by (simp_all add: g0 bsp_simps)
  from new_score_exact [OF this, of d "real_of_int n"] obtain q where
    ns: "new_score exact d i n g0 = Returns (s, put_vertex i (set_queue_at k q v0) g0)"
    by (auto simp: s_def v0_def bsp_simps)
  define v1 where "v1 = set_queue_at k q v0"
  define g1 where "g1 = put_vertex i v1 g0"
  define es where "es = vx_edges v"
  have g1: "vertices g1 = (vertices g)(i \<mapsto> v1)" "superstep g1 = k" "vx_edges v1 = es" "vx_value v1 = vx_value v"
    "facc g1 ''SAD'' = Some x" "facc g1 (residual_output_acc_name k) = Some y"
    using assms by (simp_all add: g1_def v1_def g0 es_def bsp_simps)
  define h where "h = (if es = [] then add_facc (residual_output_acc_name k) (s / n) else (\<lambda>g. g))
     (set_value i s (add_facc ''SAD'' \<bar>vx_value v - s\<bar> g1))"
  have h: "vertices h = (vertices g)(i \<mapsto> v1\<lparr>vx_value := s\<rparr>)" "superstep h = k"
    using g1 by (simp_all add: h_def bsp_simps set_value_def)
  have known: "\<forall>e \<in> set es. be_dst e \<in> dom (vertices h)"
    using assms(9) by (auto simp: h es_def)
  have pub: "publish_score exact i n s g1 = Returns (None, send_shares (Suc k) s es h)"
  proof (cases "es = []")
    case True
    then show ?thesis using g1
      by (simp add: publish_score_def Let_def aggr_aggregate_facc bsp_simps residual_names h_def send_shares_Nil set_value_def)
  next
    case False
    then show ?thesis using g1 h known broadcast_local [OF known, of "IncomingScoreMessage (s / length es)"]
      by (simp add: publish_score_def Let_def aggr_aggregate_facc bsp_simps h_def send_shares_def)
  qed
  have comp: "pr_compute exact d i g0 = Returns (None, send_shares (Suc k) s es h)"
    using assms(3,4,5) ns pub
    by (simp add: pr_compute_def aggr_get_iacc g0 bsp_simps g1_def v1_def)
  define v2 where "v2 = set_queue_at k new_queue (v\<lparr>vx_active := True, vx_value := s\<rparr>)"
  have "set_queue_at k new_queue (v1\<lparr>vx_value := s\<rparr>) = v2"
    by (simp add: v2_def v1_def v0_def set_queue_at_def)
  then have disc: "discard_at (k mod 2) i (send_shares (Suc k) s es h) =
      (None, send_shares (Suc k) s es (put_vertex i v2 h))"
    by (simp add: discard_at_def h queue_discard_new bsp_simps put_vertex_shares [symmetric])
      (simp add: send_shares_def h bsp_simps queue_discard_new)
  have "put_vertex i v2 h = put_vertex i v2 ((if es = [] then add_facc (residual_output_acc_name k) (s / n)
      else (\<lambda>g. g)) (add_facc ''SAD'' \<bar>vx_value v - s\<bar> g))"
    by (simp add: h_def g1_def g0_def bsp_simps set_value_def)
  then have "send_shares (Suc k) s es (put_vertex i v2 h) = exact_step k i n s v g"
    by (simp add: exact_step_def es_def v2_def)
  then show ?thesis using assms(1-3) comp disc unfolding s_def [symmetric]
    by (simp add: step_vertex_def Let_def g0_def v0_def)
qed

declare exact_def [simp del]

section \<open>Supersteps\<close>

definition value_of :: "pr_graph \<Rightarrow> string \<Rightarrow> real" where
  "value_of g i = vx_value (the (vertices g i))"

definition inbox :: "nat \<Rightarrow> pr_graph \<Rightarrow> string \<Rightarrow> score_msg queue" where
  "inbox k g i = queue_at k (the (vertices g i))"

definition shape :: "string set \<Rightarrow> (string \<Rightarrow> string list) \<Rightarrow> pr_graph \<Rightarrow> bool" where
  "shape V out g \<longleftrightarrow> dom (vertices g) = V \<and>
     (\<forall>i v. vertices g i = Some v \<longrightarrow> map be_dst (vx_edges v) = out i \<and> vx_active v)"

text \<open>What u sends to v, and what a dead end u leaves to every page.\<close>

definition share :: "(string \<Rightarrow> string list) \<Rightarrow> (string \<Rightarrow> real) \<Rightarrow> string \<Rightarrow> string \<Rightarrow> real" where
  "share out r u v = count_list (out u) v * (r u / length (out u))"

definition left_over :: "(string \<Rightarrow> string list) \<Rightarrow> nat \<Rightarrow> (string \<Rightarrow> real) \<Rightarrow> string \<Rightarrow> real" where
  "left_over out n r u = (if out u = [] then r u / n else 0)"

lemma push_split:
  "push V out r v = (\<Sum>u\<in>V. share out r u v) + (\<Sum>u\<in>V. left_over out (card V) r u)"
  unfolding push_def sum.distrib [symmetric]
  by (rule sum.cong) (simp_all add: share_def left_over_def)

text \<open>
  Superstep \<open>k \<ge> 1\<close> when the vertices in P have been processed: r' is the score before the
  superstep, r the score after it.
\<close>

definition mid ::
  "string set \<Rightarrow> (string \<Rightarrow> string list) \<Rightarrow> nat \<Rightarrow> (string \<Rightarrow> real) \<Rightarrow> (string \<Rightarrow> real) \<Rightarrow> string set \<Rightarrow> pr_graph \<Rightarrow> bool" where
  "mid V out k r' r P g \<longleftrightarrow>
     shape V out g \<and> superstep g = k \<and> iacc g ''page_count'' = Some (int (card V)) \<and>
     facc g ''SAD'' = Some (\<Sum>u\<in>P. \<bar>r' u - r u\<bar>) \<and>
     facc g (residual_input_acc_name k) = Some (if k = 1 then 0 else \<Sum>u\<in>V. left_over out (card V) r' u) \<and>
     facc g (residual_output_acc_name k) = Some (\<Sum>u\<in>P. left_over out (card V) r u) \<and>
     (\<forall>i\<in>V. value_of g i = (if i \<in> P then r i else r' i)) \<and>
     (\<forall>i\<in>P. q_msgs (inbox k g i) = []) \<and>
     (\<forall>i\<in>V - P. score_sum (inbox k g i) = (if k = 1 then 0 else \<Sum>u\<in>V. share out r' u i)) \<and>
     (\<forall>i\<in>V. score_sum (inbox (Suc k) g i) = (\<Sum>u\<in>P. share out r u i))"

lemma midD:
  assumes "mid V out k r' r P g"
  shows "shape V out g" "superstep g = k" "iacc g ''page_count'' = Some (int (card V))"
    "facc g ''SAD'' = Some (\<Sum>u\<in>P. \<bar>r' u - r u\<bar>)"
    "facc g (residual_input_acc_name k) = Some (if k = 1 then 0 else \<Sum>u\<in>V. left_over out (card V) r' u)"
    "facc g (residual_output_acc_name k) = Some (\<Sum>u\<in>P. left_over out (card V) r u)"
    "i \<in> V \<Longrightarrow> value_of g i = (if i \<in> P then r i else r' i)"
    "i \<in> P \<Longrightarrow> q_msgs (inbox k g i) = []"
    "i \<in> V \<Longrightarrow> i \<notin> P \<Longrightarrow> score_sum (inbox k g i) = (if k = 1 then 0 else \<Sum>u\<in>V. share out r' u i)"
    "i \<in> V \<Longrightarrow> score_sum (inbox (Suc k) g i) = (\<Sum>u\<in>P. share out r u i)"
  using assms unfolding mid_def by auto

lemma midI:
  assumes "shape V out g" "superstep g = k" "iacc g ''page_count'' = Some (int (card V))"
    "facc g ''SAD'' = Some (\<Sum>u\<in>P. \<bar>r' u - r u\<bar>)"
    "facc g (residual_input_acc_name k) = Some (if k = 1 then 0 else \<Sum>u\<in>V. left_over out (card V) r' u)"
    "facc g (residual_output_acc_name k) = Some (\<Sum>u\<in>P. left_over out (card V) r u)"
    "\<And>i. i \<in> V \<Longrightarrow> value_of g i = (if i \<in> P then r i else r' i)"
    "\<And>i. i \<in> P \<Longrightarrow> q_msgs (inbox k g i) = []"
    "\<And>i. i \<in> V \<Longrightarrow> i \<notin> P \<Longrightarrow> score_sum (inbox k g i) = (if k = 1 then 0 else \<Sum>u\<in>V. share out r' u i)"
    "\<And>i. i \<in> V \<Longrightarrow> score_sum (inbox (Suc k) g i) = (\<Sum>u\<in>P. share out r u i)"
  shows "mid V out k r' r P g"
  using assms unfolding mid_def by auto

lemma score_sum_enqueue:
  "score_sum (queue_at k (enqueue_at k (replicate n m) v)) = score_sum (queue_at k v) + n * msg_score m"
  by (simp add: score_sum_def bsp_simps sum_list_replicate)

lemma score_sum_new [simp]: "score_sum new_queue = 0" "q_msgs new_queue = []"
  by (simp_all add: score_sum_def new_queue_def)

text \<open>Reading the graph after a vertex step.\<close>

lemma exact_step_vertices:
  "vertices (exact_step k i n s v g) w = map_option
     (enqueue_at (Suc k) (replicate (count_list (map be_dst (vx_edges v)) w) (IncomingScoreMessage (s / length (vx_edges v)))))
     (if w = i then Some (set_queue_at k new_queue (v\<lparr>vx_active := True, vx_value := s\<rparr>)) else vertices g w)"
  by (simp add: exact_step_def send_shares_def bsp_simps)

lemma exact_step_accs:
  "superstep (exact_step k i n s v g) = superstep g"
  "iacc (exact_step k i n s v g) name = iacc g name"
  "facc (exact_step k i n s v g) ''SAD'' = map_option (\<lambda>y. y + \<bar>vx_value v - s\<bar>) (facc g ''SAD'')"
  "facc (exact_step k i n s v g) (residual_input_acc_name k) = facc g (residual_input_acc_name k)"
  "facc (exact_step k i n s v g) (residual_output_acc_name k) =
     map_option (\<lambda>y. y + (if vx_edges v = [] then s / n else 0)) (facc g (residual_output_acc_name k))"
  using residual_names [of k] by (simp_all add: exact_step_def send_shares_def bsp_simps option.map_ident eq_commute)

lemma exact_step_reads:
  assumes "vertices g i = Some v" "vertices g w \<noteq> None"
  shows "value_of (exact_step k i n s v g) w = (if w = i then s else value_of g w)"
    "inbox k (exact_step k i n s v g) w = (if w = i then new_queue else inbox k g w)"
    "score_sum (inbox (Suc k) (exact_step k i n s v g) w) =
       score_sum (inbox (Suc k) g w) + count_list (map be_dst (vx_edges v)) w * (s / length (vx_edges v))"
  using assms by (auto simp: value_of_def inbox_def exact_step_vertices bsp_simps score_sum_enqueue)

lemma exact_step_shape:
  assumes "shape V out g" "vertices g i = Some v"
  shows "shape V out (exact_step k i n s v g)"
proof -
  have "dom (vertices (exact_step k i n s v g)) = V"
    using assms by (auto simp: shape_def exact_step_vertices dom_def split: if_splits)
  then show ?thesis
    using assms by (auto simp: shape_def exact_step_vertices bsp_simps split: if_splits)
qed

lemma mid_step:
  assumes "mid V out k r' (rank V out d k) P g" "k \<ge> 1" "r' = rank V out d (k - 1)"
    "closed_graph V out" "i \<in> V - P" "P \<subseteq> V"
  shows "\<exists>g'. step_vertex (pr_compute exact d) i (a, e, g) = Returns (a + 1, e, g') \<and>
    mid V out k r' (rank V out d k) (insert i P) g'"
proof -
  note D = midD [OF assms(1)]
  let ?n = "real (card V)" and ?r = "rank V out d k"
  obtain v where v: "vertices g i = Some v" using D(1) assms(5) by (auto simp: shape_def)
  have out: "map be_dst (vx_edges v) = out i" "vx_active v" using D(1) v by (auto simp: shape_def)
  define res where "res = (if k = 1 then 0 else \<Sum>u\<in>V. left_over out (card V) r' u)"
  have inb: "score_sum (queue_at k v) = (if k = 1 then 0 else \<Sum>u\<in>V. share out r' u i)"
    using D(9) [of i] assms(5) v by (simp add: inbox_def)
  have score: "exact_score d ?n k (queue_at k v) res = ?r i"
  proof (cases "k = 1")
    case False
    then have "Suc (k - 1) = k" "k - 1 \<ge> 1" using assms(2) by auto
    then have "?r i = (1 - d) / ?n + d * push V out r' i"
      using rank_step [of "k - 1" V out d i] assms(3) by simp
    then show ?thesis using False inb by (simp add: exact_score_def res_def push_split distrib_left)
  qed (simp add: exact_score_def)
  define g' where "g' = exact_step k i ?n (?r i) v g"
  have known: "\<forall>e \<in> set (vx_edges v). be_dst e \<in> dom (vertices g)"
  proof
    fix e assume "e \<in> set (vx_edges v)"
    then have "be_dst e \<in> set (out i)" using out(1) [symmetric] by simp
    then have "be_dst e \<in> V" using assms(4,5) by (auto simp only: closed_graph_def DiffE)
    then show "be_dst e \<in> dom (vertices g)" using D(1) by (simp add: shape_def)
  qed
  have step: "step_vertex (pr_compute exact d) i (a, e, g) = Returns (a + 1, e, g')"
    using step_vertex_exact [OF v out(2) D(2) assms(2) D(3,4) D(5) [folded res_def] D(6) known, of d a e] score
    by (simp add: g'_def)
  have len: "length (vx_edges v) = length (out i)" "vx_edges v = [] \<longleftrightarrow> out i = []"
    using out(1) by (metis length_map, metis map_is_Nil_conv)
  have val: "vx_value v = r' i" using D(7) [of i] v assms(5) by (simp add: value_of_def)
  have dom: "w \<in> V \<Longrightarrow> vertices g w \<noteq> None" for w using D(1) by (auto simp: shape_def)
  have "i \<notin> P" "i \<in> V" using assms(5) by auto
  have fin: "finite P" using assms(4,6) finite_subset by (auto simp: closed_graph_def)
  have "mid V out k r' ?r (insert i P) g'"
  proof (rule midI)
    show "shape V out g'" unfolding g'_def by (rule exact_step_shape [OF D(1) v])
    show "value_of g' w = (if w \<in> insert i P then ?r w else r' w)" if "w \<in> V" for w
      unfolding g'_def exact_step_reads(1) [OF v dom [OF that]] using D(7) [OF that] by simp
    show "q_msgs (inbox k g' w) = []" if "w \<in> insert i P" for w
    proof (cases "w = i")
      case True
      then show ?thesis unfolding g'_def using exact_step_reads(2) [OF v, of i] v by simp
    next
      case False
      then have "w \<in> P" using that by simp
      have "w \<in> V" using assms(6) \<open>w \<in> P\<close> by auto
      then show ?thesis using False D(8) [OF \<open>w \<in> P\<close>] exact_step_reads(2) [OF v dom] by (simp add: g'_def)
    qed
    show "score_sum (inbox k g' w) = (if k = 1 then 0 else \<Sum>u\<in>V. share out r' u w)"
      if "w \<in> V" "w \<notin> insert i P" for w
      using D(9) [OF that(1)] that exact_step_reads(2) [OF v dom [OF that(1)]] by (simp add: g'_def)
    show "score_sum (inbox (Suc k) g' w) = (\<Sum>u\<in>insert i P. share out ?r u w)" if "w \<in> V" for w
    proof -
      have "score_sum (inbox (Suc k) g' w) = score_sum (inbox (Suc k) g w) + share out ?r i w"
        unfolding g'_def exact_step_reads(3) [OF v dom [OF that]] out(1) len(1) share_def ..
      then show ?thesis unfolding D(10) [OF that] sum.insert [OF fin \<open>i \<notin> P\<close>] by simp
    qed
  qed (use D(2-6) \<open>i \<notin> P\<close> fin len val in \<open>simp_all add: g'_def exact_step_accs left_over_def\<close>)
  then show ?thesis using step by blast
qed

lemma mid_steps:
  assumes "mid V out k r' (rank V out d k) P g" "k \<ge> 1" "r' = rank V out d (k - 1)"
    "closed_graph V out" "set order \<subseteq> V - P" "distinct order" "P \<subseteq> V"
  shows "\<exists>g'. step_vertices (pr_compute exact d) order (a, e, g) = Returns (a + length order, e, g') \<and>
    mid V out k r' (rank V out d k) (P \<union> set order) g'"
  using assms(1,5,6,7)
proof (induction order arbitrary: P a g)
  case (Cons i order)
  have "i \<in> V - P" using Cons.prems(2) by simp
  then obtain g1 where g1: "step_vertex (pr_compute exact d) i (a, e, g) = Returns (a + 1, e, g1)"
    "mid V out k r' (rank V out d k) (insert i P) g1"
    using mid_step [OF Cons.prems(1) assms(2-4) _ Cons.prems(4)] by blast
  have "set order \<subseteq> V - insert i P" "distinct order" "insert i P \<subseteq> V" using Cons.prems by auto
  from Cons.IH [OF g1(2) this, of "a + 1"] show ?case using g1(1) by auto
qed simp

lemma facc_names_exhaust: "residual_output_acc_name k = ''residual_0'' \<or> residual_output_acc_name k = ''residual_1''"
  by (simp add: residual_output_acc_name_def)

text \<open>Superstep 0 counts the pages.\<close>

definition counting :: "string set \<Rightarrow> (string \<Rightarrow> string list) \<Rightarrow> nat \<Rightarrow> pr_graph \<Rightarrow> bool" where
  "counting V out p g \<longleftrightarrow>
     shape V out g \<and> superstep g = 0 \<and> iacc g ''page_count'' = Some (int p) \<and>
     facc g ''SAD'' = Some 0 \<and> facc g ''residual_0'' = Some 0 \<and> facc g ''residual_1'' = Some 0 \<and>
     (\<forall>i\<in>V. value_of g i = 0 \<and> q_msgs (inbox 0 g i) = [] \<and> q_msgs (inbox 1 g i) = [])"

lemma counting_step:
  assumes "counting V out p g" "i \<in> V" "int p + 1 < 2 ^ 63"
  shows "\<exists>g'. step_vertex (pr_compute exact d) i (a, e, g) = Returns (a + 1, e, g') \<and> counting V out (Suc p) g' \<and>
    relayer g' = relayer g"
proof -
  obtain v where v: "vertices g i = Some v" using assms by (auto simp: counting_def shape_def)
  obtain c where c: "aggregators g ''page_count'' = Some (IntAcc c)" "acc_cur c = int p"
    using assms(1) by (auto simp: counting_def iacc_def split: option.splits pr_acc.splits)
  have act: "vx_active v" using assms(1) v by (auto simp: counting_def shape_def)
  then have v': "v\<lparr>vx_active := True\<rparr> = v" by simp
  define g1 where "g1 = g\<lparr>aggregators := (aggregators g)(''page_count'' \<mapsto> IntAcc (int_acc_aggregate 1 c))\<rparr>"
  define g2 where "g2 = put_vertex i (set_queue_at 0 new_queue v) g1"
  have s0: "superstep g = 0" using assms(1) by (simp add: counting_def)
  have pv: "put_vertex i v g = g" using v by (simp add: put_vertex_def map_upd_triv)
  have "pr_compute exact d i g = Returns (None, g1)"
    using c s0 by (simp add: pr_compute_def aggr_aggregate_def g1_def)
  moreover have "discard_at 0 i g1 = (None, g2)"
    using v by (simp add: discard_at_def g1_def g2_def queue_discard_new)
  ultimately have "step_vertex (pr_compute exact d) i (a, e, g) = Returns (a + 1, e, g2)"
    using v act s0 by (simp add: step_vertex_def Let_def v' pv)
  moreover have "counting V out (Suc p) g2"
  proof -
    have vs: "vertices g2 = (vertices g)(i \<mapsto> set_queue_at 0 new_queue v)"
      by (simp add: g2_def g1_def put_vertex_def)
    have sh: "shape V out g2"
      using assms(1,2) v unfolding counting_def shape_def vs by (auto simp: bsp_simps split: if_splits)
    have "acc_cur (int_acc_aggregate 1 c) = int (Suc p)"
      using assms(3) by (simp add: int_acc_aggregate_def acc_aggregate_def c(2) wrap64_id)
    then have accs: "iacc g2 ''page_count'' = Some (int (Suc p))"
      "facc g2 name = facc g name" if "name \<noteq> ''page_count''" for name
      using that by (simp_all add: g2_def g1_def iacc_def facc_def bsp_simps)
    have "value_of g2 w = value_of g w" "inbox 0 g2 w = (if w = i then new_queue else inbox 0 g w)"
      "inbox 1 g2 w = inbox 1 g w" for w
      using v by (simp_all add: value_of_def inbox_def vs bsp_simps One_nat_def del: One_nat_def) (simp add: queue_at_set(2) [of 0, simplified])
    then show ?thesis
      using assms(1) sh accs(1) [of "''SAD''"] accs(2) by (simp add: counting_def g2_def g1_def bsp_simps)
  qed
  moreover have "relayer g2 = relayer g" by (simp add: g2_def g1_def bsp_simps)
  ultimately show ?thesis by blast
qed

lemma counting_steps:
  assumes "counting V out p g" "set order \<subseteq> V" "int (p + length order) < 2 ^ 63"
  shows "\<exists>g'. step_vertices (pr_compute exact d) order (a, e, g) = Returns (a + length order, e, g') \<and>
    counting V out (p + length order) g' \<and> relayer g' = relayer g"
  using assms
proof (induction order arbitrary: a p g)
  case (Cons i order)
  then obtain g1 where g1: "step_vertex (pr_compute exact d) i (a, e, g) = Returns (a + 1, e, g1)"
    "counting V out (Suc p) g1" "relayer g1 = relayer g"
    using counting_step [of V out p g i d a e] by auto
  have "set order \<subseteq> V" "int (Suc p + length order) < 2 ^ 63" using Cons.prems by auto
  from Cons.IH [OF g1(2) this, of "a + 1"] show ?case using g1(1,3) by auto
qed simp

section \<open>Passes of the executor\<close>

text \<open>At the top of the loop before superstep \<open>k \<ge> 1\<close>; r' is the score so far.\<close>

definition between :: "string set \<Rightarrow> (string \<Rightarrow> string list) \<Rightarrow> nat \<Rightarrow> (string \<Rightarrow> real) \<Rightarrow> pr_graph \<Rightarrow> bool" where
  "between V out k r' g \<longleftrightarrow>
     shape V out g \<and> superstep g = k \<and> iacc g ''page_count'' = Some (int (card V)) \<and>
     facc g ''SAD'' \<noteq> None \<and> facc g (residual_output_acc_name k) \<noteq> None \<and>
     facc g (residual_input_acc_name k) = Some (if k = 1 then 0 else \<Sum>u\<in>V. left_over out (card V) r' u) \<and>
     (\<forall>i\<in>V. value_of g i = r' i \<and> q_msgs (inbox (Suc k) g i) = [] \<and>
       score_sum (inbox k g i) = (if k = 1 then 0 else \<Sum>u\<in>V. share out r' u i))"

lemma reads_set_facc [bsp_simps]:
  "value_of (set_facc name x g) = value_of g" "inbox k (set_facc name x g) = inbox k g"
  "shape V out (set_facc name x g) = shape V out g"
  "value_of (advance_superstep g) = value_of g" "inbox k (advance_superstep g) = inbox k g"
  "shape V out (advance_superstep g) = shape V out g"
  "facc (advance_superstep g) = facc g" "iacc (advance_superstep g) = iacc g"
  "superstep (advance_superstep g) = Suc (superstep g)"
  by (simp_all add: value_of_def inbox_def shape_def bsp_simps fun_eq_iff advance_superstep_def)

lemma pre_step_exact:
  assumes "facc g ''SAD'' = Some x" "facc g (residual_output_acc_name (superstep g)) = Some y"
  shows "pr_pre_step g = Returns (None, set_facc (residual_output_acc_name (superstep g)) 0 (set_facc ''SAD'' 0 g))"
  using assms residual_names [of "superstep g"] by (simp add: pr_pre_step_def aggr_set_facc bsp_simps)

lemma between_pre_step:
  assumes "between V out k r' g"
  shows "\<exists>g'. pr_pre_step g = Returns (None, g') \<and> mid V out k r' r {} g' \<and> relayer g' = relayer g"
proof -
  obtain x y where xy: "facc g ''SAD'' = Some x" "facc g (residual_output_acc_name k) = Some y"
    and k: "superstep g = k"
    using assms by (auto simp: between_def)
  let ?g = "set_facc (residual_output_acc_name k) 0 (set_facc ''SAD'' 0 g)"
  have "mid V out k r' r {} ?g"
    using assms residual_names [of k] xy
    by (intro midI) (simp_all add: between_def bsp_simps score_sum_def)
  then show ?thesis using pre_step_exact [of g x y] xy k by (auto simp: bsp_simps)
qed

lemma mid_advance:
  assumes "mid V out k r' r V g" "k \<ge> 1"
  shows "between V out (Suc k) r (advance_superstep g)"
proof -
  note D = midD [OF assms(1)]
  have "inbox (Suc (Suc k)) g = inbox k g" by (rule ext) (simp add: inbox_def bsp_simps)
  moreover have "residual_output_acc_name (Suc k) = residual_input_acc_name k"
    by (simp add: residual_output_acc_name_def residual_input_acc_name_def)
  ultimately show ?thesis
    using D assms(2) unfolding between_def bsp_simps by (simp add: residual_names(1))
qed

lemma keep_running_exact:
  assumes "mid V out k (rank V out d (k - 1)) (rank V out d k) V g"
  shows "pr_keep_running m a g = Returns (\<not> (k > 1 \<and> sad V out d k < m), None, g)"
  using midD(2,4) [OF assms] by (simp add: pr_keep_running_def aggr_get_facc sad_def)

definition pr_cb :: "real \<Rightarrow> pr_graph executor_callbacks" where
  "pr_cb m = patch_empty_callbacks (pr_callbacks m)"

lemma pr_cb_fields:
  "the (cb_pre_step (pr_cb m)) = pr_pre_step" "the (cb_post_step (pr_cb m)) a g = Returns (None, g)"
  "the (cb_keep_running (pr_cb m)) = pr_keep_running m"
  by (simp_all add: pr_cb_def patch_empty_callbacks_def pr_callbacks_def)

lemma between_pass:
  assumes "between V out k (rank V out d (k - 1)) g" "k \<ge> 1" "closed_graph V out"
    "set order = V" "distinct order"
  shows "\<exists>g'. executor_body None (pr_cb m) (bsp_step (pr_compute exact d) order) g =
      Returns (k > 1 \<and> sad V out d k < m, None, g') \<and>
    mid V out k (rank V out d (k - 1)) (rank V out d k) V g'"
proof -
  obtain g1 where g1: "pr_pre_step g = Returns (None, g1)"
    "mid V out k (rank V out d (k - 1)) (rank V out d k) {} g1"
    using between_pre_step [OF assms(1)] by blast
  obtain g2 where g2: "bsp_step (pr_compute exact d) order g1 = Returns (length order, None, g2)"
    "mid V out k (rank V out d (k - 1)) (rank V out d k) V g2"
    using mid_steps [OF g1(2) assms(2) refl assms(3), of order 0 None] assms(4,5)
    by (auto simp: bsp_step_def)
  show ?thesis
    using g1(1) g2 keep_running_exact [OF g2(2), of m]
    by (intro exI [of _ g2]) (simp add: executor_body_def pr_cb_fields)
qed

text \<open>A graph ready for a run: nothing queued, all values zero.\<close>

definition pr_ready :: "string set \<Rightarrow> (string \<Rightarrow> string list) \<Rightarrow> pr_graph \<Rightarrow> bool" where
  "pr_ready V out g \<longleftrightarrow> shape V out g \<and> (\<forall>i. i \<notin> V \<longrightarrow> out i = []) \<and>
     (\<forall>i\<in>V. value_of g i = 0 \<and> q_msgs (inbox 0 g i) = [] \<and> q_msgs (inbox 1 g i) = [])"

lemma ready_counting: "pr_ready V out g \<Longrightarrow> counting V out 0 (calc_executor g)"
  by (simp add: pr_ready_def counting_def calc_executor_def register_aggregators_def register_aggregator_def
      new_executor_def shape_def value_of_def inbox_def iacc_def facc_def new_int_acc_def new_float_acc_def)

lemma counting_pre_step:
  assumes "counting V out p g"
  shows "\<exists>g'. pr_pre_step g = Returns (None, g') \<and> counting V out p g' \<and> relayer g' = relayer g"
proof -
  have r0: "residual_output_acc_name 0 = ''residual_0''" by (simp add: residual_output_acc_name_def)
  have "pr_pre_step g = Returns (None, set_facc ''residual_0'' 0 (set_facc ''SAD'' 0 g))"
    using assms pre_step_exact [of g 0 0] by (simp add: counting_def r0)
  moreover have "counting V out p (set_facc ''residual_0'' 0 (set_facc ''SAD'' 0 g))"
    using assms by (simp add: counting_def bsp_simps)
  ultimately show ?thesis by (auto simp: bsp_simps)
qed

lemma counting_pass:
  assumes "counting V out 0 g" "finite V" "set order = V" "distinct order" "int (card V) < 2 ^ 63"
  shows "\<exists>g'. executor_body None (pr_cb m) (bsp_step (pr_compute exact d) order) g = Returns (False, None, g') \<and>
    between V out 1 (rank V out d 0) (advance_superstep g') \<and> relayer g' = relayer g"
proof -
  have len: "length order = card V" using assms(3,4) distinct_card by fastforce
  obtain g1 where g1: "pr_pre_step g = Returns (None, g1)" "counting V out 0 g1" "relayer g1 = relayer g"
    using counting_pre_step [OF assms(1)] by blast
  obtain g2 where g2: "bsp_step (pr_compute exact d) order g1 = Returns (length order, None, g2)"
    "counting V out (card V) g2" "relayer g2 = relayer g"
    using counting_steps [OF g1(2), of order d 0 None] assms(3,5) len g1(3) by (auto simp: bsp_step_def)
  have keep: "pr_keep_running m a g2 = Returns (True, None, g2)" for a
    using g2(2) by (simp add: pr_keep_running_def counting_def aggr_get_facc)
  have body: "executor_body None (pr_cb m) (bsp_step (pr_compute exact d) order) g = Returns (False, None, g2)"
    using g1(1) g2(1) keep by (simp add: executor_body_def pr_cb_fields)
  have "inbox (Suc (Suc 0)) g2 = inbox 0 g2" by (rule ext) (simp add: inbox_def bsp_simps)
  then have "between V out 1 (rank V out d 0) (advance_superstep g2)"
    using g2(2) by (simp add: between_def counting_def bsp_simps residual_output_acc_name_def
        residual_input_acc_name_def score_sum_def)
  then show ?thesis using body g2(3) by blast
qed

text \<open>Passes 1, 2, \<dots> as long as the scores have not converged.\<close>

lemma pr_passes:
  assumes "counting V out 0 g" "closed_graph V out" "\<forall>k. set (order k) = V \<and> distinct (order k)"
    "int (card V) < 2 ^ 63" "\<forall>k. ctxErr k = None"
    "\<forall>j. 2 \<le> j \<longrightarrow> j < k \<longrightarrow> m \<le> sad V out d j" "k \<ge> 1"
  shows "\<exists>g'. passes ctxErr (pr_cb m) (pr_compute exact d) order 0 k g g' \<and>
    between V out k (rank V out d (k - 1)) g'"
  using assms(7,6)
proof (induction k rule: dec_induct)
  case base
  have "finite V" using assms(2) by (simp add: closed_graph_def)
  then obtain g1 where "executor_body None (pr_cb m) (bsp_step (pr_compute exact d) (order 0)) g = Returns (False, None, g1)"
    "between V out 1 (rank V out d 0) (advance_superstep g1)"
    using counting_pass [OF assms(1) _ _ _ assms(4), of "order 0" m d] assms(3) by blast
  moreover from this have "passes ctxErr (pr_cb m) (pr_compute exact d) order 0 1 g (advance_superstep g1)"
    using passes_Suc [OF passes_0, of ctxErr 0 "pr_cb m" "pr_compute exact d" order g None g1] assms(5) by simp
  ultimately show ?case unfolding diff_self_eq_0 by blast
next
  case (step k)
  then obtain g1 where g1: "passes ctxErr (pr_cb m) (pr_compute exact d) order 0 k g g1"
    "between V out k (rank V out d (k - 1)) g1"
    by fastforce
  obtain g2 where g2: "executor_body None (pr_cb m) (bsp_step (pr_compute exact d) (order k)) g1 =
      Returns (k > 1 \<and> sad V out d k < m, None, g2)"
    "mid V out k (rank V out d (k - 1)) (rank V out d k) V g2"
    using between_pass [OF g1(2) step.hyps(1) assms(2), of "order k" m] assms(3) by blast
  have "\<not> (k > 1 \<and> sad V out d k < m)" using step.prems by (auto dest!: spec [of _ k])
  then have "passes ctxErr (pr_cb m) (pr_compute exact d) order 0 (Suc k) g (advance_superstep g2)"
    using g2(1) assms(5) by (intro passes_Suc [OF g1(1)]) simp
  then show ?case using mid_advance [OF g2(2) step.hyps(1)] by auto
qed

text \<open>The run of the calculator on a graph that is ready.\<close>

lemma calc_run_unfold:
  "calc_run fl cfg ctxErr order g =
    executor_run ctxErr (pr_cb (min_sad cfg)) (pr_compute fl (damping_factor cfg)) order 0 (-1) (calc_executor g)"
  by (simp add: calc_run_def run_to_completion_def pr_cb_def)

lemma calc_run_stops_at:
  assumes "pr_ready V out g" "closed_graph V out" "\<forall>k. set (order k) = V \<and> distinct (order k)"
    "int (card V) < 2 ^ 63" "\<forall>k. ctxErr k = None" "k \<ge> 2"
    "sad V out (damping_factor cfg) k < min_sad cfg"
    "\<forall>j. 2 \<le> j \<longrightarrow> j < k \<longrightarrow> min_sad cfg \<le> sad V out (damping_factor cfg) j"
  shows "\<exists>g'. calc_run exact cfg ctxErr order g = Some (Returns (None, g')) \<and> superstep g' = k \<and>
    shape V out g' \<and> (\<forall>v\<in>V. value_of g' v = rank V out (damping_factor cfg) k v)"
proof -
  let ?d = "damping_factor cfg" and ?m = "min_sad cfg"
  have k1: "k \<ge> 1" using assms(6) by simp
  obtain g1 where g1: "passes ctxErr (pr_cb ?m) (pr_compute exact ?d) order 0 k (calc_executor g) g1"
    "between V out k (rank V out ?d (k - 1)) g1"
    using pr_passes [OF ready_counting [OF assms(1)] assms(2) assms(3) assms(4) assms(5) assms(8) k1] by blast
  obtain g2 where g2: "executor_body None (pr_cb ?m) (bsp_step (pr_compute exact ?d) (order k)) g1 =
      Returns (k > 1 \<and> sad V out ?d k < ?m, None, g2)"
    "mid V out k (rank V out ?d (k - 1)) (rank V out ?d k) V g2"
    using between_pass [OF g1(2) k1 assms(2), of "order k" ?m] assms(3) by blast
  have "calc_run exact cfg ctxErr order g =
      executor_run ctxErr (pr_cb ?m) (pr_compute exact ?d) order k (-1 - int k) g1"
    using executor_run_passes [OF g1(1), of "-1"] by (simp add: calc_run_unfold)
  also have "\<dots> = Some (Returns (None, g2))"
    using g2(1) assms(5,6,7) by (intro executor_run_stop) auto
  finally show ?thesis using midD [OF g2(2)] by auto
qed

lemma first_below:
  assumes "closed_graph V out" "0 \<le> d" "d < 1" "0 < e"
  obtains k where "k \<ge> 2" "sad V out d k < e" "\<forall>j. 2 \<le> j \<longrightarrow> j < k \<longrightarrow> e \<le> sad V out d j"
proof -
  let ?P = "\<lambda>k. k \<ge> 2 \<and> sad V out d k < e"
  have "?P (LEAST k. ?P k)" using sad_below [OF assms] by (metis (mono_tags, lifting) LeastI)
  then show ?thesis using not_less_Least [of _ ?P] that [of "LEAST k. ?P k"] by (meson not_less)
qed

section \<open>Loading the graph\<close>

lemma put_vertex_triv:
  "vertices g i = Some v \<Longrightarrow> vx_value v = x \<Longrightarrow> put_vertex i (v\<lparr>vx_value := x\<rparr>) g = g"
  by (cases v) (simp add: put_vertex_def map_upd_triv)

lemma ready_new: "pr_ready {} (\<lambda>_. []) (cleared g)"
  by (simp add: pr_ready_def shape_def cleared_def)

lemma ready_add_vertex:
  assumes "pr_ready V out g"
  shows "pr_ready (insert i V) out (calc_add_vertex i g)"
proof (cases "vertices g i")
  case None
  then have "i \<notin> V" using assms by (auto simp: pr_ready_def shape_def)
  then show ?thesis using assms None
    by (auto simp: pr_ready_def shape_def calc_add_vertex_def add_vertex_def value_of_def inbox_def
        put_vertex_def queue_at_def new_queue_def)
next
  case (Some v)
  then have "i \<in> V" using assms by (auto simp: pr_ready_def shape_def)
  then have "value_of g i = 0" using assms by (simp add: pr_ready_def)
  then have "vx_value v = 0" using Some by (simp add: value_of_def)
  then have "put_vertex i (v\<lparr>vx_value := 0\<rparr>) g = g" by (rule put_vertex_triv [OF Some])
  then show ?thesis using assms Some \<open>i \<in> V\<close> by (simp add: calc_add_vertex_def add_vertex_def insert_absorb)
qed

lemma ready_add_edge:
  assumes "pr_ready V out g"
  shows "calc_add_edge src dst g =
      (if src = dst \<or> src \<in> V then None else Some (Wrap ''create edge'' (Sentinel BspErrUnknownEdgeSource)),
       snd (calc_add_edge src dst g))"
    "pr_ready V (if src \<noteq> dst \<and> src \<in> V then out(src := out src @ [dst]) else out) (snd (calc_add_edge src dst g))"
proof -
  consider "src = dst" | "src \<noteq> dst" "vertices g src = None" | v where "src \<noteq> dst" "vertices g src = Some v"
    by (cases "vertices g src") auto
  note cs = this
  have V: "src \<in> V \<longleftrightarrow> vertices g src \<noteq> None" using assms by (auto simp: pr_ready_def shape_def)
  show "calc_add_edge src dst g =
      (if src = dst \<or> src \<in> V then None else Some (Wrap ''create edge'' (Sentinel BspErrUnknownEdgeSource)),
       snd (calc_add_edge src dst g))"
    by (cases rule: cs) (simp_all add: calc_add_edge_def add_edge_def V)
  show "pr_ready V (if src \<noteq> dst \<and> src \<in> V then out(src := out src @ [dst]) else out) (snd (calc_add_edge src dst g))"
  proof (cases rule: cs)
    case (3 v)
    let ?v = "v\<lparr>vx_edges := vx_edges v @ [\<lparr>be_value = (), be_dst = dst\<rparr>]\<rparr>"
    have "map be_dst (vx_edges v) = out src" "vx_active v" using assms 3 by (auto simp: pr_ready_def shape_def)
    then have "shape V (out(src := out src @ [dst])) (put_vertex src ?v g)"
      using assms 3 by (auto simp: pr_ready_def shape_def put_vertex_def)
    moreover have "value_of (put_vertex src ?v g) = value_of g" "inbox k (put_vertex src ?v g) = inbox k g" for k
      using 3 by (auto simp: value_of_def inbox_def put_vertex_def bsp_simps)
    ultimately show ?thesis using assms 3 V by (simp add: pr_ready_def calc_add_edge_def add_edge_def)
  qed (use assms V in \<open>simp_all add: calc_add_edge_def add_edge_def\<close>)
qed

end
