(* ===== verification/PageRankProps.thy ===== *)
theory PageRankProps
  imports PageRankRun
begin

text \<open>
  What a PageRank pass delivers: convergence, the distribution it returns, the bound on its
  supersteps, and the two ways in which it fails to deliver one.
\<close>

section \<open>Graphs the service loads\<close>

text \<open>
  The graph after the calls \<^verbatim>\<open>Reset\<close>, \<^verbatim>\<open>AddVertex\<close> for each id of vs and \<^verbatim>\<open>AddEdge\<close> for each
  pair of es, with the errors of \<^verbatim>\<open>AddEdge\<close> ignored as the service ignores them.
\<close>

definition pr_load :: "string list \<Rightarrow> (string \<times> string) list \<Rightarrow> pr_graph \<Rightarrow> pr_graph" where
  "pr_load vs es g = fold (\<lambda>(src, dst) g. snd (calc_add_edge src dst g)) es (fold calc_add_vertex vs (cleared g))"

definition links_of :: "string list \<Rightarrow> (string \<times> string) list \<Rightarrow> string \<Rightarrow> string list" where
  "links_of vs es u = (if u \<in> set vs then map snd (filter (\<lambda>(src, dst). src = u \<and> src \<noteq> dst) es) else [])"

definition closed_links :: "string list \<Rightarrow> (string \<times> string) list \<Rightarrow> bool" where
  "closed_links vs es \<longleftrightarrow> vs \<noteq> [] \<and> (\<forall>u\<in>set vs. set (links_of vs es u) \<subseteq> set vs)"

lemma ready_load_vertices:
  "pr_ready V out g \<Longrightarrow> pr_ready (V \<union> set vs) out (fold calc_add_vertex vs g)"
proof (induction vs arbitrary: V g)
  case (Cons v vs)
  from Cons.IH [OF ready_add_vertex [OF Cons.prems, of v]] show ?case by simp
qed simp

lemma ready_load_edges:
  assumes "pr_ready (set vs) (links_of vs es0) g"
  shows "pr_ready (set vs) (links_of vs (es0 @ es)) (fold (\<lambda>(src, dst) g. snd (calc_add_edge src dst g)) es g)"
  using assms
proof (induction es arbitrary: es0 g)
  case (Cons e es)
  obtain src dst where e: "e = (src, dst)" by (cases e)
  have "links_of vs (es0 @ [e]) = (if src \<noteq> dst \<and> src \<in> set vs
      then (links_of vs es0)(src := links_of vs es0 src @ [dst]) else links_of vs es0)"
    by (auto simp: links_of_def e fun_eq_iff)
  then have "pr_ready (set vs) (links_of vs (es0 @ [e])) (snd (calc_add_edge src dst g))"
    using ready_add_edge(2) [OF Cons.prems, of src dst] by (simp del: fun_upd_apply)
  from Cons.IH [OF this] show ?case by (simp add: e)
qed simp

lemma ready_load: "pr_ready (set vs) (links_of vs es) (pr_load vs es g)"
proof -
  have "links_of vs [] = (\<lambda>_. [])" by (simp add: links_of_def fun_eq_iff)
  then have "pr_ready (set vs) (links_of vs []) (fold calc_add_vertex vs (cleared g))"
    using ready_load_vertices [OF ready_new, of vs g] by simp
  from ready_load_edges [OF this, of es] show ?thesis by (simp add: pr_load_def)
qed

lemma closed_load: "closed_links vs es \<Longrightarrow> closed_graph (set vs) (links_of vs es)"
  by (simp add: closed_links_def closed_graph_def)

text \<open>Every superstep visits every vertex once, in any order; the context does not expire.\<close>

definition schedules :: "string set \<Rightarrow> (nat \<Rightarrow> string list) \<Rightarrow> bool" where
  "schedules V order \<longleftrightarrow> (\<forall>k. set (order k) = V \<and> distinct (order k))"

definition never_expires :: "(nat \<Rightarrow> go_error option) \<Rightarrow> bool" where
  "never_expires ctxErr \<longleftrightarrow> (\<forall>k. ctxErr k = None)"

section \<open>Convergence\<close>

lemma calc_run_converges:
  assumes "closed_links vs es" "int (card (set vs)) < 2 ^ 63"
    "0 \<le> damping_factor cfg" "damping_factor cfg < 1" "0 < min_sad cfg"
    "schedules (set vs) order" "never_expires ctxErr"
  obtains k g' where "calc_run exact cfg ctxErr order (pr_load vs es g) = Some (Returns (None, g'))"
    "superstep g' = k" "2 \<le> k" "shape (set vs) (links_of vs es) g'"
    "\<forall>v\<in>set vs. value_of g' v = rank (set vs) (links_of vs es) (damping_factor cfg) k v"
    "sad (set vs) (links_of vs es) (damping_factor cfg) k < min_sad cfg"
    "\<forall>j. 2 \<le> j \<longrightarrow> j < k \<longrightarrow> min_sad cfg \<le> sad (set vs) (links_of vs es) (damping_factor cfg) j"
proof -
  note cl = closed_load [OF assms(1)]
  obtain k where k: "2 \<le> k" "sad (set vs) (links_of vs es) (damping_factor cfg) k < min_sad cfg"
    "\<forall>j. 2 \<le> j \<longrightarrow> j < k \<longrightarrow> min_sad cfg \<le> sad (set vs) (links_of vs es) (damping_factor cfg) j"
    using first_below [OF cl assms(3-5)] by blast
  show ?thesis
    using calc_run_stops_at [OF ready_load cl assms(6) [unfolded schedules_def] assms(2)
        assms(7) [unfolded never_expires_def] k] that k by blast
qed

text \<open>
  C10. In exact arithmetic, \<^verbatim>\<open>RunToCompletion\<close> on a loaded graph in which every link leads to a loaded page returns
  without an error, for every damping factor below 1, every positive threshold and every order
  in which the workers take the vertices.  It stops after the first superstep beyond 1 whose
  sum of absolute differences is below the threshold, and every vertex then holds the score the
  PageRank recurrence gives for that superstep.
\<close>

theorem pagerank_run_converges:
  assumes "closed_links vs es" "int (card (set vs)) < 2 ^ 63"
    "0 \<le> damping_factor cfg" "damping_factor cfg < 1" "0 < min_sad cfg"
    "schedules (set vs) order" "never_expires ctxErr"
  shows "\<exists>k g'. calc_run exact cfg ctxErr order (pr_load vs es g) = Some (Returns (None, g')) \<and>
    superstep g' = k \<and> dom (vertices g') = set vs \<and>
    (\<forall>v\<in>set vs. value_of g' v = rank (set vs) (links_of vs es) (damping_factor cfg) k v) \<and>
    k = (LEAST j. 2 \<le> j \<and> sad (set vs) (links_of vs es) (damping_factor cfg) j < min_sad cfg)"
proof -
  obtain k g' where *: "calc_run exact cfg ctxErr order (pr_load vs es g) = Some (Returns (None, g'))"
    "superstep g' = k" "2 \<le> k" "shape (set vs) (links_of vs es) g'"
    "\<forall>v\<in>set vs. value_of g' v = rank (set vs) (links_of vs es) (damping_factor cfg) k v"
    "sad (set vs) (links_of vs es) (damping_factor cfg) k < min_sad cfg"
    "\<forall>j. 2 \<le> j \<longrightarrow> j < k \<longrightarrow> min_sad cfg \<le> sad (set vs) (links_of vs es) (damping_factor cfg) j"
    by (rule calc_run_converges [OF assms])
  have "(LEAST j. 2 \<le> j \<and> sad (set vs) (links_of vs es) (damping_factor cfg) j < min_sad cfg) = k"
  proof (rule Least_equality)
    fix j assume j: "2 \<le> j \<and> sad (set vs) (links_of vs es) (damping_factor cfg) j < min_sad cfg"
    show "k \<le> j"
    proof (rule ccontr)
      assume "\<not> k \<le> j"
      then have "min_sad cfg \<le> sad (set vs) (links_of vs es) (damping_factor cfg) j"
        using *(7) j by simp
      then show False using j by simp
    qed
  qed (use *(3,6) in blast)
  then show ?thesis using *(1,2,4,5) unfolding shape_def by blast
qed

definition demo_cfg :: pr_config where
  "demo_cfg = \<lparr>damping_factor = 85 / 100, min_sad = 1 / 1000, pr_compute_workers = 1\<rparr>"

text \<open>Three pages; A links to B and to itself, B links to C, and C links nowhere.\<close>

definition demo_pages :: "string list" where
  "demo_pages = [''A'', ''B'', ''C'']"

definition demo_links :: "(string \<times> string) list" where
  "demo_links = [(''A'', ''B''), (''A'', ''A''), (''B'', ''C''), (''X'', ''A'')]"

lemma demo_closed: "closed_links demo_pages demo_links"
  by (simp add: closed_links_def links_of_def demo_pages_def demo_links_def)

lemma demo_schedules: "schedules (set demo_pages) (\<lambda>_. demo_pages)"
  by (simp add: schedules_def demo_pages_def)

lemma demo_card: "card (set demo_pages) = 3"
  by (simp add: demo_pages_def)

lemma demo_expires: "never_expires (\<lambda>_. None)"
  by (simp add: never_expires_def)

lemma demo_config:
  "0 \<le> damping_factor demo_cfg" "damping_factor demo_cfg < 1" "0 < min_sad demo_cfg"
  by (simp_all add: demo_cfg_def)

lemma pagerank_run_converges_witness:
  "\<exists>g'. calc_run exact demo_cfg (\<lambda>_. None) (\<lambda>_. demo_pages)
      (pr_load demo_pages demo_links new_bsp_graph) = Some (Returns (None, g')) \<and>
    dom (vertices g') = {''A'', ''B'', ''C''}"
proof -
  have "int (card (set demo_pages)) < 2 ^ 63" by (simp add: demo_card)
  from pagerank_run_converges [OF demo_closed this demo_config demo_schedules demo_expires, of new_bsp_graph]
  show ?thesis by (auto simp: demo_pages_def)
qed

lemma run_superstep_bound:
  assumes "closed_links vs es" "int (card (set vs)) < 2 ^ 63"
    "0 \<le> damping_factor cfg" "damping_factor cfg < 1" "0 < min_sad cfg"
    "schedules (set vs) order" "never_expires ctxErr"
    "calc_run exact cfg ctxErr order (pr_load vs es g) = Some (Returns (err, g'))"
    "damping_factor cfg \<le> 85 / 100" "1 / 1000 \<le> min_sad cfg"
  shows "superstep g' \<le> 49"
proof (rule ccontr)
  let ?d = "damping_factor cfg"
  note cl = closed_load [OF assms(1)]
  obtain k g1 where *: "calc_run exact cfg ctxErr order (pr_load vs es g) = Some (Returns (None, g1))"
    "superstep g1 = k" "\<forall>j. 2 \<le> j \<longrightarrow> j < k \<longrightarrow> min_sad cfg \<le> sad (set vs) (links_of vs es) ?d j"
    by (rule calc_run_converges [OF assms(1-7)])
  assume "\<not> superstep g' \<le> 49"
  then have "min_sad cfg \<le> sad (set vs) (links_of vs es) ?d 49" using * assms(8) by simp
  also have "\<dots> \<le> 2 * ?d ^ 47" using sad_bound [OF cl assms(3), of 47] assms(4) by simp
  also have "\<dots> \<le> 2 * (85 / 100) ^ 47" using assms(3,9) by (intro mult_left_mono power_mono) simp_all
  also have "\<dots> < 1 / 1000" by (simp add: power_divide)
  finally show False using assms(10) by simp
qed

text \<open>
  C11. In exact arithmetic, the scores such a run returns are a probability distribution: none is
  negative and they add up to 1.  With the default damping factor and threshold the run ends by superstep 49,
  however large the graph is.
\<close>

theorem pagerank_scores_distribution:
  assumes "closed_links vs es" "int (card (set vs)) < 2 ^ 63"
    "0 \<le> damping_factor cfg" "damping_factor cfg < 1" "0 < min_sad cfg"
    "schedules (set vs) order" "never_expires ctxErr"
    "calc_run exact cfg ctxErr order (pr_load vs es g) = Some (Returns (err, g'))"
  shows "err = None \<and> (\<forall>v\<in>set vs. 0 \<le> value_of g' v) \<and> (\<Sum>v\<in>set vs. value_of g' v) = 1 \<and>
    (damping_factor cfg \<le> 85 / 100 \<and> 1 / 1000 \<le> min_sad cfg \<longrightarrow> superstep g' \<le> 49)"
proof -
  let ?d = "damping_factor cfg" and ?r = "rank (set vs) (links_of vs es) (damping_factor cfg)"
  note cl = closed_load [OF assms(1)]
  obtain k g1 where *: "calc_run exact cfg ctxErr order (pr_load vs es g) = Some (Returns (None, g1))"
    "superstep g1 = k" "2 \<le> k" "\<forall>v\<in>set vs. value_of g1 v = ?r k v"
    "\<forall>j. 2 \<le> j \<longrightarrow> j < k \<longrightarrow> min_sad cfg \<le> sad (set vs) (links_of vs es) ?d j"
    using calc_run_converges [OF assms(1-7)] by metis
  have g': "err = None" "g' = g1" using *(1) assms(8) by simp_all
  have sum: "(\<Sum>v\<in>set vs. value_of g' v) = 1"
    using rank_sum [OF cl, of k ?d] *(3,4) by (simp add: g')
  have "superstep g' \<le> 49" if "?d \<le> 85 / 100" "1 / 1000 \<le> min_sad cfg"
    by (rule run_superstep_bound [OF assms that])
  then show ?thesis
    using g' sum *(2,4) rank_nonneg [OF assms(3), of "set vs" "links_of vs es" k] assms(4) by auto
qed

lemma pagerank_scores_distribution_witness:
  "\<exists>g'. calc_run exact demo_cfg (\<lambda>_. None) (\<lambda>_. demo_pages)
      (pr_load demo_pages demo_links new_bsp_graph) = Some (Returns (None, g')) \<and>
    value_of g' ''A'' + value_of g' ''B'' + value_of g' ''C'' = 1 \<and> superstep g' \<le> 49"
proof -
  have c: "int (card (set demo_pages)) < 2 ^ 63" by (simp add: demo_card)
  obtain g' where run: "calc_run exact demo_cfg (\<lambda>_. None) (\<lambda>_. demo_pages)
      (pr_load demo_pages demo_links new_bsp_graph) = Some (Returns (None, g'))"
    using calc_run_converges [OF demo_closed c demo_config demo_schedules demo_expires] by metis
  from pagerank_scores_distribution [OF demo_closed c demo_config demo_schedules demo_expires run] run
  show ?thesis by (intro exI [of _ g']) (simp add: demo_pages_def demo_cfg_def)
qed

section \<open>A damping factor of 1\<close>

lemma calc_run_diverges:
  assumes "closed_links vs es" "int (card (set vs)) < 2 ^ 63" "schedules (set vs) order" "never_expires ctxErr"
    "\<forall>j \<ge> 2. min_sad cfg \<le> sad (set vs) (links_of vs es) (damping_factor cfg) j"
  shows "calc_run exact cfg ctxErr order (pr_load vs es g) = None"
proof -
  let ?V = "set vs" and ?out = "links_of vs es" and ?d = "damping_factor cfg"
  define Inv where "Inv = (\<lambda>k h. if k = 0 then counting ?V ?out 0 h else between ?V ?out k (rank ?V ?out ?d (k - 1)) h)"
  note cl = closed_load [OF assms(1)]
  show ?thesis
    unfolding calc_run_unfold
  proof (rule executor_run_diverges [where Inv = Inv])
    show "Inv 0 (calc_executor (pr_load vs es g))"
      using ready_counting [OF ready_load] by (simp add: Inv_def)
    fix k h assume inv: "Inv k h"
    show "\<exists>err g'. executor_body (ctxErr k) (pr_cb (min_sad cfg)) (bsp_step (pr_compute exact ?d) (order k)) h =
        Returns (False, err, g') \<and> Inv (Suc k) (advance_superstep g')"
    proof (cases "k = 0")
      case True
      then show ?thesis
        using counting_pass [of ?V ?out h "order k" "min_sad cfg" ?d] inv assms(2-4)
        by (auto simp: Inv_def schedules_def never_expires_def)
    next
      case False
      then obtain h' where h': "executor_body None (pr_cb (min_sad cfg)) (bsp_step (pr_compute exact ?d) (order k)) h =
          Returns (k > 1 \<and> sad ?V ?out ?d k < min_sad cfg, None, h')"
        "mid ?V ?out k (rank ?V ?out ?d (k - 1)) (rank ?V ?out ?d k) ?V h'"
        using between_pass [of ?V ?out k ?d h "order k" "min_sad cfg"] inv cl assms(3)
        by (auto simp: Inv_def schedules_def)
      have "\<not> (k > 1 \<and> sad ?V ?out ?d k < min_sad cfg)"
        using assms(5) [rule_format, of k] by linarith
      then show ?thesis using h' mid_advance [OF h'(2)] False assms(4)
        by (intro exI [of _ None] exI [of _ h']) (simp add: Inv_def never_expires_def)
    qed
  qed simp
qed

definition star_pages :: "string list" where
  "star_pages = [''A'', ''B'', ''C'']"

definition star_links :: "(string \<times> string) list" where
  "star_links = [(''A'', ''B''), (''A'', ''C''), (''B'', ''A''), (''C'', ''A'')]"

lemma star_rank:
  fixes k :: nat
  defines "r \<equiv> rank (set star_pages) (links_of star_pages star_links) 1"
  shows "r (2 * k + 1) ''A'' = 1 / 3 \<and> r (2 * k + 1) ''B'' = 1 / 3 \<and> r (2 * k + 1) ''C'' = 1 / 3 \<and>
    r (2 * k + 2) ''A'' = 2 / 3 \<and> r (2 * k + 2) ''B'' = 1 / 6 \<and> r (2 * k + 2) ''C'' = 1 / 6"
proof -
  have step: "r (Suc (Suc j)) ''A'' = r (Suc j) ''B'' + r (Suc j) ''C''"
    "r (Suc (Suc j)) ''B'' = r (Suc j) ''A'' / 2" "r (Suc (Suc j)) ''C'' = r (Suc j) ''A'' / 2" for j
    by (simp_all add: r_def push_def links_of_def star_pages_def star_links_def)
  have one: "r (Suc 0) v = 1 / 3" for v by (simp add: r_def star_pages_def)
  show ?thesis
  proof (induction k)
    case 0
    then show ?case using step [of 0] by (simp add: one numeral_2_eq_2)
  next
    case (Suc k)
    then show ?case using step [of "2 * k + 1"] step [of "2 * k + 2"] by (simp add: numeral_2_eq_2)
  qed
qed

lemma star_sad: "j \<ge> 2 \<Longrightarrow> sad (set star_pages) (links_of star_pages star_links) 1 j = 2 / 3"
proof -
  assume "j \<ge> 2"
  then have "j = 2 * ((j - 2) div 2) + 2 \<or> j = 2 * ((j - 2) div 2 + 1) + 1" by presburger
  then obtain k where "j = 2 * k + 2 \<or> j = 2 * (k + 1) + 1" by blast
  then show ?thesis
    using star_rank [of k] star_rank [of "k + 1"]
    by (auto simp: sad_def star_pages_def)
qed

text \<open>
  C12. The configuration check accepts a damping factor of 1, for which convergence is not
  guaranteed: on a hub with two pages that link back to it the scores oscillate, and
  \<^verbatim>\<open>RunToCompletion\<close> with the default threshold never returns unless its context expires.
\<close>

theorem pagerank_damping_one_diverges:
  assumes "cfg = \<lparr>damping_factor = 1, min_sad = 0, pr_compute_workers = n\<rparr>"
    "schedules (set star_pages) order" "never_expires ctxErr"
  shows "\<exists>cfg'. pr_config_validate cfg = (None, cfg') \<and> damping_factor cfg' = 1 \<and>
    calc_run exact cfg' ctxErr order (pr_load star_pages star_links g) = None"
proof -
  define w where "w = (if n \<le> 0 then 1 else n)"
  have v: "pr_config_validate cfg = (None, \<lparr>damping_factor = 1, min_sad = 1 / 1000, pr_compute_workers = w\<rparr>)"
    by (simp add: w_def assms(1) pr_config_validate_def)
  have "closed_links star_pages star_links"
    by (simp add: closed_links_def links_of_def star_pages_def star_links_def)
  then have "calc_run exact \<lparr>damping_factor = 1, min_sad = 1 / 1000, pr_compute_workers = w\<rparr> ctxErr order
      (pr_load star_pages star_links g) = None"
    using assms(2,3) by (intro calc_run_diverges) (simp_all add: star_sad, simp add: star_pages_def)
  then show ?thesis using v by simp
qed

lemma pagerank_damping_one_diverges_witness:
  "\<exists>cfg'. damping_factor cfg' = 1 \<and> calc_run exact cfg' (\<lambda>_. None) (\<lambda>_. star_pages)
    (pr_load star_pages star_links new_bsp_graph) = None"
  using pagerank_damping_one_diverges [OF refl, of "\<lambda>_. star_pages" "\<lambda>_. None" 1 new_bsp_graph]
  by (auto simp: schedules_def never_expires_def star_pages_def)

section \<open>Links to pages that were not loaded\<close>

text \<open>What sending leaves as it is.\<close>

definition same_frame :: "pr_graph \<Rightarrow> pr_graph \<Rightarrow> bool" where
  "same_frame g h \<longleftrightarrow> superstep h = superstep g \<and> aggregators h = aggregators g \<and> relayer h = relayer g \<and>
     (\<forall>w. map_option (\<lambda>v. (vx_edges v, vx_active v)) (vertices h w) =
          map_option (\<lambda>v. (vx_edges v, vx_active v)) (vertices g w))"

lemma same_frame_trans: "same_frame g h \<Longrightarrow> same_frame h h' \<Longrightarrow> same_frame g h'"
  by (simp add: same_frame_def)

lemma same_frame_put:
  "vertices g i = Some v \<Longrightarrow> vx_edges w = vx_edges v \<Longrightarrow> vx_active w = vx_active v \<Longrightarrow>
    same_frame g (put_vertex i w g)"
  by (simp add: same_frame_def bsp_simps)

lemma same_frame_dom: "same_frame g h \<Longrightarrow> dom (vertices h) = dom (vertices g)"
  unfolding same_frame_def dom_def by (metis (no_types, lifting) option.map_disc_iff)

lemma same_frame_shape:
  assumes "same_frame g h" "shape V out g"
  shows "shape V out h"
proof -
  have "map be_dst (vx_edges v) = out i \<and> vx_active v" if v: "vertices h i = Some v" for i v
  proof -
    have "map_option (\<lambda>v. (vx_edges v, vx_active v)) (vertices h i) =
        map_option (\<lambda>v. (vx_edges v, vx_active v)) (vertices g i)"
      using assms(1) by (simp add: same_frame_def)
    then show ?thesis using assms(2) v by (cases "vertices g i") (simp_all add: shape_def)
  qed
  then show ?thesis using assms same_frame_dom [OF assms(1)] by (simp add: shape_def)
qed

lemma broadcast_frame:
  assumes "relayer g = None"
  shows "\<exists>r h. broadcast_to_neighbors es m g = (r, h) \<and> same_frame g h \<and>
    (r = None \<longleftrightarrow> be_dst ` set es \<subseteq> dom (vertices g)) \<and>
    (\<forall>err. r = Some err \<longrightarrow> errors_is err BspErrInvalidMessageDestination)"
  using assms
proof (induction es arbitrary: g)
  case (Cons e es)
  show ?case
  proof (cases "vertices g (be_dst e)")
    case None
    then show ?thesis using Cons.prems by (auto simp: send_message_def same_frame_def)
  next
    case (Some v)
    let ?g = "put_vertex (be_dst e) (enqueue_at (Suc (superstep g)) [m] v) g"
    have f: "same_frame g ?g" using Some by (intro same_frame_put) (simp_all add: bsp_simps)
    have "relayer ?g = None" using Cons.prems by (simp add: bsp_simps)
    from Cons.IH [OF this] obtain r h where "broadcast_to_neighbors es m ?g = (r, h)" "same_frame ?g h"
      "r = None \<longleftrightarrow> be_dst ` set es \<subseteq> dom (vertices ?g)"
      "\<forall>err. r = Some err \<longrightarrow> errors_is err BspErrInvalidMessageDestination" by blast
    then show ?thesis
      using Some same_frame_trans [OF f, of h] same_frame_dom [OF f]
      by (intro exI [of _ r] exI [of _ h]) (simp add: send_message_local domI)
  qed
qed (simp add: same_frame_def)

text \<open>Superstep 1 while some vertices may already have failed.\<close>

definition sane :: "string set \<Rightarrow> (string \<Rightarrow> string list) \<Rightarrow> pr_graph \<Rightarrow> bool" where
  "sane V out g \<longleftrightarrow> shape V out g \<and> superstep g = 1 \<and> iacc g ''page_count'' \<noteq> None \<and>
     facc g ''SAD'' \<noteq> None \<and> facc g ''residual_1'' \<noteq> None \<and> relayer g = None"

lemma same_frame_accs: "same_frame g h \<Longrightarrow> facc h name = facc g name" "same_frame g h \<Longrightarrow> iacc h name = iacc g name"
  by (simp_all add: same_frame_def facc_def iacc_def)

lemma sane_frame: "sane V out g \<Longrightarrow> same_frame g h \<Longrightarrow> sane V out h"
  using same_frame_shape [of g h V out] same_frame_accs [of g h]
  by (simp add: sane_def) (simp add: same_frame_def)

lemma sane_add_facc: "sane V out g \<Longrightarrow> sane V out (add_facc name x g)"
  by (auto simp: sane_def bsp_simps shape_def)

definition first_error :: "go_error option \<Rightarrow> go_error option \<Rightarrow> bool \<Rightarrow> bool" where
  "first_error e e' failed \<longleftrightarrow>
     (if e = None \<and> failed then \<exists>err. e' = Some err \<and> errors_is err BspErrInvalidMessageDestination else e' = e)"

lemma publish_sane:
  assumes "sane V out g" "i \<in> V"
  shows "\<exists>r h. publish_score exact i n s g = Returns (r, h) \<and> sane V out h \<and>
    (r = None \<longleftrightarrow> set (out i) \<subseteq> V) \<and> (\<forall>err. r = Some err \<longrightarrow> errors_is err BspErrInvalidMessageDestination)"
proof -
  obtain v where v: "vertices g i = Some v" using assms by (auto simp: sane_def shape_def)
  have es: "map be_dst (vx_edges v) = out i" using assms(1) v by (auto simp: sane_def shape_def)
  obtain x y where xy: "facc g ''SAD'' = Some x" "facc g ''residual_1'' = Some y"
    using assms(1) by (auto simp: sane_def)
  have ss: "superstep g = 1" using assms(1) by (simp add: sane_def)
  define g1 where "g1 = set_value i s (add_facc ''SAD'' \<bar>vx_value v - s\<bar> g)"
  have "vertices (add_facc ''SAD'' \<bar>vx_value v - s\<bar> g) i = Some v" using v by (simp add: bsp_simps)
  then have "same_frame (add_facc ''SAD'' \<bar>vx_value v - s\<bar> g) g1"
    unfolding g1_def set_value_def by (simp add: same_frame_put)
  then have g1: "sane V out g1" using sane_frame sane_add_facc assms(1) by blast
  then have "relayer g1 = None" and dom: "dom (vertices g1) = V" by (auto simp: sane_def shape_def)
  have ss1: "superstep g1 = 1" using g1 by (simp add: sane_def)
  have res: "facc g1 ''residual_1'' = Some y"
    using xy v by (simp add: g1_def set_value_def bsp_simps)
  show ?thesis
  proof (cases "vx_edges v = []")
    case True
    then have "publish_score exact i n s g = Returns (None, add_facc ''residual_1'' (s / n) g1)"
      using v xy ss1 res by (simp add: publish_score_def Let_def exact_def aggr_aggregate_facc
          g1_def [symmetric] residual_output_acc_name_def)
    then show ?thesis using sane_add_facc [OF g1] True es by auto
  next
    case False
    obtain r h where b: "broadcast_to_neighbors (vx_edges v) (IncomingScoreMessage (s / length (vx_edges v))) g1 = (r, h)"
      "same_frame g1 h" "r = None \<longleftrightarrow> be_dst ` set (vx_edges v) \<subseteq> dom (vertices g1)"
      "\<forall>err. r = Some err \<longrightarrow> errors_is err BspErrInvalidMessageDestination"
      using broadcast_frame [OF \<open>relayer g1 = None\<close>, of "vx_edges v"
        "IncomingScoreMessage (s / length (vx_edges v))"]
      by (elim exE conjE) (rule that)
    have "set (out i) = be_dst ` set (vx_edges v)" using es by (metis set_map)
    moreover have "publish_score exact i n s g = Returns (r, h)"
      using v xy False b(1) by (simp add: publish_score_def Let_def exact_def aggr_aggregate_facc g1_def [symmetric])
    ultimately show ?thesis using b(2-4) dom sane_frame [OF g1] by auto
  qed
qed

lemma step_vertex_sane:
  assumes "sane V out g" "i \<in> V"
  shows "\<exists>e' g'. step_vertex (pr_compute exact d) i (a, e, g) = Returns (a + 1, e', g') \<and> sane V out g' \<and>
    first_error e e' (\<not> set (out i) \<subseteq> V)"
proof -
  obtain v where v: "vertices g i = Some v" using assms by (auto simp: sane_def shape_def)
  have act: "vx_active v" and ss: "superstep g = 1" using assms(1) v by (auto simp: sane_def shape_def)
  have v': "put_vertex i (v\<lparr>vx_active := True\<rparr>) g = g" using v act
    by (cases v) (simp add: put_vertex_def map_upd_triv)
  obtain n where n: "iacc g ''page_count'' = Some n" using assms(1) by (auto simp: sane_def)
  obtain r h where pub: "publish_score exact i (real_of_int n) (1 / n) g = Returns (r, h)" "sane V out h"
    "r = None \<longleftrightarrow> set (out i) \<subseteq> V" "\<forall>err. r = Some err \<longrightarrow> errors_is err BspErrInvalidMessageDestination"
    using publish_sane [OF assms, of "real_of_int n" "1 / n"] by (elim exE conjE) (rule that)
  have comp: "pr_compute exact d i g = Returns (r, h)"
    using n ss pub(1) by (simp add: pr_compute_def aggr_get_iacc new_score_def exact_def)
  show ?thesis
  proof (cases r)
    case (Some err)
    have st: "step_vertex (pr_compute exact d) i (a, e, g) = Returns (a + 1,
        try_emit_error e (Wrap ''running compute function for vertex failed'' err), h)"
      using v act ss comp Some by (simp add: step_vertex_def Let_def v')
    then show ?thesis using pub(2-4) Some
      by (auto simp: first_error_def try_emit_error_def split: option.split)
  next
    case None
    obtain w where w: "vertices h i = Some w" using pub(2) assms(2) by (auto simp: sane_def shape_def)
    have "discard_at 1 i h = (None, put_vertex i (set_queue_at 1 new_queue w) h)"
      using w by (simp add: discard_at_def queue_discard_new)
    then have st: "step_vertex (pr_compute exact d) i (a, e, g) =
        Returns (a + 1, e, put_vertex i (set_queue_at 1 new_queue w) h)"
      using v act ss comp None by (simp add: step_vertex_def Let_def v')
    have "same_frame h (put_vertex i (set_queue_at 1 new_queue w) h)"
      using w by (intro same_frame_put) (simp_all add: bsp_simps)
    then show ?thesis using st sane_frame [OF pub(2)] pub(3) None by (auto simp: first_error_def)
  qed
qed

lemma steps_sane:
  assumes "sane V out g" "set order \<subseteq> V"
  shows "\<exists>e' g'. step_vertices (pr_compute exact d) order (a, e, g) = Returns (a + length order, e', g') \<and>
    sane V out g' \<and> first_error e e' (\<exists>i \<in> set order. \<not> set (out i) \<subseteq> V)"
  using assms
proof (induction order arbitrary: a e g)
  case (Cons i order)
  obtain e1 g1 where s1: "step_vertex (pr_compute exact d) i (a, e, g) = Returns (a + 1, e1, g1)" "sane V out g1"
    "first_error e e1 (\<not> set (out i) \<subseteq> V)"
    using step_vertex_sane [OF Cons.prems(1), of i d a e] Cons.prems(2) by auto
  obtain e2 g2 where s2: "step_vertices (pr_compute exact d) order (a + 1, e1, g1) = Returns (a + 1 + length order, e2, g2)"
    "sane V out g2" "first_error e1 e2 (\<exists>i \<in> set order. \<not> set (out i) \<subseteq> V)"
    using Cons.IH [OF s1(2), of "a + 1" e1] Cons.prems(2) by auto
  have "first_error e e2 (\<exists>i \<in> set (i # order). \<not> set (out i) \<subseteq> V)"
    using s1(3) s2(3) unfolding first_error_def by (cases e; cases e1) (auto split: if_splits)
  then show ?case using s1(1) s2(1,2) by auto
qed (simp add: first_error_def)

lemma relayer_load: "relayer (pr_load vs es g) = relayer g"
proof -
  have "relayer (fold calc_add_vertex vs h) = relayer h" for h
    by (induction vs arbitrary: h)
      (simp_all add: calc_add_vertex_def add_vertex_def put_vertex_def Let_def)
  moreover have "relayer (fold (\<lambda>(src, dst) g. snd (calc_add_edge src dst g)) es h) = relayer h" for h
    by (induction es arbitrary: h)
      (simp_all add: calc_add_edge_def add_edge_def put_vertex_def split: prod.splits option.split)
  ultimately show ?thesis by (simp add: pr_load_def cleared_def)
qed

text \<open>
  C13. The pass tolerates a link whose source was not loaded, but not one whose target was not:
  if any loaded page links to a page that was not loaded, \<^verbatim>\<open>RunToCompletion\<close> stops in superstep 1
  with an error that wraps \<^verbatim>\<open>ErrInvalidMessageDestination\<close>, whatever the configuration and the
  order of the vertices.
\<close>

theorem pagerank_unknown_target_fails:
  assumes "u \<in> set vs" "\<not> set (links_of vs es u) \<subseteq> set vs" "relayer g = None"
    "int (card (set vs)) < 2 ^ 63" "schedules (set vs) order" "never_expires ctxErr"
  shows "\<exists>err g'. calc_run exact cfg ctxErr order (pr_load vs es g) = Some (Returns (Some err, g')) \<and>
    errors_is err BspErrInvalidMessageDestination \<and> superstep g' = 1"
proof -
  let ?V = "set vs" and ?out = "links_of vs es" and ?d = "damping_factor cfg" and ?m = "min_sad cfg"
  note ready = ready_load [of vs es g]
  have ord: "set (order k) = ?V" "distinct (order k)" for k using assms(5) by (auto simp: schedules_def)
  have ctx: "ctxErr k = None" for k using assms(6) by (simp add: never_expires_def)
  define g0 where "g0 = calc_executor (pr_load vs es g)"
  have g0: "counting ?V ?out 0 g0" "relayer g0 = None"
    using ready_counting [OF ready] relayer_load [of vs es g] assms(3)
    by (simp_all add: g0_def calc_executor_def new_executor_def register_aggregators_def register_aggregator_def)
  obtain g1 where g1: "executor_body None (pr_cb ?m) (bsp_step (pr_compute exact ?d) (order 0)) g0 = Returns (False, None, g1)"
    "between ?V ?out 1 (rank ?V ?out ?d 0) (advance_superstep g1)" "relayer g1 = None"
    using counting_pass [OF g0(1), of "order 0" ?m ?d] ord [of 0] assms(4) g0(2) by auto
  define h where "h = advance_superstep g1"
  obtain h1 where h1: "pr_pre_step h = Returns (None, h1)" "mid ?V ?out 1 (rank ?V ?out ?d 0) (\<lambda>_. 0) {} h1" "relayer h1 = None"
    using between_pre_step [OF g1(2), of "\<lambda>_. 0"] g1(3) by (auto simp: h_def advance_superstep_def)
  have "sane ?V ?out h1"
    using midD [OF h1(2)] h1(3) by (simp add: sane_def residual_output_acc_name_def)
  then obtain e h2 where h2: "bsp_step (pr_compute exact ?d) (order 1) h1 = Returns (length (order 1), e, h2)"
    "sane ?V ?out h2" "first_error None e (\<exists>i \<in> set (order 1). \<not> set (?out i) \<subseteq> ?V)"
    using steps_sane [of ?V ?out h1 "order 1" ?d 0 None] ord(1) [of 1] by (auto simp: bsp_step_def)
  obtain err where err: "e = Some err" "errors_is err BspErrInvalidMessageDestination"
  proof -
    have "\<exists>i \<in> set (order 1). \<not> set (?out i) \<subseteq> ?V" unfolding ord(1) using assms(1,2) by blast
    then have "first_error None e True" using h2(3) by simp
    then show thesis using that by (auto simp: first_error_def)
  qed
  have body: "executor_body None (pr_cb ?m) (bsp_step (pr_compute exact ?d) (order 1)) h = Returns (True, Some err, h2)"
    using h1(1) h2(1) err(1) by (simp add: executor_body_def pr_cb_fields)
  have "calc_run exact cfg ctxErr order (pr_load vs es g) =
      executor_run ctxErr (pr_cb ?m) (pr_compute exact ?d) order 0 (-1) g0"
    by (simp add: calc_run_unfold g0_def)
  also have "\<dots> = executor_run ctxErr (pr_cb ?m) (pr_compute exact ?d) order (0 + 1) (-1 - int 1) h"
    using passes_Suc [OF passes_0, of ctxErr 0 "pr_cb ?m" "pr_compute exact ?d" order g0 None g1] g1(1) ctx
    by (intro executor_run_passes) (simp_all add: h_def)
  also have "\<dots> = Some (Returns (Some err, h2))"
    using body ctx by (intro executor_run_stop) simp_all
  finally show ?thesis using err(2) h2(2) by (auto simp: sane_def)
qed

lemma pagerank_unknown_target_fails_witness:
  "\<exists>err g'. calc_run exact demo_cfg (\<lambda>_. None) (\<lambda>_. [''A''])
      (pr_load [''A''] [(''A'', ''B'')] new_bsp_graph) = Some (Returns (Some err, g')) \<and>
    errors_is err BspErrInvalidMessageDestination \<and> superstep g' = 1"
  by (rule pagerank_unknown_target_fails [of "''A''"])
    (simp_all add: links_of_def new_bsp_graph_def schedules_def never_expires_def)

end
