(* ===== verification/PageRankService.thy ===== *)
theory PageRankService
  imports PageRankProps Partition LinkGraph
begin

text \<open>
  The PageRank service (\<^verbatim>\<open>pagerank/service.go\<close>): loading the graph through the graph API, one
  calculator run, and writing the scores through the index API, in the loop \<^verbatim>\<open>Run\<close>.

  The two APIs are parameters: \<open>links_api\<close> and \<open>edges_api\<close> answer with an iterator or an
  error, \<open>update_score\<close> acts on the state of the index.  Log messages are left out.
\<close>

section \<open>Configuration\<close>

text \<open>A field of type bool says whether the interface value is present.\<close>

record pr_svc_config =
  psc_graph_api :: bool
  psc_index_api :: bool
  psc_partition_detector :: bool
  psc_clock :: bool
  psc_compute_workers :: int
  psc_update_interval :: int
  psc_logger :: bool

definition pr_svc_validate :: "pr_svc_config \<Rightarrow> go_error option \<times> pr_svc_config" where
  "pr_svc_validate cfg =
     (let err1 = (if \<not> psc_graph_api cfg
                  then multierror_append None (Errorf ''graph API has not been provided'') else None);
          err2 = (if \<not> psc_index_api cfg
                  then multierror_append err1 (Errorf ''index API has not been provided'') else err1);
          err3 = (if \<not> psc_partition_detector cfg
                  then multierror_append err2 (Errorf ''partition detector has not been provided'') else err2);
          cfg1 = cfg\<lparr>psc_clock := True\<rparr>;
          err4 = (if psc_compute_workers cfg1 \<le> 0
                  then multierror_append err3 (Errorf ''invalid value for compute workers'') else err3);
          err5 = (if psc_update_interval cfg1 = 0
                  then multierror_append err4 (Errorf ''invalid value for update interval'') else err4);
          cfg2 = cfg1\<lparr>psc_logger := True\<rparr>
      in (err5, cfg2))"

record pr_service =
  prs_cfg :: pr_svc_config
  prs_calculator :: calculator

definition new_pr_service :: "pr_svc_config \<Rightarrow> go_error + pr_service" where
  "new_pr_service cfg =
     (case pr_svc_validate cfg of
        (Some err, _) \<Rightarrow> Inl (Wrap ''pagerank service: config validation failed'' err)
      | (None, cfg') \<Rightarrow>
          (case new_calculator \<lparr>damping_factor = 0, min_sad = 0, pr_compute_workers = psc_compute_workers cfg'\<rparr> of
             Inl err \<Rightarrow> Inl (Wrap ''pagerank service: config validation failed'' err)
           | Inr calc \<Rightarrow> Inr \<lparr>prs_cfg = cfg', prs_calculator = calc\<rparr>))"

section \<open>Loading the graph\<close>

fun load_links_loop :: "uuid_pkg \<Rightarrow> link list \<Rightarrow> pr_graph \<Rightarrow> pr_graph" where
  "load_links_loop L [] g = g"
| "load_links_loop L (l # ls) g = load_links_loop L ls (calc_add_vertex (up_string L (link_id l)) g)"

definition load_links ::
  "uuid_pkg \<Rightarrow> (uuid \<Rightarrow> uuid \<Rightarrow> go_time \<Rightarrow> go_error + link api_iterator) \<Rightarrow>
   uuid \<Rightarrow> uuid \<Rightarrow> go_time \<Rightarrow> pr_graph \<Rightarrow> go_error option \<times> pr_graph" where
  "load_links L links_api fromID toID filter_t g =
     (case links_api fromID toID filter_t of
        Inl err \<Rightarrow> (Some err, g)
      | Inr linkIt \<Rightarrow>
          let g' = load_links_loop L (it_items linkIt) g in
          (case it_error linkIt of
             Some err \<Rightarrow> (Some err, g')
           | None \<Rightarrow> (it_close linkIt, g')))"

text \<open>An unknown source is tolerated; any other error ends the loop.\<close>

fun load_edges_loop :: "uuid_pkg \<Rightarrow> edge list \<Rightarrow> pr_graph \<Rightarrow> go_error option \<times> pr_graph" where
  "load_edges_loop L [] g = (None, g)"
| "load_edges_loop L (e # es) g =
     (case calc_add_edge (up_string L (edge_src e)) (up_string L (edge_dst e)) g of
        (None, g') \<Rightarrow> load_edges_loop L es g'
      | (Some err, g') \<Rightarrow>
          if errors_is err BspErrUnknownEdgeSource then load_edges_loop L es g' else (Some err, g'))"

definition load_edges ::
  "uuid_pkg \<Rightarrow> (uuid \<Rightarrow> uuid \<Rightarrow> go_time \<Rightarrow> go_error + edge api_iterator) \<Rightarrow>
   uuid \<Rightarrow> uuid \<Rightarrow> go_time \<Rightarrow> pr_graph \<Rightarrow> go_error option \<times> pr_graph" where
  "load_edges L edges_api fromID toID filter_t g =
     (case edges_api fromID toID filter_t of
        Inl err \<Rightarrow> (Some err, g)
      | Inr edgeIt \<Rightarrow>
          (case load_edges_loop L (it_items edgeIt) g of
             (Some err, g') \<Rightarrow> (Some err, g')
           | (None, g') \<Rightarrow>
               (case it_error edgeIt of
                  Some err \<Rightarrow> (Some err, g')
                | None \<Rightarrow> (it_close edgeIt, g'))))"

section \<open>One pass\<close>

definition persist_score ::
  "uuid_pkg \<Rightarrow> (uuid \<Rightarrow> real \<Rightarrow> 's \<Rightarrow> go_error option \<times> 's) \<Rightarrow> string \<Rightarrow> real \<Rightarrow> 's \<Rightarrow> go_error option \<times> 's" where
  "persist_score L update_score vertexID score s =
     (case up_parse L vertexID of
        Inl err \<Rightarrow> (Some err, s)
      | Inr linkID \<Rightarrow> update_score linkID score s)"

text \<open>
  What the environment decides during a pass: the orders in which maps are visited (by
  \<^verbatim>\<open>Reset\<close>, by each superstep, by \<^verbatim>\<open>Scores\<close>) and whether the context has expired.
\<close>

record pass_env =
  pe_reset_order :: "string list"
  pe_step_order :: "nat \<Rightarrow> string list"
  pe_score_order :: "string list"
  pe_ctx_err :: "nat \<Rightarrow> go_error option"

definition update_graph_scores ::
  "(real \<Rightarrow> real) \<Rightarrow> uuid_pkg \<Rightarrow>
   (uuid \<Rightarrow> uuid \<Rightarrow> go_time \<Rightarrow> go_error + link api_iterator) \<Rightarrow>
   (uuid \<Rightarrow> uuid \<Rightarrow> go_time \<Rightarrow> go_error + edge api_iterator) \<Rightarrow>
   (uuid \<Rightarrow> real \<Rightarrow> 's \<Rightarrow> go_error option \<times> 's) \<Rightarrow> pass_env \<Rightarrow> go_time \<Rightarrow> calculator \<Rightarrow> 's \<Rightarrow>
   (go_error option \<times> calculator \<times> 's) outcome option" where
  "update_graph_scores fl L links_api edges_api update_score env startAt calc s =
     (case up_parse L ''ffffffff-ffff-ffff-ffff-ffffffffffff'' of
        Inl err \<Rightarrow> Some (Panics ''uuid: Parse'')
      | Inr maxUUID \<Rightarrow>
          (case bsp_reset (pe_reset_order env) (calc_g calc) of
             (Some err, g) \<Rightarrow> Some (Returns (Some err, calc\<lparr>calc_g := g\<rparr>, s))
           | (None, g1) \<Rightarrow>
               (case load_links L links_api uuid_nil maxUUID startAt g1 of
                  (Some err, g) \<Rightarrow> Some (Returns (Some err, calc\<lparr>calc_g := g\<rparr>, s))
                | (None, g2) \<Rightarrow>
                    (case load_edges L edges_api uuid_nil maxUUID startAt g2 of
                       (Some err, g) \<Rightarrow> Some (Returns (Some err, calc\<lparr>calc_g := g\<rparr>, s))
                     | (None, g3) \<Rightarrow>
                         (case calc_run fl (calc_cfg calc) (pe_ctx_err env) (pe_step_order env) g3 of
                            None \<Rightarrow> None
                          | Some (Panics m) \<Rightarrow> Some (Panics m)
                          | Some (Fails err) \<Rightarrow> Some (Fails err)
                          | Some (Returns (Some err, g)) \<Rightarrow> Some (Returns (Some err, calc\<lparr>calc_g := g\<rparr>, s))
                          | Some (Returns (None, g4)) \<Rightarrow>
                              (case scores_loop (persist_score L update_score) g4 (pe_score_order env) s of
                                 (err, s') \<Rightarrow> Some (Returns (err, calc\<lparr>calc_g := g4\<rparr>, s'))))))))"

section \<open>The service loop\<close>

text \<open>
  One round of the select statement: \<open>partition_info\<close> is what the detector answers, \<open>pass\<close>
  the effect of \<^verbatim>\<open>updateGraphScores\<close>.
\<close>

definition pr_svc_tick ::
  "(int \<times> int) outcome \<Rightarrow> ('s \<Rightarrow> (go_error option \<times> 's) outcome option) \<Rightarrow> 's \<Rightarrow> 's run_result" where
  "pr_svc_tick partition_info pass s =
     (case partition_info of
        Panics m \<Rightarrow> Crashed m
      | Fails err \<Rightarrow> if errors_is err ErrNoPartitionDataAvailableYet then StillRunning s else Stopped (Some err) s
      | Returns (curPartition, _) \<Rightarrow>
          if curPartition \<noteq> 0 then Stopped None s
          else (case pass s of
                  None \<Rightarrow> NeverReturns
                | Some (Panics m) \<Rightarrow> Crashed m
                | Some (Fails err) \<Rightarrow> Stopped (Some err) s
                | Some (Returns (Some err, s')) \<Rightarrow> Stopped (Some err) s'
                | Some (Returns (None, s')) \<Rightarrow> StillRunning s'))"

fun pr_svc_run ::
  "(go_time \<Rightarrow> (int \<times> int) outcome) \<Rightarrow> (go_time \<Rightarrow> 's \<Rightarrow> (go_error option \<times> 's) outcome option) \<Rightarrow>
   go_time run_event list \<Rightarrow> 's \<Rightarrow> 's run_result" where
  "pr_svc_run partition_info pass [] s = StillRunning s"
| "pr_svc_run partition_info pass (CtxDone # events) s = Stopped None s"
| "pr_svc_run partition_info pass (Tick t # events) s =
     (case pr_svc_tick (partition_info t) (pass t) s of
        StillRunning s' \<Rightarrow> pr_svc_run partition_info pass events s'
      | r \<Rightarrow> r)"

section \<open>A pass computes PageRank\<close>

definition page_ids :: "link list \<Rightarrow> string list" where
  "page_ids ls = map (\<lambda>l. uuid_text (link_id l)) ls"

definition page_links :: "edge list \<Rightarrow> (string \<times> string) list" where
  "page_links es = map (\<lambda>e. (uuid_text (edge_src e), uuid_text (edge_dst e))) es"

lemma load_links_fold:
  "uuid_pkg_ok L \<Longrightarrow> load_links_loop L ls g = fold calc_add_vertex (page_ids ls) g"
  by (induction ls arbitrary: g) (simp_all add: page_ids_def)

lemma calc_add_edge_error:
  "fst (calc_add_edge src dst g) = Some err \<Longrightarrow> errors_is err BspErrUnknownEdgeSource"
  by (auto simp: calc_add_edge_def add_edge_def split: if_splits option.splits)

lemma load_edges_fold:
  "uuid_pkg_ok L \<Longrightarrow> load_edges_loop L es g =
    (None, fold (\<lambda>(src, dst) g. snd (calc_add_edge src dst g)) (page_links es) g)"
proof (induction es arbitrary: g)
  case (Cons e es)
  obtain r g' where r: "calc_add_edge (uuid_text (edge_src e)) (uuid_text (edge_dst e)) g = (r, g')"
    by (cases "calc_add_edge (uuid_text (edge_src e)) (uuid_text (edge_dst e)) g")
  then show ?case
    using Cons calc_add_edge_error [of "uuid_text (edge_src e)" "uuid_text (edge_dst e)" g]
    by (cases r) (simp_all add: page_links_def)
qed (simp add: page_links_def)

lemma closed_page_links:
  assumes "ls \<noteq> []" "\<forall>e\<in>set es. edge_src e \<in> link_id ` set ls \<longrightarrow> edge_dst e \<in> link_id ` set ls"
  shows "closed_links (page_ids ls) (page_links es)"
  unfolding closed_links_def
proof (intro conjI ballI subsetI)
  show "page_ids ls \<noteq> []" using assms(1) by (simp add: page_ids_def)
  fix u w assume "u \<in> set (page_ids ls)" "w \<in> set (links_of (page_ids ls) (page_links es) u)"
  then obtain l e where "l \<in> set ls" "e \<in> set es" "uuid_text (edge_src e) = uuid_text (link_id l)"
    "w = uuid_text (edge_dst e)"
    by (auto simp: links_of_def page_ids_def page_links_def)
  then have "edge_dst e \<in> link_id ` set ls" using assms(2) by simp
  then show "w \<in> set (page_ids ls)" using \<open>w = _\<close> by (auto simp: page_ids_def)
qed

lemma scores_loop_persist:
  assumes "uuid_pkg_ok L" "\<And>i x s. fst (update_score i x s) = None"
    "\<And>i. i \<in> set ids \<Longrightarrow> vertices g (uuid_text i) \<noteq> None"
  shows "scores_loop (persist_score L update_score) g (map uuid_text ids) s =
    (None, fold (\<lambda>i s. snd (update_score i (value_of g (uuid_text i)) s)) ids s)"
  using assms(3)
proof (induction ids arbitrary: s)
  case (Cons i ids)
  then obtain v where v: "vertices g (uuid_text i) = Some v" by fastforce
  obtain s' where s': "update_score i (vx_value v) s = (None, s')"
    using assms(2) [of i "vx_value v" s] by (cases "update_score i (vx_value v) s") auto
  have "persist_score L update_score (uuid_text i) (vx_value v) s = (None, s')"
    using s' assms(1) by (simp add: persist_score_def uuid_pkg_parse)
  then show ?case using Cons.IH [of s'] Cons.prems v s' by (simp add: value_of_def)
qed simp

definition valid_env :: "string set \<Rightarrow> uuid list \<Rightarrow> pass_env \<Rightarrow> bool" where
  "valid_env V ids env \<longleftrightarrow> schedules V (pe_step_order env) \<and> never_expires (pe_ctx_err env) \<and>
     pe_score_order env = map uuid_text ids \<and> distinct ids \<and> uuid_text ` set ids = V"

text \<open>
  C15. A pass of a service that \<^verbatim>\<open>NewService\<close> accepted: when the graph API lists links and
  edges such that every edge from a listed link leads to a listed link, the pass returns without
  an error after at most 49 supersteps, and writes to the index, for every listed link exactly
  once and for nothing else, the PageRank score of its identifier with damping factor 0.85.
  Edges with an unlisted source and links to oneself have no influence.
\<close>

theorem pass_persists_pagerank:
  assumes "new_pr_service cfg = Inr svc" "uuid_pkg_ok L" "ls \<noteq> []"
    "links_api uuid_nil uuid_max startAt = Inr \<lparr>it_items = ls, it_error = None, it_close = None\<rparr>"
    "edges_api uuid_nil uuid_max startAt = Inr \<lparr>it_items = es, it_error = None, it_close = None\<rparr>"
    "\<forall>e\<in>set es. edge_src e \<in> link_id ` set ls \<longrightarrow> edge_dst e \<in> link_id ` set ls"
    "int (card (link_id ` set ls)) < 2 ^ 63"
    "\<forall>i x s. fst (update_score i x s) = None"
    "valid_env (uuid_text ` link_id ` set ls) ids env"
  shows "\<exists>k calc'. 2 \<le> k \<and> k \<le> 49 \<and>
    update_graph_scores exact L links_api edges_api update_score env startAt (prs_calculator svc) s =
      Some (Returns (None, calc',
        fold (\<lambda>i s. snd (update_score i
          (rank (set (page_ids ls)) (links_of (page_ids ls) (page_links es)) (85 / 100) k (uuid_text i)) s)) ids s)) \<and>
    distinct ids \<and> set ids = link_id ` set ls"
proof -
  let ?V = "set (page_ids ls)" and ?out = "links_of (page_ids ls) (page_links es)"
  let ?calc = "prs_calculator svc"
  have cfg: "calc_cfg ?calc = \<lparr>damping_factor = 85 / 100, min_sad = 1 / 1000, pr_compute_workers = pr_compute_workers (calc_cfg ?calc)\<rparr>"
    using assms(1) by (auto simp: new_pr_service_def new_calculator_def pr_config_validate_def Let_def
        split: prod.splits option.splits sum.splits if_splits)
  have V: "?V = uuid_text ` link_id ` set ls" by (auto simp: page_ids_def)
  have card: "card ?V = card (link_id ` set ls)"
    unfolding V by (rule card_image) (simp add: inj_on_def)
  have env: "schedules ?V (pe_step_order env)" "never_expires (pe_ctx_err env)"
    "pe_score_order env = map uuid_text ids" "distinct ids" "uuid_text ` set ids = ?V"
    using assms(9) by (simp_all add: valid_env_def V)
  have ids: "set ids = link_id ` set ls"
    using env(5) V by (metis inj_image_eq_iff inj_onI uuid_text_inj)
  note cl = closed_page_links [OF assms(3,6)]
  have lt: "int (card ?V) < 2 ^ 63" using card assms(7) by simp
  have damp: "0 \<le> damping_factor (calc_cfg ?calc)" "damping_factor (calc_cfg ?calc) < 1" "0 < min_sad (calc_cfg ?calc)"
    "damping_factor (calc_cfg ?calc) = 85 / 100" "min_sad (calc_cfg ?calc) = 1 / 1000"
    by (subst cfg, simp)+
  obtain k g' where run: "calc_run exact (calc_cfg ?calc) (pe_ctx_err env) (pe_step_order env)
      (pr_load (page_ids ls) (page_links es) (calc_g ?calc)) = Some (Returns (None, g'))"
    and k: "superstep g' = k" "2 \<le> k" "shape ?V ?out g'"
      "\<forall>v\<in>?V. value_of g' v = rank ?V ?out (damping_factor (calc_cfg ?calc)) k v"
    by (rule calc_run_converges [OF cl lt damp(1-3) env(1,2)])
  have "superstep g' \<le> 49"
    using run_superstep_bound [OF cl lt damp(1-3) env(1,2) run] damp(4,5) by simp
  moreover have known: "vertices g' (uuid_text i) \<noteq> None" if "i \<in> set ids" for i
  proof -
    have "uuid_text i \<in> dom (vertices g')" using that env(5) k(3) by (auto simp only: shape_def)
    then show ?thesis by (auto simp only: dom_def)
  qed
  moreover have "scores_loop (persist_score L update_score) g' (map uuid_text ids) s =
      (None, fold (\<lambda>i s. snd (update_score i (value_of g' (uuid_text i)) s)) ids s)"
    by (rule scores_loop_persist [OF assms(2) _ known]) (simp add: assms(8))
  moreover have "fold (\<lambda>i s. snd (update_score i (value_of g' (uuid_text i)) s)) ids s =
      fold (\<lambda>i s. snd (update_score i (rank ?V ?out (85 / 100) k (uuid_text i)) s)) ids s"
  proof (intro fold_cong refl)
    fix i assume "i \<in> set ids"
    then have "uuid_text i \<in> ?V" using env(5) by blast
    then have "value_of g' (uuid_text i) = rank ?V ?out (85 / 100) k (uuid_text i)"
      using k(4) damp(4) by simp
    then show "(\<lambda>s. snd (update_score i (value_of g' (uuid_text i)) s)) =
        (\<lambda>s. snd (update_score i (rank ?V ?out (85 / 100) k (uuid_text i)) s))" by simp
  qed
  moreover have "up_parse L ''ffffffff-ffff-ffff-ffff-ffffffffffff'' = Inr uuid_max"
    using uuid_pkg_parse [OF assms(2), of uuid_max] by (simp add: uuid_max_text [symmetric] del: uuid_text_inj)
  ultimately have "update_graph_scores exact L links_api edges_api update_score env startAt ?calc s =
      Some (Returns (None, ?calc\<lparr>calc_g := g'\<rparr>,
        fold (\<lambda>i s. snd (update_score i (rank ?V ?out (85 / 100) k (uuid_text i)) s)) ids s))"
    using run env(3) assms(2,4,5)
    by (simp add: update_graph_scores_def bsp_reset_cleared load_links_def load_edges_def
        load_links_fold load_edges_fold pr_load_def)
  then show ?thesis using \<open>superstep g' \<le> 49\<close> k(1,2) env(4) ids by blast
qed

text \<open>A graph with two pages that link to each other, with the default scores kept in a map.\<close>

lemma pass_persists_pagerank_witness:
  "\<exists>k calc'. update_graph_scores exact rfc4122_pkg
      (\<lambda>_ _ _. Inr \<lparr>it_items = [\<lparr>link_id = 1, link_url = ''a'', link_retrieved_at = 0\<rparr>,
                               \<lparr>link_id = 2, link_url = ''b'', link_retrieved_at = 0\<rparr>],
                    it_error = None, it_close = None\<rparr>)
      (\<lambda>_ _ _. Inr \<lparr>it_items = [\<lparr>edge_id = 3, edge_src = 1, edge_dst = 2, edge_updated_at = 0\<rparr>],
                    it_error = None, it_close = None\<rparr>)
      (\<lambda>i x s. (None, s(i \<mapsto> x)))
      \<lparr>pe_reset_order = [], pe_step_order = (\<lambda>_. [uuid_text 1, uuid_text 2]),
       pe_score_order = [uuid_text 1, uuid_text 2], pe_ctx_err = (\<lambda>_. None)\<rparr> 5
      \<lparr>calc_g = new_bsp_graph, calc_cfg = \<lparr>damping_factor = 85 / 100, min_sad = 1 / 1000, pr_compute_workers = 1\<rparr>\<rparr>
      Map.empty =
    Some (Returns (None, calc',
      [1 \<mapsto> rank {uuid_text 1, uuid_text 2} (links_of [uuid_text 1, uuid_text 2] [(uuid_text 1, uuid_text 2)]) (85 / 100) k (uuid_text 1),
       2 \<mapsto> rank {uuid_text 1, uuid_text 2} (links_of [uuid_text 1, uuid_text 2] [(uuid_text 1, uuid_text 2)]) (85 / 100) k (uuid_text 2)]))"
proof -
  define ls :: "link list" where "ls = [\<lparr>link_id = 1, link_url = ''a'', link_retrieved_at = 0\<rparr>,
                               \<lparr>link_id = 2, link_url = ''b'', link_retrieved_at = 0\<rparr>]"
  define es where "es = [\<lparr>edge_id = 3, edge_src = (1::uuid), edge_dst = 2, edge_updated_at = 0\<rparr>]"
  define cfg where "cfg = \<lparr>psc_graph_api = True, psc_index_api = True, psc_partition_detector = True,
    psc_clock = True, psc_compute_workers = 1, psc_update_interval = 1, psc_logger = True\<rparr>"
  define calc where "calc = \<lparr>calc_g = new_bsp_graph, calc_cfg = \<lparr>damping_factor = 85 / 100, min_sad = 1 / 1000, pr_compute_workers = 1\<rparr>\<rparr>"
  have svc: "new_pr_service cfg = Inr \<lparr>prs_cfg = cfg, prs_calculator = calc\<rparr>"
    by (simp add: new_pr_service_def pr_svc_validate_def cfg_def new_calculator_def pr_config_validate_def calc_def)
  have ids: "link_id ` set ls = {1, 2}" by (auto simp: ls_def)
  have pids: "page_ids ls = [uuid_text 1, uuid_text 2]" "page_links es = [(uuid_text 1, uuid_text 2)]"
    by (simp_all add: page_ids_def page_links_def ls_def es_def)
  have sp: "set [uuid_text 1, uuid_text 2] = {uuid_text 1, uuid_text 2}" by (simp only: list.set)
  have ne: "ls \<noteq> []" by (simp add: ls_def)
  have cl: "\<forall>e\<in>set es. edge_src e \<in> link_id ` set ls \<longrightarrow> edge_dst e \<in> link_id ` set ls"
    by (simp add: ids es_def)
  have cd: "int (card (link_id ` set ls)) < 2 ^ 63" by (simp add: ids)
  have env: "valid_env (uuid_text ` link_id ` set ls) [1, 2]
      \<lparr>pe_reset_order = [], pe_step_order = (\<lambda>_. [uuid_text 1, uuid_text 2]),
       pe_score_order = [uuid_text 1, uuid_text 2], pe_ctx_err = (\<lambda>_. None)\<rparr>"
    by (simp add: valid_env_def schedules_def never_expires_def ids)
  from pass_persists_pagerank [OF svc rfc4122_pkg_ok ne, of "\<lambda>_ _ _. Inr \<lparr>it_items = ls, it_error = None, it_close = None\<rparr>"
      5 "\<lambda>_ _ _. Inr \<lparr>it_items = es, it_error = None, it_close = None\<rparr>" es "\<lambda>i x s. (None, s(i \<mapsto> x))", OF refl refl cl cd _ env,
      of Map.empty]
  show ?thesis unfolding ls_def [symmetric] es_def [symmetric] calc_def [symmetric] pids sp
    by (simp del: uuid_text_inj) blast
qed

end
