(* ===== verification/PrivNet.thy ===== *)
theory PrivNet
  imports GoStrings
begin

text \<open>
  The package \<^verbatim>\<open>crawler/privnet\<close>: the detector of private network addresses, with what it uses
  of the package \<^verbatim>\<open>net\<close>: parsing of CIDR blocks, address masks, and the test whether a block
  contains an address.  An address is its 4 or 16 bytes, as in \<^verbatim>\<open>net.IP\<close>.  The resolution of
  host names, \<^verbatim>\<open>net.ResolveIPAddr\<close>, is a parameter.
\<close>

unbundle bit_operations_syntax

section \<open>Addresses\<close>

type_synonym ip = "byte list"

definition v4_in_v6_prefix :: ip where
  "v4_in_v6_prefix = replicate 10 0 @ [255, 255]"

text \<open>\<^verbatim>\<open>IP.To4\<close>: the 4-byte form, if there is one.\<close>

definition to4 :: "ip \<Rightarrow> ip option" where
  "to4 a =
     (if length a = 4 then Some a
      else if length a = 16 \<and> take 12 a = v4_in_v6_prefix then Some (drop 12 a)
      else None)"

definition mask_bytes :: "ip \<Rightarrow> ip \<Rightarrow> ip" where
  "mask_bytes a m = map2 (AND) a m"

definition all_ff :: "byte list \<Rightarrow> bool" where
  "all_ff m = list_all (\<lambda>b. b = 255) m"

text \<open>\<^verbatim>\<open>IP.Mask\<close>; nil is the empty list.\<close>

definition ip_mask :: "ip \<Rightarrow> ip \<Rightarrow> ip" where
  "ip_mask a m =
     (let m' = (if length m = 16 \<and> length a = 4 \<and> all_ff (take 12 m) then drop 12 m else m);
          a' = (if length m' = 4 \<and> length a = 16 \<and> take 12 a = v4_in_v6_prefix then drop 12 a else a)
      in if length a' \<noteq> length m' then [] else mask_bytes a' m')"

text \<open>\<^verbatim>\<open>CIDRMask\<close>: \<open>ones\<close> leading one bits in a mask of \<open>n\<close> bytes.\<close>

definition mask_byte :: "nat \<Rightarrow> byte" where
  "mask_byte k = push_bit (8 - min 8 k) 255"

definition cidr_mask :: "nat \<Rightarrow> nat \<Rightarrow> ip" where
  "cidr_mask ones n = map (\<lambda>i. mask_byte (ones - 8 * i)) [0..<n]"

record ip_net =
  net_ip :: ip
  net_mask :: ip

text \<open>\<^verbatim>\<open>networkNumberAndMask\<close>; \<^verbatim>\<open>nil, nil\<close> is a pair of empty lists.\<close>

definition network_number_and_mask :: "ip_net \<Rightarrow> ip \<times> ip" where
  "network_number_and_mask n =
     (let a = (case to4 (net_ip n) of Some a \<Rightarrow> a | None \<Rightarrow> net_ip n);
          m = net_mask n
      in if length a \<noteq> 4 \<and> length a \<noteq> 16 then ([], [])
         else if length m = length a then (a, m)
         else if length m = 16 \<and> length a = 4 then (a, drop 12 m)
         else ([], []))"

definition net_contains :: "ip_net \<Rightarrow> ip \<Rightarrow> bool" where
  "net_contains n a0 =
     (let (nn, m) = network_number_and_mask n;
          a = (case to4 a0 of Some x \<Rightarrow> x | None \<Rightarrow> a0)
      in length a = length nn \<and> mask_bytes nn m = mask_bytes a m)"

section \<open>Parsing\<close>

text \<open>Four decimal fields of at most 255 without leading zeros.\<close>

definition parse_v4_field :: "string \<Rightarrow> byte option" where
  "parse_v4_field s =
     (if s = [] \<or> \<not> list_all is_digit s \<or> (length s > 1 \<and> hd s = CHR ''0'') \<or> length s > 3 then None
      else let v = fst (parse_uint 64 s) in if v > 255 then None else Some (of_nat v))"

definition parse_v4 :: "string \<Rightarrow> ip option" where
  "parse_v4 s =
     (let fields = map parse_v4_field (split_on (CHR ''.'') s)
      in if length fields = 4 \<and> list_all (\<lambda>f. f \<noteq> None) fields then Some (map the fields) else None)"

definition hex_value :: "char \<Rightarrow> nat option" where
  "hex_value c =
     (let n = (of_char c :: nat)
      in if 48 \<le> n \<and> n \<le> 57 then Some (n - 48)
         else if 97 \<le> n \<and> n \<le> 102 then Some (n - 87)
         else if 65 \<le> n \<and> n \<le> 70 then Some (n - 55)
         else None)"

definition is_hex :: "char \<Rightarrow> bool" where
  "is_hex c = (hex_value c \<noteq> None)"

definition hex_number :: "string \<Rightarrow> nat" where
  "hex_number = foldl (\<lambda>acc c. 16 * acc + the (hex_value c)) 0"

text \<open>
  The loop over the fields of an IPv6 address: the bytes written so far and the position of
  the double colon.  The result also has what the loop left unread.
\<close>

function parse_v6_loop :: "string \<Rightarrow> ip \<Rightarrow> nat option \<Rightarrow> (ip \<times> nat option \<times> string) option" where
  "parse_v6_loop s bytes ellipsis =
     (if length bytes \<ge> 16 then Some (bytes, ellipsis, s)
      else
        let digits = takeWhile is_hex s; rest = dropWhile is_hex s in
        if digits = [] \<or> length digits > 4 then None
        else if has_prefix rest ''.'' then
          (if ellipsis = None \<and> length bytes \<noteq> 12 then None
           else if length bytes + 4 > 16 then None
           else (case parse_v4 s of None \<Rightarrow> None | Some v \<Rightarrow> Some (bytes @ v, ellipsis, [])))
        else
          let acc = hex_number digits; bytes' = bytes @ [of_nat (acc div 256), of_nat (acc mod 256)] in
          if rest = [] then Some (bytes', ellipsis, [])
          else if hd rest \<noteq> CHR '':'' \<or> length rest = 1 then None
          else if hd (tl rest) = CHR '':'' then
            (if ellipsis \<noteq> None then None
             else if tl (tl rest) = [] then Some (bytes', Some (length bytes'), [])
             else parse_v6_loop (tl (tl rest)) bytes' (Some (length bytes')))
          else parse_v6_loop (tl rest) bytes' ellipsis)"
  by pat_completeness auto
termination
  by (relation "measure (\<lambda>(s, bytes, ellipsis). 16 - length bytes)") auto

declare parse_v6_loop.simps [simp del]

definition expand_v6 :: "(ip \<times> nat option \<times> string) option \<Rightarrow> ip option" where
  "expand_v6 r =
     (case r of
        None \<Rightarrow> None
      | Some (bytes, ellipsis, rest) \<Rightarrow>
          if rest \<noteq> [] then None
          else if length bytes < 16
          then (case ellipsis of
                  None \<Rightarrow> None
                | Some e \<Rightarrow> Some (take e bytes @ replicate (16 - length bytes) 0 @ drop e bytes))
          else if ellipsis \<noteq> None then None else Some bytes)"

definition parse_v6 :: "string \<Rightarrow> ip option" where
  "parse_v6 s =
     (if has_prefix s ''::''
      then (if length s = 2 then Some (replicate 16 0) else expand_v6 (parse_v6_loop (drop 2 s) [] (Some 0)))
      else expand_v6 (parse_v6_loop s [] None))"

text \<open>
  \<^verbatim>\<open>netip.ParseAddr\<close>: the first of dot, colon and percent sign decides.  Addresses with a zone
  are rejected, as \<^verbatim>\<open>ParseCIDR\<close> does.
\<close>

definition parse_addr :: "string \<Rightarrow> ip option" where
  "parse_addr s =
     (case dropWhile (\<lambda>c. c \<noteq> CHR ''.'' \<and> c \<noteq> CHR '':'' \<and> c \<noteq> CHR ''%'') s of
        [] \<Rightarrow> None
      | c # _ \<Rightarrow> if c = CHR ''.'' then parse_v4 s else if c = CHR '':'' then parse_v6 s else None)"

definition as16 :: "ip \<Rightarrow> ip" where
  "as16 a = (if length a = 4 then v4_in_v6_prefix @ a else a)"

definition parse_cidr :: "string \<Rightarrow> go_error + ip_net" where
  "parse_cidr s =
     (let err = External ''invalid CIDR address'';
          addr = takeWhile (\<lambda>c. c \<noteq> CHR ''/'') s;
          mask = tl (dropWhile (\<lambda>c. c \<noteq> CHR ''/'') s)
      in if CHR ''/'' \<notin> set s then Inl err
         else (case parse_addr addr of
                 None \<Rightarrow> Inl err
               | Some a \<Rightarrow>
                   let n = fst (parse_uint 64 mask) in
                   if mask = [] \<or> \<not> list_all is_digit mask \<or> n > 8 * length a then Inl err
                   else let m = cidr_mask n (length a)
                        in Inr \<lparr>net_ip = ip_mask (as16 a) m, net_mask = m\<rparr>))"

section \<open>The detector\<close>

definition default_private_cidrs :: "string list" where
  "default_private_cidrs =
     [''127.0.0.0/8'', ''::1/128'', ''10.0.0.0/8'', ''172.16.0.0/12'', ''192.168.0.0/16'', ''169.254.0.0/16'',
      ''fe80::/10'', ''0.0.0.0/8'', ''255.255.255.255/32'', ''fc00::/7'']"

record detector =
  priv_blocks :: "ip_net list"

fun parse_cidrs :: "string list \<Rightarrow> go_error + ip_net list" where
  "parse_cidrs [] = Inr []"
| "parse_cidrs (c # cs) =
     (case parse_cidr c of
        Inl err \<Rightarrow> Inl err
      | Inr n \<Rightarrow> (case parse_cidrs cs of Inl err \<Rightarrow> Inl err | Inr ns \<Rightarrow> Inr (n # ns)))"

definition new_detector_from_cidrs :: "string list \<Rightarrow> go_error + detector" where
  "new_detector_from_cidrs cidrs =
     (case parse_cidrs cidrs of Inl err \<Rightarrow> Inl err | Inr blocks \<Rightarrow> Inr \<lparr>priv_blocks = blocks\<rparr>)"

definition new_detector :: "go_error + detector" where
  "new_detector = new_detector_from_cidrs default_private_cidrs"

fun any_block_contains :: "ip_net list \<Rightarrow> ip \<Rightarrow> bool" where
  "any_block_contains [] a = False"
| "any_block_contains (blk # blks) a = (if net_contains blk a then True else any_block_contains blks a)"

definition detector_is_private :: "(string \<Rightarrow> go_error + ip) \<Rightarrow> detector \<Rightarrow> string \<Rightarrow> go_error + bool" where
  "detector_is_private resolve d address =
     (case resolve address of
        Inl err \<Rightarrow> Inl err
      | Inr a \<Rightarrow> Inr (any_block_contains (priv_blocks d) a))"

section \<open>What the default blocks cover\<close>

lemma replicate_numeral: "replicate (numeral k) x = x # replicate (pred_numeral k) x"
  by (simp add: numeral_eq_Suc)

lemma upt_0_16: "[0..<16] = [0, 1, 2, 3, 4, 5, 6, 7, 8, 9, 10, 11, 12, 13, 14, 15]"
  by code_simp

lemma upt_0_4: "[0..<4] = [0, 1, 2, 3]"
  by code_simp

lemmas cidr_eval = parse_cidr_def parse_addr_def parse_v4_def parse_v4_field_def parse_v6_def expand_v6_def
  parse_v6_loop.simps is_hex_def hex_value_def hex_number_def parse_uint_def is_digit_def digit_value_def
  ip_mask_def as16_def mask_bytes_def all_ff_def v4_in_v6_prefix_def mask_byte_def cidr_mask_def
  upt_0_16 upt_0_4 replicate_numeral Let_def

definition default_blocks :: "ip_net list" where
  "default_blocks =
     [\<lparr>net_ip = [127, 0, 0, 0], net_mask = [255, 0, 0, 0]\<rparr>,
      \<lparr>net_ip = replicate 15 0 @ [1], net_mask = replicate 16 255\<rparr>,
      \<lparr>net_ip = [10, 0, 0, 0], net_mask = [255, 0, 0, 0]\<rparr>,
      \<lparr>net_ip = [172, 16, 0, 0], net_mask = [255, 240, 0, 0]\<rparr>,
      \<lparr>net_ip = [192, 168, 0, 0], net_mask = [255, 255, 0, 0]\<rparr>,
      \<lparr>net_ip = [169, 254, 0, 0], net_mask = [255, 255, 0, 0]\<rparr>,
      \<lparr>net_ip = [254, 128] @ replicate 14 0, net_mask = [255, 192] @ replicate 14 0\<rparr>,
      \<lparr>net_ip = [0, 0, 0, 0], net_mask = [255, 0, 0, 0]\<rparr>,
      \<lparr>net_ip = [255, 255, 255, 255], net_mask = [255, 255, 255, 255]\<rparr>,
      \<lparr>net_ip = 252 # replicate 15 0, net_mask = 254 # replicate 15 0\<rparr>]"

lemma new_detector_blocks: "new_detector = Inr \<lparr>priv_blocks = default_blocks\<rparr>"
  unfolding new_detector_def new_detector_from_cidrs_def default_private_cidrs_def default_blocks_def
  by (simp add: cidr_eval)

lemma byte_upto: "uint (x :: byte) \<in> set [0..255]"
  using uint_lt2p [of x] by simp

lemma byte_masks:
  "(x :: byte) AND 240 = 16 \<longleftrightarrow> 16 \<le> x \<and> x \<le> 31"
  "x AND 192 = 128 \<longleftrightarrow> 128 \<le> x \<and> x \<le> 191"
  "x AND 254 = 252 \<longleftrightarrow> x = 252 \<or> x = 253"
proof -
  have *: "list_all (\<lambda>i. let x = (word_of_int i :: byte) in
      ((x AND 240 = 16) = (16 \<le> x \<and> x \<le> 31)) \<and> ((x AND 192 = 128) = (128 \<le> x \<and> x \<le> 191)) \<and>
      ((x AND 254 = 252) = (x = 252 \<or> x = 253))) [0..255]"
    by code_simp
  have "let x = (word_of_int (uint x) :: byte) in
      ((x AND 240 = 16) = (16 \<le> x \<and> x \<le> 31)) \<and> ((x AND 192 = 128) = (128 \<le> x \<and> x \<le> 191)) \<and>
      ((x AND 254 = 252) = (x = 252 \<or> x = 253))"
    using * byte_upto [of x] unfolding list_all_iff by (rule bspec)
  then show "x AND 240 = 16 \<longleftrightarrow> 16 \<le> x \<and> x \<le> 31"
    "x AND 192 = 128 \<longleftrightarrow> 128 \<le> x \<and> x \<le> 191"
    "x AND 254 = 252 \<longleftrightarrow> x = 252 \<or> x = 253"
    by (simp_all add: Let_def)
qed

lemma byte_and_255 [simp]: "(x :: byte) AND 255 = x"
proof -
  have "(255 :: byte) = - 1" by simp
  then show ?thesis by (simp only: and.right_neutral)
qed

lemma any_block_contains_iff: "any_block_contains bs a \<longleftrightarrow> list_ex (\<lambda>b. net_contains b a) bs"
  by (induction bs) auto

text \<open>The addresses the default detector calls private.\<close>

definition private_v4 :: "ip \<Rightarrow> bool" where
  "private_v4 a \<longleftrightarrow> a ! 0 \<in> {0, 10, 127} \<or> (a ! 0 = 172 \<and> 16 \<le> a ! 1 \<and> a ! 1 \<le> 31) \<or>
     (a ! 0 = 192 \<and> a ! 1 = 168) \<or> (a ! 0 = 169 \<and> a ! 1 = 254) \<or> a = [255, 255, 255, 255]"

definition private_v6 :: "ip \<Rightarrow> bool" where
  "private_v6 a \<longleftrightarrow> a = replicate 15 0 @ [1] \<or> (a ! 0 = 254 \<and> 128 \<le> a ! 1 \<and> a ! 1 \<le> 191) \<or>
     a ! 0 \<in> {252, 253}"

definition private_address :: "ip \<Rightarrow> bool" where
  "private_address a =
     (case to4 a of Some v \<Rightarrow> private_v4 v | None \<Rightarrow> length a = 16 \<and> private_v6 a)"

lemma length_16: "length a = 16 \<Longrightarrow> \<exists>b0 b1 b2 b3 b4 b5 b6 b7 b8 b9 c0 c1 c2 c3 c4 c5.
    a = [b0, b1, b2, b3, b4, b5, b6, b7, b8, b9, c0, c1, c2, c3, c4, c5]"
  by (auto simp: numeral_eq_Suc length_Suc_conv)

lemma length_4: "length a = 4 \<Longrightarrow> \<exists>b0 b1 b2 b3. a = [b0, b1, b2, b3]"
  by (auto simp: numeral_eq_Suc length_Suc_conv)

lemmas contains_eval = net_contains_def network_number_and_mask_def to4_def mask_bytes_def v4_in_v6_prefix_def replicate_numeral Let_def

lemma blocks_contain_v4:
  assumes "length v = 4" "to4 a = Some v"
  shows "any_block_contains default_blocks a \<longleftrightarrow> private_v4 v"
proof -
  obtain b0 b1 b2 b3 where v: "v = [b0, b1, b2, b3]" using length_4 [OF assms(1)] by (elim exE)
  have c: "net_contains n a = net_contains n [b0, b1, b2, b3]" for n
    using assms(2) v by (simp add: net_contains_def to4_def split: if_splits)
  have "any_block_contains default_blocks a = any_block_contains default_blocks [b0, b1, b2, b3]"
    unfolding default_blocks_def any_block_contains.simps c ..
  also have "\<dots> \<longleftrightarrow> private_v4 v"
    unfolding default_blocks_def v any_block_contains_iff
    by (simp add: contains_eval private_v4_def byte_masks) blast
  finally show ?thesis .
qed

lemma blocks_contain_v6:
  assumes "length a = 16" "to4 a = None"
  shows "any_block_contains default_blocks a \<longleftrightarrow> private_v6 a"
proof -
  obtain b0 b1 b2 b3 b4 b5 b6 b7 b8 b9 c0 c1 c2 c3 c4 c5
    where a: "a = [b0, b1, b2, b3, b4, b5, b6, b7, b8, b9, c0, c1, c2, c3, c4, c5]"
    using length_16 [OF assms(1)] by (elim exE)
  show ?thesis
    using assms(2) unfolding default_blocks_def a any_block_contains_iff
    by (simp add: contains_eval private_v6_def byte_masks)
qed

lemma to4_length: "to4 a = Some v \<Longrightarrow> length v = 4"
  by (auto simp: to4_def split: if_splits)

lemma blocks_contain: "any_block_contains default_blocks a \<longleftrightarrow> private_address a"
proof (cases "to4 a")
  case (Some v)
  then show ?thesis
    using blocks_contain_v4 [OF to4_length [OF Some] Some] by (simp add: private_address_def)
next
  case None
  show ?thesis
  proof (cases "length a = 16")
    case True
    then show ?thesis using blocks_contain_v6 [OF True None] None by (simp add: private_address_def)
  next
    case False
    then have "\<not> any_block_contains default_blocks a"
      using None unfolding default_blocks_def by (simp add: contains_eval split: if_splits)
    then show ?thesis using False None by (simp add: private_address_def)
  qed
qed

text \<open>
  C20. Detector.IsPrivate with the default blocks.  NewDetector succeeds, and its detector
  answers for a host exactly whether the address the host resolves to is in one of the IPv4
  networks 0/8, 10/8, 127/8, 169.254/16, 172.16/12, 192.168/16 or is the broadcast address,
  IPv4 addresses written as IPv6 included, or is the IPv6 loopback or in fe80::/10 or fc00::/7;
  an error of the resolution is passed on.  The unspecified IPv6 address is not private to
  it, although the unspecified IPv4 address is.
\<close>

theorem default_detector_characterised:
  "\<exists>d. new_detector = Inr d \<and>
     (\<forall>resolve address. detector_is_private resolve d address = map_sum id private_address (resolve address)) \<and>
     private_address (replicate 4 0) \<and> \<not> private_address (replicate 16 0)"
proof (intro exI conjI allI)
  show "new_detector = Inr \<lparr>priv_blocks = default_blocks\<rparr>" by (rule new_detector_blocks)
  show "detector_is_private resolve \<lparr>priv_blocks = default_blocks\<rparr> address =
      map_sum id private_address (resolve address)" for resolve address
    by (simp add: detector_is_private_def blocks_contain split: sum.splits)
qed (simp_all add: private_address_def to4_def v4_in_v6_prefix_def replicate_numeral private_v4_def private_v6_def)

end
