(* ===== verification/Summarizer.thy ===== *)
theory Summarizer
  imports GoStrings "HOL-Library.Multiset"
begin

text \<open>
  \<^verbatim>\<open>frontend/summarizer.go\<close> and \<^verbatim>\<open>frontend/highlighter.go\<close>: the summary of a document that
  matches a query, and the highlighting of the query's terms in it, with what they use of
  the packages \<^verbatim>\<open>utf8\<close>, \<^verbatim>\<open>unicode\<close>, \<^verbatim>\<open>bufio\<close>, \<^verbatim>\<open>strings\<close> and \<^verbatim>\<open>html/template\<close>.

  Parameters: the Unicode tables beyond ASCII, the rounding of \<^verbatim>\<open>float32\<close> (ratios are reals),
  the order in which \<^verbatim>\<open>sort.Slice\<close> leaves equal elements, and the capacity of the slice a
  conversion to \<^verbatim>\<open>[]rune\<close> allocates.
\<close>

section \<open>Runes\<close>

definition cont_byte :: "nat \<Rightarrow> bool" where
  "cont_byte b \<longleftrightarrow> 128 \<le> b \<and> b \<le> 191"

definition rune_error :: nat where
  "rune_error = 65533"

text \<open>\<^verbatim>\<open>utf8.DecodeRune\<close> of a string that is not empty: the rune and its width.\<close>

fun decode_bytes :: "nat list \<Rightarrow> nat \<times> nat" where
  "decode_bytes (b0 # bs) =
     (if b0 < 128 then (b0, 1)
      else if 194 \<le> b0 \<and> b0 \<le> 223 then
        (case bs of
           b1 # _ \<Rightarrow> if cont_byte b1 then ((b0 - 192) * 64 + (b1 - 128), 2) else (rune_error, 1)
         | _ \<Rightarrow> (rune_error, 1))
      else if 224 \<le> b0 \<and> b0 \<le> 239 then
        (case bs of
           b1 # b2 # _ \<Rightarrow>
             if cont_byte b1 \<and> cont_byte b2 \<and> (b0 = 224 \<longrightarrow> 160 \<le> b1) \<and> (b0 = 237 \<longrightarrow> b1 \<le> 159)
             then ((b0 - 224) * 4096 + (b1 - 128) * 64 + (b2 - 128), 3) else (rune_error, 1)
         | _ \<Rightarrow> (rune_error, 1))
      else if 240 \<le> b0 \<and> b0 \<le> 244 then
        (case bs of
           b1 # b2 # b3 # _ \<Rightarrow>
             if cont_byte b1 \<and> cont_byte b2 \<and> cont_byte b3 \<and> (b0 = 240 \<longrightarrow> 144 \<le> b1) \<and> (b0 = 244 \<longrightarrow> b1 \<le> 143)
             then ((b0 - 240) * 262144 + (b1 - 128) * 4096 + (b2 - 128) * 64 + (b3 - 128), 4) else (rune_error, 1)
         | _ \<Rightarrow> (rune_error, 1))
      else (rune_error, 1))"
| "decode_bytes [] = (rune_error, 0)"

definition decode_rune :: "string \<Rightarrow> nat \<times> nat" where
  "decode_rune s = decode_bytes (map of_char (take 4 s))"

definition encode_rune :: "nat \<Rightarrow> string" where
  "encode_rune r =
     (if r < 128 then [char_of r]
      else if r < 2048 then [char_of (192 + r div 64), char_of (128 + r mod 64)]
      else if r < 65536 then [char_of (224 + r div 4096), char_of (128 + r div 64 mod 64), char_of (128 + r mod 64)]
      else [char_of (240 + r div 262144), char_of (128 + r div 4096 mod 64), char_of (128 + r div 64 mod 64),
            char_of (128 + r mod 64)])"

lemma decode_rune_width: "s \<noteq> [] \<Longrightarrow> 0 < snd (decode_rune s) \<and> snd (decode_rune s) \<le> length s"
  by (cases s; cases "tl s"; cases "tl (tl s)"; cases "tl (tl (tl s))") (auto simp: decode_rune_def)

text \<open>A string as its runes, each with the bytes it was decoded from.\<close>

function rune_pieces :: "string \<Rightarrow> (nat \<times> string) list" where
  "rune_pieces s =
     (if s = [] then []
      else let (r, w) = decode_rune s in (r, take w s) # rune_pieces (drop w s))"
  by pat_completeness auto
termination
proof (relation "measure length", goal_cases)
  case (2 s x r w)
  then show ?case using decode_rune_width [of s] by (cases "decode_rune s") auto
qed simp

declare rune_pieces.simps [simp del]

text \<open>\<^verbatim>\<open>[]rune(s)\<close>.\<close>

definition runes :: "string \<Rightarrow> nat list" where
  "runes s = map fst (rune_pieces s)"

lemma concat_rune_pieces: "concat (map snd (rune_pieces s)) = s"
proof (induction s rule: rune_pieces.induct)
  case (1 s)
  show ?case
  proof (cases "s = []")
    case True
    then show ?thesis by (simp add: rune_pieces.simps)
  next
    case False
    obtain r w where d: "decode_rune s = (r, w)" by (cases "decode_rune s")
    then show ?thesis
      using 1 [OF False d [symmetric]] False by (subst rune_pieces.simps) simp
  qed
qed

section \<open>Classes of runes\<close>

record unicode_tables =
  uc_lower :: "nat \<Rightarrow> bool"
  uc_upper :: "nat \<Rightarrow> bool"
  uc_number :: "nat \<Rightarrow> bool"
  uc_symbol :: "nat \<Rightarrow> bool"
  uc_punct :: "nat \<Rightarrow> bool"
  uc_fold :: "nat \<Rightarrow> nat \<Rightarrow> bool"

definition is_lower :: "unicode_tables \<Rightarrow> nat \<Rightarrow> bool" where
  "is_lower U r = (if r < 128 then 97 \<le> r \<and> r \<le> 122 else uc_lower U r)"

definition is_upper :: "unicode_tables \<Rightarrow> nat \<Rightarrow> bool" where
  "is_upper U r = (if r < 128 then 65 \<le> r \<and> r \<le> 90 else uc_upper U r)"

definition is_number :: "unicode_tables \<Rightarrow> nat \<Rightarrow> bool" where
  "is_number U r = (if r < 128 then 48 \<le> r \<and> r \<le> 57 else uc_number U r)"

definition ascii_symbols :: "nat list" where
  "ascii_symbols = [36, 43, 60, 61, 62, 94, 96, 124, 126]"

definition is_symbol :: "unicode_tables \<Rightarrow> nat \<Rightarrow> bool" where
  "is_symbol U r = (if r < 128 then r \<in> set ascii_symbols else uc_symbol U r)"

definition is_punct :: "unicode_tables \<Rightarrow> nat \<Rightarrow> bool" where
  "is_punct U r =
     (if r < 128
      then 33 \<le> r \<and> r \<le> 126 \<and> \<not> (48 \<le> r \<and> r \<le> 57) \<and> \<not> (65 \<le> r \<and> r \<le> 90) \<and> \<not> (97 \<le> r \<and> r \<le> 122) \<and>
           r \<notin> set ascii_symbols
      else uc_punct U r)"

definition is_space :: "nat \<Rightarrow> bool" where
  "is_space r \<longleftrightarrow> (9 \<le> r \<and> r \<le> 13) \<or> (8192 \<le> r \<and> r \<le> 8202) \<or>
     r \<in> set [32, 133, 160, 5760, 8232, 8233, 8239, 8287, 12288]"

definition ascii_lower :: "nat \<Rightarrow> nat" where
  "ascii_lower r = (if 65 \<le> r \<and> r \<le> 90 then r + 32 else r)"

text \<open>Equality of runes under simple folding, and \<^verbatim>\<open>strings.EqualFold\<close>.\<close>

definition fold_eq :: "unicode_tables \<Rightarrow> nat \<Rightarrow> nat \<Rightarrow> bool" where
  "fold_eq U a b = (if a < 128 \<and> b < 128 then ascii_lower a = ascii_lower b else a = b \<or> uc_fold U a b)"

definition equal_fold :: "unicode_tables \<Rightarrow> string \<Rightarrow> string \<Rightarrow> bool" where
  "equal_fold U s t = list_all2 (fold_eq U) (runes s) (runes t)"

text \<open>
  \<^verbatim>\<open>strings.Fields\<close>, which also are the tokens of \<^verbatim>\<open>bufio.ScanWords\<close>: the maximal runs of runes
  that are not white space.
\<close>

fun str_fields_loop :: "(nat \<times> string) list \<Rightarrow> string \<Rightarrow> string list" where
  "str_fields_loop [] word = (if word = [] then [] else [word])"
| "str_fields_loop ((r, bs) # ps) word =
     (if is_space r then (if word = [] then str_fields_loop ps [] else word # str_fields_loop ps [])
      else str_fields_loop ps (word @ bs))"

definition str_fields :: "string \<Rightarrow> string list" where
  "str_fields s = str_fields_loop (rune_pieces s) []"

section \<open>Sentences\<close>

text \<open>\<^verbatim>\<open>scanRune\<close>; \<open>None\<close> is the width -1.\<close>

definition scan_rune :: "string \<Rightarrow> (nat \<times> nat) option" where
  "scan_rune data =
     (if data = [] then None
      else if (of_char (hd data) :: nat) < 128 then Some (1, of_char (hd data))
      else let (r, width) = decode_rune data in if width > 1 then Some (width, r) else None)"

definition break_sentence :: "unicode_tables \<Rightarrow> nat \<Rightarrow> nat \<Rightarrow> nat \<Rightarrow> bool" where
  "break_sentence U r0 r1 r2 \<longleftrightarrow>
     (is_lower U r0 \<or> is_symbol U r0 \<or> is_number U r0 \<or> is_space r0) \<and>
     (r1 = 46 \<or> r1 = 33 \<or> r1 = 63) \<and>
     (is_punct U r2 \<or> is_space r2 \<or> is_symbol U r0 \<or> is_number U r2 \<or> is_upper U r2)"

lemma scan_rune_width: "scan_rune data = Some (w, r) \<Longrightarrow> 0 < w \<and> w \<le> length data \<and> data \<noteq> []"
  using decode_rune_width [of data]
  by (cases data) (auto simp: scan_rune_def split: if_splits prod.splits)

text \<open>The loop over the triplets; \<open>rest\<close> is \<open>data[index:]\<close>.\<close>

function sentence_loop :: "unicode_tables \<Rightarrow> nat \<Rightarrow> nat \<Rightarrow> nat \<Rightarrow> nat \<Rightarrow> nat \<Rightarrow> string \<Rightarrow> nat option" where
  "sentence_loop U r0 r1 r2 skip index rest =
     (if rest = [] then None
      else if break_sentence U r0 r1 r2 then Some (index - skip)
      else (case scan_rune rest of
              None \<Rightarrow> None
            | Some (w, r) \<Rightarrow> sentence_loop U r1 r2 r w (index + w) (drop w rest)))"
  by pat_completeness auto
termination
  by (relation "measure (\<lambda>(U, r0, r1, r2, skip, index, rest). length rest)") (auto dest!: scan_rune_width)

declare sentence_loop.simps [simp del]

definition scan_sentence :: "unicode_tables \<Rightarrow> string \<Rightarrow> bool \<Rightarrow> nat \<times> string option" where
  "scan_sentence U data atEOF =
     (if atEOF then (if length data = 0 then (0, None) else (length data, Some data))
      else (case scan_rune data of
              None \<Rightarrow> (0, None)
            | Some (w0, r0) \<Rightarrow>
                (case scan_rune (drop w0 data) of
                   None \<Rightarrow> (0, None)
                 | Some (w1, r1) \<Rightarrow>
                     (case scan_rune (drop (w0 + w1) data) of
                        None \<Rightarrow> (0, None)
                      | Some (w2, r2) \<Rightarrow>
                          (case sentence_loop U r0 r1 r2 w2 (w0 + w1 + w2) (drop (w0 + w1 + w2) data) of
                             None \<Rightarrow> (0, None)
                           | Some k \<Rightarrow> (k, Some (take k data)))))))"

text \<open>
  The tokens a \<^verbatim>\<open>bufio.Scanner\<close> yields with this split function: it asks for a token in at most
  \<open>max_token_size\<close> bytes, gives up when they hold none, and once everything is read asks again
  with \<open>atEOF\<close>.
\<close>

definition max_token_size :: nat where
  "max_token_size = 65536"

function sentences :: "unicode_tables \<Rightarrow> string \<Rightarrow> string list" where
  "sentences U s =
     (case scan_sentence U (take max_token_size s) False of
        (advance, Some token) \<Rightarrow> if advance = 0 then [] else token # sentences U (drop advance s)
      | (_, None) \<Rightarrow>
          if max_token_size \<le> length s then []
          else (case scan_sentence U s True of (_, Some token) \<Rightarrow> [token] | (_, None) \<Rightarrow> []))"
  by pat_completeness auto
termination
proof (relation "measure (\<lambda>(U, s). length s)", goal_cases)
  case (2 U s x advance token)
  then have "s \<noteq> []" by (auto simp: scan_sentence_def scan_rune_def)
  then show ?case using 2 by simp
qed simp

declare sentences.simps [simp del]

section \<open>The summarizer\<close>

record snippet =
  sn_ordinal :: nat
  sn_text :: string
  sn_match_ratio :: real

record summarizer =
  sum_terms :: "string list"
  sum_max_len :: int

definition query_terms :: "string \<Rightarrow> string list" where
  "query_terms searchTerms = str_fields (trim_byte (CHR 0x22) searchTerms)"

definition new_match_summarizer :: "string \<Rightarrow> int \<Rightarrow> summarizer" where
  "new_match_summarizer searchTerms maxSummaryLen =
     \<lparr>sum_terms = query_terms searchTerms, sum_max_len = maxSummaryLen\<rparr>"

definition word_matches :: "unicode_tables \<Rightarrow> summarizer \<Rightarrow> string \<Rightarrow> bool" where
  "word_matches U h word = list_ex (\<lambda>term. equal_fold U term word) (sum_terms h)"

definition match_ratio :: "unicode_tables \<Rightarrow> (real \<Rightarrow> real) \<Rightarrow> summarizer \<Rightarrow> string \<Rightarrow> real" where
  "match_ratio U f32 h sentence =
     (let ws = str_fields sentence;
          wordCount = length ws;
          matchWordCount = length (filter (word_matches U h) ws)
      in f32 (of_nat matchWordCount / of_nat (if wordCount = 0 then 1 else wordCount)))"

text \<open>The first loop of \<^verbatim>\<open>snippetsForSummary\<close>, from a sentence on.\<close>

fun matching_snippets :: "unicode_tables \<Rightarrow> (real \<Rightarrow> real) \<Rightarrow> summarizer \<Rightarrow> nat \<Rightarrow> string list \<Rightarrow> snippet list" where
  "matching_snippets U f32 h ordinal [] = []"
| "matching_snippets U f32 h ordinal (s # ss) =
     (let ratio = match_ratio U f32 h s in
      (if ratio > 0 then [\<lparr>sn_ordinal = ordinal, sn_text = s, sn_match_ratio = ratio\<rparr>] else []) @
      matching_snippets U f32 h (Suc ordinal) ss)"

text \<open>
  \<^verbatim>\<open>string(([]rune(text))[:remaining]) + "..."\<close>.  A slice may be extended up to its capacity
  \<open>cap n\<close>, where n is the number of runes; the runes it gains are zero.
\<close>

definition trim_text :: "(nat \<Rightarrow> nat) \<Rightarrow> string \<Rightarrow> nat \<Rightarrow> string outcome" where
  "trim_text cap text remaining =
     (let rs = runes text in
      if remaining \<le> length rs \<or> remaining \<le> cap (length rs)
      then Returns (concat (map encode_rune (take remaining rs @ replicate (remaining - length rs) 0)) @ ''...'')
      else Panics ''slice bounds out of range'')"

fun select_snippets :: "(nat \<Rightarrow> nat) \<Rightarrow> int \<Rightarrow> snippet list \<Rightarrow> snippet list outcome" where
  "select_snippets cap remainingLen [] = Returns []"
| "select_snippets cap remainingLen (m # ms) =
     (if remainingLen \<le> 0 then Returns []
      else outcome_bind
        (if int (length (sn_text m)) > remainingLen then trim_text cap (sn_text m) (nat remainingLen)
         else Returns (sn_text m))
        (\<lambda>text. outcome_bind (select_snippets cap (remainingLen - int (length text)) ms)
           (\<lambda>snippets. Returns (m\<lparr>sn_text := text\<rparr> # snippets))))"

text \<open>
  \<open>sort_slice\<close> is \<^verbatim>\<open>sort.Slice\<close> by descending ratio.  The ordinals are distinct, so the second
  sort has one result.
\<close>

definition snippets_for_summary ::
  "unicode_tables \<Rightarrow> (real \<Rightarrow> real) \<Rightarrow> (snippet list \<Rightarrow> snippet list) \<Rightarrow> (nat \<Rightarrow> nat) \<Rightarrow> summarizer \<Rightarrow> string \<Rightarrow>
   snippet list outcome" where
  "snippets_for_summary U f32 sort_slice cap h content =
     outcome_bind
       (select_snippets cap (sum_max_len h) (sort_slice (matching_snippets U f32 h 0 (sentences U content))))
       (\<lambda>snippets. Returns (sort_key sn_ordinal snippets))"

fun join_snippets :: "int \<Rightarrow> string \<Rightarrow> snippet list \<Rightarrow> string" where
  "join_snippets lastOrdinal buf [] = buf"
| "join_snippets lastOrdinal buf (s # ss) =
     (let buf1 = (if lastOrdinal \<noteq> -1 \<and> int (sn_ordinal s) - lastOrdinal \<noteq> 1 then buf @ ''..'' else buf);
          buf2 = buf1 @ sn_text s;
          buf3 = (if \<not> has_suffix (sn_text s) ''.'' then buf2 @ ''.'' else buf2)
      in join_snippets (int (sn_ordinal s)) buf3 ss)"

definition match_summary ::
  "unicode_tables \<Rightarrow> (real \<Rightarrow> real) \<Rightarrow> (snippet list \<Rightarrow> snippet list) \<Rightarrow> (nat \<Rightarrow> nat) \<Rightarrow> summarizer \<Rightarrow> string \<Rightarrow>
   string outcome" where
  "match_summary U f32 sort_slice cap h content =
     outcome_bind (snippets_for_summary U f32 sort_slice cap h content)
       (\<lambda>snippets. Returns (trim_space (join_snippets (-1) [] snippets)))"

section \<open>The highlighter\<close>

text \<open>
  A case insensitive expression for a literal, as its runes.  A literal that is not valid
  UTF-8 does not compile.
\<close>

definition valid_utf8 :: "string \<Rightarrow> bool" where
  "valid_utf8 s = list_all (\<lambda>(r, bs). \<not> (r = rune_error \<and> length bs = 1)) (rune_pieces s)"

definition new_match_highlighter :: "string \<Rightarrow> nat list list" where
  "new_match_highlighter searchTerms = map runes (filter valid_utf8 (query_terms searchTerms))"

definition literal_matches :: "unicode_tables \<Rightarrow> nat list \<Rightarrow> (nat \<times> string) list \<Rightarrow> bool" where
  "literal_matches U re ps \<longleftrightarrow> length re \<le> length ps \<and> list_all2 (fold_eq U) re (map fst (take (length re) ps))"

text \<open>\<^verbatim>\<open>ReplaceAllStringFunc\<close> with the highlighting function.\<close>

function highlight_pieces :: "unicode_tables \<Rightarrow> nat list \<Rightarrow> (nat \<times> string) list \<Rightarrow> string" where
  "highlight_pieces U re ps =
     (if re = [] \<or> ps = [] then concat (map snd ps)
      else if literal_matches U re ps
      then ''<em>'' @ concat (map snd (take (length re) ps)) @ ''</em>'' @ highlight_pieces U re (drop (length re) ps)
      else snd (hd ps) @ highlight_pieces U re (tl ps))"
  by pat_completeness auto
termination
  by (relation "measure (\<lambda>(U, re, ps). length ps)") auto

declare highlight_pieces.simps [simp del]

fun highlight :: "unicode_tables \<Rightarrow> nat list list \<Rightarrow> string \<Rightarrow> string" where
  "highlight U [] sentence = sentence"
| "highlight U (re # res) sentence = highlight U res (highlight_pieces U re (rune_pieces sentence))"

text \<open>\<^verbatim>\<open>template.HTMLEscapeString\<close>.\<close>

definition html_escape_char :: "char \<Rightarrow> string" where
  "html_escape_char c =
     (if c = CHR 0x00 then [CHR 0xEF, CHR 0xBF, CHR 0xBD]
      else if c = CHR 0x22 then ''&#34;''
      else if c = CHR 0x27 then ''&#39;''
      else if c = CHR ''&'' then ''&amp;''
      else if c = CHR ''<'' then ''&lt;''
      else if c = CHR ''>'' then ''&gt;''
      else [c])"

definition html_escape :: "string \<Rightarrow> string" where
  "html_escape s = concat (map html_escape_char s)"

end
