(* ===== verification/SummarizerProps.thy ===== *)
theory SummarizerProps
  imports Summarizer
begin

text \<open>
  What the summarizer selects, when it panics, and what the highlighter may insert.
\<close>

section \<open>Selection\<close>

lemma matching_snippets_iff:
  "m \<in> set (matching_snippets U f32 h k ss) \<longleftrightarrow>
     (\<exists>i < length ss. 0 < match_ratio U f32 h (ss ! i) \<and>
        m = \<lparr>sn_ordinal = k + i, sn_text = ss ! i, sn_match_ratio = match_ratio U f32 h (ss ! i)\<rparr>)"
proof (induction ss arbitrary: k)
  case (Cons s ss)
  have ex: "(\<exists>i < length (s # ss). P i) \<longleftrightarrow> P 0 \<or> (\<exists>i < length ss. P (Suc i))" for P
    by (auto simp: less_Suc_eq_0_disj)
  show ?case unfolding ex by (auto simp: Let_def Cons.IH)
qed simp

lemma matching_snippets_ge: "m \<in> set (matching_snippets U f32 h k ss) \<Longrightarrow> k \<le> sn_ordinal m"
  unfolding matching_snippets_iff by (elim exE conjE) simp

lemma matching_snippetsD:
  assumes "m \<in> set (matching_snippets U f32 h 0 ss)"
  shows "sn_ordinal m < length ss" "0 < match_ratio U f32 h (ss ! sn_ordinal m)"
    "sn_text m = ss ! sn_ordinal m" "sn_match_ratio m = match_ratio U f32 h (ss ! sn_ordinal m)"
proof -
  obtain i where i: "i < length ss" "0 < match_ratio U f32 h (ss ! i)"
    "m = \<lparr>sn_ordinal = 0 + i, sn_text = ss ! i, sn_match_ratio = match_ratio U f32 h (ss ! i)\<rparr>"
    using assms unfolding matching_snippets_iff by (elim exE conjE) (rule that)
  then show "sn_ordinal m < length ss" "0 < match_ratio U f32 h (ss ! sn_ordinal m)"
    "sn_text m = ss ! sn_ordinal m" "sn_match_ratio m = match_ratio U f32 h (ss ! sn_ordinal m)"
    by simp_all
qed

lemma matching_snippets_ordinals:
  "distinct (map sn_ordinal (matching_snippets U f32 h k ss))"
proof (induction ss arbitrary: k)
  case (Cons s ss)
  have "k \<notin> sn_ordinal ` set (matching_snippets U f32 h (Suc k) ss)"
    using matching_snippets_ge by fastforce
  with Cons.IH show ?case by (simp add: Let_def)
qed simp

text \<open>How a selected snippet comes from a match.\<close>

definition selected :: "(nat \<Rightarrow> nat) \<Rightarrow> snippet \<Rightarrow> snippet \<Rightarrow> bool" where
  "selected cap m s \<longleftrightarrow> sn_ordinal s = sn_ordinal m \<and> sn_match_ratio s = sn_match_ratio m \<and>
     (sn_text s = sn_text m \<or> (\<exists>r. trim_text cap (sn_text m) r = Returns (sn_text s)))"

lemma select_snippets_prefix:
  assumes "select_snippets cap remaining ms = Returns sns"
  shows "\<exists>n \<le> length ms. list_all2 (selected cap) (take n ms) sns \<and>
    (n < length ms \<longrightarrow> remaining \<le> int (sum_list (map (length \<circ> sn_text) sns)))"
  using assms
proof (induction cap remaining ms arbitrary: sns rule: select_snippets.induct)
  case (1 cap remaining)
  then show ?case by simp
next
  case (2 cap remaining m ms)
  show ?case
  proof (cases "remaining \<le> 0")
    case True
    with 2 show ?thesis by (intro exI [of _ 0]) simp
  next
    case False
    obtain cutText sns' where cut: "(if int (length (sn_text m)) > remaining
          then trim_text cap (sn_text m) (nat remaining) else Returns (sn_text m)) = Returns cutText"
      and more: "select_snippets cap (remaining - int (length cutText)) ms = Returns sns'"
      and sns: "sns = m\<lparr>sn_text := cutText\<rparr> # sns'"
      using 2(2) False by auto
    obtain n where n: "n \<le> length ms" "list_all2 (selected cap) (take n ms) sns'"
      "n < length ms \<longrightarrow> remaining - int (length cutText) \<le> int (sum_list (map (length \<circ> sn_text) sns'))"
      using 2(1) [OF False more] by (elim exE conjE) (rule that)
    have "selected cap m (m\<lparr>sn_text := cutText\<rparr>)"
      using cut by (auto simp: selected_def split: if_splits)
    then show ?thesis
      using n sns by (intro exI [of _ "Suc n"]) (auto simp: comp_def)
  qed
qed

lemma encode_rune_length: "1 \<le> length (encode_rune r)"
  by (simp add: encode_rune_def)

lemma trim_text_length:
  assumes "trim_text cap s r = Returns t"
  shows "r + 3 \<le> length t"
proof -
  have sum: "length rs \<le> sum_list (map (length \<circ> encode_rune) rs)" for rs
  proof (induction rs)
    case (Cons a rs)
    then show ?case using encode_rune_length [of a] by simp
  qed simp
  have "r \<le> length (take r (runes s) @ replicate (r - length (runes s)) 0)" by simp
  also have "\<dots> \<le> length (concat (map encode_rune (take r (runes s) @ replicate (r - length (runes s)) 0)))"
    unfolding length_concat map_map by (rule sum)
  finally show ?thesis using assms by (auto simp: trim_text_def Let_def split: if_splits)
qed

text \<open>The bytes of some snippets.\<close>

abbreviation snippet_bytes :: "snippet list \<Rightarrow> int" where
  "snippet_bytes sns \<equiv> int (sum_list (map (length \<circ> sn_text) sns))"

text \<open>What the loop selects: whole matches as long as they fit, then at most one that is cut.\<close>

lemma select_snippets_exact:
  assumes "select_snippets cap remaining ms = Returns sns"
  shows "\<exists>ws rest. ms = ws @ rest \<and>
    (sns = ws \<and> (ws \<noteq> [] \<longrightarrow> snippet_bytes ws \<le> remaining) \<or>
     (\<exists>m ms' t. rest = m # ms' \<and> sns = ws @ [m\<lparr>sn_text := t\<rparr>] \<and>
        0 < remaining - snippet_bytes ws \<and> remaining - snippet_bytes ws < int (length (sn_text m)) \<and>
        trim_text cap (sn_text m) (nat (remaining - snippet_bytes ws)) = Returns t))"
  using assms
proof (induction cap remaining ms arbitrary: sns rule: select_snippets.induct)
  case (2 cap remaining m ms)
  show ?case
  proof (cases "remaining \<le> 0")
    case True
    with 2 show ?thesis by (intro exI [of _ "[]"] exI [of _ "m # ms"]) simp
  next
    case pos: False
    show ?thesis
    proof (cases "int (length (sn_text m)) > remaining")
      case True
      then obtain t where t: "trim_text cap (sn_text m) (nat remaining) = Returns t"
        using 2(2) pos by (cases "trim_text cap (sn_text m) (nat remaining)") auto
      have "remaining - int (length t) \<le> 0" using trim_text_length [OF t] pos by simp
      then have "select_snippets cap (remaining - int (length t)) ms = Returns []"
        by (cases ms) auto
      then have "sns = [m\<lparr>sn_text := t\<rparr>]" using 2(2) pos True t by simp
      then show ?thesis using pos True t by (intro exI [of _ "[]"] exI [of _ "m # ms"]) simp
    next
      case False
      then obtain sns' where sel: "select_snippets cap (remaining - int (length (sn_text m))) ms = Returns sns'"
        and sns: "sns = m # sns'"
        using 2(2) pos by (cases "select_snippets cap (remaining - int (length (sn_text m))) ms") auto
      have "\<exists>ws rest. ms = ws @ rest \<and>
        (sns' = ws \<and> (ws \<noteq> [] \<longrightarrow> snippet_bytes ws \<le> remaining - int (length (sn_text m))) \<or>
         (\<exists>m' ms' t. rest = m' # ms' \<and> sns' = ws @ [m'\<lparr>sn_text := t\<rparr>] \<and>
            0 < remaining - int (length (sn_text m)) - snippet_bytes ws \<and>
            remaining - int (length (sn_text m)) - snippet_bytes ws < int (length (sn_text m')) \<and>
            trim_text cap (sn_text m') (nat (remaining - int (length (sn_text m)) - snippet_bytes ws)) = Returns t))"
        by (rule 2(1) [OF pos sel])
      then obtain ws rest where ws: "ms = ws @ rest" and cases: "sns' = ws \<and> (ws \<noteq> [] \<longrightarrow> snippet_bytes ws \<le> remaining - int (length (sn_text m))) \<or>
         (\<exists>m' ms' t. rest = m' # ms' \<and> sns' = ws @ [m'\<lparr>sn_text := t\<rparr>] \<and>
            0 < remaining - int (length (sn_text m)) - snippet_bytes ws \<and>
            remaining - int (length (sn_text m)) - snippet_bytes ws < int (length (sn_text m')) \<and>
            trim_text cap (sn_text m') (nat (remaining - int (length (sn_text m)) - snippet_bytes ws)) = Returns t)"
        by (elim exE conjE) (rule that)
      show ?thesis
        using cases ws sns False
        by (rule_tac exI [of _ "m # ws"], rule_tac exI [of _ rest]) (auto simp: algebra_simps comp_def)
    qed
  qed
qed simp

text \<open>The cut of a text in ASCII.\<close>

lemma runes_ascii:
  assumes "\<forall>c \<in> set s. of_char c < (128 :: nat)"
  shows "runes s = map of_char s"
  using assms
proof (induction s)
  case (Cons c s)
  then have "decode_rune (c # s) = (of_char c, 1)" by (simp add: decode_rune_def)
  then have "runes (c # s) = of_char c # runes s"
    by (simp add: runes_def rune_pieces.simps [of "c # s"])
  then show ?case using Cons by simp
qed (simp add: runes_def rune_pieces.simps)

lemma encode_ascii:
  assumes "\<forall>c \<in> set s. of_char c < (128 :: nat)"
  shows "concat (map encode_rune (map of_char s)) = s"
  using assms by (induction s) (simp_all add: encode_rune_def)

lemma trim_text_ascii:
  assumes "\<forall>c \<in> set s. of_char c < (128 :: nat)" "n \<le> length s"
  shows "trim_text cap s n = Returns (take n s @ ''...'')"
proof -
  have "concat (map encode_rune (map of_char (take n s))) = take n s"
    using assms(1) by (intro encode_ascii) (auto dest: in_set_takeD)
  then show ?thesis
    using assms by (simp add: trim_text_def runes_ascii take_map)
qed

definition sorts_by_ratio :: "(snippet list \<Rightarrow> snippet list) \<Rightarrow> bool" where
  "sorts_by_ratio srt \<longleftrightarrow>
     (\<forall>ms. mset (srt ms) = mset ms \<and> sorted_wrt (\<lambda>a b. sn_match_ratio b \<le> sn_match_ratio a) (srt ms))"

lemma list_all2_selected:
  assumes "list_all2 (selected cap) ms sns"
  shows "map sn_ordinal sns = map sn_ordinal ms"
    "s \<in> set sns \<Longrightarrow> \<exists>m \<in> set ms. selected cap m s"
  using assms by (induction rule: list_all2_induct) (auto simp: selected_def)

lemma sorted_wrt_take_drop:
  assumes "sorted_wrt R xs" "a \<in> set (take n xs)" "b \<in> set (drop n xs)"
  shows "R a b"
proof -
  have "sorted_wrt R (take n xs @ drop n xs)" using assms(1) by simp
  then show ?thesis using assms(2,3) unfolding sorted_wrt_append by blast
qed

lemma sort_key_strict:
  fixes f :: "'a \<Rightarrow> nat"
  assumes "distinct (map f xs)"
  shows "sorted_wrt (<) (map f (sort_key f xs))"
proof -
  have "mset (map f (sort_key f xs)) = mset (map f xs)" by simp
  then have "distinct (map f (sort_key f xs))"
    using assms mset_eq_imp_distinct_iff by blast
  then show ?thesis
    using sorted_sort_key [of f xs] by (simp add: strict_sorted_iff)
qed

text \<open>What a summary loses of its sentences.\<close>

lemma summary_cut:
  assumes srt: "sorts_by_ratio srt"
    and sns: "snippets_for_summary U f32 srt cap h content = Returns sns"
    and ss: "ss = sentences U content"
  shows "(\<forall>s \<in> set sns. sn_text s = ss ! sn_ordinal s) \<and> (sns \<noteq> [] \<longrightarrow> snippet_bytes sns \<le> sum_max_len h) \<or>
    (\<exists>s \<in> set sns. \<exists>rest. rest = sum_max_len h - snippet_bytes (filter (\<lambda>t. sn_ordinal t \<noteq> sn_ordinal s) sns) \<and>
       0 < rest \<and> rest < int (length (ss ! sn_ordinal s)) \<and>
       trim_text cap (ss ! sn_ordinal s) (nat rest) = Returns (sn_text s) \<and>
       (\<forall>t \<in> set sns. t \<noteq> s \<longrightarrow> sn_text t = ss ! sn_ordinal t) \<and>
       (\<forall>t \<in> set sns. match_ratio U f32 h (ss ! sn_ordinal s) \<le> match_ratio U f32 h (ss ! sn_ordinal t)))"
proof -
  define ms where "ms = matching_snippets U f32 h 0 ss"
  have mset: "mset (srt ms) = mset ms" and sorted: "sorted_wrt (\<lambda>a b. sn_match_ratio b \<le> sn_match_ratio a) (srt ms)"
    using srt by (simp_all add: sorts_by_ratio_def)
  then have set: "set (srt ms) = set ms" by (metis set_mset_mset)
  have whole: "sn_text m = ss ! sn_ordinal m" "sn_match_ratio m = match_ratio U f32 h (ss ! sn_ordinal m)"
    if "m \<in> set (srt ms)" for m
    using that matching_snippetsD(3,4) [of m U f32 h ss] by (simp_all add: set ms_def [symmetric])
  have dist: "distinct (map sn_ordinal (srt ms))"
    using matching_snippets_ordinals [of U f32 h 0 ss] mset
    by (metis mset_eq_imp_distinct_iff mset_map ms_def)
  obtain sns0 where sel: "select_snippets cap (sum_max_len h) (srt ms) = Returns sns0"
    and sns_eq: "sns = sort_key sn_ordinal sns0"
    using sns by (auto simp: snippets_for_summary_def ms_def ss)
  have bytes: "snippet_bytes (filter P sns) = snippet_bytes (filter P sns0)" for P
    unfolding sns_eq by (metis mset_filter mset_map mset_sort sum_mset_sum_list)
  obtain ws rs where ws: "srt ms = ws @ rs" and cases: "sns0 = ws \<and> (ws \<noteq> [] \<longrightarrow> snippet_bytes ws \<le> sum_max_len h) \<or>
     (\<exists>m ms' t. rs = m # ms' \<and> sns0 = ws @ [m\<lparr>sn_text := t\<rparr>] \<and>
        0 < sum_max_len h - snippet_bytes ws \<and> sum_max_len h - snippet_bytes ws < int (length (sn_text m)) \<and>
        trim_text cap (sn_text m) (nat (sum_max_len h - snippet_bytes ws)) = Returns t)"
    using select_snippets_exact [OF sel] by (elim exE conjE) (rule that)
  from cases show ?thesis
  proof (elim disjE conjE exE)
    assume "sns0 = ws" "ws \<noteq> [] \<longrightarrow> snippet_bytes ws \<le> sum_max_len h"
    moreover have "sn_text m = ss ! sn_ordinal m" if "m \<in> set ws" for m
      using whole(1) that ws by simp
    moreover have "snippet_bytes sns = snippet_bytes sns0" using bytes [of "\<lambda>_. True"] by simp
    ultimately show ?thesis by (intro disjI1) (auto simp: sns_eq)
  next
    fix m ms' t
    assume m: "rs = m # ms'" "sns0 = ws @ [m\<lparr>sn_text := t\<rparr>]"
      and rest: "0 < sum_max_len h - snippet_bytes ws" "sum_max_len h - snippet_bytes ws < int (length (sn_text m))"
      and trim: "trim_text cap (sn_text m) (nat (sum_max_len h - snippet_bytes ws)) = Returns t"
    let ?s = "m\<lparr>sn_text := t\<rparr>"
    have m_in: "m \<in> set (srt ms)" using ws m(1) by simp
    have "sn_ordinal m \<notin> sn_ordinal ` set ws" using dist unfolding ws m(1) by simp
    then have others: "filter (\<lambda>t. sn_ordinal t \<noteq> sn_ordinal ?s) sns0 = ws"
      unfolding m(2) by (auto intro!: filter_True intro: rev_image_eqI)
    have low: "sn_match_ratio m \<le> sn_match_ratio w" if "w \<in> set ws" for w
      using sorted that unfolding ws m(1) by (simp add: sorted_wrt_append)
    have set_sns: "set sns = insert ?s (set ws)" by (simp add: sns_eq m(2))
    have "match_ratio U f32 h (ss ! sn_ordinal ?s) \<le> match_ratio U f32 h (ss ! sn_ordinal w)"
      if "w \<in> set sns" for w
      using that low [of w] whole(2) [of w] whole(2) [OF m_in] ws unfolding set_sns by auto
    moreover have "sn_text w = ss ! sn_ordinal w" if "w \<in> set sns" "w \<noteq> ?s" for w
      using that whole(1) [of w] ws unfolding set_sns by auto
    moreover have "?s \<in> set sns" unfolding set_sns by simp
    ultimately show ?thesis
      using rest trim whole(1) [OF m_in] bytes others
      by (intro disjI2 bexI [of _ ?s] exI [of _ "sum_max_len h - snippet_bytes ws"]) simp_all
  qed
qed

text \<open>
  C21. matchSummarizer.snippetsForSummary.  Whatever order sort.Slice gives to equal ratios, the
  snippets are in document order without repetition, and each is of a sentence that matches the
  query.  Either all of them are whole sentences and together have at most the maximal length in
  bytes; or all but one of them are, these leave a rest of at least one byte, and the last one, of
  the lowest ratio, is a sentence that is longer than the rest and was cut to as many runes as the
  rest has bytes, with an ellipsis after it: for a sentence in ASCII, to the rest itself.  A
  matching sentence is left out only when the snippets already have the maximal length, and then
  no selected sentence has a lower ratio.
\<close>

theorem summary_selects_best_sentences:
  assumes srt: "sorts_by_ratio srt"
    and sns: "snippets_for_summary U f32 srt cap h content = Returns sns"
  shows "sorted_wrt (<) (map sn_ordinal sns) \<and>
    (\<forall>s \<in> set sns. sn_ordinal s < length (sentences U content) \<and>
       0 < match_ratio U f32 h (sentences U content ! sn_ordinal s)) \<and>
    ((\<forall>s \<in> set sns. sn_text s = sentences U content ! sn_ordinal s) \<and>
       (sns \<noteq> [] \<longrightarrow> snippet_bytes sns \<le> sum_max_len h) \<or>
     (\<exists>s \<in> set sns. \<exists>rest.
       rest = sum_max_len h - snippet_bytes (filter (\<lambda>t. sn_ordinal t \<noteq> sn_ordinal s) sns) \<and>
       0 < rest \<and> rest < int (length (sentences U content ! sn_ordinal s)) \<and>
       trim_text cap (sentences U content ! sn_ordinal s) (nat rest) = Returns (sn_text s) \<and>
       ((\<forall>c \<in> set (sentences U content ! sn_ordinal s). of_char c < (128 :: nat)) \<longrightarrow>
          sn_text s = take (nat rest) (sentences U content ! sn_ordinal s) @ ''...'') \<and>
       (\<forall>t \<in> set sns. t \<noteq> s \<longrightarrow> sn_text t = sentences U content ! sn_ordinal t) \<and>
       (\<forall>t \<in> set sns. match_ratio U f32 h (sentences U content ! sn_ordinal s)
          \<le> match_ratio U f32 h (sentences U content ! sn_ordinal t)))) \<and>
    (\<forall>j < length (sentences U content).
       0 < match_ratio U f32 h (sentences U content ! j) \<and> j \<notin> sn_ordinal ` set sns \<longrightarrow>
         sum_max_len h \<le> snippet_bytes sns \<and>
         (\<forall>s \<in> set sns. match_ratio U f32 h (sentences U content ! j)
            \<le> match_ratio U f32 h (sentences U content ! sn_ordinal s)))"
proof -
  define ss where "ss = sentences U content"
  define ms where "ms = matching_snippets U f32 h 0 ss"
  have mset: "mset (srt ms) = mset ms" and sorted: "sorted_wrt (\<lambda>a b. sn_match_ratio b \<le> sn_match_ratio a) (srt ms)"
    using srt by (simp_all add: sorts_by_ratio_def)
  then have set: "set (srt ms) = set ms" by (metis set_mset_mset)
  have dist: "distinct (map sn_ordinal (srt ms))"
  proof -
    have "mset (map sn_ordinal (srt ms)) = mset (map sn_ordinal ms)" using mset by simp
    then show ?thesis
      using matching_snippets_ordinals [of U f32 h 0 ss] mset_eq_imp_distinct_iff ms_def by blast
  qed
  obtain sns0 where sel: "select_snippets cap (sum_max_len h) (srt ms) = Returns sns0"
    and sns_eq: "sns = sort_key sn_ordinal sns0"
    using sns by (auto simp: snippets_for_summary_def ms_def ss_def)
  obtain n where n: "n \<le> length (srt ms)" "list_all2 (selected cap) (take n (srt ms)) sns0"
    "n < length (srt ms) \<longrightarrow> sum_max_len h \<le> int (sum_list (map (length \<circ> sn_text) sns0))"
    using select_snippets_prefix [OF sel] by (elim exE conjE) (rule that)
  note ords = list_all2_selected(1) [OF n(2)] and sel_of = list_all2_selected(2) [OF n(2)]
  have set_sns: "set sns = set sns0" by (simp add: sns_eq)
  have len: "sum_list (map (length \<circ> sn_text) sns) = sum_list (map (length \<circ> sn_text) sns0)"
    unfolding sns_eq by (metis mset_map mset_sort sum_mset_sum_list)
  have strict: "sorted_wrt (<) (map sn_ordinal sns)"
    unfolding sns_eq using dist n(1) ords by (intro sort_key_strict) (simp add: take_map [symmetric])
  have from_ms: "sn_ordinal s < length ss \<and> 0 < match_ratio U f32 h (ss ! sn_ordinal s) \<and>
      (sn_text s = ss ! sn_ordinal s \<or> (\<exists>r. trim_text cap (ss ! sn_ordinal s) r = Returns (sn_text s)))"
    if s: "s \<in> set sns" for s
  proof -
    obtain m where m: "m \<in> set (take n (srt ms))" "selected cap m s"
      using sel_of [OF s [unfolded set_sns]] by (elim bexE) (rule that)
    have "m \<in> set ms" using in_set_takeD [OF m(1)] set by simp
    note D = matching_snippetsD [OF this [unfolded ms_def]]
    have "sn_ordinal s = sn_ordinal m"
      and "sn_text s = sn_text m \<or> (\<exists>r. trim_text cap (sn_text m) r = Returns (sn_text s))"
      using m(2) by (simp_all add: selected_def)
    then show ?thesis using D by simp
  qed
  have left_out: "sum_max_len h \<le> int (sum_list (map (length \<circ> sn_text) sns)) \<and>
      (\<forall>s \<in> set sns. match_ratio U f32 h (ss ! j) \<le> match_ratio U f32 h (ss ! sn_ordinal s))"
    if j: "j < length ss" "0 < match_ratio U f32 h (ss ! j)" "j \<notin> sn_ordinal ` set sns" for j
  proof -
    define m where "m = \<lparr>sn_ordinal = j, sn_text = ss ! j, sn_match_ratio = match_ratio U f32 h (ss ! j)\<rparr>"
    have "m \<in> set ms" using j(1,2) unfolding ms_def matching_snippets_iff m_def
      by (intro exI [of _ j]) simp
    then have "m \<in> set (srt ms)" using set by simp
    moreover have "m \<notin> set (take n (srt ms))"
    proof
      assume "m \<in> set (take n (srt ms))"
      then have "sn_ordinal m \<in> set (map sn_ordinal sns0)" unfolding ords by simp
      then show False using j(3) set_sns by (simp add: m_def)
    qed
    ultimately have drop: "m \<in> set (drop n (srt ms))"
      by (metis Un_iff append_take_drop_id set_append)
    then have "n < length (srt ms)" by (cases "n < length (srt ms)") auto
    moreover have "match_ratio U f32 h (ss ! j) \<le> match_ratio U f32 h (ss ! sn_ordinal s)" if s: "s \<in> set sns" for s
    proof -
      obtain m' where m': "m' \<in> set (take n (srt ms))" "selected cap m' s"
        using sel_of [OF s [unfolded set_sns]] by (elim bexE) (rule that)
      have "m' \<in> set ms" using in_set_takeD [OF m'(1)] set by simp
      then have "sn_match_ratio m' = match_ratio U f32 h (ss ! sn_ordinal m')"
        using matching_snippetsD(4) unfolding ms_def by blast
      moreover have "sn_ordinal s = sn_ordinal m'" using m'(2) by (simp add: selected_def)
      ultimately have "sn_match_ratio m' = match_ratio U f32 h (ss ! sn_ordinal s)" by simp
      then show ?thesis
        using sorted_wrt_take_drop [OF sorted m'(1) drop] by (simp add: m_def)
    qed
    ultimately show ?thesis using n(3) len by simp
  qed
  show ?thesis
    unfolding ss_def [symmetric] using strict from_ms left_out
  proof (intro conjI ballI)
    from summary_cut [OF srt sns ss_def] show "(\<forall>s \<in> set sns. sn_text s = ss ! sn_ordinal s) \<and>
       (sns \<noteq> [] \<longrightarrow> snippet_bytes sns \<le> sum_max_len h) \<or>
     (\<exists>s \<in> set sns. \<exists>rest.
       rest = sum_max_len h - snippet_bytes (filter (\<lambda>t. sn_ordinal t \<noteq> sn_ordinal s) sns) \<and>
       0 < rest \<and> rest < int (length (ss ! sn_ordinal s)) \<and>
       trim_text cap (ss ! sn_ordinal s) (nat rest) = Returns (sn_text s) \<and>
       ((\<forall>c \<in> set (ss ! sn_ordinal s). of_char c < (128 :: nat)) \<longrightarrow>
          sn_text s = take (nat rest) (ss ! sn_ordinal s) @ ''...'') \<and>
       (\<forall>t \<in> set sns. t \<noteq> s \<longrightarrow> sn_text t = ss ! sn_ordinal t) \<and>
       (\<forall>t \<in> set sns. match_ratio U f32 h (ss ! sn_ordinal s) \<le> match_ratio U f32 h (ss ! sn_ordinal t)))"
    proof (elim disjE bexE exE conjE, goal_cases)
      case (2 s rest)
      have "sn_text s = take (nat rest) (ss ! sn_ordinal s) @ ''...''"
        if "\<forall>c \<in> set (ss ! sn_ordinal s). of_char c < (128 :: nat)"
        using 2(5) trim_text_ascii [OF that, of "nat rest" cap] 2(4) by simp
      then show ?case using 2 by (intro disjI2 bexI [of _ s] exI [of _ rest] conjI impI)
    qed blast
  qed blast+
qed

definition ascii_only :: unicode_tables where
  "ascii_only = \<lparr>uc_lower = \<lambda>_. False, uc_upper = \<lambda>_. False, uc_number = \<lambda>_. False,
     uc_symbol = \<lambda>_. False, uc_punct = \<lambda>_. False, uc_fold = \<lambda>_ _. False\<rparr>"

definition stable_by_ratio :: "snippet list \<Rightarrow> snippet list" where
  "stable_by_ratio = sort_key (\<lambda>s. - sn_match_ratio s)"

lemma sorts_stable_by_ratio: "sorts_by_ratio stable_by_ratio"
proof -
  have "sorted_wrt (\<lambda>a b. sn_match_ratio b \<le> sn_match_ratio a) (sort_key (\<lambda>s. - sn_match_ratio s) ms)" for ms
    using sorted_sort_key [of "\<lambda>s. - sn_match_ratio s" ms] by (simp add: sorted_map)
  then show ?thesis
    unfolding sorts_by_ratio_def stable_by_ratio_def by (intro allI conjI mset_sort)
qed

lemma sentences_short:
  assumes "length s < max_token_size"
  shows "sentences U s =
    (case scan_sentence U s False of
       (advance, Some token) \<Rightarrow> if advance = 0 then [] else token # sentences U (drop advance s)
     | (_, None) \<Rightarrow> if s = [] then [] else [s])"
  using assms
  by (subst sentences.simps) (auto simp: scan_sentence_def [of U s True] split: option.splits prod.splits)

lemmas scan_eval = scan_sentence_def scan_rune_def sentence_loop.simps break_sentence_def decode_rune_def
  rune_pieces.simps ascii_only_def is_lower_def is_upper_def is_number_def is_symbol_def is_punct_def
  is_space_def ascii_symbols_def cont_byte_def rune_error_def Let_def

lemma sentences_test:
  "sentences ascii_only ''Dot without space.Ending in ! Ending in $foo$.1 number at start or end 1. Question?'' =
     [''Dot without space.'', ''Ending in !'', '' Ending in $foo$.'', ''1 number at start or end 1.'', '' Question?'']"
  by (simp add: sentences_short max_token_size_def scan_eval)

lemmas ratio_eval = match_ratio_def str_fields_def word_matches_def equal_fold_def runes_def fold_eq_def
  ascii_lower_def

theorem summary_selects_best_sentences_witness:
  "\<exists>sns. snippets_for_summary ascii_only id stable_by_ratio id \<lparr>sum_terms = [''map''], sum_max_len = 7\<rparr>
      ''Go here. A map. The map as'' = Returns sns \<and>
    map sn_text sns = ['' The ma...''] \<and> sorted_wrt (<) (map sn_ordinal sns)"
proof -
  have s: "sentences ascii_only ''Go here. A map. The map as'' = [''Go here.'', '' A map.'', '' The map as'']"
    by (simp add: sentences_short max_token_size_def scan_eval)
  have m: "matching_snippets ascii_only id \<lparr>sum_terms = [''map''], sum_max_len = 7\<rparr> 0
      [''Go here.'', '' A map.'', '' The map as''] =
      [\<lparr>sn_ordinal = 2, sn_text = '' The map as'', sn_match_ratio = 1 / 3\<rparr>]"
    by (simp add: ratio_eval scan_eval)
  have cut: "trim_text id '' The map as'' 7 = Returns '' The ma...''"
    by code_simp
  have "snippets_for_summary ascii_only id stable_by_ratio id \<lparr>sum_terms = [''map''], sum_max_len = 7\<rparr>
      ''Go here. A map. The map as'' = Returns [\<lparr>sn_ordinal = 2, sn_text = '' The ma...'', sn_match_ratio = 1 / 3\<rparr>]"
    unfolding snippets_for_summary_def s m
    by (simp add: stable_by_ratio_def cut)
  from this summary_selects_best_sentences [OF sorts_stable_by_ratio this] show ?thesis by simp
qed

section \<open>When the summary panics\<close>

text \<open>Where the loop panics: at the first match that does not fit, if it has too few runes.\<close>

definition overruns :: "(nat \<Rightarrow> nat) \<Rightarrow> int \<Rightarrow> snippet \<Rightarrow> bool" where
  "overruns cap remaining m \<longleftrightarrow> 0 < remaining \<and> remaining < int (length (sn_text m)) \<and>
     int (length (runes (sn_text m))) < remaining \<and> int (cap (length (runes (sn_text m)))) < remaining"

lemma trim_text_panics: "0 < r \<Longrightarrow> panics (trim_text cap s (nat r)) \<longleftrightarrow>
    int (length (runes s)) < r \<and> int (cap (length (runes s))) < r"
  by (auto simp: trim_text_def Let_def)

lemma trim_text_no_error: "trim_text cap s r \<noteq> Fails e"
  by (simp add: trim_text_def Let_def)

lemma panics_bind: "panics (outcome_bind r f) \<longleftrightarrow> panics r \<or> (\<exists>a. r = Returns a \<and> panics (f a))"
  by (cases r) auto

lemma select_snippets_panics:
  "panics (select_snippets cap remaining ms) \<longleftrightarrow>
     (\<exists>ms1 m ms2. ms = ms1 @ m # ms2 \<and>
        overruns cap (remaining - int (sum_list (map (length \<circ> sn_text) ms1))) m)"
proof (induction cap remaining ms rule: select_snippets.induct)
  case (2 cap remaining m ms)
  have ex: "(\<exists>ms1 m' ms2. m # ms = ms1 @ m' # ms2 \<and>
        overruns cap (remaining - int (sum_list (map (length \<circ> sn_text) ms1))) m') \<longleftrightarrow>
      overruns cap remaining m \<or> (\<exists>ms1 m' ms2. ms = ms1 @ m' # ms2 \<and>
        overruns cap (remaining - int (length (sn_text m)) - int (sum_list (map (length \<circ> sn_text) ms1))) m')"
    (is "?L \<longleftrightarrow> ?R")
  proof
    assume ?L
    then obtain ms1 m' ms2 where "m # ms = ms1 @ m' # ms2"
      "overruns cap (remaining - int (sum_list (map (length \<circ> sn_text) ms1))) m'" by blast
    then show ?R by (cases ms1) (auto simp: algebra_simps)
  next
    assume ?R
    then show ?L
    proof
      assume "overruns cap remaining m"
      then show ?L by (intro exI [of _ "[]"]) auto
    next
      assume "\<exists>ms1 m' ms2. ms = ms1 @ m' # ms2 \<and>
        overruns cap (remaining - int (length (sn_text m)) - int (sum_list (map (length \<circ> sn_text) ms1))) m'"
      then obtain ms1 m' ms2 where "ms = ms1 @ m' # ms2"
        "overruns cap (remaining - int (length (sn_text m)) - int (sum_list (map (length \<circ> sn_text) ms1))) m'" by blast
      then show ?L by (intro exI [of _ "m # ms1"] exI [of _ m'] exI [of _ ms2]) (simp add: algebra_simps)
    qed
  qed
  have neg: "\<not> overruns cap r m'" if "r \<le> 0" for r m' using that by (simp add: overruns_def)
  show ?case
  proof (cases "remaining \<le> 0")
    case True
    then show ?thesis unfolding ex by (auto simp: overruns_def)
  next
    case pos: False
    show ?thesis
    proof (cases "int (length (sn_text m)) > remaining")
      case False
      then have fits: "\<not> overruns cap remaining m" by (simp add: overruns_def)
      have eq: "panics (select_snippets cap remaining (m # ms)) \<longleftrightarrow>
          panics (select_snippets cap (remaining - int (length (sn_text m))) ms)"
        using pos False by (simp add: panics_bind)
      show ?thesis unfolding ex eq 2 [OF pos, of "sn_text m"] using fits by blast
    next
      case True
      have none: "\<not> overruns cap (remaining - int (length (sn_text m)) - int k) m'" for k m'
        using True by (simp add: overruns_def)
      have "\<not> panics (select_snippets cap (remaining - int (length t)) ms)"
        if "trim_text cap (sn_text m) (nat remaining) = Returns t" for t
      proof -
        have "remaining \<le> int (length t)" using trim_text_length [OF that] by linarith
        then show ?thesis by (cases ms) auto
      qed
      then have "panics (select_snippets cap remaining (m # ms)) \<longleftrightarrow> panics (trim_text cap (sn_text m) (nat remaining))"
        using pos True by (auto simp: panics_bind)
      also have "\<dots> \<longleftrightarrow> overruns cap remaining m"
        using trim_text_panics [of remaining cap "sn_text m"] pos True by (auto simp: overruns_def)
      finally show ?thesis unfolding ex using none by simp
    qed
  qed
qed simp

text \<open>
  C22. MatchSummary panics with an index out of range exactly when the first of the ranked
  matches that does not fit has more bytes than remain but neither as many runes nor the
  capacity for them: the summarizer measures the text in bytes and cuts it in runes, so a
  long sentence in a script of multi-byte characters ends the request.
\<close>

theorem match_summary_panics_iff:
  "panics (match_summary U f32 srt cap h content) \<longleftrightarrow>
     (\<exists>ms1 m ms2. srt (matching_snippets U f32 h 0 (sentences U content)) = ms1 @ m # ms2 \<and>
        overruns cap (sum_max_len h - int (sum_list (map (length \<circ> sn_text) ms1))) m)"
  by (simp add: match_summary_def snippets_for_summary_def panics_bind select_snippets_panics)

section \<open>What the highlighter inserts\<close>

text \<open>\<open>tagged s t\<close>: t is s with pairs of tags inserted around parts of it.\<close>

inductive tagged :: "string \<Rightarrow> string \<Rightarrow> bool" where
  tagged_refl: "tagged s s"
| tagged_wrap: "tagged s (a @ b @ c) \<Longrightarrow> tagged s (a @ ''<em>'' @ b @ ''</em>'' @ c)"

text \<open>No tag other than those of \<open>em\<close> can be opened.\<close>

fun only_em_tags :: "string \<Rightarrow> bool" where
  "only_em_tags [] = True"
| "only_em_tags (c # cs) =
     ((c = CHR ''<'' \<longrightarrow> cs \<noteq> [] \<and> hd cs \<in> {CHR ''e'', CHR ''/'', CHR ''<''}) \<and> only_em_tags cs)"

lemma highlight_pieces_tagged:
  "tagged s (a @ concat (map snd ps)) \<Longrightarrow> tagged s (a @ highlight_pieces U re ps)"
proof (induction U re ps arbitrary: a rule: highlight_pieces.induct)
  case (1 U re ps)
  show ?case
  proof (cases "re = [] \<or> ps = []")
    case True
    then show ?thesis using 1(3) by (simp add: highlight_pieces.simps)
  next
    case False
    show ?thesis
    proof (cases "literal_matches U re ps")
      case True
      let ?m = "concat (map snd (take (length re) ps))"
      have "concat (map snd ps) = ?m @ concat (map snd (drop (length re) ps))"
        by (metis append_take_drop_id concat_append map_append)
      then have "tagged s ((a @ ''<em>'' @ ?m @ ''</em>'') @ concat (map snd (drop (length re) ps)))"
        using tagged_wrap [of s a ?m] 1(3) by simp
      then have "tagged s ((a @ ''<em>'' @ ?m @ ''</em>'') @ highlight_pieces U re (drop (length re) ps))"
        by (rule 1(1) [OF False True])
      then show ?thesis using False True by (subst highlight_pieces.simps) simp
    next
      case no: False
      have "tagged s ((a @ snd (hd ps)) @ concat (map snd (tl ps)))"
        using 1(3) False by (cases ps) auto
      then have "tagged s ((a @ snd (hd ps)) @ highlight_pieces U re (tl ps))"
        by (rule 1(2) [OF False no])
      then show ?thesis using False no by (subst highlight_pieces.simps) simp
    qed
  qed
qed

lemma highlight_tagged: "tagged s t \<Longrightarrow> tagged s (highlight U res t)"
proof (induction U res t rule: highlight.induct)
  case (2 U re res sentence)
  then show ?case
    using highlight_pieces_tagged [of s "[]" "rune_pieces sentence"] by (simp add: concat_rune_pieces)
qed simp

lemma only_em_tags_append:
  "only_em_tags (a @ b) \<Longrightarrow> only_em_tags c \<Longrightarrow> c \<noteq> [] \<Longrightarrow> hd c \<in> {CHR ''e'', CHR ''/'', CHR ''<''} \<Longrightarrow> only_em_tags (a @ c)"
proof (induction a)
  case (Cons x a)
  then show ?case by (cases a) auto
qed simp

lemma only_em_tags_suffix: "only_em_tags (a @ b) \<Longrightarrow> only_em_tags b"
  by (induction a) auto

lemma only_em_tags_wrap:
  assumes "only_em_tags (a @ b @ c)"
  shows "only_em_tags (a @ ''<em>'' @ b @ ''</em>'' @ c)"
proof -
  have "only_em_tags ((a @ b) @ ''</em>'' @ c)"
  proof (rule only_em_tags_append)
    show "only_em_tags ((a @ b) @ c)" using assms by simp
    then show "only_em_tags (''</em>'' @ c)" using only_em_tags_suffix [of "a @ b" c] by simp
  qed simp_all
  then have full: "only_em_tags (a @ b @ ''</em>'' @ c)" by simp
  show ?thesis
  proof (rule only_em_tags_append)
    show "only_em_tags (a @ b @ ''</em>'' @ c)" by (rule full)
    then show "only_em_tags (''<em>'' @ b @ ''</em>'' @ c)"
      using only_em_tags_suffix [OF full] by simp
  qed simp_all
qed

lemma tagged_only_em_tags: "tagged s t \<Longrightarrow> only_em_tags s \<Longrightarrow> only_em_tags t"
  by (induction rule: tagged.induct) (simp_all only: only_em_tags_wrap)

lemma tagged_chars: "tagged s t \<Longrightarrow> set t \<subseteq> set s \<union> set ''</em>''"
  by (induction rule: tagged.induct) auto

lemma no_lt_only_em_tags: "CHR ''<'' \<notin> set s \<Longrightarrow> only_em_tags s"
  by (induction s) auto

lemma html_escape_chars: "set (html_escape s) \<inter> {CHR ''<'', CHR ''>'', CHR 0x22, CHR 0x27} = {}"
  by (induction s) (auto simp: html_escape_def html_escape_char_def)

text \<open>
  C23. The summary put into the results page as trusted HTML is the escaped text with em tags
  inserted around parts of it: in it every less-than sign is followed by the letter e, a slash
  or another such sign, and there are no quotes, so neither a document nor a query can open
  another tag or add an attribute.
\<close>

theorem highlighted_summary_only_em_tags:
  "tagged (html_escape summary) (highlight U (new_match_highlighter searchTerms) (html_escape summary)) \<and>
   only_em_tags (highlight U (new_match_highlighter searchTerms) (html_escape summary)) \<and>
   CHR 0x22 \<notin> set (highlight U (new_match_highlighter searchTerms) (html_escape summary)) \<and>
   CHR 0x27 \<notin> set (highlight U (new_match_highlighter searchTerms) (html_escape summary))"
proof -
  have t: "tagged (html_escape summary) (highlight U (new_match_highlighter searchTerms) (html_escape summary))"
    by (rule highlight_tagged, rule tagged_refl)
  have "only_em_tags (html_escape summary)"
    using html_escape_chars by (intro no_lt_only_em_tags) blast
  then show ?thesis
    using t tagged_only_em_tags [OF t] tagged_chars [OF t] html_escape_chars [of summary] by auto
qed

text \<open>
  The terms are applied one after the other, also to the tags of the terms before, and to the
  entities of the escaped text.
\<close>

lemma highlighter_examples:
  "new_match_highlighter ''foo em'' = [[102, 111, 111], [101, 109]]"
  "new_match_highlighter ''amp'' = [[97, 109, 112]]"
  by (simp_all add: new_match_highlighter_def query_terms_def trim_byte_def str_fields_def valid_utf8_def
    runes_def scan_eval)

lemma highlight_corrupts_tags_and_entities:
  "highlight ascii_only (new_match_highlighter ''foo em'') (html_escape ''foo'') = ''<<em>em</em>>foo</<em>em</em>>''"
  "highlight ascii_only (new_match_highlighter ''amp'') (html_escape ''&'') = ''&<em>amp</em>;''"
  unfolding highlighter_examples
  by (simp_all add: html_escape_def html_escape_char_def highlight_pieces.simps literal_matches_def fold_eq_def
    ascii_lower_def scan_eval)

end
