(* ===== verification/Frontend.thy ===== *)
theory Frontend
  imports SummarizerProps GoUrl LinkGraph Documents
begin

text \<open>
  The front end (\<^verbatim>\<open>frontend/frontend.go\<close>): configuration, routes, and the handlers that render
  pages, accept links and run queries.  A handler's answer is the sequence of its
  \<^verbatim>\<open>WriteHeader\<close> calls and template executions.

  Parameters: the graph and index APIs, the package \<^verbatim>\<open>net/url\<close>, the listener and the HTTP
  server, the template engine's errors, and the environment of the summarizer.
\<close>

section \<open>Configuration\<close>

record fe_config =
  fe_graph_api :: bool
  fe_index_api :: bool
  fe_listen_addr :: string
  fe_results_per_page :: int
  fe_max_summary_length :: int
  fe_logger :: bool

definition default_results_per_page :: int where
  "default_results_per_page = 10"

definition default_max_summary_length :: int where
  "default_max_summary_length = 256"

definition fe_validate :: "fe_config \<Rightarrow> go_error option \<times> fe_config" where
  "fe_validate cfg =
     (let err1 = (if fe_listen_addr cfg = []
                  then multierror_append None (Errorf ''listen address has not been specified'') else None);
          cfg1 = (if fe_results_per_page cfg \<le> 0
                  then cfg\<lparr>fe_results_per_page := default_results_per_page\<rparr> else cfg);
          cfg2 = (if fe_max_summary_length cfg1 \<le> 0
                  then cfg1\<lparr>fe_max_summary_length := default_max_summary_length\<rparr> else cfg1);
          err2 = (if \<not> fe_index_api cfg2
                  then multierror_append err1 (Errorf ''index API has not been provided'') else err1);
          err3 = (if \<not> fe_graph_api cfg2
                  then multierror_append err2 (Errorf ''graph API has not been provided'') else err2);
          cfg3 = cfg2\<lparr>fe_logger := True\<rparr>
      in (err3, cfg3))"

datatype handler = RenderIndexPage | RenderSearchResults | SubmitLink | Render404Page

definition index_endpoint :: string where "index_endpoint = ''/''"
definition search_endpoint :: string where "search_endpoint = ''/search''"
definition submit_link_endpoint :: string where "submit_link_endpoint = ''/submit/site''"

record fe_service =
  fe_cfg :: fe_config
  fe_routes :: "(string \<times> handler \<times> string list) list"
  fe_not_found :: handler

definition new_fe_service :: "fe_config \<Rightarrow> go_error + fe_service" where
  "new_fe_service cfg =
     (case fe_validate cfg of
        (Some err, _) \<Rightarrow> Inl (Wrap ''front-end service: config validation failed'' err)
      | (None, cfg') \<Rightarrow>
          Inr \<lparr>fe_cfg = cfg',
               fe_routes = [(index_endpoint, RenderIndexPage, [''GET'']),
                            (search_endpoint, RenderSearchResults, [''GET'']),
                            (submit_link_endpoint, SubmitLink, [''GET'', ''POST''])],
               fe_not_found = Render404Page\<rparr>)"

text \<open>
  \<^verbatim>\<open>Run\<close>, with what \<^verbatim>\<open>net.Listen\<close> and \<^verbatim>\<open>Serve\<close> answer.
\<close>

definition err_server_closed :: go_error where
  "err_server_closed = External ''http: Server closed''"

definition fe_run :: "go_error option \<Rightarrow> go_error \<Rightarrow> go_error option" where
  "fe_run listen_err serve_err =
     (case listen_err of
        Some err \<Rightarrow> Some err
      | None \<Rightarrow> if serve_err = err_server_closed then None else Some serve_err)"

section \<open>Pages\<close>

record pagination =
  pg_from :: int
  pg_to :: int
  pg_total :: int
  pg_prev_link :: string
  pg_next_link :: string

record matched_doc =
  md_doc :: document
  md_summary :: string

definition matched_doc_url :: "matched_doc \<Rightarrow> string" where
  "matched_doc_url d = doc_url (md_doc d)"

definition matched_doc_title :: "matched_doc \<Rightarrow> string" where
  "matched_doc_title d = (if doc_title (md_doc d) \<noteq> [] then doc_title (md_doc d) else doc_url (md_doc d))"

text \<open>The templates with the data that varies; the endpoints are constants.\<close>

datatype page =
    IndexPage
  | MsgPage string string string          \<comment> \<open>search terms, title, content\<close>
  | SubmitLinkPage string
  | ResultsPage string pagination "matched_doc list"

datatype response_action = WriteHeader nat | ExecuteTemplate page

text \<open>The status a client receives.\<close>

fun response_status :: "response_action list \<Rightarrow> nat" where
  "response_status (WriteHeader n # _) = n"
| "response_status _ = 200"

definition render_index_page :: "response_action list" where
  "render_index_page = [ExecuteTemplate IndexPage]"

definition render_404_page :: "response_action list" where
  "render_404_page = [ExecuteTemplate (MsgPage [] ''Page not found'' ''Page not found.'')]"

definition render_search_error_page :: "string \<Rightarrow> response_action list" where
  "render_search_error_page searchTerms =
     [WriteHeader 500,
      ExecuteTemplate (MsgPage searchTerms ''Error'' ''An error occurred; please try again later.'')]"

section \<open>Submitting links\<close>

text \<open>
  \<open>form\<close> is what \<^verbatim>\<open>ParseForm\<close> gives: an error, or the form.
\<close>

definition invalid_url_msg :: string where
  "invalid_url_msg = ''Invalid web site URL.''"

definition submit_link ::
  "'r url_pkg \<Rightarrow> (link \<Rightarrow> 's \<Rightarrow> go_error option \<times> 's) \<Rightarrow> string \<Rightarrow> go_error + (string \<Rightarrow> string) \<Rightarrow> 's \<Rightarrow>
   response_action list \<times> 's" where
  "submit_link P upsert_link meth form s =
     (if meth = ''POST'' then
        (case form of
           Inl _ \<Rightarrow> ([WriteHeader 400, ExecuteTemplate (SubmitLinkPage invalid_url_msg)], s)
         | Inr f \<Rightarrow>
             (case url_parse P (f ''link'') of
                Inl _ \<Rightarrow> ([WriteHeader 400, ExecuteTemplate (SubmitLinkPage invalid_url_msg)], s)
              | Inr link \<Rightarrow>
                  if u_scheme link \<noteq> ''http'' \<and> u_scheme link \<noteq> ''https''
                  then ([WriteHeader 400, ExecuteTemplate (SubmitLinkPage invalid_url_msg)], s)
                  else (case upsert_link (zero_link\<lparr>link_url := url_string P (link\<lparr>u_fragment := []\<rparr>)\<rparr>) s of
                          (Some err, s') \<Rightarrow>
                            ([WriteHeader 500, ExecuteTemplate (SubmitLinkPage
                               ''An error occurred while adding web site to our index; please try again later.'')], s')
                        | (None, s') \<Rightarrow>
                            ([ExecuteTemplate (SubmitLinkPage ''Web site was successfully submitted!'')], s'))))
      else ([WriteHeader 400, ExecuteTemplate (SubmitLinkPage [])], s))"

section \<open>Searching\<close>

record text_env =
  te_unicode :: unicode_tables
  te_f32 :: "real \<Rightarrow> real"
  te_sort :: "snippet list \<Rightarrow> snippet list"
  te_cap :: "nat \<Rightarrow> nat"

definition highlighted_summary :: "text_env \<Rightarrow> summarizer \<Rightarrow> nat list list \<Rightarrow> string \<Rightarrow> string outcome" where
  "highlighted_summary E sm hl content =
     outcome_bind (match_summary (te_unicode E) (te_f32 E) (te_sort E) (te_cap E) sm content)
       (\<lambda>summary. Returns (highlight (te_unicode E) hl (html_escape summary)))"

text \<open>The loop over the results; it stops after \<open>n\<close> documents.\<close>

fun match_docs :: "text_env \<Rightarrow> summarizer \<Rightarrow> nat list list \<Rightarrow> nat \<Rightarrow> document list \<Rightarrow> matched_doc list outcome" where
  "match_docs E sm hl n [] = Returns []"
| "match_docs E sm hl 0 (d # ds) = Returns []"
| "match_docs E sm hl (Suc n) (d # ds) =
     outcome_bind (highlighted_summary E sm hl (doc_content d)) (\<lambda>summary.
       outcome_bind (match_docs E sm hl n ds) (\<lambda>ms.
         Returns (\<lparr>md_doc = d, md_summary = summary\<rparr> # ms)))"

text \<open>
  \<^verbatim>\<open>resultIt.Error()\<close> after the loop: the iterator has been asked for one document more than a
  page holds, unless it ended before.
\<close>

definition search_error :: "doc_iterator \<Rightarrow> nat \<Rightarrow> go_error option" where
  "search_error it n = (if length (it_items it) > n then None else it_error it)"

definition is_phrase :: "string \<Rightarrow> bool" where
  "is_phrase searchTerms \<longleftrightarrow> has_prefix searchTerms [CHR 0x22] \<and> has_suffix searchTerms [CHR 0x22]"

definition page_link :: "string \<Rightarrow> string" where
  "page_link searchTerms = search_endpoint @ ''?q='' @ searchTerms"

definition offset_link :: "string \<Rightarrow> int \<Rightarrow> string" where
  "offset_link searchTerms offset = page_link searchTerms @ ''&offset='' @ dec_int offset"

definition paginate :: "int \<Rightarrow> string \<Rightarrow> 64 word \<Rightarrow> nat \<Rightarrow> 64 word \<Rightarrow> pagination" where
  "paginate resultsPerPage searchTerms offset shown totalCount =
     (let to = wrap64 (int_of_u64 offset + int shown);
          tot = int_of_u64 totalCount;
          prevOffset = wrap64 (int_of_u64 offset - resultsPerPage)
      in \<lparr>pg_from = int_of_u64 (offset + 1), pg_to = to, pg_total = tot,
          pg_prev_link = (if offset > 0
                          then (if prevOffset > 0 then offset_link searchTerms prevOffset else page_link searchTerms)
                          else []),
          pg_next_link = (if to < tot then offset_link searchTerms to else [])\<rparr>)"

definition make_query :: "string \<Rightarrow> 64 word \<Rightarrow> query" where
  "make_query searchTerms offset =
     \<lparr>query_type = (if is_phrase searchTerms then QueryTypePhrase else QueryTypeMatch),
      query_expression = searchTerms, query_offset = offset\<rparr>"

definition run_query ::
  "text_env \<Rightarrow> fe_config \<Rightarrow> (query \<Rightarrow> go_error + doc_iterator) \<Rightarrow> string \<Rightarrow> 64 word \<Rightarrow>
   (matched_doc list \<times> pagination) outcome" where
  "run_query E cfg search searchTerms0 offset =
     (let searchTerms = (if is_phrase searchTerms0 then trim_byte (CHR 0x22) searchTerms0 else searchTerms0)
      in (case search (make_query searchTerms0 offset) of
            Inl err \<Rightarrow> Fails err
          | Inr resultIt \<Rightarrow>
              let n = nat (fe_results_per_page cfg) in
              outcome_bind
                (match_docs E (new_match_summarizer searchTerms (fe_max_summary_length cfg))
                   (new_match_highlighter searchTerms) n (it_items resultIt))
                (\<lambda>matchedDocs.
                   case search_error resultIt n of
                     Some err \<Rightarrow> Fails err
                   | None \<Rightarrow> Returns (matchedDocs,
                       paginate (fe_results_per_page cfg) searchTerms offset (length matchedDocs) (it_total resultIt)))))"

text \<open>\<open>get\<close> reads a parameter of the request; the error of a malformed offset is dropped.\<close>

definition render_search_results ::
  "text_env \<Rightarrow> fe_config \<Rightarrow> (query \<Rightarrow> go_error + doc_iterator) \<Rightarrow> (page \<Rightarrow> go_error option) \<Rightarrow>
   (string \<Rightarrow> string) \<Rightarrow> response_action list outcome" where
  "render_search_results E cfg search execute_err get =
     (let searchTerms = get ''q'';
          offset = of_nat (fst (parse_uint 64 (get ''offset'')))
      in (case run_query E cfg search searchTerms offset of
            Panics m \<Rightarrow> Panics m
          | Fails _ \<Rightarrow> Returns (render_search_error_page searchTerms)
          | Returns (matchedDocs, pg) \<Rightarrow>
              let p = ResultsPage searchTerms pg matchedDocs in
              Returns (ExecuteTemplate p # (if execute_err p \<noteq> None then [WriteHeader 500] else []))))"

section \<open>Properties\<close>

lemma match_docs_docs:
  "match_docs E sm hl n ds = Returns ms \<Longrightarrow> map md_doc ms = take n ds"
  by (induction E sm hl n ds arbitrary: ms rule: match_docs.induct) auto

lemma match_docs_summaries:
  "match_docs E sm hl n ds = Returns ms \<Longrightarrow> m \<in> set ms \<Longrightarrow>
    highlighted_summary E sm hl (doc_content (md_doc m)) = Returns (md_summary m)"
  by (induction E sm hl n ds arbitrary: ms rule: match_docs.induct) auto

lemma highlighted_summary_Returns:
  "highlighted_summary E sm hl content = Returns t \<longleftrightarrow>
     (\<exists>summary. match_summary (te_unicode E) (te_f32 E) (te_sort E) (te_cap E) sm content = Returns summary \<and>
        t = highlight (te_unicode E) hl (html_escape summary))"
  by (cases "match_summary (te_unicode E) (te_f32 E) (te_sort E) (te_cap E) sm content")
    (auto simp: highlighted_summary_def)

lemma uint_of_nat_small: "n < 2 ^ 63 \<Longrightarrow> uint (of_nat n :: 64 word) = int n"
  by (simp add: unsigned_of_nat take_bit_nat_eq_self_iff)

lemma int_of_u64_of_nat: "n < 2 ^ 63 \<Longrightarrow> int_of_u64 (of_nat n) = int n"
  by (subst int_of_u64_small) (simp_all add: uint_of_nat_small)

lemma of_nat_word_positive: "n < 2 ^ 63 \<Longrightarrow> (0 < (of_nat n :: 64 word)) = (0 < n)"
  by (simp add: word_less_def uint_of_nat_small)

text \<open>The terms of a query: those of a phrase query are without the quotes.\<close>

definition search_terms :: "string \<Rightarrow> string" where
  "search_terms q = (if is_phrase q then trim_byte (CHR 0x22) q else q)"

text \<open>
  C24. A page of search results.  When the index answers a query, phrase or not, with the
  documents from the offset on, the page has the next documents up to the page size.  The summary
  of each is MatchSummary of its content for the query's terms and the configured length, escaped
  for HTML and then highlighted for these terms: the escaped text with em tags around parts of it.
  The page reports the positions of its documents and the total, links to the following page
  exactly when there are more documents, and to the preceding page exactly when it is not the
  first; the links carry the query's terms.
\<close>

theorem search_page_contents:
  assumes size: "fe_results_per_page cfg = int r" "0 < r"
    and search: "search (make_query q (of_nat k)) = Inr it"
      "it_items it = drop k docs" "it_total it = of_nat (length docs)"
    and bounds: "k \<le> length docs" "length docs + r < 2 ^ 63"
    and run: "run_query E cfg search q (of_nat k) = Returns (ms, pg)"
  shows "map md_doc ms = take r (drop k docs) \<and>
    (\<forall>m \<in> set ms. (\<exists>summary. tagged (html_escape summary) (md_summary m) \<and> match_summary (te_unicode E) (te_f32 E) (te_sort E) (te_cap E)
            (new_match_summarizer (search_terms q) (fe_max_summary_length cfg)) (doc_content (md_doc m)) = Returns summary \<and>
          md_summary m = highlight (te_unicode E) (new_match_highlighter (search_terms q)) (html_escape summary))) \<and>
    pg_from pg = int k + 1 \<and> pg_to pg = min (int k + int r) (int (length docs)) \<and> pg_total pg = int (length docs) \<and>
    pg_next_link pg = (if k + r < length docs then offset_link (search_terms q) (int k + int r) else []) \<and>
    pg_prev_link pg = (if k = 0 then [] else if k \<le> r then page_link (search_terms q)
      else offset_link (search_terms q) (int k - int r))"
proof -
  from run search(1) have ms: "match_docs E (new_match_summarizer (search_terms q) (fe_max_summary_length cfg))
        (new_match_highlighter (search_terms q)) r (drop k docs) = Returns ms"
    and pg: "pg = paginate (int r) (search_terms q) (of_nat k) (length ms) (of_nat (length docs))"
    by (auto simp: run_query_def search_terms_def [symmetric] Let_def size search(2,3) split: option.splits)
  have docs: "map md_doc ms = take r (drop k docs)"
    using ms by (rule match_docs_docs)
  have summaries: "(\<exists>summary. tagged (html_escape summary) (md_summary m) \<and> match_summary (te_unicode E) (te_f32 E) (te_sort E) (te_cap E)
            (new_match_summarizer (search_terms q) (fe_max_summary_length cfg)) (doc_content (md_doc m)) = Returns summary \<and>
          md_summary m = highlight (te_unicode E) (new_match_highlighter (search_terms q)) (html_escape summary))"
    if "m \<in> set ms" for m
  proof -
    have "highlighted_summary E (new_match_summarizer (search_terms q) (fe_max_summary_length cfg))
        (new_match_highlighter (search_terms q)) (doc_content (md_doc m)) = Returns (md_summary m)"
      by (rule match_docs_summaries [OF ms that])
    then obtain summary where summary: "match_summary (te_unicode E) (te_f32 E) (te_sort E) (te_cap E)
            (new_match_summarizer (search_terms q) (fe_max_summary_length cfg)) (doc_content (md_doc m)) = Returns summary"
      "md_summary m = highlight (te_unicode E) (new_match_highlighter (search_terms q)) (html_escape summary)"
      unfolding highlighted_summary_Returns by blast
    have "tagged (html_escape summary) (md_summary m)"
      unfolding summary(2) by (rule highlight_tagged [OF tagged_refl])
    then show ?thesis using summary by blast
  qed
  from docs have len: "length ms = min (length docs - k) r"
    by (metis length_map length_take length_drop min.commute)
  have k: "k < 2 ^ 63" "k + 1 < 2 ^ 63" using bounds size by linarith+
  have suc: "(of_nat k :: 64 word) + 1 = of_nat (k + 1)" by simp
  have offset: "int_of_u64 (of_nat k) = int k" and from_k: "int_of_u64 (of_nat k + 1) = int k + 1"
    and total_docs: "int_of_u64 (of_nat (length docs)) = int (length docs)"
    unfolding suc using k bounds int_of_u64_of_nat [of k] int_of_u64_of_nat [of "k + 1"]
      int_of_u64_of_nat [of "length docs"] by simp_all
  have to: "wrap64 (int k + int (length ms)) = min (int k + int r) (int (length docs))"
    using len bounds by (subst wrap64_id) (auto simp: min_def)
  have prev: "wrap64 (int k - int r) = int k - int r"
    using k bounds by (intro wrap64_id) auto
  have paging: "pg_from pg = int k + 1 \<and> pg_to pg = min (int k + int r) (int (length docs)) \<and> pg_total pg = int (length docs) \<and>
    pg_next_link pg = (if k + r < length docs then offset_link (search_terms q) (int k + int r) else []) \<and>
    pg_prev_link pg = (if k = 0 then [] else if k \<le> r then page_link (search_terms q)
      else offset_link (search_terms q) (int k - int r))"
    using bounds(1) unfolding pg
    by (simp add: paginate_def Let_def offset from_k total_docs to prev of_nat_word_positive [OF k(1)])
  show ?thesis by (rule conjI [OF docs conjI [OF ballI [OF summaries] paging]])
qed

definition plain_env :: text_env where
  "plain_env = \<lparr>te_unicode = ascii_only, te_f32 = id, te_sort = stable_by_ratio, te_cap = id\<rparr>"

definition plain_cfg :: fe_config where
  "plain_cfg = \<lparr>fe_graph_api = True, fe_index_api = True, fe_listen_addr = '':0'', fe_results_per_page = 1,
     fe_max_summary_length = 256, fe_logger = True\<rparr>"

definition results_from :: "document list \<Rightarrow> query \<Rightarrow> go_error + doc_iterator" where
  "results_from docs qy = Inr \<lparr>it_items = drop (unat (query_offset qy)) docs, it_error = None, it_close = None,
     it_total = of_nat (length docs)\<rparr>"

lemma run_query_plain:
  assumes "doc_content d = []"
  shows "\<exists>ms. run_query plain_env plain_cfg (results_from (replicate 3 d)) q 1 =
    Returns (ms, paginate 1 (if is_phrase q then trim_byte (CHR 0x22) q else q) 1 1 3)"
proof -
  have empty: "match_summary ascii_only id stable_by_ratio id sm [] = Returns []" for sm
    by (simp add: match_summary_def snippets_for_summary_def sentences_short max_token_size_def scan_sentence_def
        scan_rune_def stable_by_ratio_def trim_space_def trim_left.simps space_seqs_def)
  show ?thesis
    by (simp add: run_query_def results_from_def make_query_def plain_env_def plain_cfg_def Let_def
        numeral_3_eq_3 highlighted_summary_def empty assms search_error_def)
qed

text \<open>A page of one result, of a phrase query.\<close>

definition map_document :: document where
  "map_document = zero_document\<lparr>doc_content := ''A map < 1''\<rparr>"

definition quoted_map :: string where
  "quoted_map = CHR 0x22 # ''map'' @ [CHR 0x22]"

lemma map_terms: "search_terms quoted_map = ''map''"
  by (simp add: search_terms_def quoted_map_def is_phrase_def has_suffix_def trim_byte_def)

lemma map_escaped: "html_escape ''A map < 1.'' = ''A map &lt; 1.''"
  by code_simp

lemma map_summary:
  "highlighted_summary plain_env (new_match_summarizer ''map'' 256) (new_match_highlighter ''map'') ''A map < 1'' =
     Returns ''A <em>map</em> &lt; 1.''"
proof -
  have h: "new_match_summarizer ''map'' 256 = \<lparr>sum_terms = [''map''], sum_max_len = 256\<rparr>"
    "new_match_highlighter ''map'' = [[109, 97, 112]]"
    by (simp_all add: new_match_summarizer_def new_match_highlighter_def query_terms_def trim_byte_def str_fields_def valid_utf8_def
      runes_def scan_eval)
  have s: "sentences ascii_only ''A map < 1'' = [''A map < 1'']"
    by (simp add: sentences_short max_token_size_def scan_eval)
  have m: "matching_snippets ascii_only id \<lparr>sum_terms = [''map''], sum_max_len = 256\<rparr> 0 [''A map < 1''] =
      [\<lparr>sn_ordinal = 0, sn_text = ''A map < 1'', sn_match_ratio = 1 / 4\<rparr>]"
    by (simp add: ratio_eval scan_eval)
  have sum: "match_summary ascii_only id stable_by_ratio id \<lparr>sum_terms = [''map''], sum_max_len = 256\<rparr> ''A map < 1'' =
      Returns (trim_space ''A map < 1.'')"
    unfolding match_summary_def snippets_for_summary_def s m by (simp add: stable_by_ratio_def has_suffix_def)
  have trim: "trim_space ''A map < 1.'' = ''A map < 1.''" by code_simp
  have hl: "highlight ascii_only [[109, 97, 112]] (html_escape ''A map < 1.'') = ''A <em>map</em> &lt; 1.''"
    by (subst map_escaped, unfold highlight.simps)
      (simp add: highlight_pieces.simps literal_matches_def fold_eq_def ascii_lower_def scan_eval)
  show ?thesis
    unfolding highlighted_summary_def h by (simp add: plain_env_def sum trim hl del: highlight.simps)
qed

lemma map_page:
  "run_query plain_env plain_cfg (results_from (replicate 3 map_document)) quoted_map 1 =
     Returns ([\<lparr>md_doc = map_document, md_summary = ''A <em>map</em> &lt; 1.''\<rparr>], paginate 1 ''map'' 1 1 3)"
proof -
  have cfg: "fe_results_per_page plain_cfg = 1" "fe_max_summary_length plain_cfg = 256"
    by (simp_all add: plain_cfg_def)
  have two: "replicate 2 map_document = [map_document, map_document]" by (simp add: numeral_2_eq_2)
  have content: "doc_content map_document = ''A map < 1''" by (simp add: map_document_def)
  show ?thesis
    unfolding run_query_def search_terms_def [symmetric] map_terms cfg results_from_def make_query_def
    by (simp add: Let_def two content map_summary search_error_def)
qed

theorem search_page_contents_witness:
  "\<exists>m pg. run_query plain_env plain_cfg (results_from (replicate 3 map_document)) quoted_map 1 = Returns ([m], pg) \<and>
     md_doc m = map_document \<and> md_summary m = ''A <em>map</em> &lt; 1.'' \<and>
     (\<exists>summary. tagged (html_escape summary) (md_summary m)) \<and>
     pg_next_link pg = ''/search?q=map&offset=2'' \<and> pg_prev_link pg = ''/search?q=map''"
proof -
  have two: "dec_int 2 = ''2''" by code_simp
  let ?m = "\<lparr>md_doc = map_document, md_summary = ''A <em>map</em> &lt; 1.''\<rparr>"
  let ?pg = "paginate 1 ''map'' 1 1 3"
  have page: "map md_doc [?m] = take 1 (drop 1 (replicate 3 map_document)) \<and>
    (\<forall>m \<in> set [?m]. (\<exists>summary. tagged (html_escape summary) (md_summary m) \<and>
       match_summary (te_unicode plain_env) (te_f32 plain_env) (te_sort plain_env) (te_cap plain_env)
            (new_match_summarizer (search_terms quoted_map) (fe_max_summary_length plain_cfg)) (doc_content (md_doc m)) = Returns summary \<and>
          md_summary m = highlight (te_unicode plain_env) (new_match_highlighter (search_terms quoted_map)) (html_escape summary))) \<and>
    pg_from ?pg = int 1 + 1 \<and> pg_to ?pg = min (int 1 + int 1) (int (length (replicate 3 map_document))) \<and>
    pg_total ?pg = int (length (replicate 3 map_document)) \<and>
    pg_next_link ?pg = (if 1 + 1 < length (replicate 3 map_document) then offset_link (search_terms quoted_map) (int 1 + int 1) else []) \<and>
    pg_prev_link ?pg = (if (1 :: nat) = 0 then [] else if (1 :: nat) \<le> 1 then page_link (search_terms quoted_map)
      else offset_link (search_terms quoted_map) (int 1 - int 1))"
    by (rule search_page_contents [where search = "results_from (replicate 3 map_document)" and cfg = plain_cfg and k = 1
        and it = "\<lparr>it_items = drop 1 (replicate 3 map_document), it_error = None, it_close = None, it_total = of_nat 3\<rparr>"])
      (simp_all add: map_page [simplified], simp_all add: plain_cfg_def results_from_def make_query_def)
  show ?thesis
    using page map_page by (auto simp: offset_link_def page_link_def search_endpoint_def two map_terms)
qed

text \<open>
  The pages of a phrase query.  A query in quotes is executed as a phrase query, but the
  links to its other pages carry the terms without the quotes, so following one runs a match
  query instead.
\<close>

theorem phrase_pages_lose_quotes:
  assumes q: "q = CHR 0x22 # t @ [CHR 0x22]" "CHR 0x22 \<notin> set t"
    and run: "run_query E cfg search q offset = Returns (ms, pg)"
    and "next": "pg_next_link pg \<noteq> []"
  shows "query_type (make_query q offset) = QueryTypePhrase \<and>
    (\<exists>n. pg_next_link pg = offset_link t n) \<and> query_type (make_query t offset') = QueryTypeMatch"
proof -
  have phrase: "is_phrase q" by (simp add: q is_phrase_def has_suffix_def)
  have no_phrase: "\<not> is_phrase t"
    using q(2) by (cases t) (auto simp: is_phrase_def)
  have dw: "dropWhile (\<lambda>x. x = c) s = s" if "c \<notin> set s" for c and s :: string
    using that by (cases s) auto
  have trim: "trim_byte (CHR 0x22) q = t"
  proof (cases "t = []")
    case True
    then show ?thesis by (simp add: q trim_byte_def)
  next
    case False
    have "dropWhile (\<lambda>x. x = CHR 0x22) (t @ [CHR 0x22]) = t @ [CHR 0x22]"
      using q(2) False by (cases t) auto
    then show ?thesis using q(2) dw [of "CHR 0x22" "rev t"] by (simp add: q trim_byte_def)
  qed
  obtain r p k c tot where pg: "pg = paginate r t k c tot"
    using run phrase by (auto simp: run_query_def Let_def trim split: sum.splits option.splits)
  have "\<exists>n. pg_next_link pg = offset_link t n"
    using "next" unfolding pg by (auto simp: paginate_def Let_def split: if_splits)
  then show ?thesis using phrase no_phrase by (simp add: make_query_def)
qed

theorem phrase_pages_lose_quotes_witness:
  "\<exists>ms pg n. run_query plain_env plain_cfg (results_from (replicate 3 zero_document)) [CHR 0x22, CHR ''a'', CHR 0x22] 1
      = Returns (ms, pg) \<and> pg_next_link pg = offset_link ''a'' n"
proof -
  have trim: "trim_byte (CHR 0x22) [CHR 0x22, CHR ''a'', CHR 0x22] = ''a''" by (simp add: trim_byte_def)
  have phrase: "is_phrase [CHR 0x22, CHR ''a'', CHR 0x22]" by (simp add: is_phrase_def has_suffix_def)
  obtain ms where run: "run_query plain_env plain_cfg (results_from (replicate 3 zero_document))
      [CHR 0x22, CHR ''a'', CHR 0x22] 1 = Returns (ms, paginate 1 ''a'' 1 1 3)"
    using run_query_plain [of zero_document "[CHR 0x22, CHR ''a'', CHR 0x22]"] trim phrase by (auto simp: zero_document_def)
  have "pg_next_link (paginate 1 ''a'' 1 1 3) \<noteq> []"
    by (simp add: paginate_def Let_def wrap64_def int_of_u64_def offset_link_def page_link_def search_endpoint_def)
  then show ?thesis
    using phrase_pages_lose_quotes [of _ "''a''", OF _ _ run] run by auto
qed

text \<open>The URL a request submits, if it is a valid submission.\<close>

definition submitted_url :: "'r url_pkg \<Rightarrow> string \<Rightarrow> go_error + (string \<Rightarrow> string) \<Rightarrow> string option" where
  "submitted_url P meth form =
     (case (meth = ''POST'', form) of
        (True, Inr f) \<Rightarrow>
          (case url_parse P (f ''link'') of
             Inr u \<Rightarrow> if u_scheme u \<in> {''http'', ''https''} then Some (url_string P (u\<lparr>u_fragment := []\<rparr>)) else None
           | Inl _ \<Rightarrow> None)
      | _ \<Rightarrow> None)"

text \<open>
  C25. Submitting a site.  The link graph is only touched by a POST whose form parses and whose
  address is an http or https URL; what is upserted is that URL without its fragment, and the
  answer is 200 or, when the graph fails, 500.  Every other request is answered with 400, also
  the GET that shows the form.
\<close>

theorem submit_link_touches_graph_only_for_valid_posts:
  "(let (actions, s') = submit_link P upsert_link meth form s in
      case submitted_url P meth form of
        None \<Rightarrow> s' = s \<and> response_status actions = 400
      | Some u \<Rightarrow>
          (\<exists>err. upsert_link (zero_link\<lparr>link_url := u\<rparr>) s = (err, s') \<and>
             response_status actions = (if err = None then 200 else 500)))"
  by (auto simp: submit_link_def submitted_url_def split: sum.splits prod.splits option.splits)

text \<open>The page of unknown addresses is served with status 200, and so is a broken results page.\<close>

lemma not_found_page_status: "response_status render_404_page = 200"
  by (simp add: render_404_page_def)

end
