(* ===== verification/GraphApi.thy ===== *)
theory GraphApi
  imports LinkGraph Partition
begin

text \<open>
  The gRPC layer of the link graph (\<^verbatim>\<open>graph/graphapi/server.go\<close>, \<^verbatim>\<open>client.go\<close>): the server's
  handlers on a graph, the client's calls on a connection, and the client's iterators over
  streams.

  Parameters: the conversions of \<^verbatim>\<open>ptypes\<close>, the graph behind the server, and the connection,
  which turns a server's error into the one the client sees.
\<close>

section \<open>Messages\<close>

text \<open>A field of a message type is a pointer and may be nil.\<close>

record proto_timestamp =
  pts_seconds :: int
  pts_nanos :: int

record proto_link =
  pbl_uuid :: "byte list"
  pbl_url :: string
  pbl_retrieved_at :: "proto_timestamp option"

record proto_edge =
  pbe_uuid :: "byte list"
  pbe_src_uuid :: "byte list"
  pbe_dst_uuid :: "byte list"
  pbe_updated_at :: "proto_timestamp option"

record proto_range =
  pbr_from_uuid :: "byte list"
  pbr_to_uuid :: "byte list"
  pbr_filter :: "proto_timestamp option"

record proto_remove_query =
  pbq_from_uuid :: "byte list"
  pbq_updated_before :: "proto_timestamp option"

text \<open>
  \<^verbatim>\<open>ptypes.Timestamp\<close> returns a time along with its error.  \<open>ptypes_ok\<close> is what the package
  documents: the times from year 1 to year 9999 survive the way there and back, and nil is an
  error.
\<close>

record ptypes_pkg =
  pt_timestamp :: "proto_timestamp option \<Rightarrow> go_time \<times> go_error option"
  pt_timestamp_proto :: "go_time \<Rightarrow> go_error + proto_timestamp"

definition proto_time :: "go_time \<Rightarrow> bool" where
  "proto_time t \<longleftrightarrow> zero_time \<le> t \<and> t < 253402300800 * 1000000000"

definition ptypes_ok :: "ptypes_pkg \<Rightarrow> bool" where
  "ptypes_ok P \<longleftrightarrow>
     (\<forall>t. proto_time t \<longrightarrow> (\<exists>ts. pt_timestamp_proto P t = Inr ts \<and> pt_timestamp P (Some ts) = (t, None))) \<and>
     (\<forall>t. \<not> proto_time t \<longrightarrow> (\<exists>err. pt_timestamp_proto P t = Inl err)) \<and>
     (\<exists>t err. pt_timestamp P None = (t, Some err))"

definition uuid_from_bytes :: "byte list \<Rightarrow> uuid" where
  "uuid_from_bytes b = (if length b \<noteq> 16 then uuid_nil else uuid_of_bytes b)"

definition time_to_proto :: "ptypes_pkg \<Rightarrow> go_time \<Rightarrow> proto_timestamp option" where
  "time_to_proto P t = (case pt_timestamp_proto P t of Inl _ \<Rightarrow> None | Inr ts \<Rightarrow> Some ts)"

lemma uuid_from_bytes_bytes [simp]: "uuid_from_bytes (uuid_bytes u) = u"
  by (simp add: uuid_from_bytes_def)

section \<open>The server\<close>

definition link_to_proto :: "ptypes_pkg \<Rightarrow> link \<Rightarrow> proto_link" where
  "link_to_proto P l = \<lparr>pbl_uuid = uuid_bytes (link_id l), pbl_url = link_url l,
     pbl_retrieved_at = time_to_proto P (link_retrieved_at l)\<rparr>"

definition server_upsert_link ::
  "ptypes_pkg \<Rightarrow> (link \<Rightarrow> 's \<Rightarrow> link outcome \<times> 's) \<Rightarrow> proto_link \<Rightarrow> 's \<Rightarrow> proto_link outcome \<times> 's" where
  "server_upsert_link P upsert_link req s =
     (case pt_timestamp P (pbl_retrieved_at req) of
        (_, Some err) \<Rightarrow> (Fails err, s)
      | (t, None) \<Rightarrow>
          (case upsert_link \<lparr>link_id = uuid_from_bytes (pbl_uuid req), link_url = pbl_url req, link_retrieved_at = t\<rparr> s of
             (Fails err, s') \<Rightarrow> (Fails err, s')
           | (Panics m, s') \<Rightarrow> (Panics m, s')
           | (Returns link, s') \<Rightarrow> (Returns (link_to_proto P link), s')))"

definition edge_to_proto :: "ptypes_pkg \<Rightarrow> edge \<Rightarrow> proto_edge" where
  "edge_to_proto P e = \<lparr>pbe_uuid = uuid_bytes (edge_id e), pbe_src_uuid = uuid_bytes (edge_src e),
     pbe_dst_uuid = uuid_bytes (edge_dst e), pbe_updated_at = time_to_proto P (edge_updated_at e)\<rparr>"

definition server_upsert_edge ::
  "ptypes_pkg \<Rightarrow> (edge \<Rightarrow> 's \<Rightarrow> edge outcome \<times> 's) \<Rightarrow> proto_edge \<Rightarrow> 's \<Rightarrow> proto_edge outcome \<times> 's" where
  "server_upsert_edge P upsert_edge req s =
     (case upsert_edge (zero_edge\<lparr>edge_id := uuid_from_bytes (pbe_uuid req), edge_src := uuid_from_bytes (pbe_src_uuid req),
                                  edge_dst := uuid_from_bytes (pbe_dst_uuid req)\<rparr>) s of
        (Fails err, s') \<Rightarrow> (Fails err, s')
      | (Panics m, s') \<Rightarrow> (Panics m, s')
      | (Returns edge, s') \<Rightarrow> (Returns (edge_to_proto P edge), s'))"

text \<open>
  A streaming handler sends messages until sending number \<open>k\<close> fails; the result is what was
  sent and the status the stream ends with.
\<close>

fun send_all :: "(nat \<Rightarrow> go_error option) \<Rightarrow> nat \<Rightarrow> 'm list \<Rightarrow> 'm list \<times> go_error option" where
  "send_all send_err k [] = ([], None)"
| "send_all send_err k (m # ms) =
     (case send_err k of
        Some err \<Rightarrow> ([], Some err)
      | None \<Rightarrow> (let (sent, status) = send_all send_err (Suc k) ms in (m # sent, status)))"

definition stream_items :: "(nat \<Rightarrow> go_error option) \<Rightarrow> ('a \<Rightarrow> 'm) \<Rightarrow> 'a api_iterator \<Rightarrow> 'm list \<times> go_error option" where
  "stream_items send_err msg it =
     (case send_all send_err 0 (map msg (it_items it)) of
        (sent, Some err) \<Rightarrow> (sent, Some err)
      | (sent, None) \<Rightarrow> (sent, case it_error it of Some err \<Rightarrow> Some err | None \<Rightarrow> it_close it))"

text \<open>\<^verbatim>\<open>Links\<close> and \<^verbatim>\<open>Edges\<close> differ in the graph's method and the message.\<close>

definition server_range ::
  "uuid_pkg \<Rightarrow> ptypes_pkg \<Rightarrow> (uuid \<Rightarrow> uuid \<Rightarrow> go_time \<Rightarrow> go_error + 'a api_iterator) \<Rightarrow> ('a \<Rightarrow> 'm) \<Rightarrow>
   (nat \<Rightarrow> go_error option) \<Rightarrow> proto_range \<Rightarrow> 'm list \<times> go_error option" where
  "server_range L P api msg send_err idRange =
     (let (before, err) = pt_timestamp P (pbr_filter idRange)
      in if err \<noteq> None \<and> pbr_filter idRange \<noteq> None then ([], err)
         else (case up_from_bytes L (pbr_from_uuid idRange) of
                 Inl err \<Rightarrow> ([], Some err)
               | Inr fromID \<Rightarrow>
                   (case up_from_bytes L (pbr_to_uuid idRange) of
                      Inl err \<Rightarrow> ([], Some err)
                    | Inr toID \<Rightarrow>
                        (case api fromID toID before of
                           Inl err \<Rightarrow> ([], Some err)
                         | Inr it \<Rightarrow> stream_items send_err msg it))))"

definition server_links ::
  "uuid_pkg \<Rightarrow> ptypes_pkg \<Rightarrow> (uuid \<Rightarrow> uuid \<Rightarrow> go_time \<Rightarrow> go_error + link api_iterator) \<Rightarrow>
   (nat \<Rightarrow> go_error option) \<Rightarrow> proto_range \<Rightarrow> proto_link list \<times> go_error option" where
  "server_links L P links_api = server_range L P links_api (link_to_proto P)"

definition server_edges ::
  "uuid_pkg \<Rightarrow> ptypes_pkg \<Rightarrow> (uuid \<Rightarrow> uuid \<Rightarrow> go_time \<Rightarrow> go_error + edge api_iterator) \<Rightarrow>
   (nat \<Rightarrow> go_error option) \<Rightarrow> proto_range \<Rightarrow> proto_edge list \<times> go_error option" where
  "server_edges L P edges_api = server_range L P edges_api (edge_to_proto P)"

definition server_remove_stale_edges ::
  "ptypes_pkg \<Rightarrow> (uuid \<Rightarrow> go_time \<Rightarrow> 's \<Rightarrow> unit outcome \<times> 's) \<Rightarrow> proto_remove_query \<Rightarrow> 's \<Rightarrow> unit outcome \<times> 's" where
  "server_remove_stale_edges P remove_stale_edges req s =
     (case pt_timestamp P (pbq_updated_before req) of
        (_, Some err) \<Rightarrow> (Fails err, s)
      | (t, None) \<Rightarrow> remove_stale_edges (uuid_from_bytes (pbq_from_uuid req)) t s)"

section \<open>The client\<close>

definition client_upsert_link ::
  "ptypes_pkg \<Rightarrow> (proto_link \<Rightarrow> 's \<Rightarrow> (go_error + proto_link) \<times> 's) \<Rightarrow> link \<Rightarrow> 's \<Rightarrow> (go_error option \<times> link) \<times> 's" where
  "client_upsert_link P cli link s =
     (case cli (link_to_proto P link) s of
        (Inl err, s') \<Rightarrow> ((Some err, link), s')
      | (Inr res, s') \<Rightarrow>
          (case pt_timestamp P (pbl_retrieved_at res) of
             (t, err) \<Rightarrow>
               ((err, \<lparr>link_id = uuid_from_bytes (pbl_uuid res), link_url = pbl_url res, link_retrieved_at = t\<rparr>), s')))"

definition client_upsert_edge ::
  "ptypes_pkg \<Rightarrow> (proto_edge \<Rightarrow> 's \<Rightarrow> (go_error + proto_edge) \<times> 's) \<Rightarrow> edge \<Rightarrow> 's \<Rightarrow> (go_error option \<times> edge) \<times> 's" where
  "client_upsert_edge P cli edge s =
     (case cli \<lparr>pbe_uuid = uuid_bytes (edge_id edge), pbe_src_uuid = uuid_bytes (edge_src edge),
               pbe_dst_uuid = uuid_bytes (edge_dst edge), pbe_updated_at = None\<rparr> s of
        (Inl err, s') \<Rightarrow> ((Some err, edge), s')
      | (Inr res, s') \<Rightarrow>
          (case pt_timestamp P (pbe_updated_at res) of
             (t, err) \<Rightarrow> ((err, edge\<lparr>edge_id := uuid_from_bytes (pbe_uuid res), edge_updated_at := t\<rparr>), s')))"

text \<open>
  A stream as its receiver sees it: the messages and the error it ends with; \<open>None\<close> is \<^verbatim>\<open>io.EOF\<close>.
\<close>

record 'm rpc_stream =
  sm_msgs :: "'m list"
  sm_status :: "go_error option"

record ('m, 'a) client_iterator =
  ci_stream :: "'m rpc_stream"
  ci_next :: "'a option"
  ci_last_err :: "go_error option"
  ci_cancelled :: bool

definition client_range ::
  "ptypes_pkg \<Rightarrow> (proto_range \<Rightarrow> go_error + 'm rpc_stream) \<Rightarrow> uuid \<Rightarrow> uuid \<Rightarrow> go_time \<Rightarrow>
   go_error + ('m, 'a) client_iterator" where
  "client_range P cli fromID toID before =
     (case pt_timestamp_proto P before of
        Inl err \<Rightarrow> Inl err
      | Inr filt \<Rightarrow>
          (case cli \<lparr>pbr_from_uuid = uuid_bytes fromID, pbr_to_uuid = uuid_bytes toID, pbr_filter = Some filt\<rparr> of
             Inl err \<Rightarrow> Inl err
           | Inr stream \<Rightarrow> Inr \<lparr>ci_stream = stream, ci_next = None, ci_last_err = None, ci_cancelled = False\<rparr>))"

definition client_links ::
  "ptypes_pkg \<Rightarrow> (proto_range \<Rightarrow> go_error + proto_link rpc_stream) \<Rightarrow> uuid \<Rightarrow> uuid \<Rightarrow> go_time \<Rightarrow>
   go_error + (proto_link, link) client_iterator" where
  "client_links = client_range"

definition client_edges ::
  "ptypes_pkg \<Rightarrow> (proto_range \<Rightarrow> go_error + proto_edge rpc_stream) \<Rightarrow> uuid \<Rightarrow> uuid \<Rightarrow> go_time \<Rightarrow>
   go_error + (proto_edge, edge) client_iterator" where
  "client_edges = client_range"

definition client_remove_stale_edges ::
  "ptypes_pkg \<Rightarrow> (proto_remove_query \<Rightarrow> 's \<Rightarrow> (go_error + unit) \<times> 's) \<Rightarrow> uuid \<Rightarrow> go_time \<Rightarrow> 's \<Rightarrow> go_error option \<times> 's" where
  "client_remove_stale_edges P cli from updatedBefore s =
     (case cli \<lparr>pbq_from_uuid = uuid_bytes from, pbq_updated_before = time_to_proto P updatedBefore\<rparr> s of
        (Inl err, s') \<Rightarrow> (Some err, s')
      | (Inr _, s') \<Rightarrow> (None, s'))"

text \<open>\<^verbatim>\<open>Next\<close> of the two iterators; \<open>conv\<close> converts a message.\<close>

definition client_it_next ::
  "('m \<Rightarrow> go_error + 'a) \<Rightarrow> ('m, 'a) client_iterator \<Rightarrow> bool \<times> ('m, 'a) client_iterator" where
  "client_it_next conv it =
     (case sm_msgs (ci_stream it) of
        [] \<Rightarrow>
          (False, it\<lparr>ci_last_err := (case sm_status (ci_stream it) of None \<Rightarrow> ci_last_err it | Some err \<Rightarrow> Some err),
                     ci_cancelled := True\<rparr>)
      | m # ms \<Rightarrow>
          let it' = it\<lparr>ci_stream := (ci_stream it)\<lparr>sm_msgs := ms\<rparr>\<rparr>
          in (case conv m of
                Inl err \<Rightarrow> (False, it'\<lparr>ci_last_err := Some err, ci_cancelled := True\<rparr>)
              | Inr x \<Rightarrow> (True, it'\<lparr>ci_next := Some x\<rparr>)))"

definition link_from_proto :: "ptypes_pkg \<Rightarrow> proto_link \<Rightarrow> go_error + link" where
  "link_from_proto P res =
     (case pt_timestamp P (pbl_retrieved_at res) of
        (_, Some err) \<Rightarrow> Inl err
      | (t, None) \<Rightarrow>
          Inr \<lparr>link_id = uuid_from_bytes (pbl_uuid res), link_url = pbl_url res, link_retrieved_at = t\<rparr>)"

definition edge_from_proto :: "ptypes_pkg \<Rightarrow> proto_edge \<Rightarrow> go_error + edge" where
  "edge_from_proto P res =
     (case pt_timestamp P (pbe_updated_at res) of
        (_, Some err) \<Rightarrow> Inl err
      | (t, None) \<Rightarrow>
          Inr \<lparr>edge_id = uuid_from_bytes (pbe_uuid res), edge_src = uuid_from_bytes (pbe_src_uuid res),
               edge_dst = uuid_from_bytes (pbe_dst_uuid res), edge_updated_at = t\<rparr>)"

definition link_it_next :: "ptypes_pkg \<Rightarrow> (proto_link, link) client_iterator \<Rightarrow> bool \<times> (proto_link, link) client_iterator" where
  "link_it_next P = client_it_next (link_from_proto P)"

definition edge_it_next :: "ptypes_pkg \<Rightarrow> (proto_edge, edge) client_iterator \<Rightarrow> bool \<times> (proto_edge, edge) client_iterator" where
  "edge_it_next P = client_it_next (edge_from_proto P)"

definition client_it_close :: "('m, 'a) client_iterator \<Rightarrow> ('m, 'a) client_iterator" where
  "client_it_close it = it\<lparr>ci_cancelled := True\<rparr>"

text \<open>What a caller gets from draining an iterator.\<close>

fun client_drain ::
  "('m \<Rightarrow> go_error + 'a) \<Rightarrow> nat \<Rightarrow> ('m, 'a) client_iterator \<Rightarrow> 'a list \<times> ('m, 'a) client_iterator" where
  "client_drain conv 0 it = ([], it)"
| "client_drain conv (Suc n) it =
     (case client_it_next conv it of
        (False, it') \<Rightarrow> ([], it')
      | (True, it') \<Rightarrow> (let (xs, it'') = client_drain conv n it' in (the (ci_next it') # xs, it'')))"

section \<open>A remote graph\<close>

text \<open>
  A call over a connection that delivers: \<open>status\<close> is what the client sees of a server's error.
  That a connection delivers includes that the strings are UTF-8, which the encoding demands.  A
  handler that panics ends the server's process; the client of the call sees an error as well, that
  of the broken connection, and the state is what the call left in the store, which outlives the
  process only in a database.
\<close>

fun rpc_call :: "(go_error \<Rightarrow> go_error) \<Rightarrow> 'm outcome \<times> 's \<Rightarrow> (go_error + 'm) \<times> 's" where
  "rpc_call status (Returns m, s) = (Inr m, s)"
| "rpc_call status (Fails err, s) = (Inl (status err), s)"
| "rpc_call status (Panics msg, s) = (Inl (status (External msg)), s)"

definition rpc_stream_call :: "(go_error \<Rightarrow> go_error) \<Rightarrow> 'm list \<times> go_error option \<Rightarrow> go_error + 'm rpc_stream" where
  "rpc_stream_call status r = Inr \<lparr>sm_msgs = fst r, sm_status = map_option status (snd r)\<rparr>"

definition remote_upsert_link ::
  "ptypes_pkg \<Rightarrow> (go_error \<Rightarrow> go_error) \<Rightarrow> (link \<Rightarrow> 's \<Rightarrow> link outcome \<times> 's) \<Rightarrow> link \<Rightarrow> 's \<Rightarrow> (go_error option \<times> link) \<times> 's" where
  "remote_upsert_link P status ul =
     client_upsert_link P (\<lambda>req s. rpc_call status (server_upsert_link P ul req s))"

definition remote_links ::
  "uuid_pkg \<Rightarrow> ptypes_pkg \<Rightarrow> (go_error \<Rightarrow> go_error) \<Rightarrow> (uuid \<Rightarrow> uuid \<Rightarrow> go_time \<Rightarrow> go_error + link api_iterator) \<Rightarrow>
   uuid \<Rightarrow> uuid \<Rightarrow> go_time \<Rightarrow> go_error + (proto_link, link) client_iterator" where
  "remote_links L P status links_api =
     client_links P (\<lambda>rng. rpc_stream_call status (server_links L P links_api (\<lambda>_. None) rng))"

lemma ptypes_okD:
  assumes "ptypes_ok P" "proto_time t"
  shows "\<exists>ts. pt_timestamp_proto P t = Inr ts \<and> pt_timestamp P (Some ts) = (t, None)"
    and "pt_timestamp P (time_to_proto P t) = (t, None)"
  using assms by (auto simp: ptypes_ok_def time_to_proto_def)

lemma link_collect: "\<lparr>link_id = link_id l, link_url = link_url l, link_retrieved_at = link_retrieved_at l\<rparr> = l"
  by (cases l) simp

lemma edge_collect:
  "\<lparr>edge_id = edge_id e, edge_src = edge_src e, edge_dst = edge_dst e, edge_updated_at = edge_updated_at e\<rparr> = e"
  by (cases e) simp

lemma link_from_to_proto:
  "ptypes_ok P \<Longrightarrow> proto_time (link_retrieved_at l) \<Longrightarrow> link_from_proto P (link_to_proto P l) = Inr l"
  by (simp add: link_from_proto_def link_to_proto_def ptypes_okD)

lemma edge_from_to_proto:
  "ptypes_ok P \<Longrightarrow> proto_time (edge_updated_at e) \<Longrightarrow> edge_from_proto P (edge_to_proto P e) = Inr e"
  by (simp add: edge_from_proto_def edge_to_proto_def ptypes_okD)

lemma send_all_ok: "send_all (\<lambda>_. None) k ms = (ms, None)"
  by (induction ms arbitrary: k) auto

lemma client_drain_all:
  assumes "sm_msgs (ci_stream it) = map msg xs" "\<And>x. x \<in> set xs \<Longrightarrow> conv (msg x) = Inr x"
  shows "\<exists>it'. client_drain conv (Suc (length xs)) it = (xs, it') \<and>
    ci_last_err it' = (case sm_status (ci_stream it) of None \<Rightarrow> ci_last_err it | Some err \<Rightarrow> Some err)"
  using assms
proof (induction xs arbitrary: it)
  case Nil
  then show ?case by (simp add: client_it_next_def)
next
  case (Cons x xs)
  define it1 where "it1 = it\<lparr>ci_stream := (ci_stream it)\<lparr>sm_msgs := map msg xs\<rparr>, ci_next := Some x\<rparr>"
  have it1: "client_it_next conv it = (True, it1)" "ci_next it1 = Some x" "ci_last_err it1 = ci_last_err it"
    "sm_msgs (ci_stream it1) = map msg xs" "sm_status (ci_stream it1) = sm_status (ci_stream it)"
    using Cons.prems by (simp_all add: client_it_next_def it1_def)
  have "\<exists>it'. client_drain conv (Suc (length xs)) it1 = (xs, it') \<and>
      ci_last_err it' = (case sm_status (ci_stream it1) of None \<Rightarrow> ci_last_err it1 | Some err \<Rightarrow> Some err)"
    by (rule Cons.IH [OF it1(4)]) (simp add: Cons.prems(2))
  then show ?case using it1 by (cases "sm_status (ci_stream it)") (auto simp del: client_drain.simps simp: client_drain.simps(2) [of conv "Suc (length xs)" it])
qed


text \<open>A conversion that behaves as documented.\<close>

definition plain_ptypes :: ptypes_pkg where
  "plain_ptypes = \<lparr>
     pt_timestamp = (\<lambda>ts. case ts of
        None \<Rightarrow> (0, Some (External ''timestamp: nil Timestamp''))
      | Some ts \<Rightarrow> (pts_seconds ts * 1000000000 + pts_nanos ts, None)),
     pt_timestamp_proto = (\<lambda>t. if proto_time t
        then Inr \<lparr>pts_seconds = t div 1000000000, pts_nanos = t mod 1000000000\<rparr>
        else Inl (External ''timestamp: out of range''))\<rparr>"

lemma plain_ptypes_ok: "ptypes_ok plain_ptypes"
  by (auto simp: ptypes_ok_def plain_ptypes_def)


end
