(* ===== verification/IndexApi.thy ===== *)
theory IndexApi
  imports GraphApi EsIndex BleveIndex
begin

text \<open>
  The gRPC layer of the text index (\<^verbatim>\<open>index/indexapi/server.go\<close>, \<^verbatim>\<open>client.go\<close>): the server's
  handlers on an indexer, the client's calls, and the client's iterator over the stream of
  results.  The messages do not carry a document's score, and a request to index a document
  does not carry its time.

  Parameters: the conversions of \<^verbatim>\<open>ptypes\<close> and \<^verbatim>\<open>timestamppb\<close>, and the connection.
\<close>

section \<open>Messages\<close>

record proto_document =
  pbd_link_id :: "byte list"
  pbd_url :: string
  pbd_title :: string
  pbd_content :: string
  pbd_indexed_at :: "proto_timestamp option"

record proto_update_score =
  pbu_link_id :: "byte list"
  pbu_page_rank_score :: real

record proto_query =
  pbq_type :: query_type
  pbq_expression :: string
  pbq_offset :: "64 word"

text \<open>A message of the result stream is one of two kinds, or empty.\<close>

datatype query_result = DocCountResult "64 word" | DocResult proto_document | EmptyResult

fun get_doc :: "query_result \<Rightarrow> proto_document option" where
  "get_doc (DocResult d) = Some d"
| "get_doc _ = None"

fun get_doc_count :: "query_result \<Rightarrow> 64 word" where
  "get_doc_count (DocCountResult n) = n"
| "get_doc_count _ = 0"

text \<open>The methods of \<^verbatim>\<open>timestamppb.Timestamp\<close>; a nil timestamp is not valid.\<close>

record timestamppb =
  tb_check_valid :: "proto_timestamp option \<Rightarrow> go_error option"
  tb_as_time :: "proto_timestamp option \<Rightarrow> go_time"

definition timestamppb_ok :: "ptypes_pkg \<Rightarrow> timestamppb \<Rightarrow> bool" where
  "timestamppb_ok P T \<longleftrightarrow> ptypes_ok P \<and>
     (\<forall>t ts. proto_time t \<longrightarrow> pt_timestamp_proto P t = Inr ts \<longrightarrow>
        tb_check_valid T (Some ts) = None \<and> tb_as_time T (Some ts) = t) \<and>
     tb_check_valid T None \<noteq> None"

section \<open>The server\<close>

text \<open>\<open>idx\<close> is \<^verbatim>\<open>Index\<close> of the indexer: its error and the document as it leaves it.\<close>

definition server_index ::
  "ptypes_pkg \<Rightarrow> (document \<Rightarrow> 's \<Rightarrow> go_error option \<times> document \<times> 's) \<Rightarrow> proto_document \<Rightarrow> 's \<Rightarrow>
   proto_document outcome \<times> 's" where
  "server_index P idx req s =
     (case idx (zero_document\<lparr>doc_link_id := uuid_from_bytes (pbd_link_id req), doc_url := pbd_url req,
                             doc_title := pbd_title req, doc_content := pbd_content req\<rparr>) s of
        (Some err, _, s') \<Rightarrow> (Fails err, s')
      | (None, doc, s') \<Rightarrow> (Returns (req\<lparr>pbd_indexed_at := time_to_proto P (doc_indexed_at doc)\<rparr>), s'))"

definition server_update_score ::
  "(uuid \<Rightarrow> real \<Rightarrow> 's \<Rightarrow> go_error option \<times> 's) \<Rightarrow> proto_update_score \<Rightarrow> 's \<Rightarrow> unit outcome \<times> 's" where
  "server_update_score update_score req s =
     (case update_score (uuid_from_bytes (pbu_link_id req)) (pbu_page_rank_score req) s of
        (Some err, s') \<Rightarrow> (Fails err, s')
      | (None, s') \<Rightarrow> (Returns (), s'))"

text \<open>The methods of an \<^verbatim>\<open>index.Iterator\<close>, whose state is \<open>'i\<close>.\<close>

record 'i result_ops =
  ro_total :: "'i \<Rightarrow> 64 word outcome"
  ro_next :: "'i \<Rightarrow> (bool \<times> 'i) outcome"
  ro_document :: "'i \<Rightarrow> document"
  ro_error :: "'i \<Rightarrow> go_error option"
  ro_close :: "'i \<Rightarrow> unit outcome"

text \<open>Closing the iterator and returning the error at hand, or else the error of closing.\<close>

definition close_and_return :: "'i result_ops \<Rightarrow> 'i \<Rightarrow> go_error option \<Rightarrow> unit outcome" where
  "close_and_return I it err =
     (case ro_close I it of
        Panics m \<Rightarrow> Panics m
      | r \<Rightarrow> (case err of Some e \<Rightarrow> Fails e | None \<Rightarrow> r))"

definition doc_to_proto :: "ptypes_pkg \<Rightarrow> document \<Rightarrow> proto_document" where
  "doc_to_proto P d = \<lparr>pbd_link_id = uuid_bytes (doc_link_id d), pbd_url = doc_url d, pbd_title = doc_title d,
     pbd_content = doc_content d, pbd_indexed_at = time_to_proto P (doc_indexed_at d)\<rparr>"

text \<open>
  The loop of \<^verbatim>\<open>Search\<close>, for at most \<open>n\<close> calls of \<^verbatim>\<open>Next\<close>: what is sent, and how the handler
  ends; \<open>k\<close> counts the messages.
\<close>

fun server_results ::
  "ptypes_pkg \<Rightarrow> 'i result_ops \<Rightarrow> (nat \<Rightarrow> go_error option) \<Rightarrow> nat \<Rightarrow> nat \<Rightarrow> 'i \<Rightarrow> (query_result list \<times> unit outcome) option" where
  "server_results P I send_err 0 k it = None"
| "server_results P I send_err (Suc n) k it =
     (case ro_next I it of
        Panics m \<Rightarrow> Some ([], Panics m)
      | Fails err \<Rightarrow> Some ([], Fails err)
      | Returns (found, it') \<Rightarrow>
          if \<not> found then Some ([], close_and_return I it' (ro_error I it'))
          else (case send_err k of
                  Some err \<Rightarrow> Some ([], close_and_return I it' (Some err))
                | None \<Rightarrow>
                    map_option (\<lambda>(sent, r). (DocResult (doc_to_proto P (ro_document I it')) # sent, r))
                      (server_results P I send_err n (Suc k) it')))"

definition server_search ::
  "ptypes_pkg \<Rightarrow> 'i result_ops \<Rightarrow> (query \<Rightarrow> go_error + 'i) \<Rightarrow> (nat \<Rightarrow> go_error option) \<Rightarrow> nat \<Rightarrow> proto_query \<Rightarrow>
   (query_result list \<times> unit outcome) option" where
  "server_search P I search send_err n req =
     (case search \<lparr>query_type = pbq_type req, query_expression = pbq_expression req, query_offset = pbq_offset req\<rparr> of
        Inl err \<Rightarrow> Some ([], Fails err)
      | Inr it \<Rightarrow>
          (case ro_total I it of
             Panics m \<Rightarrow> Some ([], Panics m)
           | Fails err \<Rightarrow> Some ([], Fails err)
           | Returns cnt \<Rightarrow>
               (case send_err 0 of
                  Some err \<Rightarrow> Some ([], close_and_return I it (Some err))
                | None \<Rightarrow>
                    map_option (\<lambda>(sent, r). (DocCountResult cnt # sent, r)) (server_results P I send_err n 1 it))))"

section \<open>The client\<close>

definition client_index ::
  "timestamppb \<Rightarrow> (proto_document \<Rightarrow> 's \<Rightarrow> (go_error + proto_document) \<times> 's) \<Rightarrow> document \<Rightarrow> 's \<Rightarrow>
   go_error option \<times> document \<times> 's" where
  "client_index T cli doc s =
     (case cli \<lparr>pbd_link_id = uuid_bytes (doc_link_id doc), pbd_url = doc_url doc, pbd_title = doc_title doc,
               pbd_content = doc_content doc, pbd_indexed_at = None\<rparr> s of
        (Inl err, s') \<Rightarrow> (Some err, doc, s')
      | (Inr res, s') \<Rightarrow>
          (case tb_check_valid T (pbd_indexed_at res) of
             Some err \<Rightarrow> (Some (Wrap ''unable to decode indexedAt attribute of document'' err), doc, s')
           | None \<Rightarrow> (None, doc\<lparr>doc_indexed_at := tb_as_time T (pbd_indexed_at res)\<rparr>, s')))"

definition client_update_score ::
  "(proto_update_score \<Rightarrow> 's \<Rightarrow> (go_error + unit) \<times> 's) \<Rightarrow> uuid \<Rightarrow> real \<Rightarrow> 's \<Rightarrow> go_error option \<times> 's" where
  "client_update_score cli linkID score s =
     (case cli \<lparr>pbu_link_id = uuid_bytes linkID, pbu_page_rank_score = score\<rparr> s of
        (Inl err, s') \<Rightarrow> (Some err, s')
      | (Inr _, s') \<Rightarrow> (None, s'))"

record result_iterator =
  ri_total :: "64 word"
  ri_stream :: "query_result rpc_stream"
  ri_next :: "document option"
  ri_last_err :: "go_error option"
  ri_cancelled :: bool

definition io_eof :: go_error where
  "io_eof = External ''EOF''"

definition query_to_proto :: "query \<Rightarrow> proto_query" where
  "query_to_proto q = \<lparr>pbq_type = query_type q, pbq_expression = query_expression q, pbq_offset = query_offset q\<rparr>"

definition client_search ::
  "(proto_query \<Rightarrow> go_error + query_result rpc_stream) \<Rightarrow> query \<Rightarrow> go_error + result_iterator" where
  "client_search cli q =
     (case cli (query_to_proto q) of
        Inl err \<Rightarrow> Inl err
      | Inr stream \<Rightarrow>
          (case sm_msgs stream of
             [] \<Rightarrow> Inl (case sm_status stream of Some err \<Rightarrow> err | None \<Rightarrow> io_eof)
           | res # msgs \<Rightarrow>
               if get_doc res \<noteq> None
               then Inl (Errorf ''expected server to report the result count before sending any documents'')
               else Inr \<lparr>ri_total = get_doc_count res, ri_stream = stream\<lparr>sm_msgs := msgs\<rparr>, ri_next = None,
                         ri_last_err = None, ri_cancelled = False\<rparr>))"

definition result_it_next :: "timestamppb \<Rightarrow> result_iterator \<Rightarrow> bool \<times> result_iterator" where
  "result_it_next T it =
     (case sm_msgs (ri_stream it) of
        [] \<Rightarrow>
          (False, it\<lparr>ri_last_err := (case sm_status (ri_stream it) of None \<Rightarrow> ri_last_err it | Some err \<Rightarrow> Some err),
                     ri_cancelled := True\<rparr>)
      | res # msgs \<Rightarrow>
          let it' = it\<lparr>ri_stream := (ri_stream it)\<lparr>sm_msgs := msgs\<rparr>\<rparr>
          in (case get_doc res of
                None \<Rightarrow>
                  (False, it'\<lparr>ri_last_err := Some (Errorf ''received nil document in search result list''), ri_cancelled := True\<rparr>)
              | Some d \<Rightarrow>
                  (case tb_check_valid T (pbd_indexed_at d) of
                     Some err \<Rightarrow>
                       (False, it'\<lparr>ri_last_err := Some (Wrap ''unable to decode indexedAt attribute of document'' err),
                                  ri_cancelled := True\<rparr>)
                   | None \<Rightarrow>
                       (True, it'\<lparr>ri_next := Some (zero_document\<lparr>doc_link_id := uuid_from_bytes (pbd_link_id d),
                          doc_url := pbd_url d, doc_title := pbd_title d, doc_content := pbd_content d,
                          doc_indexed_at := tb_as_time T (pbd_indexed_at d)\<rparr>)\<rparr>))))"

definition result_it_close :: "result_iterator \<Rightarrow> result_iterator" where
  "result_it_close it = it\<lparr>ri_cancelled := True\<rparr>"

fun result_drain :: "timestamppb \<Rightarrow> nat \<Rightarrow> result_iterator \<Rightarrow> document list \<times> result_iterator" where
  "result_drain T 0 it = ([], it)"
| "result_drain T (Suc n) it =
     (case result_it_next T it of
        (False, it') \<Rightarrow> ([], it')
      | (True, it') \<Rightarrow> (let (xs, it'') = result_drain T n it' in (the (ri_next it') # xs, it'')))"

section \<open>A remote index\<close>

definition remote_index ::
  "ptypes_pkg \<Rightarrow> timestamppb \<Rightarrow> (go_error \<Rightarrow> go_error) \<Rightarrow> (document \<Rightarrow> 's \<Rightarrow> go_error option \<times> document \<times> 's) \<Rightarrow>
   document \<Rightarrow> 's \<Rightarrow> go_error option \<times> document \<times> 's" where
  "remote_index P T status idx = client_index T (\<lambda>req s. rpc_call status (server_index P idx req s))"

definition remote_update_score ::
  "(go_error \<Rightarrow> go_error) \<Rightarrow> (uuid \<Rightarrow> real \<Rightarrow> 's \<Rightarrow> go_error option \<times> 's) \<Rightarrow> uuid \<Rightarrow> real \<Rightarrow> 's \<Rightarrow> go_error option \<times> 's" where
  "remote_update_score status us = client_update_score (\<lambda>req s. rpc_call status (server_update_score us req s))"

lemma remote_update_score_eq:
  "remote_update_score status us i x s = (case us i x s of (r, s') \<Rightarrow> (map_option status r, s'))"
  by (auto simp: remote_update_score_def client_update_score_def server_update_score_def split: prod.splits option.splits)

lemma timestamppb_okD:
  assumes "timestamppb_ok P T"
  shows "tb_check_valid T (time_to_proto P t) = None \<longleftrightarrow> proto_time t"
    and "proto_time t \<Longrightarrow> tb_as_time T (time_to_proto P t) = t"
proof -
  have P: "ptypes_ok P" and T: "tb_check_valid T None \<noteq> None"
    and eq: "pt_timestamp_proto P t = Inr ts \<Longrightarrow> proto_time t \<Longrightarrow> tb_check_valid T (Some ts) = None \<and> tb_as_time T (Some ts) = t" for ts
    using assms by (auto simp: timestamppb_ok_def)
  show "proto_time t \<Longrightarrow> tb_as_time T (time_to_proto P t) = t"
    using ptypes_okD(1) [OF P, of t] eq by (auto simp: time_to_proto_def)
  show "tb_check_valid T (time_to_proto P t) = None \<longleftrightarrow> proto_time t"
  proof (cases "proto_time t")
    case True
    then show ?thesis using ptypes_okD(1) [OF P, of t] eq by (auto simp: time_to_proto_def)
  next
    case False
    then obtain err where "pt_timestamp_proto P t = Inl err" using P unfolding ptypes_ok_def by blast
    then show ?thesis using T False by (simp add: time_to_proto_def)
  qed
qed

lemma remote_index_eq:
  assumes T: "timestamppb_ok P T"
    and run: "idx (zero_document\<lparr>doc_link_id := doc_link_id d, doc_url := doc_url d, doc_title := doc_title d,
      doc_content := doc_content d\<rparr>) s = (r, d', s')"
  shows "remote_index P T status idx d s =
    (case r of
       Some err \<Rightarrow> (Some (status err), d, s')
     | None \<Rightarrow>
         if proto_time (doc_indexed_at d') then (None, d\<lparr>doc_indexed_at := doc_indexed_at d'\<rparr>, s')
         else (Some (Wrap ''unable to decode indexedAt attribute of document''
                (the (tb_check_valid T (time_to_proto P (doc_indexed_at d'))))), d, s'))"
  using run timestamppb_okD [OF T, of "doc_indexed_at d'"]
  by (auto simp: remote_index_def client_index_def server_index_def split: option.splits)

text \<open>
  Indexing remotely, whatever the index: the entry has the page's URL, title and text, and the
  caller's document gets the entry's time; but the entry's time is either the index's own or the
  zero time, and a new entry has score zero, whatever the caller's document says.
\<close>

context text_indexer
begin

lemma remote_indexed:
  assumes inv: "inv s" and id: "doc_link_id d \<noteq> 0" and T: "timestamppb_ok P T"
    and run: "remote_index P T status (index_doc now) d s = (None, d', s')"
  shows "inv s' \<and> (\<exists>e. find_by_id (doc_link_id d) s' = Returns e \<and> doc_url e = doc_url d \<and>
    doc_title e = doc_title d \<and> doc_content e = doc_content d \<and>
    d' = d\<lparr>doc_indexed_at := doc_indexed_at e\<rparr> \<and> doc_indexed_at e \<in> {now, zero_time} \<and>
    doc_page_rank e = (case abs s (doc_link_id d) of None \<Rightarrow> 0 | Some o' \<Rightarrow> doc_page_rank o'))"
proof -
  define d0 where "d0 = zero_document\<lparr>doc_link_id := doc_link_id d, doc_url := doc_url d, doc_title := doc_title d,
    doc_content := doc_content d\<rparr>"
  have d0: "doc_link_id d0 \<noteq> 0" "doc_link_id d0 = doc_link_id d" "doc_url d0 = doc_url d" "doc_title d0 = doc_title d"
    "doc_content d0 = doc_content d" "doc_page_rank d0 = 0" "doc_indexed_at d0 = zero_time"
    using id by (simp_all add: d0_def zero_document_def)
  obtain r d1 s1 where idx: "index_doc now d0 s = (r, d1, s1)" by (cases "index_doc now d0 s")
  have r: "r = None" "s1 = s'" "d' = d\<lparr>doc_indexed_at := doc_indexed_at d1\<rparr>"
    using run remote_index_eq [where d = d and idx = "index_doc now", OF T idx [unfolded d0_def], of status] by (auto split: option.splits if_splits)
  note idx = idx [unfolded r]
  have "doc_indexed_at d1 \<in> {now, zero_time}" "inv s'" using index_ok [OF inv d0(1) idx] d0(7) by auto
  moreover from find_indexed [OF inv d0(1) idx] obtain e where
    "find_by_id (doc_link_id d) s' = Returns e" "doc_url e = doc_url d" "doc_title e = doc_title d"
    "doc_content e = doc_content d" "doc_indexed_at e = doc_indexed_at d1"
    "doc_page_rank e = (case abs s (doc_link_id d) of None \<Rightarrow> 0 | Some o' \<Rightarrow> doc_page_rank o')"
    unfolding d0 by (auto split: option.splits)
  ultimately show ?thesis using r(3) by auto
qed

end

text \<open>
  C32. Indexing through the gRPC layer into Elasticsearch.  Whatever time and score the caller's
  document has, when the call succeeds the entry has the page's URL, title and text, and the
  time of the first of January of year 1: the request does not carry the time and this index
  does not stamp documents.  The caller's document gets that time too.
\<close>

theorem remote_es_index_forgets_time:
  assumes L: "uuid_pkg_ok L" and C: "es_update_ok C stored" "es_find_ok C stored" and T: "timestamppb_ok P T"
    and inv: "es_inv stored s" and id: "doc_link_id d \<noteq> 0"
    and run: "remote_index P T status (\<lambda>d i. let (r, i') = es_index C L d i in (r, d, i')) d s = (None, d', s')"
  shows "es_inv stored s' \<and> d' = d\<lparr>doc_indexed_at := zero_time\<rparr> \<and>
    es_find_by_id C L (doc_link_id d) s' = Returns (d\<lparr>doc_indexed_at := zero_time,
      doc_page_rank := (case es_abs stored s (doc_link_id d) of None \<Rightarrow> 0 | Some o' \<Rightarrow> doc_page_rank o')\<rparr>)"
proof -
  have *: "es_inv stored s' \<and> (\<exists>e. es_find_by_id C L (doc_link_id d) s' = Returns e \<and> doc_url e = doc_url d \<and>
    doc_title e = doc_title d \<and> doc_content e = doc_content d \<and>
    d' = d\<lparr>doc_indexed_at := doc_indexed_at e\<rparr> \<and> doc_indexed_at e \<in> {now, zero_time} \<and>
    doc_page_rank e = (case es_abs stored s (doc_link_id d) of None \<Rightarrow> 0 | Some o' \<Rightarrow> doc_page_rank o'))" for now
    by (rule text_indexer.remote_indexed [OF es_contract [OF L C] inv id T run])
  obtain e where e: "es_find_by_id C L (doc_link_id d) s' = Returns e" using * [of 0] by blast
  have inv': "es_inv stored s'" using * [of 0] by blast
  have "doc_indexed_at e = zero_time" using * [of 0] * [of 1] e by auto
  moreover have "doc_link_id e = doc_link_id d"
  proof (cases "es_abs stored s' (doc_link_id d)")
    case None
    from text_indexer.find_unknown [OF es_contract [OF L C] inv' this] e show ?thesis by auto
  next
    case (Some x)
    from text_indexer.find_found [OF es_contract [OF L C] inv' this] e have "e = x" by simp
    with Some show ?thesis by (auto simp: es_abs_def stored_doc_def)
  qed
  ultimately show ?thesis using * [of 0] e by (cases e; cases d) auto
qed

definition plain_timestamppb :: timestamppb where
  "plain_timestamppb = \<lparr>
     tb_check_valid = (\<lambda>ts. case ts of None \<Rightarrow> Some (External ''invalid nil Timestamp'') | Some _ \<Rightarrow> None),
     tb_as_time = (\<lambda>ts. case ts of None \<Rightarrow> 0 | Some ts \<Rightarrow> pts_seconds ts * 1000000000 + pts_nanos ts)\<rparr>"

lemma plain_timestamppb_ok: "timestamppb_ok plain_ptypes plain_timestamppb"
  using plain_ptypes_ok by (auto simp: timestamppb_ok_def plain_timestamppb_def plain_ptypes_def split: if_splits)

definition stamped_doc :: document where
  "stamped_doc = \<lparr>doc_link_id = 5, doc_url = ''u'', doc_title = ''t'', doc_content = ''c'', doc_indexed_at = 1700000000,
     doc_page_rank = 3\<rparr>"

theorem remote_es_index_forgets_time_witness:
  "\<exists>s'. remote_index plain_ptypes plain_timestamppb id
      (\<lambda>d i. let (r, i') = es_index reference_cluster rfc4122_pkg d i in (r, d, i'))
      stamped_doc \<lparr>ei_es = Map.empty, ei_refresh = ''true''\<rparr> = (None, stamped_doc\<lparr>doc_indexed_at := zero_time\<rparr>, s') \<and>
     es_find_by_id reference_cluster rfc4122_pkg 5 s' = Returns (stamped_doc\<lparr>doc_indexed_at := zero_time, doc_page_rank := 0\<rparr>)"
proof -
  define s :: "(string \<rightharpoonup> es_fields) es_indexer" where "s = \<lparr>ei_es = Map.empty, ei_refresh = ''true''\<rparr>"
  have inv: "es_inv id s" by (simp add: es_inv_def s_def filed_by_link_id_def)
  have id: "doc_link_id stamped_doc \<noteq> 0" by (simp add: stamped_doc_def)
  obtain d' s' where run: "remote_index plain_ptypes plain_timestamppb id
      (\<lambda>d i. let (r, i') = es_index reference_cluster rfc4122_pkg d i in (r, d, i')) stamped_doc s = (None, d', s')"
    by (simp add: remote_index_eq [OF plain_timestamppb_ok] es_index_def es_update_request_def reference_cluster_def
        unmarshal_response_def stamped_doc_def zero_document_def proto_time_def zero_time_def Let_def)
  from remote_es_index_forgets_time [OF rfc4122_pkg_ok reference_cluster_ok plain_timestamppb_ok inv id run]
  show ?thesis using run by (simp add: s_def stamped_doc_def es_abs_def)
qed

section \<open>A remote search\<close>

text \<open>
  The stream a client receives of what a handler sent and how it ended.  gRPC does not recover
  from a handler's panic: it ends the server's process, and with it the connection.  Of what the
  handler sent before, some first messages have then arrived, and the client gets the error of
  the broken connection.
\<close>

record server_crash =
  cr_arrived :: nat
  cr_error :: go_error

definition stream_of :: "(go_error \<Rightarrow> go_error) \<Rightarrow> server_crash \<Rightarrow> 'm list \<times> unit outcome \<Rightarrow> 'm rpc_stream" where
  "stream_of status crash r =
     (case snd r of
        Returns _ \<Rightarrow> \<lparr>sm_msgs = fst r, sm_status = None\<rparr>
      | Fails e \<Rightarrow> \<lparr>sm_msgs = fst r, sm_status = Some (status e)\<rparr>
      | Panics _ \<Rightarrow> \<lparr>sm_msgs = take (cr_arrived crash) (fst r), sm_status = Some (cr_error crash)\<rparr>)"

text \<open>\<open>n\<close> bounds the server's loop; the result is \<open>None\<close> when it is too small.\<close>

definition remote_search ::
  "ptypes_pkg \<Rightarrow> (go_error \<Rightarrow> go_error) \<Rightarrow> server_crash \<Rightarrow> 'i result_ops \<Rightarrow> (query \<Rightarrow> go_error + 'i) \<Rightarrow> nat \<Rightarrow> query \<Rightarrow>
   (go_error + result_iterator) option" where
  "remote_search P status crash I search n q =
     map_option (\<lambda>r. client_search (\<lambda>_. Inr (stream_of status crash r)) q)
       (server_search P I search (\<lambda>_. None) n (query_to_proto q))"

text \<open>The iterators of the two indexes.\<close>

definition es_ops :: "'c es_client \<Rightarrow> uuid_pkg \<Rightarrow> 'c \<Rightarrow> es_iterator result_ops" where
  "es_ops C L es = \<lparr>ro_total = es_it_total_count, ro_next = es_it_next C L es,
     ro_document = the \<circ> eit_latched_doc, ro_error = eit_last_err,
     ro_close = (\<lambda>it. outcome_bind (es_it_close it) (\<lambda>_. Returns ()))\<rparr>"

definition bleve_ops :: "'b bleve_pkg \<Rightarrow> 'b bleve_indexer \<Rightarrow> bleve_iterator result_ops" where
  "bleve_ops B i = \<lparr>ro_total = Returns \<circ> bleve_it_total_count, ro_next = bleve_it_next B i,
     ro_document = the \<circ> bit_latched_doc, ro_error = bit_last_err, ro_close = (\<lambda>_. Returns ())\<rparr>"

fun ops_drain :: "'i result_ops \<Rightarrow> nat \<Rightarrow> 'i \<Rightarrow> (document list \<times> 'i) outcome" where
  "ops_drain I 0 it = Returns ([], it)"
| "ops_drain I (Suc n) it =
     outcome_bind (ro_next I it) (\<lambda>(found, it').
       if found
       then outcome_bind (ops_drain I n it') (\<lambda>(ds, it''). Returns (ro_document I it' # ds, it''))
       else Returns ([], it'))"

lemma ops_drain_es: "ops_drain (es_ops C L es) n it = es_drain C L es n it"
  by (induction n arbitrary: it) (simp_all add: es_ops_def cong: if_cong)

lemma ops_drain_bleve: "ops_drain (bleve_ops B i) n it = bleve_drain B i n it"
  by (induction n arbitrary: it) (simp_all add: bleve_ops_def cong: if_cong)

lemma server_results_drain:
  assumes "ops_drain I n it = Returns (ds, it')" "length ds < n"
  shows "server_results P I (\<lambda>_. None) n k it =
    Some (map (DocResult \<circ> doc_to_proto P) ds, close_and_return I it' (ro_error I it'))"
  using assms
proof (induction n arbitrary: it ds k)
  case (Suc n)
  then show ?case
    by (fastforce split: if_splits)
qed simp

lemma result_drain_all:
  assumes "timestamppb_ok P T" "sm_msgs (ri_stream it) = map (DocResult \<circ> doc_to_proto P) ds"
    "\<forall>d \<in> set ds. proto_time (doc_indexed_at d)" "length ds < n"
  shows "\<exists>it'. result_drain T n it = (map (\<lambda>d. d\<lparr>doc_page_rank := 0\<rparr>) ds, it') \<and>
    ri_last_err it' = (case sm_status (ri_stream it) of None \<Rightarrow> ri_last_err it | Some err \<Rightarrow> Some err)"
  using assms(2-)
proof (induction ds arbitrary: it n)
  case Nil
  then show ?case by (cases n) (simp_all add: result_it_next_def)
next
  case (Cons d ds)
  then obtain m where n: "n = Suc m" "length ds < m" by (cases n) auto
  define it1 where "it1 = it\<lparr>ri_stream := (ri_stream it)\<lparr>sm_msgs := map (DocResult \<circ> doc_to_proto P) ds\<rparr>,
    ri_next := Some (d\<lparr>doc_page_rank := 0\<rparr>)\<rparr>"
  have it1: "result_it_next T it = (True, it1)" "ri_next it1 = Some (d\<lparr>doc_page_rank := 0\<rparr>)"
    "ri_last_err it1 = ri_last_err it" "sm_msgs (ri_stream it1) = map (DocResult \<circ> doc_to_proto P) ds"
    "sm_status (ri_stream it1) = sm_status (ri_stream it)"
    using Cons.prems timestamppb_okD [OF assms(1), of "doc_indexed_at d"]
    by (simp_all add: result_it_next_def it1_def doc_to_proto_def zero_document_def)
  have "\<exists>it'. result_drain T m it1 = (map (\<lambda>d. d\<lparr>doc_page_rank := 0\<rparr>) ds, it') \<and>
      ri_last_err it' = (case sm_status (ri_stream it1) of None \<Rightarrow> ri_last_err it1 | Some err \<Rightarrow> Some err)"
    by (rule Cons.IH [OF it1(4) _ n(2)]) (simp add: Cons.prems(2))
  then show ?case using it1 n(1) by (cases "sm_status (ri_stream it)") auto
qed

lemma server_search_drained:
  assumes "search q = Inr it" "ro_total I it = Returns tot" "ops_drain I n it = Returns (ds, it')" "length ds < n"
  shows "server_search P I search (\<lambda>_. None) n (query_to_proto q) =
    Some (DocCountResult tot # map (DocResult \<circ> doc_to_proto P) ds, close_and_return I it' (ro_error I it'))"
proof -
  have "\<lparr>query_type = pbq_type (query_to_proto q), query_expression = pbq_expression (query_to_proto q),
      query_offset = pbq_offset (query_to_proto q)\<rparr> = q"
    by (cases q) (simp add: query_to_proto_def)
  then show ?thesis
    using assms(1,2) server_results_drain [OF assms(3,4), of P 1] by (simp add: server_search_def)
qed

text \<open>The client's iterator over a stream that starts with the count.\<close>

definition results_of :: "64 word \<Rightarrow> query_result list \<Rightarrow> go_error option \<Rightarrow> result_iterator" where
  "results_of tot msgs st = \<lparr>ri_total = tot, ri_stream = \<lparr>sm_msgs = msgs, sm_status = st\<rparr>, ri_next = None,
     ri_last_err = None, ri_cancelled = False\<rparr>"

lemma results_of_drain:
  assumes "timestamppb_ok P T" "\<forall>d \<in> set ds. proto_time (doc_indexed_at d)" "length ds < n"
  shows "\<exists>r'. result_drain T n (results_of tot (map (DocResult \<circ> doc_to_proto P) ds) st) =
      (map (\<lambda>d. d\<lparr>doc_page_rank := 0\<rparr>) ds, r') \<and> ri_last_err r' = st"
  using result_drain_all [OF assms(1) _ assms(2,3), of "results_of tot (map (DocResult \<circ> doc_to_proto P) ds) st"]
  by (auto simp: results_of_def split: option.splits)

lemma remote_search_drained:
  assumes "search q = Inr it" "ro_total I it = Returns tot" "ops_drain I n it = Returns (ds, it')" "length ds < n"
  shows "remote_search P status crash I search n q =
    Some (case close_and_return I it' (ro_error I it') of
        Returns _ \<Rightarrow> Inr (results_of tot (map (DocResult \<circ> doc_to_proto P) ds) None)
      | Fails err \<Rightarrow> Inr (results_of tot (map (DocResult \<circ> doc_to_proto P) ds) (Some (status err)))
      | Panics _ \<Rightarrow> (case cr_arrived crash of
            0 \<Rightarrow> Inl (cr_error crash)
          | Suc k \<Rightarrow> Inr (results_of tot (map (DocResult \<circ> doc_to_proto P) (take k ds)) (Some (cr_error crash)))))"
  using server_search_drained [where search = search and q = q, OF assms, of P]
  by (simp add: remote_search_def client_search_def stream_of_def results_of_def take_map split: outcome.split nat.split)

text \<open>
  C33. Searching an index behind the gRPC layer, for an iterator of any implementation.  When the
  index accepts the query and draining its iterator yields some documents, the handler does not
  panic in closing it, and the connection delivers, the remote search yields the same documents
  in the same order, their scores gone, under the same total count; the remote iterator then
  reports the status of the iterator's error, or else of the error of closing it.  A panic in
  closing the iterator ends the server: then either the search itself fails, or it yields only a
  first part of the documents, under the same total; and the client gets the error of the broken
  connection, whatever the error of the index was.
\<close>

theorem remote_search_transparent:
  assumes T: "timestamppb_ok P T" and found: "search q = Inr it" and tot: "ro_total I it = Returns tot"
    and drain: "ops_drain I n it = Returns (ds, it')" "length ds < n"
    and times: "\<forall>d \<in> set ds. proto_time (doc_indexed_at d)"
  shows "(\<not> panics (ro_close I it') \<longrightarrow>
      (\<exists>r r'. remote_search P status crash I search n q = Some (Inr r) \<and> ri_total r = tot \<and>
         result_drain T (Suc (length ds)) r = (map (\<lambda>d. d\<lparr>doc_page_rank := 0\<rparr>) ds, r') \<and>
         ri_last_err r' = map_option status
           (case ro_error I it' of
              Some err \<Rightarrow> Some err
            | None \<Rightarrow> (case ro_close I it' of Fails err \<Rightarrow> Some err | _ \<Rightarrow> None)))) \<and>
    (panics (ro_close I it') \<longrightarrow>
      remote_search P status crash I search n q = Some (Inl (cr_error crash)) \<or>
      (\<exists>r r' k. remote_search P status crash I search n q = Some (Inr r) \<and> ri_total r = tot \<and>
         result_drain T (Suc (length ds)) r = (map (\<lambda>d. d\<lparr>doc_page_rank := 0\<rparr>) (take k ds), r') \<and>
         ri_last_err r' = Some (cr_error crash)))"
proof -
  note eq = remote_search_drained [where search = search and q = q, OF found tot drain, of P status crash]
  have part: "\<exists>r'. result_drain T (Suc (length ds)) (results_of tot (map (DocResult \<circ> doc_to_proto P) (take k ds)) st) =
      (map (\<lambda>d. d\<lparr>doc_page_rank := 0\<rparr>) (take k ds), r') \<and> ri_last_err r' = st" for k st
    using times by (intro results_of_drain [OF T]) (auto dest: in_set_takeD)
  from part [of "length ds"] have whole:
    "\<exists>r'. result_drain T (Suc (length ds)) (results_of tot (map (DocResult \<circ> doc_to_proto P) ds) st) =
      (map (\<lambda>d. d\<lparr>doc_page_rank := 0\<rparr>) ds, r') \<and> ri_last_err r' = st" for st
    by simp
  have total: "ri_total (results_of tot msgs st) = tot" for msgs st by (simp add: results_of_def)
  show ?thesis
  proof (cases "ro_close I it'")
    case (Panics m)
    show ?thesis
    proof (cases "cr_arrived crash")
      case 0
      then show ?thesis by (simp add: eq close_and_return_def Panics)
    next
      case (Suc k)
      then have "remote_search P status crash I search n q =
          Some (Inr (results_of tot (map (DocResult \<circ> doc_to_proto P) (take k ds)) (Some (cr_error crash))))"
        by (simp add: eq close_and_return_def Panics)
      then show ?thesis using part [of k "Some (cr_error crash)"] total Panics by fastforce
    qed
  next
    case (Returns u)
    then show ?thesis using whole total by (cases "ro_error I it'") (auto simp: eq close_and_return_def)
  next
    case (Fails err)
    then show ?thesis using whole total by (cases "ro_error I it'") (auto simp: eq close_and_return_def)
  qed
qed

text \<open>
  Elasticsearch behind the gRPC layer, when fetching the second page fails: the handler sends ten
  documents and panics in closing the iterator, so the client never learns the error.
\<close>

lemma remote_es_search_loses_error:
  assumes first: "run_es_search C (ei_es i) \<lparr>eq_query = es_body q, eq_from = of_nat k, eq_size = 10\<rparr> = Inr (es_page hits k)"
    and failed: "run_es_search C (ei_es i) \<lparr>eq_query = es_body q, eq_from = of_nat (k + 10), eq_size = 10\<rparr> = Inl err"
    and docs: "parses_as L hits ds" and more: "k + 10 < length hits" "length hits < 2 ^ 63"
    and offset: "query_offset q = of_nat k"
  shows "remote_search P status crash (es_ops C L (ei_es i)) (\<lambda>q. es_search C q i) 11 q =
    Some (case cr_arrived crash of
        0 \<Rightarrow> Inl (cr_error crash)
      | Suc j \<Rightarrow> Inr (results_of (of_nat (length hits))
          (map (DocResult \<circ> doc_to_proto P) (take j (take 10 (drop k ds)))) (Some (cr_error crash))))"
proof -
  obtain it where it: "es_search C q i = Inr it" "es_at_position (es_body q) hits k k it"
    using es_search_first_page [OF first offset] by (elim exE conjE) (rule that)
  obtain it' where it': "es_drain C L (ei_es i) 11 it = Returns (take 10 (drop k ds), it')"
    "eit_last_err it' = Some err" "eit_rs it' = None"
    using es_drain_failed_page [OF failed docs more, of 10 it] it(2) by auto
  have "ro_total (es_ops C L (ei_es i)) it = Returns (of_nat (length hits))"
    using it(2) by (simp add: es_ops_def es_it_total_count_def es_at_position_def es_page_def)
  from remote_search_drained [where search = "\<lambda>q. es_search C q i" and q = q, OF it(1) this it'(1) [folded ops_drain_es], of P status crash]
  show ?thesis using it'(3)
    by (simp add: close_and_return_def es_ops_def es_it_close_def)
qed

theorem remote_search_transparent_witness:
  "\<exists>r r'. remote_search plain_ptypes id \<lparr>cr_arrived = 0, cr_error = External ''unavailable''\<rparr> (bleve_ops listing_bleve stored_twelve)
      (\<lambda>q. bleve_search listing_bleve q stored_twelve) 5
      \<lparr>query_type = QueryTypeMatch, query_expression = ''a'', query_offset = 10\<rparr> = Some (Inr r) \<and> ri_total r = 12 \<and>
     result_drain plain_timestamppb 3 r = ([zero_document, zero_document], r') \<and> ri_last_err r' = None"
proof -
  define it where "it = \<lparr>bit_open = True,
    bit_req = \<lparr>sq_query = MatchQuery ''a'', sq_sort_by = [''-PageRank'', ''-_score''], sq_size = 10, sq_from = 10\<rparr>,
    bit_cum_idx = 10, bit_rs_idx = 0, bit_rs = Some \<lparr>rs_total = 12, rs_hits = drop 10 (bi_idx stored_twelve)\<rparr>,
    bit_latched_doc = None, bit_last_err = None\<rparr>"
  have len: "length (bi_idx stored_twelve) = 12" by (simp add: stored_twelve_def)
  have from_10: "int_of_u64 10 = 10" by (subst int_of_u64_small) auto
  have search: "bleve_search listing_bleve \<lparr>query_type = QueryTypeMatch, query_expression = ''a'', query_offset = 10\<rparr> stored_twelve = Inr it"
    by (simp add: bleve_search_def Let_def from_10 batch_size_def it_def listing_bleve_def len)
  have "at_position (MatchQuery ''a'') [''-PageRank'', ''-_score''] (bi_idx stored_twelve) 10 10 it"
    by (simp add: at_position_def it_def len)
  from bleve_drain_from [OF this _ _ _ _, of listing_bleve stored_twelve 5]
  obtain it' where drain: "bleve_drain listing_bleve stored_twelve 5 it = Returns ([zero_document, zero_document], it')"
    "bit_last_err it' = None"
    by (auto simp: bleve_answers_def listing_bleve_def stored_twelve_def upt_rec)
  show ?thesis
    using remote_search_transparent [where search = "\<lambda>q. bleve_search listing_bleve q stored_twelve",
        OF plain_timestamppb_ok search, of "bleve_ops listing_bleve stored_twelve" 12 5
        "[zero_document, zero_document]" it' id "\<lparr>cr_arrived = 0, cr_error = External ''unavailable''\<rparr>"] drain
    by (simp add: ops_drain_bleve) (simp add: bleve_ops_def bleve_it_total_count_def it_def
        zero_document_def proto_time_def zero_time_def numeral_3_eq_3)
qed

end
