(* ===== verification/Pipeline.thy ===== *)
theory Pipeline
  imports Prelude "HOL-Library.Multiset"
begin

text \<open>
  The package \<^verbatim>\<open>pipeline\<close> (\<^verbatim>\<open>pipeline/stage.go\<close>, \<^verbatim>\<open>pipeline/pipeline.go\<close>): the stages and the
  goroutines of \<^verbatim>\<open>Pipeline.Process\<close> as small-step transition relations.

  Channels between nodes are unbuffered, so a send and its receive are one step of the network;
  a channel is closed once the node that writes to it has returned.  A processor is a function
  from a payload to an error, nothing (the payload is discarded) or a payload; the type of
  payloads is a parameter and may carry whatever a processor reads.  \<^verbatim>\<open>Broadcast\<close> hands the payload
  it received to the first FIFO and takes a clone after every payload it has handed on, of which
  the last is not used.  What the first FIFO and the stages after it do to the payload before the
  clone is taken shows in the clone.  \<open>process_step\<close> leaves that out: its payloads are values.
  \<open>clone_pending\<close> says which payload is yet to be cloned; \<open>race_free_step\<close> has the steps that do not
  recycle it meanwhile, and \<open>pooled_step\<close> lets those that do have their effect on the clone.
\<close>

section \<open>Stages\<close>

type_synonym 'p processor = "'p \<Rightarrow> go_error + 'p option"

text \<open>\<^verbatim>\<open>StageRunner\<close>s, and the constructors that check their arguments.\<close>

datatype 'p stage_runner =
    FIFO "'p processor"
  | FixedPool "'p processor" nat
  | DynamicPool "'p processor" nat
  | BroadcastStage "'p \<Rightarrow> 'p" "'p processor list"

definition fixed_worker_pool :: "'p processor \<Rightarrow> int \<Rightarrow> 'p stage_runner outcome" where
  "fixed_worker_pool proc numWorkers =
     (if numWorkers \<le> 0 then Panics ''FixedWorkerPool: numWorkers must be > 0''
      else Returns (FixedPool proc (nat numWorkers)))"

definition dynamic_worker_pool :: "'p processor \<Rightarrow> int \<Rightarrow> 'p stage_runner outcome" where
  "dynamic_worker_pool proc maxWorkers =
     (if maxWorkers \<le> 0 then Panics ''DynamicWorkerPool: maxWorkers must be > 0''
      else Returns (DynamicPool proc (nat maxWorkers)))"

definition broadcast :: "('p \<Rightarrow> 'p) \<Rightarrow> 'p processor \<Rightarrow> 'p processor list \<Rightarrow> 'p stage_runner" where
  "broadcast clone proc procs = BroadcastStage clone (proc # procs)"

text \<open>What a goroutine does in a step, as its surroundings see it.\<close>

datatype 'p act = Recv 'p | Send 'p | Tau | Mark 'p | Emit go_error

text \<open>
  A FIFO worker waits for a payload, runs its processor on it, or waits to send the result.
  \<open>cancelled\<close> says whether the context is cancelled, \<open>eof\<close> whether the input is closed.
\<close>

datatype 'p worker = Ready | Working 'p | Sending 'p | Exited

inductive fifo_step :: "'p processor \<Rightarrow> bool \<Rightarrow> bool \<Rightarrow> 'p worker \<Rightarrow> 'p act \<Rightarrow> 'p worker \<Rightarrow> bool"
  for proc cancelled eof where
  fifo_cancelled: "cancelled \<Longrightarrow> fifo_step proc cancelled eof Ready Tau Exited"
| fifo_closed: "eof \<Longrightarrow> fifo_step proc cancelled eof Ready Tau Exited"
| fifo_recv: "fifo_step proc cancelled eof Ready (Recv p) (Working p)"
| fifo_error: "proc p = Inl err \<Longrightarrow> fifo_step proc cancelled eof (Working p) (Emit (Wrap ''pipeline stage'' err)) Exited"
| fifo_discard: "proc p = Inr None \<Longrightarrow> fifo_step proc cancelled eof (Working p) (Mark p) Ready"
| fifo_result: "proc p = Inr (Some q) \<Longrightarrow> fifo_step proc cancelled eof (Working p) Tau (Sending q)"
| fifo_send: "fifo_step proc cancelled eof (Sending q) (Send q) Ready"
| fifo_abandon: "cancelled \<Longrightarrow> fifo_step proc cancelled eof (Sending q) Tau Exited"

text \<open>A goroutine of the dynamic pool handles one payload; at the end it owes its token.\<close>

inductive token_step :: "'p processor \<Rightarrow> bool \<Rightarrow> 'p worker \<Rightarrow> 'p act \<Rightarrow> 'p worker \<Rightarrow> bool"
  for proc cancelled where
  token_error: "proc p = Inl err \<Longrightarrow> token_step proc cancelled (Working p) (Emit (Wrap ''pipeline stage'' err)) Exited"
| token_discard: "proc p = Inr None \<Longrightarrow> token_step proc cancelled (Working p) (Mark p) Exited"
| token_result: "proc p = Inr (Some q) \<Longrightarrow> token_step proc cancelled (Working p) Tau (Sending q)"
| token_send: "token_step proc cancelled (Sending q) (Send q) Exited"
| token_abandon: "cancelled \<Longrightarrow> token_step proc cancelled (Sending q) Tau Exited"

inductive_cases fifo_stepE: "fifo_step proc cancelled eof w a w'"
inductive_cases token_stepE: "token_step proc cancelled w a w'"

section \<open>Nodes\<close>

text \<open>
  A node of the network is a stage, the source worker or the sink worker.  The source gives some
  payloads and then perhaps an error; the sink's state records the payloads consumed.
\<close>

datatype 'p node =
    SourceNode "'p list" "go_error option"
  | StageNode "'p stage_runner"
  | SinkNode "'p \<Rightarrow> go_error option"

datatype 'p dispatcher = Selecting | AwaitingToken 'p | Draining nat | Drained

datatype 'p broadcaster = Listening | Copying 'p 'p nat | Cloning 'p nat | Closing

text \<open>
  \<open>Dynamic\<close> has the goroutines that run and the tokens in the pool.  \<open>Copying p c i\<close> offers \<open>c\<close> to
  FIFO i, the payload p itself or a clone of it; in \<open>Cloning p i\<close> that FIFO has it, and the next
  clone of p has to be taken.
\<close>

datatype 'p node_state =
    SourceReading "'p list"
  | SourceSending 'p "'p list"
  | SourceExited
  | SinkReady "'p list"
  | SinkConsuming "'p list" 'p
  | SinkExited "'p list"
  | Workers "'p worker list"
  | Dynamic "'p dispatcher" "'p worker list" nat
  | Broadcasting "'p broadcaster" "'p worker list"

fun start_node :: "'p node \<Rightarrow> 'p node_state" where
  "start_node (SourceNode xs err) = SourceReading xs"
| "start_node (SinkNode consume) = SinkReady []"
| "start_node (StageNode (FIFO proc)) = Workers [Ready]"
| "start_node (StageNode (FixedPool proc n)) = Workers (replicate n Ready)"
| "start_node (StageNode (DynamicPool proc n)) = Dynamic Selecting [] n"
| "start_node (StageNode (BroadcastStage clone procs)) = Broadcasting Listening (replicate (length procs) Ready)"

fun finished :: "'p node_state \<Rightarrow> bool" where
  "finished SourceExited = True"
| "finished (SinkExited xs) = True"
| "finished (Workers ws) = (\<forall>w \<in> set ws. w = Exited)"
| "finished (Dynamic Drained ws n) = True"
| "finished (Broadcasting Closing ws) = (\<forall>w \<in> set ws. w = Exited)"
| "finished _ = False"

text \<open>What \<^verbatim>\<open>Broadcast\<close> gives to FIFO i.\<close>

definition copy_for :: "('p \<Rightarrow> 'p) \<Rightarrow> 'p \<Rightarrow> nat \<Rightarrow> 'p" where
  "copy_for clone p i = (if i = 0 then p else clone p)"

text \<open>Removing a goroutine that has ended.\<close>

definition drop_at :: "nat \<Rightarrow> 'a list \<Rightarrow> 'a list" where
  "drop_at i xs = take i xs @ drop (Suc i) xs"

inductive source_step :: "go_error option \<Rightarrow> bool \<Rightarrow> 'p node_state \<Rightarrow> 'p act \<Rightarrow> 'p node_state \<Rightarrow> bool"
  for err cancelled where
  source_next: "source_step err cancelled (SourceReading (p # xs)) Tau (SourceSending p xs)"
| source_done: "err = None \<Longrightarrow> source_step err cancelled (SourceReading []) Tau SourceExited"
| source_error: "err = Some e \<Longrightarrow>
    source_step err cancelled (SourceReading []) (Emit (Wrap ''pipeline source'' e)) SourceExited"
| source_send: "source_step err cancelled (SourceSending p xs) (Send p) (SourceReading xs)"
| source_abandon: "cancelled \<Longrightarrow> source_step err cancelled (SourceSending p xs) Tau SourceExited"

inductive sink_step ::
  "('p \<Rightarrow> go_error option) \<Rightarrow> bool \<Rightarrow> bool \<Rightarrow> 'p node_state \<Rightarrow> 'p act \<Rightarrow> 'p node_state \<Rightarrow> bool"
  for consume cancelled eof where
  sink_recv: "sink_step consume cancelled eof (SinkReady xs) (Recv p) (SinkConsuming xs p)"
| sink_exit: "cancelled \<or> eof \<Longrightarrow> sink_step consume cancelled eof (SinkReady xs) Tau (SinkExited xs)"
| sink_consume: "consume p = None \<Longrightarrow>
    sink_step consume cancelled eof (SinkConsuming xs p) (Mark p) (SinkReady (xs @ [p]))"
| sink_error: "consume p = Some err \<Longrightarrow>
    sink_step consume cancelled eof (SinkConsuming xs p) (Emit (Wrap ''pipeline sink'' err)) (SinkExited xs)"

inductive_cases source_stepE: "source_step err cancelled s a s'"
inductive_cases sink_stepE: "sink_step consume cancelled eof s a s'"

inductive node_step :: "'p node \<Rightarrow> bool \<Rightarrow> bool \<Rightarrow> 'p node_state \<Rightarrow> 'p act \<Rightarrow> 'p node_state \<Rightarrow> bool"
  for r cancelled eof where
  source_worker: "r = SourceNode items err \<Longrightarrow> source_step err cancelled s a s' \<Longrightarrow> node_step r cancelled eof s a s'"
| sink_worker: "r = SinkNode consume \<Longrightarrow> sink_step consume cancelled eof s a s' \<Longrightarrow> node_step r cancelled eof s a s'"
| workers_step: "r = StageNode (FIFO proc) \<or> r = StageNode (FixedPool proc k) \<Longrightarrow> i < length ws \<Longrightarrow>
    fifo_step proc cancelled eof (ws ! i) a w \<Longrightarrow>
    node_step r cancelled eof (Workers ws) a (Workers (ws[i := w]))"
| dynamic_recv: "r = StageNode (DynamicPool proc k) \<Longrightarrow>
    node_step r cancelled eof (Dynamic Selecting ws n) (Recv p) (Dynamic (AwaitingToken p) ws n)"
| dynamic_stop: "r = StageNode (DynamicPool proc k) \<Longrightarrow> cancelled \<or> eof \<Longrightarrow>
    node_step r cancelled eof (Dynamic Selecting ws n) Tau (Dynamic (Draining 0) ws n)"
| dynamic_spawn: "r = StageNode (DynamicPool proc k) \<Longrightarrow>
    node_step r cancelled eof (Dynamic (AwaitingToken p) ws (Suc n)) Tau (Dynamic Selecting (ws @ [Working p]) n)"
| dynamic_abandon: "r = StageNode (DynamicPool proc k) \<Longrightarrow> cancelled \<Longrightarrow>
    node_step r cancelled eof (Dynamic (AwaitingToken p) ws n) Tau (Dynamic (Draining 0) ws n)"
| dynamic_work: "r = StageNode (DynamicPool proc k) \<Longrightarrow> i < length ws \<Longrightarrow>
    token_step proc cancelled (ws ! i) a w \<Longrightarrow>
    node_step r cancelled eof (Dynamic d ws n) a (Dynamic d (ws[i := w]) n)"
| dynamic_return: "r = StageNode (DynamicPool proc k) \<Longrightarrow> i < length ws \<Longrightarrow> ws ! i = Exited \<Longrightarrow>
    node_step r cancelled eof (Dynamic d ws n) Tau (Dynamic d (drop_at i ws) (Suc n))"
| dynamic_drain: "r = StageNode (DynamicPool proc k) \<Longrightarrow> j < k \<Longrightarrow>
    node_step r cancelled eof (Dynamic (Draining j) ws (Suc n)) Tau (Dynamic (Draining (Suc j)) ws n)"
| dynamic_drained: "r = StageNode (DynamicPool proc k) \<Longrightarrow>
    node_step r cancelled eof (Dynamic (Draining k) ws n) Tau (Dynamic Drained ws n)"
| broadcast_recv: "r = StageNode (BroadcastStage clone procs) \<Longrightarrow>
    node_step r cancelled eof (Broadcasting Listening ws) (Recv p) (Broadcasting (Copying p p 0) ws)"
| broadcast_stop: "r = StageNode (BroadcastStage clone procs) \<Longrightarrow> cancelled \<or> eof \<Longrightarrow>
    node_step r cancelled eof (Broadcasting Listening ws) Tau (Broadcasting Closing ws)"
| broadcast_copy: "r = StageNode (BroadcastStage clone procs) \<Longrightarrow> i < length ws \<Longrightarrow> ws ! i = Ready \<Longrightarrow>
    node_step r cancelled eof (Broadcasting (Copying p c i) ws) Tau (Broadcasting (Cloning p i) (ws[i := Working c]))"
| broadcast_clone: "r = StageNode (BroadcastStage clone procs) \<Longrightarrow>
    node_step r cancelled eof (Broadcasting (Cloning p i) ws) Tau
      (Broadcasting (if Suc i < length ws then Copying p (clone p) (Suc i) else Listening) ws)"
| broadcast_abandon: "r = StageNode (BroadcastStage clone procs) \<Longrightarrow> cancelled \<Longrightarrow>
    node_step r cancelled eof (Broadcasting (Copying p c i) ws) Tau (Broadcasting Closing ws)"
| broadcast_work: "r = StageNode (BroadcastStage clone procs) \<Longrightarrow> i < length ws \<Longrightarrow> i < length procs \<Longrightarrow>
    (\<forall>p. a \<noteq> Recv p) \<Longrightarrow> fifo_step (procs ! i) cancelled (b = Closing) (ws ! i) a w \<Longrightarrow>
    node_step r cancelled eof (Broadcasting b ws) a (Broadcasting b (ws[i := w]))"

inductive_cases node_stepE: "node_step r cancelled eof s a s'"

section \<open>The network\<close>

text \<open>
  \<open>'s\<close> is the state of a node, \<open>S r\<close> the steps of the node \<open>r\<close> and \<open>fin\<close> says when it has returned.
\<close>

record 's network =
  net_nodes :: "'s list"
  net_cancelled :: bool
  net_errs :: "go_error list"
  net_result :: "go_error option"

fun closed_at :: "('s \<Rightarrow> bool) \<Rightarrow> 's list \<Rightarrow> nat \<Rightarrow> bool" where
  "closed_at fin ns 0 = True"
| "closed_at fin ns (Suc i) = fin (ns ! i)"

text \<open>
  \<^verbatim>\<open>maybeEmitError\<close>; the capacity of \<^verbatim>\<open>errCh\<close> is the number of nodes.
\<close>

definition maybe_emit_error :: "nat \<Rightarrow> go_error \<Rightarrow> go_error list \<Rightarrow> go_error list" where
  "maybe_emit_error cap err errs = (if length errs < cap then errs @ [err] else errs)"

text \<open>
  A step of \<^verbatim>\<open>Process\<close>: two neighbours meet on a channel, a node moves on its own, a node emits
  an error, or the caller's loop collects one and cancels the context of the nodes.
\<close>

inductive net_step ::
  "('r \<Rightarrow> bool \<Rightarrow> bool \<Rightarrow> 's \<Rightarrow> 'p act \<Rightarrow> 's \<Rightarrow> bool) \<Rightarrow> ('s \<Rightarrow> bool) \<Rightarrow> 'r list \<Rightarrow> 's network \<Rightarrow> 's network \<Rightarrow> bool"
  for S fin rs where
  net_comm: "Suc j < length rs \<Longrightarrow>
    S (rs ! j) (net_cancelled N) (closed_at fin (net_nodes N) j) (net_nodes N ! j) (Send p) s \<Longrightarrow>
    S (rs ! Suc j) (net_cancelled N) (closed_at fin (net_nodes N) (Suc j)) (net_nodes N ! Suc j) (Recv p) s' \<Longrightarrow>
    net_step S fin rs N (N\<lparr>net_nodes := (net_nodes N)[j := s, Suc j := s']\<rparr>)"
| net_quiet: "j < length rs \<Longrightarrow> a = Tau \<or> (\<exists>p. a = Mark p) \<Longrightarrow>
    S (rs ! j) (net_cancelled N) (closed_at fin (net_nodes N) j) (net_nodes N ! j) a s \<Longrightarrow>
    net_step S fin rs N (N\<lparr>net_nodes := (net_nodes N)[j := s]\<rparr>)"
| net_emit: "j < length rs \<Longrightarrow>
    S (rs ! j) (net_cancelled N) (closed_at fin (net_nodes N) j) (net_nodes N ! j) (Emit err) s \<Longrightarrow>
    net_step S fin rs N (N\<lparr>net_nodes := (net_nodes N)[j := s],
      net_errs := maybe_emit_error (length rs) err (net_errs N)\<rparr>)"
| net_collect: "net_errs N = err # errs \<Longrightarrow>
    net_step S fin rs N (N\<lparr>net_errs := errs, net_result := multierror_append (net_result N) err, net_cancelled := True\<rparr>)"

text \<open>The caller's context may be cancelled at any moment.\<close>

inductive net_run ::
  "('r \<Rightarrow> bool \<Rightarrow> bool \<Rightarrow> 's \<Rightarrow> 'p act \<Rightarrow> 's \<Rightarrow> bool) \<Rightarrow> ('s \<Rightarrow> bool) \<Rightarrow> 'r list \<Rightarrow> 's network \<Rightarrow> 's network \<Rightarrow> bool"
  for S fin rs N0 where
  run_start: "net_run S fin rs N0 N0"
| run_step: "net_run S fin rs N0 N \<Longrightarrow> net_step S fin rs N N' \<Longrightarrow> net_run S fin rs N0 N'"
| run_cancel: "net_run S fin rs N0 N \<Longrightarrow> net_run S fin rs N0 (N\<lparr>net_cancelled := True\<rparr>)"

text \<open>\<^verbatim>\<open>Process\<close> returns when every node has and the error channel is drained.\<close>

definition net_returned :: "('s \<Rightarrow> bool) \<Rightarrow> 's network \<Rightarrow> bool" where
  "net_returned fin N \<longleftrightarrow> (\<forall>s \<in> set (net_nodes N). fin s) \<and> net_errs N = []"

section \<open>Process\<close>

definition start_network :: "'p node list \<Rightarrow> 'p node_state network" where
  "start_network rs = \<lparr>net_nodes = map start_node rs, net_cancelled = False, net_errs = [], net_result = None\<rparr>"

definition pipeline_nodes ::
  "'p stage_runner list \<Rightarrow> 'p list \<Rightarrow> go_error option \<Rightarrow> ('p \<Rightarrow> go_error option) \<Rightarrow> 'p node list" where
  "pipeline_nodes stages items err consume = SourceNode items err # map StageNode stages @ [SinkNode consume]"

definition process_step :: "'p node list \<Rightarrow> 'p node_state network \<Rightarrow> 'p node_state network \<Rightarrow> bool" where
  "process_step = net_step node_step finished"

definition process_run :: "'p node list \<Rightarrow> 'p node_state network \<Rightarrow> 'p node_state network \<Rightarrow> bool" where
  "process_run = net_run node_step finished"

definition process_returned :: "'p node_state network \<Rightarrow> bool" where
  "process_returned = net_returned finished"

text \<open>
  A payload that has been handed to a FIFO of a broadcast stage and will be cloned once more; the
  clone after the last FIFO is not used, but taking it empties buffers of the payload all the same.
\<close>

fun clone_pending :: "'p node_state \<Rightarrow> 'p \<Rightarrow> bool" where
  "clone_pending (Broadcasting (Copying q c i) ws) p = (q = p \<and> i \<noteq> 0)"
| "clone_pending (Broadcasting (Cloning q i) ws) p = (q = p)"
| "clone_pending _ p = False"

text \<open>A step in which a node calls \<^verbatim>\<open>MarkAsProcessed\<close> on a payload.\<close>

definition recycles :: "'p node list \<Rightarrow> 'p node_state network \<Rightarrow> 'p \<Rightarrow> 'p node_state network \<Rightarrow> bool" where
  "recycles rs N p N' \<longleftrightarrow> (\<exists>j s. j < length rs \<and>
     node_step (rs ! j) (net_cancelled N) (closed_at finished (net_nodes N) j) (net_nodes N ! j) (Mark p) s \<and>
     N' = N\<lparr>net_nodes := (net_nodes N)[j := s]\<rparr>)"

text \<open>
  The steps of \<^verbatim>\<open>Process\<close> but for those that recycle a payload while \<^verbatim>\<open>Broadcast\<close> has yet to
  clone it, or an equal one.
\<close>

definition race_free_step :: "'p node list \<Rightarrow> 'p node_state network \<Rightarrow> 'p node_state network \<Rightarrow> bool" where
  "race_free_step rs N N' \<longleftrightarrow>
     net_step (\<lambda>r cancelled eof s a s'. node_step r cancelled eof s a s' \<and>
         (\<forall>p. a = Mark p \<longrightarrow> \<not> (\<exists>t \<in> set (net_nodes N). clone_pending t p))) finished rs N N'"

text \<open>
  A payload that was recycled belongs to the pool, and who takes it from there writes to it: by the
  time its clone is taken it may hold anything.
\<close>

fun written :: "'p \<Rightarrow> 'p \<Rightarrow> 'p node_state \<Rightarrow> 'p node_state" where
  "written p q (Broadcasting (Copying p' c i) ws) = Broadcasting (Copying (if p' = p \<and> i \<noteq> 0 then q else p') c i) ws"
| "written p q (Broadcasting (Cloning p' i) ws) = Broadcasting (Cloning (if p' = p then q else p') i) ws"
| "written p q s = s"

inductive pooled_step :: "'p node list \<Rightarrow> 'p node_state network \<Rightarrow> 'p node_state network \<Rightarrow> bool" for rs where
  pooled_calm: "race_free_step rs N N' \<Longrightarrow> pooled_step rs N N'"
| pooled_race: "recycles rs N p N' \<Longrightarrow> s \<in> set (net_nodes N) \<Longrightarrow> clone_pending s p \<Longrightarrow>
    pooled_step rs N (N'\<lparr>net_nodes := map (written p q) (net_nodes N')\<rparr>)"

fun consumed :: "'p node_state \<Rightarrow> 'p list" where
  "consumed (SinkReady xs) = xs"
| "consumed (SinkConsuming xs p) = xs"
| "consumed (SinkExited xs) = xs"
| "consumed _ = []"

definition sink_consumed :: "'p node_state network \<Rightarrow> 'p list" where
  "sink_consumed N = consumed (last (net_nodes N))"

end
