(* ===== verification/PipelineNet.thy ===== *)
theory PipelineNet
  imports Pipeline
begin

text \<open>
  Networks of nodes that follow the protocol of a pipeline stage: what a node may still send is
  accounted for, a node that waits waits for a neighbour, and every step of a node uses up some
  of its potential.  From these laws: payloads are conserved on their way through the network,
  every run is finite, and a run that stops has returned.
\<close>

section \<open>Sums over the nodes\<close>

text \<open>Node \<open>j\<close> moves from \<open>s\<close> to \<open>s'\<close>, weighed by what follows it in the network.\<close>

definition weight :: "('r list \<Rightarrow> 'r \<Rightarrow> 's \<Rightarrow> 'm::comm_monoid_add) \<Rightarrow> 'r list \<Rightarrow> 's list \<Rightarrow> 'm" where
  "weight g rs ns = (\<Sum>i<length ns. g (drop (Suc i) rs) (rs ! i) (ns ! i))"

lemma weight_update:
  fixes g :: "'r list \<Rightarrow> 'r \<Rightarrow> 's \<Rightarrow> 'm::comm_monoid_add"
  assumes "j < length ns"
  shows "weight g rs (ns[j := s]) + g (drop (Suc j) rs) (rs ! j) (ns ! j) =
    weight g rs ns + g (drop (Suc j) rs) (rs ! j) s"
  using sum_nth_update [OF assms, of "\<lambda>i. g (drop (Suc i) rs) (rs ! i)" s] by (simp add: weight_def)

lemma weight_update2:
  fixes g :: "'r list \<Rightarrow> 'r \<Rightarrow> 's \<Rightarrow> 'm::comm_monoid_add"
  assumes "Suc j < length ns"
  shows "weight g rs (ns[j := s, Suc j := s']) +
      (g (drop (Suc j) rs) (rs ! j) (ns ! j) + g (drop (Suc (Suc j)) rs) (rs ! Suc j) (ns ! Suc j)) =
    weight g rs ns + (g (drop (Suc j) rs) (rs ! j) s + g (drop (Suc (Suc j)) rs) (rs ! Suc j) s')"
proof -
  let ?W = "weight g rs (ns[j := s])"
  have new: "weight g rs (ns[j := s, Suc j := s']) + g (drop (Suc (Suc j)) rs) (rs ! Suc j) (ns ! Suc j) =
      ?W + g (drop (Suc (Suc j)) rs) (rs ! Suc j) s'"
    using weight_update [of "Suc j" "ns[j := s]" g rs s'] assms by simp
  have old: "?W + g (drop (Suc j) rs) (rs ! j) (ns ! j) =
      weight g rs ns + g (drop (Suc j) rs) (rs ! j) s"
    using weight_update [of j ns g rs s] assms by simp
  have "weight g rs (ns[j := s, Suc j := s']) +
      (g (drop (Suc j) rs) (rs ! j) (ns ! j) + g (drop (Suc (Suc j)) rs) (rs ! Suc j) (ns ! Suc j)) =
      (?W + g (drop (Suc (Suc j)) rs) (rs ! Suc j) s') + g (drop (Suc j) rs) (rs ! j) (ns ! j)"
    unfolding new [symmetric] by (simp add: ac_simps)
  also have "\<dots> = (?W + g (drop (Suc j) rs) (rs ! j) (ns ! j)) + g (drop (Suc (Suc j)) rs) (rs ! Suc j) s'"
    by (simp add: ac_simps)
  also have "\<dots> = weight g rs ns + (g (drop (Suc j) rs) (rs ! j) s + g (drop (Suc (Suc j)) rs) (rs ! Suc j) s')"
    unfolding old by (simp add: ac_simps)
  finally show ?thesis .
qed

section \<open>Runs\<close>

text \<open>A step of the network is a step of its nodes.\<close>

lemma net_step_node:
  assumes "net_step S fin rs N N'" "i < length rs" "length (net_nodes N) = length rs"
  shows "net_nodes N' ! i = net_nodes N ! i \<or> (\<exists>c e a. S (rs ! i) c e (net_nodes N ! i) a (net_nodes N' ! i))"
  using assms
proof cases
  case (net_comm j p s s')
  then show ?thesis using assms(2,3) by (cases "i = j"; cases "i = Suc j") auto
next
  case (net_quiet j a s)
  then show ?thesis using assms(2,3) by (cases "i = j") auto
next
  case (net_emit j err s)
  then show ?thesis using assms(2,3) by (cases "i = j") auto
qed simp

lemma net_step_length: "net_step S fin rs N N' \<Longrightarrow> length (net_nodes N') = length (net_nodes N)"
  by (induction rule: net_step.induct) auto

lemma net_run_length: "net_run S fin rs N0 N \<Longrightarrow> length (net_nodes N) = length (net_nodes N0)"
  by (induction rule: net_run.induct) (auto simp: net_step_length)

text \<open>An invariant of one node is an invariant of the run.\<close>

lemma net_run_node:
  assumes "net_run S fin rs N0 N" "i < length rs" "length (net_nodes N0) = length rs" "P (net_nodes N0 ! i)"
    and "\<And>c e s a s'. P s \<Longrightarrow> S (rs ! i) c e s a s' \<Longrightarrow> P s'"
  shows "P (net_nodes N ! i)"
  using assms(1,4)
proof (induction rule: net_run.induct)
  case (run_step N N')
  then show ?case
    using net_step_node [OF run_step.hyps(2) assms(2)] net_run_length [OF run_step.hyps(1)] assms(3,5) by metis
qed auto

text \<open>Unless the caller cancels, the context is cancelled only after an error was collected.\<close>

lemma net_steps_run: "(net_step S fin rs)\<^sup>*\<^sup>* N N' \<Longrightarrow> net_run S fin rs N N'"
  by (induction rule: rtranclp_induct) (auto intro: net_run.intros)

lemma net_steps_cancelled:
  assumes "(net_step S fin rs)\<^sup>*\<^sup>* N N'" "net_cancelled N \<longrightarrow> net_result N \<noteq> None"
  shows "net_cancelled N' \<longrightarrow> net_result N' \<noteq> None"
  using assms
proof (induction rule: rtranclp_induct)
  case (step N1 N2)
  from step.hyps(2) step.IH step.prems show ?case
    by cases (auto simp: multierror_append_def split: option.splits go_error.splits)
qed auto

section \<open>The laws of a node\<close>

fun quiet :: "'p act \<Rightarrow> bool" where
  "quiet Tau = True"
| "quiet (Mark p) = True"
| "quiet _ = False"

lemma quiet_iff: "quiet a \<longleftrightarrow> a = Tau \<or> (\<exists>p. a = Mark p)"
  by (cases a) auto

text \<open>
  Tokens stand for payloads under way, a payload \<open>p\<close> for \<open>tok p\<close>, and \<open>bad\<close> for an error to come.  \<open>pending\<close> is what a node has taken but not sent yet, as the tokens it will
  send; \<open>outputs\<close> is what it makes of a token.  \<open>pot c\<close> and \<open>cost c\<close> bound the steps of a node and the steps a
  payload adds to it, when sending a payload \<open>q\<close> costs \<open>c q\<close> further on.  A node is \<open>calm\<close> when no
  part of it has stopped early.
\<close>

locale node_laws =
  fixes S :: "'r \<Rightarrow> bool \<Rightarrow> bool \<Rightarrow> 's \<Rightarrow> 'p act \<Rightarrow> 's \<Rightarrow> bool"
    and fin :: "'s \<Rightarrow> bool"
    and ok :: "'r \<Rightarrow> 's \<Rightarrow> bool"
    and calm :: "'r \<Rightarrow> bool \<Rightarrow> 's \<Rightarrow> bool"
    and is_sink :: "'r \<Rightarrow> bool"
    and tok :: "'p \<Rightarrow> 'q"
    and bad :: 'q
    and outputs :: "'r \<Rightarrow> 'q \<Rightarrow> 'q multiset"
    and pending :: "'r \<Rightarrow> 's \<Rightarrow> 'q multiset"
    and pot :: "'r \<Rightarrow> ('p \<Rightarrow> nat) \<Rightarrow> 's \<Rightarrow> nat"
    and cost :: "'r \<Rightarrow> ('p \<Rightarrow> nat) \<Rightarrow> 'p \<Rightarrow> nat"
  assumes ok_step: "ok r s \<Longrightarrow> S r c e s a s' \<Longrightarrow> ok r s'"
    and fin_step: "ok r s \<Longrightarrow> S r c e s a s' \<Longrightarrow> \<not> fin s"
    and sink_sends: "ok r s \<Longrightarrow> S r c e s (Send p) s' \<Longrightarrow> \<not> is_sink r"
    and pending_fin: "ok r s \<Longrightarrow> fin s \<Longrightarrow> \<not> is_sink r \<Longrightarrow> pending r s = {#}"
    and pending_recv: "ok r s \<Longrightarrow> S r c e s (Recv p) s' \<Longrightarrow> pending r s' = pending r s + outputs r (tok p)"
    and pending_send: "ok r s \<Longrightarrow> S r c e s (Send p) s' \<Longrightarrow> pending r s = add_mset (tok p) (pending r s')"
    and pending_own: "ok r s \<Longrightarrow> S r c e s a s' \<Longrightarrow> quiet a \<or> (\<exists>err. a = Emit err) \<Longrightarrow>
        pending r s' \<subseteq># pending r s \<and> (quiet a \<and> \<not> c \<longrightarrow> pending r s' = pending r s)"
    and outputs_bad: "outputs r bad = {#bad#}"
    and emit_bad: "ok r s \<Longrightarrow> S r c e s (Emit err) s' \<Longrightarrow> bad \<in># pending r s"
    and pot_recv: "ok r s \<Longrightarrow> S r c e s (Recv p) s' \<Longrightarrow> pot r f s' \<le> pot r f s + cost r f p"
    and pot_send: "ok r s \<Longrightarrow> S r c e s (Send p) s' \<Longrightarrow> pot r f s' + f p < pot r f s"
    and pot_quiet: "ok r s \<Longrightarrow> S r c e s a s' \<Longrightarrow> quiet a \<Longrightarrow> pot r f s' < pot r f s"
    and pot_emit: "ok r s \<Longrightarrow> S r c e s (Emit err) s' \<Longrightarrow> pot r f s' + 1 < pot r f s"
    and cancelled_moves: "ok r s \<Longrightarrow> \<not> fin s \<Longrightarrow> \<exists>a s'. S r True e s a s' \<and> (quiet a \<or> (\<exists>err. a = Emit err))"
    and calm_moves: "ok r s \<Longrightarrow> calm r e s \<Longrightarrow> \<not> fin s \<Longrightarrow>
        (\<exists>a s'. S r False e s a s' \<and> (quiet a \<or> (\<exists>err. a = Emit err))) \<or> (\<exists>q s'. S r False e s (Send q) s') \<or>
        (\<not> e \<and> (\<forall>p. \<exists>s'. S r False e s (Recv p) s'))"
    and calm_step: "ok r s \<Longrightarrow> calm r e s \<Longrightarrow> S r False e s a s' \<Longrightarrow> \<not> (\<exists>err. a = Emit err) \<Longrightarrow> calm r e s'"
    and calm_closed: "calm r False s \<Longrightarrow> calm r True s"
    and calm_fin: "ok r s \<Longrightarrow> calm r e s \<Longrightarrow> fin s \<Longrightarrow> e"
begin

text \<open>What becomes of a token sent to the first of some nodes; a sink keeps it.\<close>

primrec through :: "'r list \<Rightarrow> 'q \<Rightarrow> 'q multiset" where
  "through [] p = {#p#}"
| "through (r # rs) p = (\<Sum>q \<in># outputs r p. through rs q)"

primrec send_cost :: "'r list \<Rightarrow> 'p \<Rightarrow> nat" where
  "send_cost [] p = 0"
| "send_cost (r # rs) p = cost r (send_cost rs) p"

definition flow :: "'r list \<Rightarrow> 's list \<Rightarrow> 'q multiset" where
  "flow = weight (\<lambda>rs r s. \<Sum>q \<in># pending r s. through rs q)"

definition potential :: "'r list \<Rightarrow> 's list \<Rightarrow> nat" where
  "potential = weight (\<lambda>rs r s. pot r (send_cost rs) s)"

definition measure_of :: "'r list \<Rightarrow> 's network \<Rightarrow> nat" where
  "measure_of rs N = potential rs (net_nodes N) + length (net_errs N) + (if net_cancelled N then 0 else 1)"

text \<open>The invariant of a run; \<open>F\<close> is what the network owes.\<close>

definition net_inv :: "'q multiset \<Rightarrow> 'r list \<Rightarrow> 's network \<Rightarrow> bool" where
  "net_inv F rs N \<longleftrightarrow> length (net_nodes N) = length rs \<and> (\<forall>j < length rs. ok (rs ! j) (net_nodes N ! j)) \<and>
     flow rs (net_nodes N) \<subseteq># F \<and>
     (\<not> net_cancelled N \<and> net_errs N = [] \<longrightarrow>
        net_result N = None \<and> flow rs (net_nodes N) = F \<and>
        (\<forall>j < length rs. calm (rs ! j) (closed_at fin (net_nodes N) j) (net_nodes N ! j)))"

lemma flow_comm:
  assumes len: "length ns = length rs" "Suc j < length rs" and oks: "ok (rs ! j) (ns ! j)" "ok (rs ! Suc j) (ns ! Suc j)"
    and send: "S (rs ! j) c e (ns ! j) (Send p) s" and recv: "S (rs ! Suc j) c e' (ns ! Suc j) (Recv p) s'"
  shows "flow rs (ns[j := s, Suc j := s']) = flow rs ns"
proof -
  have "drop (Suc j) rs = rs ! Suc j # drop (Suc (Suc j)) rs" using len(2) by (simp add: Cons_nth_drop_Suc)
  then show ?thesis
    using weight_update2 [of j ns "\<lambda>rs r s. \<Sum>q \<in># pending r s. through rs q" rs s s'] len
      pending_send [OF oks(1) send] pending_recv [OF oks(2) recv]
    by (simp add: flow_def ac_simps)
qed

lemma flow_own:
  assumes len: "length ns = length rs" "j < length rs" and ok: "ok (rs ! j) (ns ! j)"
    and own: "S (rs ! j) c e (ns ! j) a s" "quiet a \<or> (\<exists>err. a = Emit err)"
  shows "flow rs (ns[j := s]) \<subseteq># flow rs ns" and "quiet a \<Longrightarrow> \<not> c \<Longrightarrow> flow rs (ns[j := s]) = flow rs ns"
proof -
  note P = pending_own [OF ok own]
  note W = weight_update [of j ns "\<lambda>rs r s. \<Sum>q \<in># pending r s. through rs q" rs s, folded flow_def]
  from P obtain M where M: "pending (rs ! j) (ns ! j) = pending (rs ! j) s + M" by (auto simp: subset_mset.le_iff_add)
  then have "flow rs (ns[j := s]) + (\<Sum>q \<in># M. through (drop (Suc j) rs) q) = flow rs ns"
    using W len by (simp add: ac_simps)
  then show "flow rs (ns[j := s]) \<subseteq># flow rs ns" by (metis mset_subset_eq_add_left)
  show "flow rs (ns[j := s]) = flow rs ns" if "quiet a" "\<not> c"
    using W len P that by simp
qed

lemma potential_comm:
  assumes len: "length ns = length rs" "Suc j < length rs" and oks: "ok (rs ! j) (ns ! j)" "ok (rs ! Suc j) (ns ! Suc j)"
    and send: "S (rs ! j) c e (ns ! j) (Send p) s" and recv: "S (rs ! Suc j) c e' (ns ! Suc j) (Recv p) s'"
  shows "potential rs (ns[j := s, Suc j := s']) < potential rs ns"
proof -
  have "drop (Suc j) rs = rs ! Suc j # drop (Suc (Suc j)) rs" using len(2) by (simp add: Cons_nth_drop_Suc)
  then show ?thesis
    using weight_update2 [of j ns "\<lambda>rs r s. pot r (send_cost rs) s" rs s s', folded potential_def] len
      pot_send [OF oks(1) send, of "send_cost (drop (Suc j) rs)"]
      pot_recv [OF oks(2) recv, of "send_cost (drop (Suc (Suc j)) rs)"]
    by simp
qed

lemma potential_own:
  assumes len: "length ns = length rs" "j < length rs" and ok: "ok (rs ! j) (ns ! j)"
    and own: "S (rs ! j) c e (ns ! j) a s"
  shows "quiet a \<Longrightarrow> potential rs (ns[j := s]) < potential rs ns"
    and "a = Emit err \<Longrightarrow> potential rs (ns[j := s]) + 1 < potential rs ns"
  using weight_update [of j ns "\<lambda>rs r s. pot r (send_cost rs) s" rs s, folded potential_def] len
    pot_quiet [OF ok own, of "send_cost (drop (Suc j) rs)"] pot_emit [OF ok, of c e err s "send_cost (drop (Suc j) rs)"] own
  by auto

text \<open>Every step uses up some of the measure, so every run is finite.\<close>

lemma step_decreases:
  assumes inv: "net_inv F rs N" and step: "net_step S fin rs N N'"
  shows "measure_of rs N' < measure_of rs N"
  using step
proof cases
  case (net_comm j p s s')
  then show ?thesis
    using potential_comm [of "net_nodes N" rs j] inv by (auto simp: net_inv_def measure_of_def)
next
  case (net_quiet j a s)
  then show ?thesis
    using potential_own(1) [of "net_nodes N" rs j] inv by (auto simp: net_inv_def measure_of_def quiet_iff)
next
  case (net_emit j err s)
  then have "potential rs ((net_nodes N)[j := s]) + 1 < potential rs (net_nodes N)"
    using potential_own(2) [of "net_nodes N" rs j] inv by (auto simp: net_inv_def)
  then show ?thesis using net_emit by (auto simp: measure_of_def maybe_emit_error_def)
next
  case (net_collect err errs)
  then show ?thesis by (simp add: measure_of_def)
qed

text \<open>The invariant holds along a run.\<close>

lemma calm_mono: "calm r e s \<Longrightarrow> (e \<longrightarrow> e') \<Longrightarrow> calm r e' s"
  using calm_closed by (cases e; cases e') auto

lemma closed_update: "\<not> fin (ns ! j) \<Longrightarrow> closed_at fin ns i \<longrightarrow> closed_at fin (ns[j := s]) i"
  by (cases i; cases "j < length ns") (auto simp: nth_list_update list_update_beyond)

lemma calm_update:
  assumes len: "length ns = length rs" and oks: "\<forall>i < length rs. ok (rs ! i) (ns ! i)"
    and calms: "\<forall>i < length rs. calm (rs ! i) (closed_at fin ns i) (ns ! i)"
    and j: "j < length rs" and own: "S (rs ! j) False (closed_at fin ns j) (ns ! j) a s" "\<not> (\<exists>err. a = Emit err)"
  shows "\<forall>i < length rs. calm (rs ! i) (closed_at fin (ns[j := s]) i) (ns[j := s] ! i)"
proof (intro allI impI)
  fix i
  assume i: "i < length rs"
  have "\<not> fin (ns ! j)" using fin_step [OF _ own(1)] oks j by blast
  then have mono: "closed_at fin ns i \<longrightarrow> closed_at fin (ns[j := s]) i"
    by (rule closed_update)
  have "calm (rs ! i) (closed_at fin ns i) (ns[j := s] ! i)"
    using calms i j len calm_step [OF _ _ own] oks by (cases "i = j") auto
  then show "calm (rs ! i) (closed_at fin (ns[j := s]) i) (ns[j := s] ! i)"
    using mono by (rule calm_mono)
qed

lemma ok_update:
  assumes "length ns = length rs" "\<forall>i < length rs. ok (rs ! i) (ns ! i)" "j < length rs" "S (rs ! j) c e (ns ! j) a s"
  shows "\<forall>i < length rs. ok (rs ! i) (ns[j := s] ! i)"
  using assms ok_step by (auto simp: nth_list_update)

lemma closed_at_other: "Suc k \<noteq> i \<Longrightarrow> closed_at fin (ns[k := s]) i = closed_at fin ns i"
  by (cases i) auto

lemma step_inv:
  assumes inv: "net_inv F rs N" and step: "net_step S fin rs N N'"
  shows "net_inv F rs N'"
proof -
  let ?ns = "net_nodes N"
  have len: "length ?ns = length rs" and oks: "\<forall>j < length rs. ok (rs ! j) (?ns ! j)" and sub: "flow rs ?ns \<subseteq># F"
    and clean: "\<not> net_cancelled N \<Longrightarrow> net_errs N = [] \<Longrightarrow> net_result N = None \<and> flow rs ?ns = F \<and>
        (\<forall>j < length rs. calm (rs ! j) (closed_at fin ?ns j) (?ns ! j))"
    using inv by (auto simp: net_inv_def)
  from step show ?thesis
  proof cases
    case (net_comm j p s s')
    have j: "j < length rs" using net_comm(2) by simp
    let ?ns1 = "?ns[j := s]"
    have oks1: "\<forall>i < length rs. ok (rs ! i) (?ns1 ! i)" by (rule ok_update [OF len oks j net_comm(3)])
    have recv: "S (rs ! Suc j) (net_cancelled N) (closed_at fin ?ns (Suc j)) (?ns1 ! Suc j) (Recv p) s'"
      using net_comm(4) by simp
    have oks2: "\<forall>i < length rs. ok (rs ! i) (?ns1[Suc j := s'] ! i)"
      using ok_update [OF _ oks1 net_comm(2) recv] len by simp
    have flow: "flow rs (?ns1[Suc j := s']) = flow rs ?ns"
      using flow_comm [OF len net_comm(2) _ _ net_comm(3,4)] oks j net_comm(2) by simp
    have "\<forall>i < length rs. calm (rs ! i) (closed_at fin (?ns1[Suc j := s']) i) (?ns1[Suc j := s'] ! i)"
      if c: "\<not> net_cancelled N" "net_errs N = []"
    proof -
      have calm1: "\<forall>i < length rs. calm (rs ! i) (closed_at fin ?ns1 i) (?ns1 ! i)"
        using calm_update [OF len oks _ j, of "Send p" s] net_comm(3) clean [OF c] c(1) by simp
      have nf: "\<not> fin (?ns ! j)" using fin_step [OF _ net_comm(3)] oks j by blast
      show ?thesis
      proof (cases "closed_at fin ?ns1 (Suc j)")
        case False
        then show ?thesis
          using calm_update [OF _ oks1 calm1 net_comm(2), of "Recv p" s'] recv nf c(1) len j by simp
      next
        case True
        have "calm (rs ! Suc j) False (?ns ! Suc j)" using clean [OF c] net_comm(2) nf by fastforce
        then have "calm (rs ! Suc j) False s'"
          using calm_step [of "rs ! Suc j" "?ns ! Suc j" False "Recv p" s'] net_comm(2,4) nf c(1) oks by simp
        then have 1: "calm (rs ! Suc j) True s'" by (rule calm_closed)
        have nf': "\<not> fin (?ns1 ! Suc j)" using fin_step [OF _ recv] oks1 net_comm(2) by blast
        show ?thesis
        proof (intro allI impI)
          fix i
          assume i: "i < length rs"
          have mono: "closed_at fin ?ns1 i \<longrightarrow> closed_at fin (?ns1[Suc j := s']) i"
            using nf' by (rule closed_update)
          have "calm (rs ! i) (closed_at fin ?ns1 i) (?ns1[Suc j := s'] ! i)"
            using calm1 i len 1 True by (cases "i = Suc j") auto
          then show "calm (rs ! i) (closed_at fin (?ns1[Suc j := s']) i) (?ns1[Suc j := s'] ! i)"
            using mono by (rule calm_mono)
        qed
      qed
    qed
    then show ?thesis
      using net_comm(1) oks2 flow sub clean len by (auto simp: net_inv_def)
  next
    case (net_quiet j a s)
    then have own: "quiet a" "\<not> (\<exists>err. a = Emit err)" by (auto simp: quiet_iff)
    note fl = flow_own [OF len net_quiet(2) _ net_quiet(4)]
    have "flow rs (?ns[j := s]) \<subseteq># F" using fl(1) own oks net_quiet(2) sub subset_mset.order_trans by blast
    then show ?thesis
      using net_quiet(1) ok_update [OF len oks net_quiet(2,4)] fl(2) own oks net_quiet(2,4) clean len
        calm_update [OF len oks _ net_quiet(2), of a s]
      by (auto simp: net_inv_def)
  next
    case (net_emit j err s)
    have "flow rs (?ns[j := s]) \<subseteq># F"
      using flow_own(1) [OF len net_emit(2) _ net_emit(3)] oks net_emit(2) sub subset_mset.order_trans by blast
    moreover have "maybe_emit_error (length rs) err (net_errs N) \<noteq> []"
      using net_emit(2) by (auto simp: maybe_emit_error_def)
    ultimately show ?thesis
      using net_emit(1) ok_update [OF len oks net_emit(2,3)] len by (auto simp: net_inv_def)
  next
    case (net_collect err errs)
    then show ?thesis using len oks sub by (auto simp: net_inv_def)
  qed
qed

lemma run_inv:
  assumes "net_run S fin rs N0 N" "net_inv F rs N0"
  shows "net_inv F rs N"
  using assms
proof (induction rule: net_run.induct)
  case (run_cancel N)
  then show ?case by (auto simp: net_inv_def)
qed (auto intro: step_inv)

text \<open>A network in which nothing can happen has returned.\<close>

lemma own_step:
  assumes "j < length rs" "S (rs ! j) (net_cancelled N) (closed_at fin (net_nodes N) j) (net_nodes N ! j) a s"
    and "quiet a \<or> (\<exists>err. a = Emit err)"
  shows "\<exists>N'. net_step S fin rs N N'"
proof (cases "quiet a")
  case True
  then show ?thesis
    using net_step.net_quiet [where S = S and fin = fin and rs = rs and j = j and N = N and a = a and s = s] assms
    by (auto simp: quiet_iff)
next
  case False
  with assms(2,3) obtain err where "S (rs ! j) (net_cancelled N) (closed_at fin (net_nodes N) j) (net_nodes N ! j) (Emit err) s"
    by auto
  then show ?thesis
    using net_step.net_emit [where S = S and fin = fin and rs = rs and j = j and N = N and s = s] assms(1) by blast
qed

lemma progress:
  assumes inv: "net_inv F rs N" and last: "is_sink (rs ! (length rs - 1))"
    and run: "\<not> net_returned fin N"
  shows "\<exists>N'. net_step S fin rs N N'"
proof (rule ccontr)
  assume stuck: "\<nexists>N'. net_step S fin rs N N'"
  let ?ns = "net_nodes N"
  have len: "length ?ns = length rs" and oks: "\<And>j. j < length rs \<Longrightarrow> ok (rs ! j) (?ns ! j)"
    using inv by (auto simp: net_inv_def)
  have errs: "net_errs N = []" using stuck net_step.net_collect by (cases "net_errs N") blast+
  have no_own: "\<not> (quiet a \<or> (\<exists>err. a = Emit err))"
    if "j < length rs" "S (rs ! j) (net_cancelled N) (closed_at fin ?ns j) (?ns ! j) a s" for j a s
    using own_step [OF that] stuck by blast
  obtain k where k: "k < length rs" "\<not> fin (?ns ! k)"
    using run errs len by (auto simp: net_returned_def in_set_conv_nth)
  have go: "\<not> net_cancelled N"
  proof
    assume c: "net_cancelled N"
    from cancelled_moves [OF oks [OF k(1)] k(2), of "closed_at fin ?ns k"] obtain a s
      where "S (rs ! k) True (closed_at fin ?ns k) (?ns ! k) a s" "quiet a \<or> (\<exists>err. a = Emit err)" by blast
    with no_own [OF k(1)] c show False by simp
  qed
  then have calms: "\<And>j. j < length rs \<Longrightarrow> calm (rs ! j) (closed_at fin ?ns j) (?ns ! j)"
    using inv errs by (simp add: net_inv_def)
  have moves: "(\<exists>q s'. S (rs ! j) False (closed_at fin ?ns j) (?ns ! j) (Send q) s') \<or>
      \<not> closed_at fin ?ns j \<and> (\<forall>p. \<exists>s'. S (rs ! j) False (closed_at fin ?ns j) (?ns ! j) (Recv p) s')"
    if "j < length rs" "\<not> fin (?ns ! j)" for j
    using calm_moves [OF oks [OF that(1)] calms [OF that(1)] that(2)] no_own [OF that(1)] go by fastforce
  have later: "\<not> fin (?ns ! (k + i))" if "k + i < length rs" for i
    using that
  proof (induction i)
    case (Suc i)
    then have "\<not> closed_at fin ?ns (Suc (k + i))" by simp
    then show ?case using calm_fin [OF oks calms, of "Suc (k + i)"] Suc.prems by auto
  qed (simp add: k)
  define n where "n = length rs - 1"
  have n: "n < length rs" "k \<le> n" using k(1) by (auto simp: n_def)
  have "\<not> fin (?ns ! n)" using later [of "n - k"] n by simp
  moreover have "\<nexists>q s'. S (rs ! n) False (closed_at fin ?ns n) (?ns ! n) (Send q) s'"
    using sink_sends [OF oks [OF n(1)]] last by (auto simp: n_def)
  ultimately have base: "\<not> closed_at fin ?ns n \<and> (\<forall>p. \<exists>s'. S (rs ! n) False (closed_at fin ?ns n) (?ns ! n) (Recv p) s')"
    using moves [OF n(1)] by blast
  have "\<not> closed_at fin ?ns (n - i) \<and> (\<forall>p. \<exists>s'. S (rs ! (n - i)) False (closed_at fin ?ns (n - i)) (?ns ! (n - i)) (Recv p) s')"
    if "i \<le> n" for i
    using that
  proof (induction i)
    case 0
    from base show ?case unfolding minus_nat.diff_0 .
  next
    case (Suc i)
    obtain m where m: "n - i = Suc m" "n - Suc i = m" using Suc.prems by (metis Suc_diff_Suc Suc_le_lessD)
    have lt: "Suc m < length rs" using m(1) n(1) by linarith
    have IH: "\<not> fin (?ns ! m)" "\<And>p. \<exists>s'. S (rs ! Suc m) False (closed_at fin ?ns (Suc m)) (?ns ! Suc m) (Recv p) s'"
      using Suc.IH Suc.prems m(1) by auto
    have "\<nexists>q s'. S (rs ! m) False (closed_at fin ?ns m) (?ns ! m) (Send q) s'"
      using IH(2) net_step.net_comm [OF lt, of S N fin] go stuck by (metis (full_types))
    then show ?case using moves [of m] lt IH(1) m(2) by auto
  qed
  from this [of n] show False by simp
qed

text \<open>
  Hence, from any state of a run, without a further cancellation by the caller, the network
  returns after at most as many steps as its measure, whatever the order of the steps.
\<close>

lemma returns:
  assumes "net_inv F rs N" "is_sink (rs ! (length rs - 1))"
  shows "\<exists>N'. (net_step S fin rs)\<^sup>*\<^sup>* N N' \<and> net_returned fin N'"
  using assms(1)
proof (induction "measure_of rs N" arbitrary: N rule: less_induct)
  case less
  show ?case
  proof (cases "net_returned fin N")
    case False
    from progress [OF less.prems assms(2) this] obtain N' where N': "net_step S fin rs N N'" by blast
    from less.hyps [OF step_decreases [OF less.prems this] step_inv [OF less.prems this]]
    show ?thesis using N' by (meson converse_rtranclp_into_rtranclp)
  qed blast
qed

lemma run_length:
  assumes "net_inv F rs N" "(net_step S fin rs ^^ n) N N'"
  shows "n \<le> measure_of rs N"
  using assms
proof (induction n arbitrary: N)
  case (Suc n)
  then obtain N1 where N1: "net_step S fin rs N N1" "(net_step S fin rs ^^ n) N1 N'" by (meson relpowp_Suc_E2)
  with Suc.IH [OF step_inv [OF Suc.prems(1) N1(1)] N1(2)] step_decreases [OF Suc.prems(1) N1(1)] show ?case by simp
qed simp

lemma through_Nil: "through [] = (\<lambda>p. {#p#})"
  by (rule ext) simp

text \<open>When it returns, all that the nodes but the last owe has been paid.\<close>

lemma returned_flow:
  assumes inv: "net_inv F rs N" and ret: "net_returned fin N" and rs: "rs \<noteq> []"
    and sinks: "\<forall>j < length rs - 1. \<not> is_sink (rs ! j)"
  shows "flow rs (net_nodes N) = pending (last rs) (last (net_nodes N))"
proof -
  let ?ns = "net_nodes N"
  have len: "length ?ns = length rs" and oks: "\<forall>j < length rs. ok (rs ! j) (?ns ! j)" using inv by (auto simp: net_inv_def)
  define n where "n = length rs - 1"
  have n: "length rs = Suc n" using rs by (simp add: n_def)
  have fin: "\<forall>j < n. fin (?ns ! j)" using ret len n by (auto simp: net_returned_def)
  have "(\<Sum>i<n. \<Sum>q \<in># pending (rs ! i) (?ns ! i). through (drop (Suc i) rs) q) = {#}"
    using fin pending_fin oks sinks [folded n_def] n by (intro sum.neutral) simp
  then have "flow rs ?ns = (\<Sum>q \<in># pending (rs ! n) (?ns ! n). {#q#})"
    using len n by (simp add: flow_def weight_def through_Nil del: through.simps)
  moreover have "(\<Sum>q \<in># pending (rs ! n) (?ns ! n). {#q#}) = pending (rs ! n) (?ns ! n)" by simp
  moreover have "?ns \<noteq> []" using len n by auto
  ultimately show ?thesis using rs len n by (simp add: last_conv_nth)
qed

text \<open>Where no error is to come, none is emitted.\<close>

lemma through_bad: "through rs bad = {#bad#}"
  by (induction rs) (simp_all add: outputs_bad)

lemma emit_flow:
  assumes "length ns = length rs" "j < length rs" "bad \<in># pending (rs ! j) (ns ! j)"
  shows "bad \<in># flow rs ns"
proof -
  have "bad \<in># (\<Sum>q \<in># pending (rs ! j) (ns ! j). through (drop (Suc j) rs) q)"
    using assms(3) through_bad [of "drop (Suc j) rs"] by (auto intro: rev_bexI)
  moreover have "(\<Sum>q \<in># pending (rs ! j) (ns ! j). through (drop (Suc j) rs) q) \<subseteq># flow rs ns"
    unfolding flow_def weight_def using assms(1,2) by (subst sum.remove [of _ j]) auto
  ultimately show ?thesis by (meson mset_subset_eqD)
qed

lemma no_error:
  assumes "(net_step S fin rs)\<^sup>*\<^sup>* N0 N" "net_inv F rs N0" "bad \<notin># F"
    and "net_errs N0 = []" "net_result N0 = None"
  shows "net_errs N = [] \<and> net_result N = None"
proof -
  have "net_inv F rs N \<and> net_errs N = [] \<and> net_result N = None"
    using assms(1,2,4,5)
  proof (induction rule: rtranclp_induct)
    case (step N1 N2)
    then have N1: "net_inv F rs N1" "net_errs N1 = []" "net_result N1 = None" by auto
    from step.hyps(2) have "net_errs N2 = [] \<and> net_result N2 = None"
    proof cases
      case (net_emit j err s)
      have "bad \<in># flow rs (net_nodes N1)"
        using N1(1) emit_bad [OF _ net_emit(3)] net_emit(2) by (intro emit_flow [of _ _ j]) (auto simp: net_inv_def)
      then have "bad \<in># F" using N1(1) by (auto simp: net_inv_def dest: mset_subset_eqD)
      with assms(3) show ?thesis by contradiction
    qed (use N1 in auto)
    with step_inv [OF N1(1) step.hyps(2)] show ?case by simp
  qed auto
  then show ?thesis by blast
qed

end

end
