(* ===== verification/PipelineNodes.thy ===== *)
theory PipelineNodes
  imports PipelineNet
begin

text \<open>
  The nodes of a pipeline obey the laws of a network: source, FIFO, fixed and dynamic worker
  pool, broadcast and sink.
\<close>

section \<open>Workers\<close>

text \<open>What a processor makes of a payload, and what a worker will send; \<open>None\<close> stands for an error.\<close>

definition results :: "'p processor \<Rightarrow> 'p \<Rightarrow> 'p option multiset" where
  "results proc p = (case proc p of Inl _ \<Rightarrow> {#None#} | Inr None \<Rightarrow> {#} | Inr (Some q) \<Rightarrow> {#Some q#})"

fun worker_pending :: "'p processor \<Rightarrow> 'p worker \<Rightarrow> 'p option multiset" where
  "worker_pending proc (Working p) = results proc p"
| "worker_pending proc (Sending q) = {#Some q#}"
| "worker_pending proc _ = {#}"

text \<open>The steps left to a worker, when what it sends costs \<open>f\<close> further on.\<close>

definition result_cost :: "('p \<Rightarrow> nat) \<Rightarrow> 'p processor \<Rightarrow> 'p \<Rightarrow> nat" where
  "result_cost f proc p = (case proc p of Inr (Some q) \<Rightarrow> f q | _ \<Rightarrow> 0)"

fun worker_pot :: "('p \<Rightarrow> nat) \<Rightarrow> 'p processor \<Rightarrow> 'p worker \<Rightarrow> nat" where
  "worker_pot f proc Exited = 0"
| "worker_pot f proc Ready = 1"
| "worker_pot f proc (Sending q) = 3 + f q"
| "worker_pot f proc (Working p) = 4 + result_cost f proc p"

lemma fifo_pending:
  assumes "fifo_step proc c e w a w'"
  shows "a = Recv p \<Longrightarrow> worker_pending proc w' = worker_pending proc w + results proc p"
    and "a = Send p \<Longrightarrow> worker_pending proc w = add_mset (Some p) (worker_pending proc w')"
    and "quiet a \<or> (\<exists>err. a = Emit err) \<Longrightarrow> worker_pending proc w' \<subseteq># worker_pending proc w"
    and "quiet a \<Longrightarrow> \<not> c \<Longrightarrow> worker_pending proc w' = worker_pending proc w"
  using assms by (auto elim!: fifo_stepE simp: results_def)

lemma fifo_pot:
  assumes "fifo_step proc c e w a w'"
  shows "a = Recv p \<Longrightarrow> worker_pot f proc w' \<le> worker_pot f proc w + (4 + result_cost f proc p)"
    and "a = Send p \<Longrightarrow> worker_pot f proc w' + f p < worker_pot f proc w"
    and "quiet a \<Longrightarrow> worker_pot f proc w' < worker_pot f proc w"
    and "a = Emit err \<Longrightarrow> worker_pot f proc w' + 1 < worker_pot f proc w"
  using assms by (auto elim!: fifo_stepE simp: result_cost_def)

lemma token_pending:
  assumes "token_step proc c w a w'"
  shows "a \<noteq> Recv p"
    and "a = Send p \<Longrightarrow> worker_pending proc w = add_mset (Some p) (worker_pending proc w')"
    and "quiet a \<or> (\<exists>err. a = Emit err) \<Longrightarrow> worker_pending proc w' \<subseteq># worker_pending proc w"
    and "quiet a \<Longrightarrow> \<not> c \<Longrightarrow> worker_pending proc w' = worker_pending proc w"
  using assms by (auto elim!: token_stepE simp: results_def)

lemma token_pot:
  assumes "token_step proc c w a w'"
  shows "a = Send p \<Longrightarrow> worker_pot f proc w' + f p < worker_pot f proc w"
    and "quiet a \<Longrightarrow> worker_pot f proc w' < worker_pot f proc w"
    and "a = Emit err \<Longrightarrow> worker_pot f proc w' + 1 < worker_pot f proc w"
  using assms by (auto elim!: token_stepE simp: result_cost_def)

text \<open>A worker that has not ended waits for input, waits to send, or moves.\<close>

lemma fifo_moves:
  "w \<noteq> Exited \<Longrightarrow> w \<noteq> Ready \<or> c \<or> e \<Longrightarrow>
   (\<exists>a w'. fifo_step proc c e w a w' \<and> (quiet a \<or> (\<exists>err. a = Emit err)) \<and> (\<forall>p. a \<noteq> Recv p)) \<or>
   \<not> c \<and> (\<exists>q w'. fifo_step proc c e w (Send q) w')"
proof (cases w)
  case Ready
  then show "w \<noteq> Exited \<Longrightarrow> w \<noteq> Ready \<or> c \<or> e \<Longrightarrow> ?thesis" by (fastforce intro: fifo_step.intros)
next
  case (Working p)
  show ?thesis
  proof (cases "proc p")
    case (Inl err)
    then show ?thesis using Working by (fastforce intro: fifo_step.intros)
  next
    case (Inr r)
    then show ?thesis using Working by (cases r) (fastforce intro: fifo_step.intros)+
  qed
next
  case (Sending q)
  then show ?thesis by (cases c) (fastforce intro: fifo_step.intros)+
qed simp

lemma token_moves:
  "w \<noteq> Exited \<Longrightarrow> w \<noteq> Ready \<Longrightarrow>
   (\<exists>a w'. token_step proc c w a w' \<and> (quiet a \<or> (\<exists>err. a = Emit err))) \<or>
   \<not> c \<and> (\<exists>q w'. token_step proc c w (Send q) w')"
proof (cases w)
  case (Working p)
  show ?thesis
  proof (cases "proc p")
    case (Inl err)
    then show ?thesis using Working by (fastforce intro: token_step.intros)
  next
    case (Inr r)
    then show ?thesis using Working by (cases r) (fastforce intro: token_step.intros)+
  qed
next
  case (Sending q)
  then show ?thesis by (cases c) (fastforce intro: token_step.intros)+
qed simp_all

lemma fifo_shape:
  assumes "fifo_step proc c e w a w'"
  shows "w \<noteq> Exited" "w' = Exited \<Longrightarrow> c \<or> e \<or> (\<exists>err. a = Emit err)"
  using assms by (auto elim!: fifo_stepE)

lemma token_shape:
  assumes "token_step proc c w a w'"
  shows "w \<noteq> Exited" "w' \<noteq> Ready"
  using assms by (auto elim!: token_stepE)

section \<open>Sums over the workers of a node\<close>

lemma sum_list_update_add:
  fixes g :: "'a \<Rightarrow> 'm::comm_monoid_add"
  shows "i < length ws \<Longrightarrow> sum_list (map g (ws[i := w])) + g (ws ! i) = sum_list (map g ws) + g w"
proof (induction ws arbitrary: i)
  case (Cons x ws)
  then show ?case by (cases i) (auto simp: ac_simps)
qed simp

lemma sum_list_drop_at:
  fixes g :: "'a \<Rightarrow> 'm::comm_monoid_add"
  shows "i < length ws \<Longrightarrow> sum_list (map g (drop_at i ws)) + g (ws ! i) = sum_list (map g ws)"
  by (subst (3) id_take_nth_drop [of i ws]) (auto simp: drop_at_def ac_simps)

lemma length_drop_at: "i < length ws \<Longrightarrow> Suc (length (drop_at i ws)) = length ws"
  by (simp add: drop_at_def)

lemma set_drop_at: "set (drop_at i ws) \<subseteq> set ws"
  by (auto simp: drop_at_def dest: in_set_takeD in_set_dropD)

section \<open>The laws\<close>

fun node_ok :: "'p node \<Rightarrow> 'p node_state \<Rightarrow> bool" where
  "node_ok (SourceNode xs err) s \<longleftrightarrow> (case s of SourceReading _ \<Rightarrow> True | SourceSending _ _ \<Rightarrow> True | SourceExited \<Rightarrow> True | _ \<Rightarrow> False)"
| "node_ok (SinkNode consume) s \<longleftrightarrow> (case s of SinkReady _ \<Rightarrow> True | SinkConsuming _ _ \<Rightarrow> True | SinkExited _ \<Rightarrow> True | _ \<Rightarrow> False)"
| "node_ok (StageNode (FIFO proc)) s \<longleftrightarrow> (case s of Workers ws \<Rightarrow> ws \<noteq> [] | _ \<Rightarrow> False)"
| "node_ok (StageNode (FixedPool proc k)) s \<longleftrightarrow> (case s of Workers ws \<Rightarrow> ws \<noteq> [] | _ \<Rightarrow> False)"
| "node_ok (StageNode (DynamicPool proc k)) s \<longleftrightarrow>
     (case s of
        Dynamic d ws n \<Rightarrow> 0 < k \<and> Ready \<notin> set ws \<and>
          n + length ws + (case d of Draining j \<Rightarrow> j | Drained \<Rightarrow> k | _ \<Rightarrow> 0) = k
      | _ \<Rightarrow> False)"
| "node_ok (StageNode (BroadcastStage clone procs)) s \<longleftrightarrow>
     (case s of
        Broadcasting b ws \<Rightarrow> ws \<noteq> [] \<and> length ws = length procs \<and> (case b of Copying p c i \<Rightarrow> i < length ws | Cloning p i \<Rightarrow> i < length ws | _ \<Rightarrow> True)
      | _ \<Rightarrow> False)"

fun node_calm :: "bool \<Rightarrow> 'p node_state \<Rightarrow> bool" where
  "node_calm e (SourceReading xs) = e"
| "node_calm e (SourceSending p xs) = e"
| "node_calm e SourceExited = e"
| "node_calm e (SinkExited xs) = e"
| "node_calm e (Workers ws) = (Exited \<in> set ws \<longrightarrow> e)"
| "node_calm e (Dynamic (Draining j) ws n) = e"
| "node_calm e (Dynamic Drained ws n) = e"
| "node_calm e (Broadcasting Closing ws) = e"
| "node_calm e (Broadcasting b ws) = (Exited \<notin> set ws)"
| "node_calm e s = True"

fun is_sink_node :: "'p node \<Rightarrow> bool" where
  "is_sink_node (SinkNode consume) = True"
| "is_sink_node _ = False"

text \<open>What an error of the source, or of the sink, amounts to.\<close>

definition failure :: "go_error option \<Rightarrow> 'p option multiset" where
  "failure err = (case err of None \<Rightarrow> {#} | Some _ \<Rightarrow> {#None#})"

definition sink_result :: "('p \<Rightarrow> go_error option) \<Rightarrow> 'p \<Rightarrow> 'p option" where
  "sink_result consume p = (case consume p of None \<Rightarrow> Some p | Some _ \<Rightarrow> None)"

fun node_results :: "'p node \<Rightarrow> 'p \<Rightarrow> 'p option multiset" where
  "node_results (StageNode (FIFO proc)) p = results proc p"
| "node_results (StageNode (FixedPool proc k)) p = results proc p"
| "node_results (StageNode (DynamicPool proc k)) p = results proc p"
| "node_results (StageNode (BroadcastStage clone procs)) p = (\<Sum>i<length procs. results (procs ! i) (copy_for clone p i))"
| "node_results (SourceNode xs err) p = {#}"
| "node_results (SinkNode consume) p = {#sink_result consume p#}"

fun node_outputs :: "'p node \<Rightarrow> 'p option \<Rightarrow> 'p option multiset" where
  "node_outputs r None = {#None#}"
| "node_outputs r (Some p) = node_results r p"

fun source_failure :: "'p node \<Rightarrow> 'p option multiset" where
  "source_failure (SourceNode xs err) = failure err"
| "source_failure _ = {#}"

fun stage_proc :: "'p node \<Rightarrow> 'p processor" where
  "stage_proc (StageNode (FIFO proc)) = proc"
| "stage_proc (StageNode (FixedPool proc k)) = proc"
| "stage_proc (StageNode (DynamicPool proc k)) = proc"
| "stage_proc _ = (\<lambda>_. Inr None)"

fun broadcast_results :: "'p node \<Rightarrow> nat \<Rightarrow> 'p \<Rightarrow> 'p option multiset" where
  "broadcast_results (StageNode (BroadcastStage clone procs)) i p =
     (\<Sum>j \<in> {i..<length procs}. results (procs ! j) (copy_for clone p j))"
| "broadcast_results _ i p = {#}"

fun broadcast_procs :: "'p node \<Rightarrow> 'p processor list" where
  "broadcast_procs (StageNode (BroadcastStage clone procs)) = procs"
| "broadcast_procs _ = []"

fun node_pending :: "'p node \<Rightarrow> 'p node_state \<Rightarrow> 'p option multiset" where
  "node_pending r (SourceReading xs) = mset (map Some xs) + source_failure r"
| "node_pending r (SourceSending p xs) = add_mset (Some p) (mset (map Some xs)) + source_failure r"
| "node_pending r SourceExited = {#}"
| "node_pending r (SinkReady xs) = mset (map Some xs)"
| "node_pending r (SinkConsuming xs p) = mset (map Some xs) + node_results r p"
| "node_pending r (SinkExited xs) = mset (map Some xs)"
| "node_pending r (Workers ws) = sum_list (map (worker_pending (stage_proc r)) ws)"
| "node_pending r (Dynamic d ws n) =
     (case d of AwaitingToken p \<Rightarrow> results (stage_proc r) p | _ \<Rightarrow> {#}) + sum_list (map (worker_pending (stage_proc r)) ws)"
| "node_pending r (Broadcasting b ws) =
     (case b of Copying p c i \<Rightarrow> results (broadcast_procs r ! i) c + broadcast_results r (Suc i) p | Cloning p i \<Rightarrow> broadcast_results r (Suc i) p | _ \<Rightarrow> {#}) +
     (\<Sum>j<length ws. worker_pending (broadcast_procs r ! j) (ws ! j))"

fun broadcast_cost :: "('p \<Rightarrow> nat) \<Rightarrow> 'p node \<Rightarrow> nat \<Rightarrow> 'p \<Rightarrow> nat" where
  "broadcast_cost f (StageNode (BroadcastStage clone procs)) i p =
     (\<Sum>j \<in> {i..<length procs}. 6 + result_cost f (procs ! j) (copy_for clone p j))"
| "broadcast_cost f _ i p = 0"

fun pool_size :: "'p node \<Rightarrow> nat" where
  "pool_size (StageNode (DynamicPool proc k)) = k"
| "pool_size _ = 0"

fun node_pot :: "'p node \<Rightarrow> ('p \<Rightarrow> nat) \<Rightarrow> 'p node_state \<Rightarrow> nat" where
  "node_pot r f (SourceReading xs) = 3 + (\<Sum>x\<leftarrow>xs. 3 + f x)"
| "node_pot r f (SourceSending p xs) = 5 + f p + (\<Sum>x\<leftarrow>xs. 3 + f x)"
| "node_pot r f SourceExited = 0"
| "node_pot r f (SinkReady xs) = 1"
| "node_pot r f (SinkConsuming xs p) = 4"
| "node_pot r f (SinkExited xs) = 0"
| "node_pot r f (Workers ws) = sum_list (map (worker_pot f (stage_proc r)) ws)"
| "node_pot r f (Dynamic d ws n) =
     (case d of
        Selecting \<Rightarrow> 3 + pool_size r
      | AwaitingToken p \<Rightarrow> 9 + pool_size r + result_cost f (stage_proc r) p
      | Draining j \<Rightarrow> 1 + (pool_size r - j)
      | Drained \<Rightarrow> 0) + sum_list (map (\<lambda>w. 1 + worker_pot f (stage_proc r) w) ws)"
| "node_pot r f (Broadcasting b ws) =
     (case b of Listening \<Rightarrow> 1 | Copying p c i \<Rightarrow> 8 + result_cost f (broadcast_procs r ! i) c + broadcast_cost f r (Suc i) p
      | Cloning p i \<Rightarrow> 3 + broadcast_cost f r (Suc i) p | Closing \<Rightarrow> 0) +
     (\<Sum>j<length ws. worker_pot f (broadcast_procs r ! j) (ws ! j))"

fun node_cost :: "'p node \<Rightarrow> ('p \<Rightarrow> nat) \<Rightarrow> 'p \<Rightarrow> nat" where
  "node_cost (SinkNode consume) f p = 3"
| "node_cost (StageNode (BroadcastStage clone procs)) f p = 1 + broadcast_cost f (StageNode (BroadcastStage clone procs)) 0 p"
| "node_cost r f p = 6 + result_cost f (stage_proc r) p"

lemma node_ok_start:
  "node_ok r (start_node r)" if "r = SourceNode xs err \<or> r = SinkNode consume \<or> r = StageNode (FIFO proc) \<or>
    r = StageNode (FixedPool proc k) \<and> 0 < k \<or> r = StageNode (DynamicPool proc k) \<and> 0 < k \<or>
    r = StageNode (BroadcastStage clone procs) \<and> procs \<noteq> []"
  using that by auto

lemma node_ok_step:
  assumes "node_ok r s" "node_step r c e s a s'"
  shows "node_ok r s'"
  using assms(2,1)
proof cases
  case (dynamic_work proc k i ws w d n)
  then show ?thesis
    using assms(1) token_shape(2) [OF dynamic_work(5)] by (auto dest: set_update_subset_insert [THEN subsetD])
next
  case (dynamic_return proc k i ws d n)
  then show ?thesis
    using assms(1) length_drop_at [of i ws] set_drop_at [of i ws] by auto
qed (use assms(1) in \<open>auto elim!: source_stepE sink_stepE split: broadcaster.splits\<close>)

lemma node_fin_step:
  assumes "node_ok r s" "node_step r c e s a s'"
  shows "\<not> finished s"
  using assms(2,1)
proof cases
  case (workers_step proc k i ws w)
  then show ?thesis using fifo_shape(1) [OF workers_step(5)] by (auto intro: nth_mem)
next
  case (dynamic_work proc k i ws w d n)
  then show ?thesis using assms(1) by (cases d) auto
next
  case (dynamic_return proc k i ws d n)
  then show ?thesis using assms(1) by (cases d) auto
next
  case (broadcast_work clone procs i ws b w)
  then show ?thesis using fifo_shape(1) [OF broadcast_work(7)] by (cases b) (auto intro: nth_mem)
qed (auto elim!: source_stepE sink_stepE split: broadcaster.splits)

lemma node_sink_sends:
  assumes "node_step r c e s (Send p) s'"
  shows "\<not> is_sink_node r"
  using assms by cases (auto elim: source_stepE sink_stepE)

lemma sum_split_first:
  fixes g :: "nat \<Rightarrow> 'm::comm_monoid_add"
  shows "i < n \<Longrightarrow> (\<Sum>j \<in> {i..<n}. g j) = g i + (\<Sum>j \<in> {Suc i..<n}. g j)"
  by (simp add: sum.atLeast_Suc_lessThan)

lemma broadcast_results_step:
  "i < length procs \<Longrightarrow> broadcast_results (StageNode (BroadcastStage clone procs)) i p =
     results (procs ! i) (copy_for clone p i) + broadcast_results (StageNode (BroadcastStage clone procs)) (Suc i) p"
  by (simp add: sum_split_first)

lemma broadcast_end:
  "length procs \<le> i \<Longrightarrow> broadcast_results (StageNode (BroadcastStage clone procs)) i p = {#}"
  "length procs \<le> i \<Longrightarrow> broadcast_cost f (StageNode (BroadcastStage clone procs)) i p = 0"
  by simp_all

lemma broadcast_cost_step:
  "i < length procs \<Longrightarrow> broadcast_cost f (StageNode (BroadcastStage clone procs)) i p =
     6 + result_cost f (procs ! i) (copy_for clone p i) + broadcast_cost f (StageNode (BroadcastStage clone procs)) (Suc i) p"
  by (simp add: sum_split_first)

lemma workers_pending_eq:
  "i < length ws \<Longrightarrow>
   sum_list (map (worker_pending proc) (ws[i := w])) + worker_pending proc (ws ! i) =
   sum_list (map (worker_pending proc) ws) + worker_pending proc w"
  by (rule sum_list_update_add)

lemma indexed_pending_eq:
  "i < length ws \<Longrightarrow>
   (\<Sum>j<length ws. worker_pending (ps ! j) (ws[i := w] ! j)) + worker_pending (ps ! i) (ws ! i) =
   (\<Sum>j<length ws. worker_pending (ps ! j) (ws ! j)) + worker_pending (ps ! i) w"
  by (rule sum_nth_update)

lemma workers_pot_eq:
  "i < length ws \<Longrightarrow>
   sum_list (map (worker_pot f proc) (ws[i := w])) + worker_pot f proc (ws ! i) =
   sum_list (map (worker_pot f proc) ws) + worker_pot f proc w"
  by (rule sum_list_update_add)

lemma tokens_pot_eq:
  "i < length ws \<Longrightarrow>
   sum_list (map (\<lambda>w. Suc (worker_pot f proc w)) (ws[i := w])) + worker_pot f proc (ws ! i) =
   sum_list (map (\<lambda>w. Suc (worker_pot f proc w)) ws) + worker_pot f proc w"
  using sum_list_update_add [of i ws "\<lambda>w. Suc (worker_pot f proc w)" w] by simp

lemma indexed_pot_eq:
  "i < length ws \<Longrightarrow>
   (\<Sum>j<length ws. worker_pot f (ps ! j) (ws[i := w] ! j)) + worker_pot f (ps ! i) (ws ! i) =
   (\<Sum>j<length ws. worker_pot f (ps ! j) (ws ! j)) + worker_pot f (ps ! i) w"
  by (rule sum_nth_update)

text \<open>A change of one summand, as a change of the sum.\<close>

lemma mset_swap:
  fixes A A' B B' C :: "'a multiset"
  assumes "A' + B = A + B'"
  shows "B' = B + C \<Longrightarrow> A' = A + C" "B = B' + C \<Longrightarrow> A = A' + C" "B' \<subseteq># B \<Longrightarrow> A' \<subseteq># A"
proof -
  show "A' = A + C" if "B' = B + C" using assms unfolding that by (simp add: ac_simps)
  show A: "A = A' + C" if "B = B' + C" for C using assms unfolding that by (simp add: ac_simps)
  show "A' \<subseteq># A" if "B' \<subseteq># B"
  proof -
    from that obtain D where "B = B' + D" by (auto simp: subset_mset.le_iff_add)
    from A [OF this] show ?thesis by simp
  qed
qed

lemma node_pending_recv:
  assumes "node_ok r s" "node_step r c e s (Recv p) s'"
  shows "node_pending r s' = node_pending r s + node_outputs r (Some p)"
  using assms(2,1)
proof cases
  case (workers_step proc k i ws w)
  then show ?thesis
    using mset_swap(1) [OF workers_pending_eq [of i ws proc w] fifo_pending(1) [OF workers_step(5) refl]] by auto
next
  case (dynamic_work proc k i ws w d n)
  then show ?thesis using token_pending(1) [OF dynamic_work(5), of p] by simp
next
  case (broadcast_recv clone procs ws)
  then have "0 < length procs" using assms(1) by auto
  then show ?thesis
    using broadcast_recv sum_split_first [of 0 "length procs" "\<lambda>i. results (procs ! i) (copy_for clone p i)"]
    by (simp add: ac_simps lessThan_atLeast0 copy_for_def)
qed (auto elim!: source_stepE sink_stepE)

lemma node_pending_send:
  assumes "node_ok r s" "node_step r c e s (Send p) s'"
  shows "node_pending r s = add_mset (Some p) (node_pending r s')"
  using assms(2,1)
proof cases
  case (workers_step proc k i ws w)
  then show ?thesis
    using mset_swap(2) [OF workers_pending_eq [of i ws proc w], of "{#Some p#}"] fifo_pending(2) [OF workers_step(5) refl] by auto
next
  case (dynamic_work proc k i ws w d n)
  then show ?thesis
    using mset_swap(2) [OF workers_pending_eq [of i ws proc w], of "{#Some p#}"] token_pending(2) [OF dynamic_work(5) refl] by auto
next
  case (broadcast_work clone procs i ws b w)
  then show ?thesis
    using mset_swap(2) [OF indexed_pending_eq [of i ws procs w], of "{#Some p#}"] fifo_pending(2) [OF broadcast_work(7) refl] by auto
qed (auto elim!: source_stepE sink_stepE)

lemma node_pending_own:
  assumes "node_ok r s" "node_step r c e s a s'" "quiet a \<or> (\<exists>err. a = Emit err)"
  shows "node_pending r s' \<subseteq># node_pending r s \<and> (quiet a \<and> \<not> c \<longrightarrow> node_pending r s' = node_pending r s)"
  using assms(2,1)
proof cases
  case (workers_step proc k i ws w)
  then show ?thesis
    using mset_swap(3) [OF workers_pending_eq [of i ws proc w]] fifo_pending(3,4) [OF workers_step(5)]
      workers_pending_eq [of i ws proc w] assms(3) by auto
next
  case (dynamic_work proc k i ws w d n)
  then show ?thesis
    using mset_swap(3) [OF workers_pending_eq [of i ws proc w]] token_pending(3,4) [OF dynamic_work(5)]
      workers_pending_eq [of i ws proc w] assms(3) by auto
next
  case (dynamic_return proc k i ws d n)
  then show ?thesis using sum_list_drop_at [of i ws "worker_pending proc"] by auto
next
  case (broadcast_copy clone procs i ws p d)
  then have "i < length procs" using assms(1) by simp
  then show ?thesis
    using broadcast_copy indexed_pending_eq [of i ws procs "Working d"] broadcast_results_step [of i procs clone p] assms(1)
    by (auto simp: ac_simps broadcast_end simp del: broadcast_results.simps)
next
  case (broadcast_clone clone procs p i ws)
  then show ?thesis using broadcast_results_step [of "Suc i" procs clone p] assms(1)
    by (auto simp: broadcast_end copy_for_def simp del: broadcast_results.simps)
next
  case (broadcast_work clone procs i ws b w)
  then show ?thesis
    using mset_swap(3) [OF indexed_pending_eq [of i ws procs w]] fifo_pending(3,4) [OF broadcast_work(7)]
      indexed_pending_eq [of i ws procs w] assms(3) by auto
qed (use assms(3) in \<open>auto elim!: source_stepE sink_stepE simp: failure_def sink_result_def\<close>)

lemma node_emit_bad:
  assumes "node_ok r s" "node_step r c e s (Emit err) s'"
  shows "None \<in># node_pending r s"
proof -
  have fifo: "None \<in># worker_pending proc w" if "fifo_step proc c e' w (Emit err) w'" for proc e' and w w' :: "'a worker"
    using that by cases (simp add: results_def)
  have token: "None \<in># worker_pending proc w" if "token_step proc c w (Emit err) w'" for proc and w w' :: "'a worker"
    using that by cases (simp add: results_def)
  have listed: "None \<in># sum_list (map (worker_pending proc) ws)" if "i < length ws" "None \<in># worker_pending proc (ws ! i)"
    for proc i and ws :: "'a worker list"
    using that by (subst id_take_nth_drop [OF that(1)]) simp
  have indexed: "None \<in># (\<Sum>j<length ws. worker_pending (ps ! j) (ws ! j))" if "i < length ws" "None \<in># worker_pending (ps ! i) (ws ! i)"
    for ps i and ws :: "'a worker list"
    using that by (subst sum.remove [of _ i]) auto
  from assms(2,1) show ?thesis
  proof cases
    case (workers_step proc k i ws w)
    then show ?thesis using listed [OF _ fifo] by auto
  next
    case (dynamic_work proc k i ws w d n)
    then show ?thesis using listed [OF _ token] by auto
  next
    case (broadcast_work clone procs i ws b w)
    then show ?thesis using indexed [OF _ fifo] by auto
  qed (auto elim!: source_stepE sink_stepE simp: failure_def sink_result_def)
qed

lemma node_pending_fin:
  assumes "node_ok r s" "finished s" "\<not> is_sink_node r"
  shows "node_pending r s = {#}"
proof -
  have exited: "sum_list (map (worker_pending proc) ws) = {#}" if "\<forall>w \<in> set ws. w = Exited" for proc and ws :: "'a worker list"
    using that by (induction ws) auto
  show ?thesis
  proof (cases s)
    case (Dynamic d ws n)
    then have "d = Drained" using assms(2) by (cases d) auto
    then have "ws = []" using assms(1) Dynamic by (cases "(r, s)" rule: node_ok.cases) auto
    with Dynamic \<open>d = Drained\<close> show ?thesis by simp
  next
    case (Broadcasting b ws)
    then have "b = Closing" using assms(2) by (cases b) auto
    then have "ws ! j = Exited" if "j < length ws" for j using assms(2) Broadcasting that by simp
    then have "(\<Sum>j<length ws. worker_pending (broadcast_procs r ! j) (ws ! j)) = {#}"
      by (intro sum.neutral) simp
    then show ?thesis using Broadcasting \<open>b = Closing\<close> by simp
  next
    case (SinkExited xs)
    then show ?thesis using assms(1,3) by (cases "(r, s)" rule: node_ok.cases) auto
  qed (use assms exited in auto)
qed

lemma node_pot_recv:
  assumes "node_ok r s" "node_step r c e s (Recv p) s'"
  shows "node_pot r f s' \<le> node_pot r f s + node_cost r f p"
  using assms(2,1)
proof cases
  case (workers_step proc k i ws w)
  then show ?thesis
    using workers_pot_eq [of i ws f proc w] fifo_pot(1) [OF workers_step(5) refl, of f] by auto
next
  case (dynamic_work proc k i ws w d n)
  then show ?thesis using token_pending(1) [OF dynamic_work(5), of p] by simp
next
  case (broadcast_recv clone procs ws)
  then have "0 < length procs" using assms(1) by auto
  then show ?thesis
    using broadcast_recv broadcast_cost_step [of 0 procs f clone p]
    by (simp add: copy_for_def del: broadcast_cost.simps)
qed (auto elim!: source_stepE sink_stepE)

lemma node_pot_send:
  assumes "node_ok r s" "node_step r c e s (Send p) s'"
  shows "node_pot r f s' + f p < node_pot r f s"
  using assms(2,1)
proof cases
  case (workers_step proc k i ws w)
  then show ?thesis
    using workers_pot_eq [of i ws f proc w] fifo_pot(2) [OF workers_step(5) refl, of f] by auto
next
  case (dynamic_work proc k i ws w d n)
  then show ?thesis
    using tokens_pot_eq [of i ws f proc w] token_pot(1) [OF dynamic_work(5) refl, of f] by auto
next
  case (broadcast_work clone procs i ws b w)
  then show ?thesis
    using indexed_pot_eq [of i ws f procs w] fifo_pot(2) [OF broadcast_work(7) refl, of f] by auto
qed (auto elim!: source_stepE sink_stepE)

lemma node_pot_own:
  assumes "node_ok r s" "node_step r c e s a s'"
  shows "quiet a \<Longrightarrow> node_pot r f s' < node_pot r f s"
    and "a = Emit err \<Longrightarrow> node_pot r f s' + 1 < node_pot r f s"
proof -
  show "node_pot r f s' < node_pot r f s" if "quiet a"
    using assms(2,1)
  proof cases
    case (workers_step proc k i ws w)
    then show ?thesis
      using workers_pot_eq [of i ws f proc w] fifo_pot(3) [OF workers_step(5) that, of f] by auto
  next
    case (dynamic_work proc k i ws w d n)
    then show ?thesis
      using tokens_pot_eq [of i ws f proc w] token_pot(2) [OF dynamic_work(5) that, of f] by auto
  next
    case (dynamic_return proc k i ws d n)
    then show ?thesis using sum_list_drop_at [of i ws "\<lambda>w. Suc (worker_pot f proc w)"] by auto
  next
    case (broadcast_copy clone procs i ws p d)
    then have "i < length procs" using assms(1) by simp
    then show ?thesis
      using broadcast_copy indexed_pot_eq [of i ws f procs "Working d"]
        broadcast_cost_step [of i procs f clone p] assms(1)
      by (auto simp: broadcast_end simp del: broadcast_cost.simps)
  next
    case (broadcast_clone clone procs p i ws)
    then show ?thesis using broadcast_cost_step [of "Suc i" procs f clone p] assms(1)
      by (auto simp: broadcast_end copy_for_def simp del: broadcast_cost.simps)
  next
    case (broadcast_work clone procs i ws b w)
    then show ?thesis
      using indexed_pot_eq [of i ws f procs w] fifo_pot(3) [OF broadcast_work(7) that, of f] by auto
  qed (use that in \<open>auto elim!: source_stepE sink_stepE\<close>)
  show "node_pot r f s' + 1 < node_pot r f s" if "a = Emit err"
    using assms(2,1)
  proof cases
    case (workers_step proc k i ws w)
    then show ?thesis
      using workers_pot_eq [of i ws f proc w] fifo_pot(4) [OF workers_step(5) that, of f] by auto
  next
    case (dynamic_work proc k i ws w d n)
    then show ?thesis
      using tokens_pot_eq [of i ws f proc w] token_pot(3) [OF dynamic_work(5) that, of f] by auto
  next
    case (broadcast_work clone procs i ws b w)
    then show ?thesis
      using indexed_pot_eq [of i ws f procs w] fifo_pot(4) [OF broadcast_work(7) that, of f] by auto
  qed (use that in \<open>auto elim!: source_stepE sink_stepE\<close>)
qed

lemma node_calm_step:
  assumes "node_ok r s" "node_calm e s" "node_step r False e s a s'" "\<not> (\<exists>err. a = Emit err)"
  shows "node_calm e s'"
  using assms(3,2)
proof cases
  case (workers_step proc k i ws w)
  then show ?thesis
    using fifo_shape(2) [OF workers_step(5)] assms(2,4) by (auto dest: set_update_subset_insert [THEN subsetD])
next
  case (dynamic_work proc k i ws w d n)
  then show ?thesis using assms(2) by (cases d) auto
next
  case (dynamic_return proc k i ws d n)
  then show ?thesis using assms(2) by (cases d) auto
next
  case (broadcast_work clone procs i ws b w)
  then show ?thesis
    using fifo_shape(2) [OF broadcast_work(7)] assms(2,4) by (cases b) (auto dest: set_update_subset_insert [THEN subsetD])
next
  case (broadcast_copy clone procs i ws p d)
  then show ?thesis using assms(2) by (auto dest: set_update_subset_insert [THEN subsetD])
qed (use assms(2,4) in \<open>auto elim!: source_stepE sink_stepE\<close>)

lemma node_calm_closed: "node_calm False s \<Longrightarrow> node_calm True s"
  by (cases "(False, s)" rule: node_calm.cases) auto

lemma node_calm_fin: "node_ok r s \<Longrightarrow> node_calm e s \<Longrightarrow> finished s \<Longrightarrow> e"
  by (cases s rule: finished.cases; cases "(r, s)" rule: node_ok.cases) (auto simp: neq_Nil_conv)

text \<open>A node that has not returned waits for a neighbour, or moves.\<close>

definition can_own :: "'p node \<Rightarrow> bool \<Rightarrow> bool \<Rightarrow> 'p node_state \<Rightarrow> bool" where
  "can_own r c e s \<longleftrightarrow> (\<exists>a s'. node_step r c e s a s' \<and> (quiet a \<or> (\<exists>err. a = Emit err)))"

definition can_send :: "'p node \<Rightarrow> bool \<Rightarrow> bool \<Rightarrow> 'p node_state \<Rightarrow> bool" where
  "can_send r c e s \<longleftrightarrow> \<not> c \<and> (\<exists>q s'. node_step r c e s (Send q) s')"

definition can_recv :: "'p node \<Rightarrow> bool \<Rightarrow> bool \<Rightarrow> 'p node_state \<Rightarrow> bool" where
  "can_recv r c e s \<longleftrightarrow> \<not> c \<and> \<not> e \<and> (\<forall>p. \<exists>s'. node_step r c e s (Recv p) s')"

lemma can_ownI: "node_step r c e s a s' \<Longrightarrow> quiet a \<or> (\<exists>err. a = Emit err) \<Longrightarrow> can_own r c e s"
  by (auto simp: can_own_def)

lemma workers_move:
  assumes r: "r = StageNode (FIFO proc) \<or> r = StageNode (FixedPool proc k)" and w: "w \<in> set ws" "w \<noteq> Exited"
  shows "can_own r c e (Workers ws) \<or> can_send r c e (Workers ws) \<or> can_recv r c e (Workers ws)"
proof -
  obtain i where i: "i < length ws" "ws ! i = w" using w(1) by (auto simp: in_set_conv_nth)
  note step = node_step.workers_step [OF r i(1), of c e _ _ , unfolded i(2)]
  show ?thesis
  proof (cases "w = Ready \<and> \<not> c \<and> \<not> e")
    case True
    then have "can_recv r c e (Workers ws)" using step fifo_step.fifo_recv by (fastforce simp: can_recv_def)
    then show ?thesis by blast
  next
    case False
    with fifo_moves [of w c e proc] w(2) step show ?thesis by (fastforce simp: can_own_def can_send_def)
  qed
qed

lemma tokens_move:
  assumes r: "r = StageNode (DynamicPool proc k)" and w: "w \<in> set ws" "w \<noteq> Ready"
  shows "can_own r c e (Dynamic d ws n) \<or> can_send r c e (Dynamic d ws n)"
proof -
  obtain i where i: "i < length ws" "ws ! i = w" using w(1) by (auto simp: in_set_conv_nth)
  show ?thesis
  proof (cases "w = Exited")
    case True
    then show ?thesis
      using node_step.dynamic_return [OF r i(1), of c e d n] i(2) by (auto simp: can_own_def)
  next
    case False
    with token_moves [of w proc c] w(2) node_step.dynamic_work [OF r i(1), of c _ _ e d n, unfolded i(2)]
    show ?thesis by (fastforce simp: can_own_def can_send_def)
  qed
qed

lemma broadcast_move:
  assumes r: "r = StageNode (BroadcastStage clone procs)" and i: "i < length ws" "i < length procs"
    and w: "ws ! i \<noteq> Exited" "ws ! i = Ready \<Longrightarrow> c \<or> b = Closing"
  shows "can_own r c e (Broadcasting b ws) \<or> can_send r c e (Broadcasting b ws)"
proof -
  have "ws ! i \<noteq> Ready \<or> c \<or> b = Closing" using w(2) by blast
  from fifo_moves [OF w(1) this, of "procs ! i"] show ?thesis
  proof (elim disjE exE conjE)
    fix a w'
    assume "fifo_step (procs ! i) c (b = Closing) (ws ! i) a w'" "\<forall>p. a \<noteq> Recv p"
    from node_step.broadcast_work [OF r i this(2,1), of e]
    show "quiet a \<Longrightarrow> ?thesis" "a = Emit err \<Longrightarrow> ?thesis" for err by (auto simp: can_own_def)
  next
    fix q w'
    assume "\<not> c" "fifo_step (procs ! i) c (b = Closing) (ws ! i) (Send q) w'"
    from this(1) node_step.broadcast_work [OF r i _ this(2), of e] show ?thesis by (auto simp: can_send_def)
  qed
qed

lemma node_moves:
  assumes ok: "node_ok r s" and calm: "c \<or> node_calm e s" and run: "\<not> finished s"
  shows "can_own r c e s \<or> can_send r c e s \<or> can_recv r c e s"
  using ok
proof (cases "(r, s)" rule: node_ok.cases)
  case (1 xs err s1)
  then have step: "source_step err c s a s' \<Longrightarrow> node_step r c e s a s'" for a s' by (auto intro: node_step.source_worker)
  show ?thesis
  proof (cases s)
    case (SourceReading ys)
    then have "\<exists>a s'. source_step err c s a s' \<and> (quiet a \<or> (\<exists>err. a = Emit err))"
      by (cases ys; cases err) (fastforce intro: source_step.intros)+
    then show ?thesis using step by (auto simp: can_own_def)
  next
    case (SourceSending p ys)
    then have "source_step err c s (Send p) (SourceReading ys)" "c \<longrightarrow> source_step err c s Tau SourceExited"
      by (auto intro: source_step.intros)
    then show ?thesis
      using can_ownI [of r c e s Tau SourceExited] step [of Tau SourceExited] step [of "Send p" "SourceReading ys"]
      by (cases c) (auto simp: can_send_def)
  qed (use 1 ok run in auto)
next
  case (2 consume s1)
  then have step: "sink_step consume c e s a s' \<Longrightarrow> node_step r c e s a s'" for a s' by (auto intro: node_step.sink_worker)
  show ?thesis
  proof (cases s)
    case (SinkReady ys)
    then have "c \<or> e \<longrightarrow> sink_step consume c e s Tau (SinkExited ys)" "\<forall>p. sink_step consume c e s (Recv p) (SinkConsuming ys p)"
      by (auto intro: sink_step.intros)
    then show ?thesis
      using can_ownI [of r c e s Tau "SinkExited ys"] step [of Tau "SinkExited ys"] step [of "Recv _" "SinkConsuming ys _"]
      by (cases "c \<or> e") (auto simp: can_recv_def)
  next
    case (SinkConsuming ys p)
    then have "\<exists>a s'. sink_step consume c e s a s' \<and> (quiet a \<or> (\<exists>err. a = Emit err))"
      by (cases "consume p") (fastforce intro: sink_step.intros)+
    then show ?thesis using step by (auto simp: can_own_def)
  qed (use 2 ok run in auto)
next
  case (3 proc s1)
  then obtain ws where "s = Workers ws" using ok by (auto split: node_state.splits)
  then show ?thesis using workers_move [of r proc 0 _ ws c e] 3 run by auto
next
  case (4 proc k s1)
  then obtain ws where "s = Workers ws" using ok by (auto split: node_state.splits)
  then show ?thesis using workers_move [of r proc k _ ws c e] 4 run by auto
next
  case (5 proc k s1)
  then have r: "r = StageNode (DynamicPool proc k)" by simp
  obtain d ws n where s: "s = Dynamic d ws n" using ok r by (auto split: node_state.splits)
  have inv: "0 < k" "Ready \<notin> set ws" "n + length ws + (case d of Draining j \<Rightarrow> j | Drained \<Rightarrow> k | _ \<Rightarrow> 0) = k"
    using ok r s by auto
  have busy: ?thesis if "ws \<noteq> []"
  proof -
    have "hd ws \<in> set ws" using that by simp
    moreover from this have "hd ws \<noteq> Ready" using inv(2) by metis
    ultimately show ?thesis using tokens_move [OF r, of _ ws c e d n] s by blast
  qed
  show ?thesis
  proof (cases d)
    case Selecting
    then show ?thesis
      using s node_step.dynamic_stop [OF r, of c e ws n] node_step.dynamic_recv [OF r, of c e ws n]
      by (cases "c \<or> e") (auto simp: can_own_def can_recv_def)
  next
    case (AwaitingToken p)
    show ?thesis
    proof (cases n)
      case 0
      then show ?thesis using busy inv AwaitingToken by auto
    next
      case (Suc m)
      then show ?thesis
        using s AwaitingToken node_step.dynamic_spawn [OF r, of c e p ws m] by (auto simp: can_own_def)
    qed
  next
    case (Draining j)
    show ?thesis
    proof (cases "j = k \<or> n = 0")
      case True
      then show ?thesis
        using busy inv Draining s node_step.dynamic_drained [OF r, of c e ws n] by (cases "j = k") (auto simp: can_own_def)
    next
      case False
      then obtain m where "n = Suc m" "j < k" using inv(3) Draining by (cases n) auto
      then show ?thesis
        using Draining s node_step.dynamic_drain [OF r, of j c e ws m] by (auto simp: can_own_def)
    qed
  qed (use run s in auto)
next
  case (6 clone procs s1)
  then have r: "r = StageNode (BroadcastStage clone procs)" by simp
  obtain b ws where s: "s = Broadcasting b ws" using ok r by (auto split: node_state.splits)
  have inv: "ws \<noteq> []" "length ws = length procs" "\<And>p c i. b = Copying p c i \<Longrightarrow> i < length ws"
    using ok r s by (auto split: broadcaster.splits)
  show ?thesis
  proof (cases b)
    case Listening
    then show ?thesis
      using s node_step.broadcast_stop [OF r, of c e ws] node_step.broadcast_recv [OF r, of c e ws]
      by (cases "c \<or> e") (auto simp: can_own_def can_recv_def)
  next
    case (Copying p d i)
    then have i: "i < length ws" "i < length procs" using inv by auto
    show ?thesis
    proof (cases "c \<or> ws ! i = Ready")
      case True
      then show ?thesis
        using s Copying node_step.broadcast_abandon [OF r, of c e p d i ws] node_step.broadcast_copy [OF r i(1), of c e p d]
        by (cases c) (auto simp: can_own_def)
    next
      case False
      moreover have "ws ! i \<noteq> Exited" using False calm s Copying i(1) nth_mem by fastforce
      ultimately show ?thesis using broadcast_move [OF r i, of c b e] s by auto
    qed
  next
    case (Cloning p i)
    then show ?thesis
      using s node_step.broadcast_clone [OF r, of c e p i ws] by (auto simp: can_own_def)
  next
    case Closing
    then obtain i where i: "i < length ws" "i < length procs" "ws ! i \<noteq> Exited"
      using run s inv(2) by (auto simp: in_set_conv_nth)
    then show ?thesis using broadcast_move [OF r i(1,2,3), of c b e] Closing s by auto
  qed
qed

text \<open>A pipeline is a network of such nodes.\<close>

interpretation pipeline: node_laws node_step finished node_ok "\<lambda>r. node_calm" is_sink_node Some None node_outputs node_pending
    node_pot node_cost
proof (unfold_locales, goal_cases)
  case (1 r s c e a s')
  then show ?case by (rule node_ok_step)
next
  case (2 r s c e a s')
  then show ?case by (rule node_fin_step)
next
  case (3 r s c e p s')
  then show ?case by (blast dest: node_sink_sends)
next
  case (4 r s)
  then show ?case by (rule node_pending_fin)
next
  case (5 r s c e p s')
  then show ?case by (rule node_pending_recv)
next
  case (6 r s c e p s')
  then show ?case by (rule node_pending_send)
next
  case (7 r s c e a s')
  then show ?case by (rule node_pending_own)
next
  case (8 r)
  show ?case by simp
next
  case (9 r s c e err s')
  then show ?case by (rule node_emit_bad)
next
  case (10 r s c e p s' f)
  then show ?case by (rule node_pot_recv)
next
  case (11 r s c e p s' f)
  then show ?case by (rule node_pot_send)
next
  case (12 r s c e a s' f)
  then show ?case by (rule node_pot_own(1))
next
  case (13 r s c e err s' f)
  then show ?case using node_pot_own(2) by blast
next
  case (14 r s e)
  then have "can_own r True e s" using node_moves [of r s True e] by (simp add: can_send_def can_recv_def)
  then show ?case by (simp add: can_own_def)
next
  case (15 r s e)
  then have "can_own r False e s \<or> can_send r False e s \<or> can_recv r False e s" by (intro node_moves) auto
  then show ?case by (simp only: can_own_def can_send_def can_recv_def not_False_eq_True simp_thms)
next
  case (16 r s e a s')
  from 16(1,2,3,4) show ?case by (rule node_calm_step)
next
  case (17 r s)
  then show ?case by (rule node_calm_closed)
next
  case (18 r s e)
  then show ?case by (rule node_calm_fin)
qed

end
