(* ===== verification/PipelineProps.thy ===== *)
theory PipelineProps
  imports PipelineNodes
begin

text \<open>
  What \<^verbatim>\<open>Pipeline.Process\<close> promises: it returns, it hands the sink what the stages make of the
  source's payloads, and a dynamic worker pool can be used once.
\<close>

text \<open>The stages the constructors make have workers.\<close>

definition stages_ok :: "'p stage_runner list \<Rightarrow> bool" where
  "stages_ok stages \<longleftrightarrow> (\<forall>st \<in> set stages.
     case st of FIFO _ \<Rightarrow> True | FixedPool _ k \<Rightarrow> 0 < k | DynamicPool _ k \<Rightarrow> 0 < k | BroadcastStage _ procs \<Rightarrow> procs \<noteq> [])"

lemma constructed_stages_ok:
  "fixed_worker_pool proc n = Returns st \<or> dynamic_worker_pool proc n = Returns st \<or> broadcast clone proc procs = st \<Longrightarrow>
   stages_ok [st]"
  by (auto simp: stages_ok_def fixed_worker_pool_def dynamic_worker_pool_def broadcast_def split: if_splits)

text \<open>
  What a stage, and a sequence of stages with the sink at its end, makes of a payload; \<open>None\<close>
  stands for an error.
\<close>

fun stage_results :: "'p stage_runner \<Rightarrow> 'p \<Rightarrow> 'p option multiset" where
  "stage_results (FIFO proc) p = results proc p"
| "stage_results (FixedPool proc k) p = results proc p"
| "stage_results (DynamicPool proc k) p = results proc p"
| "stage_results (BroadcastStage clone procs) p = (\<Sum>i<length procs. results (procs ! i) (copy_for clone p i))"

fun pipeline_results :: "('p \<Rightarrow> go_error option) \<Rightarrow> 'p stage_runner list \<Rightarrow> 'p option \<Rightarrow> 'p option multiset" where
  "pipeline_results consume stages None = {#None#}"
| "pipeline_results consume [] (Some p) = {#sink_result consume p#}"
| "pipeline_results consume (st # stages) (Some p) = (\<Sum>q \<in># stage_results st p. pipeline_results consume stages q)"

lemma stage_outputs: "node_results (StageNode st) p = stage_results st p"
  by (cases st) auto

lemma through_None: "pipeline.through rs None = {#None#}"
  by (induction rs) auto

lemma through_stages: "pipeline.through (map StageNode stages @ [SinkNode consume]) p = pipeline_results consume stages p"
proof (induction stages arbitrary: p)
  case Nil
  show ?case by (cases p) simp_all
next
  case (Cons st stages)
  then have "pipeline.through (map StageNode stages @ [SinkNode consume]) = pipeline_results consume stages" by (intro ext)
  then show ?case by (cases p) (simp_all add: stage_outputs)
qed

section \<open>The first state\<close>

lemma length_pipeline_nodes [simp]: "length (pipeline_nodes stages items err consume) = length stages + 2"
  by (simp add: pipeline_nodes_def)

lemma pipeline_nodes_ne [simp]: "pipeline_nodes stages items err consume \<noteq> []"
  by (simp add: pipeline_nodes_def)

lemma pipeline_nodes_last [simp]: "last (pipeline_nodes stages items err consume) = SinkNode consume"
  by (simp add: pipeline_nodes_def)

lemma pipeline_nodes_0 [simp]: "pipeline_nodes stages items err consume ! 0 = SourceNode items err"
  by (simp add: pipeline_nodes_def)

lemma pipeline_nodes_sink [simp]: "pipeline_nodes stages items err consume ! Suc (length stages) = SinkNode consume"
  by (simp add: pipeline_nodes_def nth_append)

lemma pipeline_nodes_Suc: "j < length stages \<Longrightarrow> pipeline_nodes stages items err consume ! Suc j = StageNode (stages ! j)"
  by (simp add: pipeline_nodes_def nth_append)

lemma start_ok: "stages_ok stages \<Longrightarrow> r \<in> set (pipeline_nodes stages items err consume) \<Longrightarrow> node_ok r (start_node r)"
proof -
  assume ok: "stages_ok stages" and "r \<in> set (pipeline_nodes stages items err consume)"
  then consider "r = SourceNode items err" | "r = SinkNode consume" | st where "r = StageNode st" "st \<in> set stages"
    by (auto simp: pipeline_nodes_def)
  then show ?thesis
  proof cases
    case (3 st)
    with ok show ?thesis by (cases st) (auto simp: stages_ok_def)
  qed auto
qed

lemma start_calm: "start_node r = s \<Longrightarrow> (\<exists>xs err. r = SourceNode xs err) \<longrightarrow> e \<Longrightarrow> node_calm e s"
  by (cases r rule: start_node.cases) auto

lemma sum_list_zeroes: "sum_list (replicate n {#}) = {#}"
  by (induction n) auto

lemma start_pending: "(\<nexists>xs err. r = SourceNode xs err) \<Longrightarrow> node_pending r (start_node r) = {#}"
  by (cases r rule: start_node.cases) (auto simp: sum_list_zeroes)

definition owed ::
  "'p stage_runner list \<Rightarrow> 'p list \<Rightarrow> go_error option \<Rightarrow> ('p \<Rightarrow> go_error option) \<Rightarrow> 'p option multiset" where
  "owed stages items err consume = (\<Sum>p \<in># mset items. pipeline_results consume stages (Some p)) + failure err"

lemma start_flow:
  "pipeline.flow (pipeline_nodes stages items err consume) (map start_node (pipeline_nodes stages items err consume)) =
   owed stages items err consume"
proof -
  let ?rs = "pipeline_nodes stages items err consume"
  have rest: "(\<Sum>i<Suc (length stages). \<Sum>q \<in># node_pending (?rs ! Suc i) (map start_node ?rs ! Suc i).
      pipeline.through (drop (Suc (Suc i)) ?rs) q) = {#}"
  proof (intro sum.neutral ballI)
    fix i
    assume "i \<in> {..<Suc (length stages)}"
    then have "\<nexists>xs err'. ?rs ! Suc i = SourceNode xs err'"
      by (auto simp: pipeline_nodes_def nth_append nth_Cons split: nat.splits)
    then show "(\<Sum>q \<in># node_pending (?rs ! Suc i) (map start_node ?rs ! Suc i). pipeline.through (drop (Suc (Suc i)) ?rs) q) = {#}"
      using \<open>i \<in> _\<close> by (simp add: start_pending)
  qed
  have "pipeline.flow ?rs (map start_node ?rs) = (\<Sum>q \<in># mset (map Some items) + failure err. pipeline.through (drop 1 ?rs) q)"
    unfolding pipeline.flow_def weight_def using rest
    by (simp add: sum.lessThan_Suc_shift del: sum.lessThan_Suc)
  moreover have "pipeline.through (drop 1 ?rs) = pipeline_results consume stages"
    by (rule ext) (simp add: pipeline_nodes_def through_stages)
  moreover have "(\<Sum>q \<in># failure err. pipeline_results consume stages q) = failure err" by (simp add: failure_def split: option.splits)
  ultimately show ?thesis by (simp add: owed_def image_mset.compositionality comp_def)
qed

lemma start_inv:
  assumes "stages_ok stages"
  shows "pipeline.net_inv (owed stages items err consume) (pipeline_nodes stages items err consume)
    (start_network (pipeline_nodes stages items err consume))"
proof -
  let ?rs = "pipeline_nodes stages items err consume"
  have "node_calm (closed_at finished (map start_node ?rs) j) (start_node (?rs ! j))" if "j < length ?rs" for j
  proof (cases j)
    case 0
    then show ?thesis by (intro start_calm [OF refl]) simp
  next
    case (Suc i)
    then have "\<nexists>xs err'. ?rs ! j = SourceNode xs err'"
      using that by (auto simp: pipeline_nodes_def nth_append nth_Cons split: nat.splits)
    then show ?thesis by (intro start_calm [OF refl]) simp
  qed
  then show ?thesis
    using start_ok [OF assms nth_mem] by (simp add: pipeline.net_inv_def start_network_def start_flow)
qed

section \<open>Delivery\<close>

lemma sink_pending:
  assumes "node_ok (SinkNode consume) s"
  shows "mset (map Some (consumed s)) \<subseteq># node_pending (SinkNode consume) s"
    and "finished s \<Longrightarrow> mset (map Some (consumed s)) = node_pending (SinkNode consume) s"
  using assms by (auto split: node_state.splits)

lemma flow_last:
  assumes "pipeline.net_inv F (pipeline_nodes stages items err consume) N"
  shows "mset (map Some (sink_consumed N)) \<subseteq># F"
proof -
  let ?rs = "pipeline_nodes stages items err consume"
  let ?n = "Suc (length stages)"
  have len: "length (net_nodes N) = Suc ?n" and ok: "node_ok (?rs ! ?n) (net_nodes N ! ?n)"
    and flow: "pipeline.flow ?rs (net_nodes N) \<subseteq># F"
    using assms by (auto simp: pipeline.net_inv_def)
  have rs_n: "?rs ! ?n = SinkNode consume" by simp
  have "pipeline.flow ?rs (net_nodes N) =
      (\<Sum>i<?n. \<Sum>q \<in># node_pending (?rs ! i) (net_nodes N ! i). pipeline.through (drop (Suc i) ?rs) q) +
      node_pending (SinkNode consume) (net_nodes N ! ?n)"
    using len rs_n by (simp add: pipeline.flow_def weight_def pipeline.through_Nil)
  then have "node_pending (SinkNode consume) (net_nodes N ! ?n) \<subseteq># pipeline.flow ?rs (net_nodes N)" by simp
  from subset_mset.order_trans [OF this flow] have "node_pending (SinkNode consume) (net_nodes N ! ?n) \<subseteq># F" .
  moreover have "last (net_nodes N) = net_nodes N ! ?n" using len by (subst last_conv_nth) auto
  ultimately show ?thesis
    using subset_mset.order_trans [OF sink_pending(1) [OF ok [unfolded rs_n]]] by (simp add: sink_consumed_def)
qed

lemma flow_returned:
  assumes inv: "pipeline.net_inv F (pipeline_nodes stages items err consume) N"
    and ret: "net_returned finished N" and go: "\<not> net_cancelled N"
  shows "mset (map Some (sink_consumed N)) = F \<and> net_result N = None"
proof -
  let ?rs = "pipeline_nodes stages items err consume"
  have errs: "net_errs N = []" using ret by (simp add: net_returned_def)
  have sinks: "\<forall>j < length ?rs - 1. \<not> is_sink_node (?rs ! j)"
    by (auto simp: pipeline_nodes_def nth_append nth_Cons split: nat.splits)
  from pipeline.returned_flow [OF inv ret pipeline_nodes_ne sinks]
  have "pipeline.flow ?rs (net_nodes N) = node_pending (SinkNode consume) (last (net_nodes N))" by simp
  moreover have "pipeline.flow ?rs (net_nodes N) = F" "net_result N = None"
    using inv errs go by (auto simp: pipeline.net_inv_def)
  moreover have "net_nodes N \<noteq> []" using inv by (auto simp: pipeline.net_inv_def)
  then have "last (net_nodes N) \<in> set (net_nodes N)" by simp
  moreover have "node_ok (SinkNode consume) (last (net_nodes N))"
    using inv \<open>net_nodes N \<noteq> []\<close> last_conv_nth [of "net_nodes N"] pipeline_nodes_last [of stages items err consume]
      last_conv_nth [of ?rs] by (auto simp: pipeline.net_inv_def)
  ultimately show ?thesis
    using sink_pending(2) ret unfolding sink_consumed_def net_returned_def by metis
qed

lemma delivered_all:
  assumes "stages_ok stages"
    and steps: "(process_step (pipeline_nodes stages items err consume))\<^sup>*\<^sup>*
      (start_network (pipeline_nodes stages items err consume)) N"
    and ret: "process_returned N" and nil: "net_result N = None"
  shows "mset (map Some (sink_consumed N)) = owed stages items err consume"
proof -
  note run = net_steps_run [OF steps [unfolded process_step_def]]
  have "\<not> net_cancelled N"
    using net_steps_cancelled [OF steps [unfolded process_step_def]] nil by (simp add: start_network_def)
  from flow_returned [OF pipeline.run_inv [OF run start_inv [OF assms(1)]] ret [unfolded process_returned_def] this]
  show ?thesis by simp
qed

lemma no_failure:
  assumes "stages_ok stages"
    and steps: "(process_step (pipeline_nodes stages items err consume))\<^sup>*\<^sup>*
      (start_network (pipeline_nodes stages items err consume)) N"
    and ret: "process_returned N"
  shows "net_result N = None \<longleftrightarrow> None \<notin># owed stages items err consume"
proof
  assume "net_result N = None"
  then have "owed stages items err consume = mset (map Some (sink_consumed N))"
    using delivered_all [OF assms] by simp
  then show "None \<notin># owed stages items err consume" by auto
next
  assume "None \<notin># owed stages items err consume"
  then show "net_result N = None"
    using pipeline.no_error [OF steps [unfolded process_step_def] start_inv [OF assms(1)]]
    by (simp add: start_network_def)
qed

text \<open>
  C34. What Process delivers, for any stages and any interleaving of the goroutines.  At every
  moment, whether or not the caller has cancelled the context, the sink has consumed a part of
  the payloads the stages make of the source's, none of them twice.  When Process returns and the
  caller did not cancel, it returns nil exactly when neither the source, nor a processor on a
  payload that reaches it, nor the sink fails, and then the sink has consumed all of them.
  Payloads are values here: what becomes of a clone made after its original was recycled is the
  subject of \<open>pooled_step\<close>.
\<close>

theorem process_delivers:
  assumes "stages_ok stages"
  shows "(\<forall>N. process_run (pipeline_nodes stages items err consume)
      (start_network (pipeline_nodes stages items err consume)) N \<longrightarrow>
      mset (map Some (sink_consumed N)) \<subseteq># owed stages items err consume) \<and>
    (\<forall>N. (process_step (pipeline_nodes stages items err consume))\<^sup>*\<^sup>*
      (start_network (pipeline_nodes stages items err consume)) N \<longrightarrow> process_returned N \<longrightarrow>
      (net_result N = None \<longleftrightarrow> None \<notin># owed stages items err consume) \<and>
      (net_result N = None \<longrightarrow> mset (map Some (sink_consumed N)) = owed stages items err consume))"
proof (rule conjI; intro allI impI)
  fix N
  assume "process_run (pipeline_nodes stages items err consume) (start_network (pipeline_nodes stages items err consume)) N"
  from flow_last [OF pipeline.run_inv [OF this [unfolded process_run_def] start_inv [OF assms]]]
  show "mset (map Some (sink_consumed N)) \<subseteq># owed stages items err consume" .
next
  fix N
  assume "(process_step (pipeline_nodes stages items err consume))\<^sup>*\<^sup>* (start_network (pipeline_nodes stages items err consume)) N"
    "process_returned N"
  from no_failure [OF assms this] delivered_all [OF assms this]
  show "(net_result N = None \<longleftrightarrow> None \<notin># owed stages items err consume) \<and>
      (net_result N = None \<longrightarrow> mset (map Some (sink_consumed N)) = owed stages items err consume)" by blast
qed

text \<open>
  C35. Process returns, provided its processors, source and sink do, whatever fails and whenever
  the caller cancels.  In every state of a run that has not returned some step is possible, the
  number of steps from there is bounded, and so a state in which Process has returned is reached.
\<close>

theorem process_returns:
  assumes "stages_ok stages"
    and "process_run (pipeline_nodes stages items err consume)
      (start_network (pipeline_nodes stages items err consume)) N"
  shows "(\<not> process_returned N \<longrightarrow> (\<exists>N'. process_step (pipeline_nodes stages items err consume) N N')) \<and>
    (\<exists>b. \<forall>n N'. (process_step (pipeline_nodes stages items err consume) ^^ n) N N' \<longrightarrow> n \<le> b) \<and>
    (\<exists>N'. (process_step (pipeline_nodes stages items err consume))\<^sup>*\<^sup>* N N' \<and> process_returned N')"
proof -
  note inv = pipeline.run_inv [OF assms(2) [unfolded process_run_def] start_inv [OF assms(1)]]
  have sink: "is_sink_node (pipeline_nodes stages items err consume ! (length (pipeline_nodes stages items err consume) - 1))"
    by simp
  show ?thesis
    unfolding process_step_def process_returned_def
    using pipeline.progress [OF inv sink] pipeline.run_length [OF inv] pipeline.returns [OF inv sink] by blast
qed

text \<open>A run of one payload through one stage.\<close>

definition one_stage :: "nat stage_runner list" where
  "one_stage = [FIFO (\<lambda>p. Inr (Some (p + 1)))]"

definition one_run :: "nat node list" where
  "one_run = pipeline_nodes one_stage [5] None (\<lambda>_. None)"

definition calm_state :: "'p node_state list \<Rightarrow> 'p node_state network" where
  "calm_state ns = \<lparr>net_nodes = ns, net_cancelled = False, net_errs = [], net_result = None\<rparr>"

lemma one_run_eq: "one_run = [SourceNode [5] None, StageNode (FIFO (\<lambda>p. Inr (Some (p + 1)))), SinkNode (\<lambda>_. None)]"
  by (simp add: one_run_def one_stage_def pipeline_nodes_def)

lemma calm_quiet:
  assumes "j < length rs" "quiet a" "node_step (rs ! j) False (closed_at finished ns j) (ns ! j) a s"
  shows "process_step rs (calm_state ns) (calm_state (ns[j := s]))"
  using net_step.net_quiet [of j rs a node_step "calm_state ns" finished s] assms
  by (simp add: calm_state_def process_step_def quiet_iff)

lemma calm_comm:
  assumes "Suc j < length rs" "node_step (rs ! j) False (closed_at finished ns j) (ns ! j) (Send p) s"
    and "node_step (rs ! Suc j) False (closed_at finished ns (Suc j)) (ns ! Suc j) (Recv p) s'"
  shows "process_step rs (calm_state ns) (calm_state (ns[j := s, Suc j := s']))"
  using net_step.net_comm [of j rs node_step "calm_state ns" finished p s s'] assms
  by (simp add: calm_state_def process_step_def)

lemma one_run_steps:
  "(process_step one_run)\<^sup>*\<^sup>* (start_network one_run) (calm_state [SourceExited, Workers [Exited], SinkExited [6]])"
proof -
  let ?R = "process_step one_run"
  note fifo = node_step.workers_step [of "StageNode (FIFO proc)" proc 0 0 "[w]" for proc w, simplified]
  have "?R (calm_state [SourceReading [5], Workers [Ready], SinkReady []])
      (calm_state [SourceSending 5 [], Workers [Ready], SinkReady []])"
    using calm_quiet [of 0 one_run Tau "[SourceReading [5], Workers [Ready], SinkReady []]" "SourceSending 5 []"]
    by (simp add: one_run_eq node_step.source_worker [OF refl source_step.source_next])
  moreover have "?R (calm_state [SourceSending 5 [], Workers [Ready], SinkReady []])
      (calm_state [SourceReading [], Workers [Working 5], SinkReady []])"
    using calm_comm [of 0 one_run "[SourceSending 5 [], Workers [Ready], SinkReady []]" 5 "SourceReading []" "Workers [Working 5]"]
    by (simp add: one_run_eq node_step.source_worker [OF refl source_step.source_send] fifo [OF fifo_step.fifo_recv])
  moreover have "?R (calm_state [SourceReading [], Workers [Working 5], SinkReady []])
      (calm_state [SourceReading [], Workers [Sending 6], SinkReady []])"
    using calm_quiet [of 1 one_run Tau "[SourceReading [], Workers [Working 5], SinkReady []]" "Workers [Sending 6]"]
    by (simp add: one_run_eq fifo [OF fifo_step.fifo_result])
  moreover have "?R (calm_state [SourceReading [], Workers [Sending 6], SinkReady []])
      (calm_state [SourceReading [], Workers [Ready], SinkConsuming [] 6])"
    using calm_comm [of 1 one_run "[SourceReading [], Workers [Sending 6], SinkReady []]" 6 "Workers [Ready]" "SinkConsuming [] 6"]
    by (simp add: one_run_eq node_step.sink_worker [OF refl sink_step.sink_recv] fifo [OF fifo_step.fifo_send] numeral_2_eq_2)
  moreover have "?R (calm_state [SourceReading [], Workers [Ready], SinkConsuming [] 6])
      (calm_state [SourceReading [], Workers [Ready], SinkReady [6]])"
    using calm_quiet [of 2 one_run "Mark 6" "[SourceReading [], Workers [Ready], SinkConsuming [] 6]" "SinkReady [6]"]
      node_step.sink_worker [OF refl sink_step.sink_consume, of "\<lambda>_. None" "6 :: nat" False False "[]"]
    by (simp add: one_run_eq numeral_2_eq_2)
  moreover have "?R (calm_state [SourceReading [], Workers [Ready], SinkReady [6]])
      (calm_state [SourceExited, Workers [Ready], SinkReady [6]])"
    using calm_quiet [of 0 one_run Tau "[SourceReading [], Workers [Ready], SinkReady [6]]" SourceExited]
    by (simp add: one_run_eq node_step.source_worker [OF refl source_step.source_done])
  moreover have "?R (calm_state [SourceExited, Workers [Ready], SinkReady [6]])
      (calm_state [SourceExited, Workers [Exited], SinkReady [6]])"
    using calm_quiet [of 1 one_run Tau "[SourceExited, Workers [Ready], SinkReady [6]]" "Workers [Exited]"]
    by (simp add: one_run_eq fifo [OF fifo_step.fifo_closed])
  moreover have "?R (calm_state [SourceExited, Workers [Exited], SinkReady [6]])
      (calm_state [SourceExited, Workers [Exited], SinkExited [6]])"
    using calm_quiet [of 2 one_run Tau "[SourceExited, Workers [Exited], SinkReady [6]]" "SinkExited [6]"]
    by (simp add: one_run_eq node_step.sink_worker [OF refl sink_step.sink_exit] numeral_2_eq_2)
  moreover have "start_network one_run = calm_state [SourceReading [5], Workers [Ready], SinkReady []]"
    by (simp add: start_network_def calm_state_def one_run_eq)
  ultimately show ?thesis by (simp only:)
qed

theorem process_delivers_witness:
  "\<exists>N. (process_step one_run)\<^sup>*\<^sup>* (start_network one_run) N \<and> process_returned N \<and>
     mset (map Some (sink_consumed N)) = owed one_stage [5] None (\<lambda>_. None) \<and> owed one_stage [5] None (\<lambda>_. None) = {#Some 6#}"
proof -
  have ok: "stages_ok one_stage" by (simp add: stages_ok_def one_stage_def)
  have "process_returned (calm_state [SourceExited, Workers [Exited], SinkExited [6 :: nat]])"
    "net_result (calm_state [SourceExited, Workers [Exited], SinkExited [6 :: nat]]) = None"
    by (simp_all add: process_returned_def net_returned_def calm_state_def)
  moreover have "owed one_stage [5] None (\<lambda>_. None) = {#Some 6#}"
    by (simp add: owed_def one_stage_def results_def failure_def sink_result_def)
  ultimately show ?thesis
    using process_delivers [OF ok, of "[5]" None "\<lambda>_. None", folded one_run_def] one_run_steps by blast
qed

theorem process_returns_witness:
  "\<exists>N'. (process_step one_run)\<^sup>*\<^sup>* (start_network one_run) N' \<and> process_returned N'"
  using process_returns [of one_stage "[5]" None "\<lambda>_. None" "start_network one_run", folded one_run_def]
    net_run.run_start [of node_step finished one_run "start_network one_run"]
  by (simp add: stages_ok_def one_stage_def process_run_def)

section \<open>Using a dynamic pool again\<close>

text \<open>A pool that lacks a token is never drained.\<close>

fun short_of_tokens :: "nat \<Rightarrow> 'p node_state \<Rightarrow> bool" where
  "short_of_tokens k (Dynamic d ws n) \<longleftrightarrow>
     d \<noteq> Drained \<and> n + length ws + (case d of Draining j \<Rightarrow> j | _ \<Rightarrow> 0) < k"
| "short_of_tokens k _ = False"

lemma short_of_tokens_step:
  assumes "short_of_tokens k s" "node_step (StageNode (DynamicPool proc k)) c e s a s'"
  shows "short_of_tokens k s'"
  using assms(2,1)
proof cases
  case (dynamic_work proc' k' i ws w d n)
  then show ?thesis using assms(1) by (cases d) auto
next
  case (dynamic_return proc' k' i ws d n)
  then show ?thesis using assms(1) length_drop_at [of i ws] by (cases d) auto
qed (use assms(1) in auto)

text \<open>
  C36. A pipeline with a dynamic worker pool works once.  When Process has returned, whatever
  happened, the stage's token pool is empty; and when Process runs again with that stage, with
  any source and sink, it never returns, not even when the caller cancels the context.  The
  documentation calls further and concurrent calls of Process safe.
\<close>

theorem dynamic_pool_not_reusable:
  assumes "stages_ok stages" "j < length stages" "stages ! j = DynamicPool proc k"
  shows "(\<forall>N. process_run (pipeline_nodes stages items err consume)
        (start_network (pipeline_nodes stages items err consume)) N \<longrightarrow>
      process_returned N \<longrightarrow> net_nodes N ! Suc j = Dynamic Drained [] 0) \<and>
    (\<forall>N. process_run (pipeline_nodes stages items' err' consume')
        ((start_network (pipeline_nodes stages items' err' consume'))
          \<lparr>net_nodes := (map start_node (pipeline_nodes stages items' err' consume'))[Suc j := Dynamic Selecting [] 0]\<rparr>) N \<longrightarrow>
      \<not> process_returned N)"
proof (intro conjI allI impI)
  fix N
  let ?rs = "pipeline_nodes stages items err consume"
  assume run: "process_run ?rs (start_network ?rs) N" and ret: "process_returned N"
  have "node_ok (?rs ! Suc j) (net_nodes N ! Suc j)" "finished (net_nodes N ! Suc j)"
    using pipeline.run_inv [OF run [unfolded process_run_def] start_inv [OF assms(1)]] ret assms(2)
    by (auto simp: pipeline.net_inv_def process_returned_def net_returned_def)
  then show "net_nodes N ! Suc j = Dynamic Drained [] 0"
    using assms(2,3) by (auto simp: pipeline_nodes_Suc split: node_state.splits dispatcher.splits)
next
  fix N
  let ?rs = "pipeline_nodes stages items' err' consume'"
  let ?N0 = "(start_network ?rs)\<lparr>net_nodes := (map start_node ?rs)[Suc j := Dynamic Selecting [] 0]\<rparr>"
  assume run: "process_run ?rs ?N0 N"
  have k: "0 < k" using assms nth_mem [OF assms(2)] by (auto simp: stages_ok_def)
  have "short_of_tokens k (net_nodes N ! Suc j)"
  proof (rule net_run_node [OF run [unfolded process_run_def]])
    show "short_of_tokens k s'" if "short_of_tokens k s" "node_step (?rs ! Suc j) c e s a s'" for c e s a s'
      using short_of_tokens_step that assms(2,3) by (simp add: pipeline_nodes_Suc)
  qed (use assms(2) k in auto)
  moreover have "Suc j < length (net_nodes N)"
    using net_run_length [OF run [unfolded process_run_def]] assms(2) by simp
  then have "net_nodes N ! Suc j \<in> set (net_nodes N)" by simp
  moreover have "\<not> finished s" if "short_of_tokens k s" for s :: "'a node_state"
    using that by (cases s rule: finished.cases) simp_all
  ultimately show "\<not> process_returned N" unfolding process_returned_def net_returned_def by blast
qed

theorem dynamic_pool_not_reusable_witness:
  "\<not> process_returned ((start_network (pipeline_nodes [DynamicPool (\<lambda>p. Inr None) 3] [] None (\<lambda>_. None)))
      \<lparr>net_nodes := [SourceReading [], Dynamic Selecting [] 0, SinkReady ([] :: nat list)], net_cancelled := True\<rparr>)"
  using dynamic_pool_not_reusable [of "[DynamicPool (\<lambda>p. Inr None) 3]" 0 "\<lambda>p. Inr None" 3 "[] :: nat list" None "\<lambda>_. None"
      "[] :: nat list" None "\<lambda>_. None"]
    net_run.run_cancel [OF net_run.run_start]
  by (fastforce simp: stages_ok_def process_run_def pipeline_nodes_def start_network_def)

end
