(* ===== verification/PipelineExec.thy ===== *)
theory PipelineExec
  imports Pipeline
begin

text \<open>
  Schedules for the pipeline's transition relations: a scheduled goroutine takes the step it
  can take, so that a run can be computed.  A cancelled context, the goroutines of a dynamic pool
  and a sink that fails are not scheduled.
\<close>

text \<open>What a FIFO worker does, given what its input offers, if anything.\<close>

fun fifo_do :: "'p processor \<Rightarrow> bool \<Rightarrow> 'p option \<Rightarrow> 'p worker \<Rightarrow> ('p act \<times> 'p worker) option" where
  "fifo_do proc eof (Some p) Ready = Some (Recv p, Working p)"
| "fifo_do proc eof None Ready = (if eof then Some (Tau, Exited) else None)"
| "fifo_do proc eof offer (Working p) =
     Some (case proc p of
             Inl err \<Rightarrow> (Emit (Wrap ''pipeline stage'' err), Exited)
           | Inr None \<Rightarrow> (Mark p, Ready)
           | Inr (Some q) \<Rightarrow> (Tau, Sending q))"
| "fifo_do proc eof offer (Sending q) = Some (Send q, Ready)"
| "fifo_do proc eof offer Exited = None"

text \<open>
  What goroutine \<open>i\<close> of a node does; of a broadcast stage, number 0 is the stage itself and the
  others are its FIFOs.
\<close>

fun worker_do :: "'p processor \<Rightarrow> bool \<Rightarrow> 'p option \<Rightarrow> nat \<Rightarrow> 'p worker list \<Rightarrow> ('p act \<times> 'p worker list) option" where
  "worker_do proc eof offer i ws =
     (if i < length ws then map_option (\<lambda>(a, w). (a, ws[i := w])) (fifo_do proc eof offer (ws ! i)) else None)"

fun broadcast_do :: "('p \<Rightarrow> 'p) \<Rightarrow> bool \<Rightarrow> 'p option \<Rightarrow> 'p broadcaster \<Rightarrow> 'p worker list \<Rightarrow> ('p act \<times> 'p node_state) option" where
  "broadcast_do clone eof (Some p) Listening ws = Some (Recv p, Broadcasting (Copying p p 0) ws)"
| "broadcast_do clone eof None Listening ws = (if eof then Some (Tau, Broadcasting Closing ws) else None)"
| "broadcast_do clone eof offer (Copying p c i) ws =
     (if i < length ws \<and> ws ! i = Ready then Some (Tau, Broadcasting (Cloning p i) (ws[i := Working c])) else None)"
| "broadcast_do clone eof offer (Cloning p i) ws =
     Some (Tau, Broadcasting (if Suc i < length ws then Copying p (clone p) (Suc i) else Listening) ws)"
| "broadcast_do clone eof offer Closing ws = None"

fun node_do :: "'p node \<Rightarrow> bool \<Rightarrow> 'p option \<Rightarrow> nat \<Rightarrow> 'p node_state \<Rightarrow> ('p act \<times> 'p node_state) option" where
  "node_do (SourceNode items err) eof offer i (SourceReading (p # xs)) = Some (Tau, SourceSending p xs)"
| "node_do (SourceNode items err) eof offer i (SourceReading []) =
     Some (case err of None \<Rightarrow> (Tau, SourceExited) | Some e \<Rightarrow> (Emit (Wrap ''pipeline source'' e), SourceExited))"
| "node_do (SourceNode items err) eof offer i (SourceSending p xs) = Some (Send p, SourceReading xs)"
| "node_do (SinkNode consume) eof (Some p) i (SinkReady xs) = Some (Recv p, SinkConsuming xs p)"
| "node_do (SinkNode consume) eof None i (SinkReady xs) = (if eof then Some (Tau, SinkExited xs) else None)"
| "node_do (SinkNode consume) eof offer i (SinkConsuming xs p) =
     (if consume p = None then Some (Mark p, SinkReady (xs @ [p])) else None)"
| "node_do (StageNode (FIFO proc)) eof offer i (Workers ws) = map_option (apsnd Workers) (worker_do proc eof offer i ws)"
| "node_do (StageNode (FixedPool proc k)) eof offer i (Workers ws) = map_option (apsnd Workers) (worker_do proc eof offer i ws)"
| "node_do (StageNode (BroadcastStage clone procs)) eof offer 0 (Broadcasting b ws) = broadcast_do clone eof offer b ws"
| "node_do (StageNode (BroadcastStage clone procs)) eof offer (Suc i) (Broadcasting b ws) =
     (if i < length procs then map_option (apsnd (Broadcasting b)) (worker_do (procs ! i) (b = Closing) None i ws) else None)"
| "node_do r eof offer i s = None"

lemma fifo_do_sound: "fifo_do proc eof offer w = Some (a, w') \<Longrightarrow> fifo_step proc c eof w a w'"
  by (induction proc eof offer w rule: fifo_do.induct)
    (auto intro: fifo_step.intros split: sum.splits option.splits if_splits)

lemma fifo_do_recv: "fifo_do proc eof None w \<noteq> Some (Recv p, w')"
  by (cases w) (auto split: sum.splits option.splits)

lemma broadcast_cloned:
  assumes "r = StageNode (BroadcastStage clone procs)"
  shows "Suc i < length ws \<Longrightarrow>
      node_step r c e (Broadcasting (Cloning p i) ws) Tau (Broadcasting (Copying p (clone p) (Suc i)) ws)"
    and "\<not> Suc i < length ws \<Longrightarrow> node_step r c e (Broadcasting (Cloning p i) ws) Tau (Broadcasting Listening ws)"
  using broadcast_clone [OF assms, of c e p i ws] by simp_all

lemma broadcast_do_sound:
  "broadcast_do clone eof offer b ws = Some (a, s') \<Longrightarrow> r = StageNode (BroadcastStage clone procs) \<Longrightarrow>
   node_step r c eof (Broadcasting b ws) a s'"
  by (induction clone eof offer b ws rule: broadcast_do.induct)
    (auto intro: node_step.intros broadcast_cloned split: if_splits)

lemma node_do_sound: "node_do r eof offer i s = Some (a, s') \<Longrightarrow> node_step r c eof s a s'"
proof (induction r eof offer i s rule: node_do.induct)
  case (7 proc eof offer i ws)
  then show ?case by (auto split: if_splits intro: workers_step fifo_do_sound)
next
  case (8 proc k eof offer i ws)
  then show ?case by (auto split: if_splits intro: workers_step fifo_do_sound)
next
  case (9 clone procs eof offer b ws)
  then show ?case by (auto intro: broadcast_do_sound)
next
  case (10 clone procs eof offer i b ws)
  then show ?case by (auto simp: fifo_do_recv split: if_splits intro!: broadcast_work fifo_do_sound)
qed (auto intro: source_worker sink_worker source_step.intros sink_step.intros split: if_splits option.splits)

text \<open>
  A move of a schedule: a goroutine goes on by itself, two neighbours meet, or a payload is
  recycled before its clone is taken and then holds something else.
\<close>

datatype 'p move = Go nat nat | Meet nat nat nat | Race nat nat 'p

definition do_at :: "'p node list \<Rightarrow> 'p node_state network \<Rightarrow> 'p option \<Rightarrow> nat \<Rightarrow> nat \<Rightarrow> ('p act \<times> 'p node_state) option" where
  "do_at rs N offer j i =
     (if j < length rs then node_do (rs ! j) (closed_at finished (net_nodes N) j) offer i (net_nodes N ! j) else None)"

definition pending_in :: "'p node_state network \<Rightarrow> 'p \<Rightarrow> bool" where
  "pending_in N p \<longleftrightarrow> list_ex (\<lambda>s. clone_pending s p) (net_nodes N)"

fun exec_move :: "'p node list \<Rightarrow> 'p node_state network \<Rightarrow> 'p move \<Rightarrow> 'p node_state network option" where
  "exec_move rs N (Go j i) =
     (case do_at rs N None j i of
        Some (Tau, s) \<Rightarrow> Some (N\<lparr>net_nodes := (net_nodes N)[j := s]\<rparr>)
      | Some (Mark p, s) \<Rightarrow> if pending_in N p then None else Some (N\<lparr>net_nodes := (net_nodes N)[j := s]\<rparr>)
      | Some (Emit err, s) \<Rightarrow> Some (N\<lparr>net_nodes := (net_nodes N)[j := s],
          net_errs := maybe_emit_error (length rs) err (net_errs N)\<rparr>)
      | _ \<Rightarrow> None)"
| "exec_move rs N (Meet j i i') =
     (case do_at rs N None j i of
        Some (Send p, s) \<Rightarrow>
          (case do_at rs N (Some p) (Suc j) i' of
             Some (Recv q, s') \<Rightarrow> if p = q then Some (N\<lparr>net_nodes := (net_nodes N)[j := s, Suc j := s']\<rparr>) else None
           | _ \<Rightarrow> None)
      | _ \<Rightarrow> None)"
| "exec_move rs N (Race j i q) =
     (case do_at rs N None j i of
        Some (Mark p, s) \<Rightarrow>
          if pending_in N p then Some (N\<lparr>net_nodes := map (written p q) ((net_nodes N)[j := s])\<rparr>) else None
      | _ \<Rightarrow> None)"

fun exec :: "'p node list \<Rightarrow> 'p node_state network \<Rightarrow> 'p move list \<Rightarrow> 'p node_state network option" where
  "exec rs N [] = Some N"
| "exec rs N (m # ms) = (case exec_move rs N m of None \<Rightarrow> None | Some N' \<Rightarrow> exec rs N' ms)"

fun is_race :: "'p move \<Rightarrow> bool" where
  "is_race (Race j i q) = True"
| "is_race _ = False"

lemma pending_in_iff: "pending_in N p \<longleftrightarrow> (\<exists>t \<in> set (net_nodes N). clone_pending t p)"
  by (simp add: pending_in_def list_ex_iff)

lemma do_at_sound:
  "do_at rs N offer j i = Some (a, s) \<Longrightarrow> j < length rs \<and>
     node_step (rs ! j) (net_cancelled N) (closed_at finished (net_nodes N) j) (net_nodes N ! j) a s"
  by (auto simp: do_at_def split: if_splits intro: node_do_sound)

lemma exec_move_race_free:
  assumes "exec_move rs N m = Some N'" "\<not> is_race m"
  shows "race_free_step rs N N'"
proof (cases m)
  case (Go j i)
  then obtain a s where a: "do_at rs N None j i = Some (a, s)"
    using assms(1) by (cases "do_at rs N None j i") auto
  note step = do_at_sound [OF a]
  have quiet: "a = Tau \<or> (\<exists>p. a = Mark p) \<Longrightarrow> N' = N\<lparr>net_nodes := (net_nodes N)[j := s]\<rparr> \<and>
      (\<forall>p. a = Mark p \<longrightarrow> \<not> (\<exists>t \<in> set (net_nodes N). clone_pending t p))"
    using assms(1) Go a by (auto simp: pending_in_iff split: if_splits)
  show ?thesis
  proof (cases "a = Tau \<or> (\<exists>p. a = Mark p)")
    case True
    then show ?thesis
      unfolding race_free_step_def conjunct1 [OF quiet [OF True]]
      by (rule net_quiet [OF conjunct1 [OF step]]) (use step quiet in blast)
  next
    case False
    then obtain err where "a = Emit err" using assms(1) Go a by (cases a) auto
    then show ?thesis
      using assms(1) Go a step by (auto simp: race_free_step_def intro!: net_emit)
  qed
next
  case (Meet j i i')
  then obtain p s s' where "do_at rs N None j i = Some (Send p, s)" "do_at rs N (Some p) (Suc j) i' = Some (Recv p, s')"
    "N' = N\<lparr>net_nodes := (net_nodes N)[j := s, Suc j := s']\<rparr>"
    using assms(1) by (auto split: option.splits act.splits if_splits)
  then show ?thesis unfolding race_free_step_def
    using do_at_sound [of rs N None j i] do_at_sound [of rs N "Some p" "Suc j" i']
    by (auto intro!: net_comm)
next
  case (Race j i q)
  then show ?thesis using assms(2) by simp
qed

lemma exec_move_pooled:
  assumes "exec_move rs N m = Some N'"
  shows "pooled_step rs N N'"
proof (cases "is_race m")
  case False
  then show ?thesis by (intro pooled_calm exec_move_race_free [OF assms])
next
  case True
  then obtain j i q where m: "m = Race j i q" by (cases m) auto
  then obtain p s where a: "do_at rs N None j i = Some (Mark p, s)" "pending_in N p"
    and N': "N' = N\<lparr>net_nodes := map (written p q) ((net_nodes N)[j := s])\<rparr>"
    using assms by (auto split: option.splits act.splits if_splits)
  define N1 where "N1 = N\<lparr>net_nodes := (net_nodes N)[j := s]\<rparr>"
  have "recycles rs N p N1" unfolding recycles_def N1_def using do_at_sound [OF a(1)] by blast
  moreover obtain t where "t \<in> set (net_nodes N)" "clone_pending t p" using a(2) unfolding pending_in_iff by blast
  ultimately have "pooled_step rs N (N1\<lparr>net_nodes := map (written p q) (net_nodes N1)\<rparr>)"
    by (rule pooled_race)
  then show ?thesis by (simp add: N' N1_def)
qed

lemma exec_race_free:
  "exec rs N ms = Some N' \<Longrightarrow> list_all (\<lambda>m. \<not> is_race m) ms \<Longrightarrow> (race_free_step rs)\<^sup>*\<^sup>* N N'"
  by (induction rs N ms rule: exec.induct)
    (auto split: option.splits intro: converse_rtranclp_into_rtranclp exec_move_race_free)

lemma exec_pooled: "exec rs N ms = Some N' \<Longrightarrow> (pooled_step rs)\<^sup>*\<^sup>* N N'"
  by (induction rs N ms rule: exec.induct)
    (auto split: option.splits intro: converse_rtranclp_into_rtranclp exec_move_pooled)

text \<open>A step that is free of races is a step of Process.\<close>

lemma net_step_mono:
  assumes "net_step S fin rs N N'" "\<And>r c e s a s'. S r c e s a s' \<Longrightarrow> T r c e s a s'"
  shows "net_step T fin rs N N'"
  using assms(1)
proof cases
  case (net_comm j p s s')
  then show ?thesis using assms(2) net_step.net_comm by metis
next
  case (net_quiet j a s)
  then show ?thesis using assms(2) net_step.net_quiet by metis
next
  case (net_emit j err s)
  then show ?thesis using assms(2) net_step.net_emit by metis
next
  case (net_collect err errs)
  then show ?thesis using net_step.net_collect by metis
qed

lemma race_free_process: "race_free_step rs N N' \<Longrightarrow> process_step rs N N'"
  unfolding race_free_step_def process_step_def by (erule net_step_mono) simp

lemma race_free_run: "(race_free_step rs)\<^sup>*\<^sup>* N N' \<Longrightarrow> (process_step rs)\<^sup>*\<^sup>* N N'"
  by (metis mono_rtranclp race_free_process)

end
