(* ===== verification/CrawlerService.thy ===== *)
theory CrawlerService
  imports CrawlerStages PrivNet PipelineProps PipelineExec Partition InMemGraph CdbGraph
begin

text \<open>
  The crawler and its service (\<^verbatim>\<open>crawler/crawler.go\<close>, \<^verbatim>\<open>crawler/service.go\<close>): the stages assembled
  into a pipeline, \<^verbatim>\<open>Crawl\<close>, the configuration, one pass over the links of a partition, and the
  run loop.

  The pipeline's processors are functions of the payload.  The fetcher, the extractor and the
  text extractor are the stages of \<^verbatim>\<open>Crawler\<close>; what the graph and the index answer for a page
  is a parameter, as their stages forward the payload they were given.

  The payloads come from a pool, into which the sink puts them back.  What a crawl indexes is
  stated for the runs in which no page is cloned after its original went back (\<open>race_free_step\<close>);
  \<open>racy_crawl_indexes_empty_page\<close> is a run of the other kind (\<open>pooled_step\<close>).
\<close>

section \<open>The pipeline of the crawler\<close>

text \<open>
  A stage as a processor.  A panic in a stage ends the program; the pipeline has no such
  outcome, and the results below exclude it.
\<close>

fun as_processor :: "('p \<Rightarrow> 'p processed) \<Rightarrow> 'p processor" where
  "as_processor f p =
     (case f p of
        Forward q \<Rightarrow> Inr (Some q)
      | Dropped \<Rightarrow> Inr None
      | Aborted err \<Rightarrow> Inl err
      | Crashes m \<Rightarrow> Inl (External m))"

definition answering :: "('p \<Rightarrow> go_error option) \<Rightarrow> 'p processor" where
  "answering ans p = (case ans p of None \<Rightarrow> Inr (Some p) | Some err \<Rightarrow> Inl err)"

text \<open>The updater's stage and the indexer's stage forward the payload itself or fail.\<close>

lemma text_indexer_answers:
  "as_processor (\<lambda>p. fst (text_indexer_process idx now p s)) p =
   answering (\<lambda>p. fst (idx \<lparr>doc_link_id = pl_link_id p, doc_url = pl_url p, doc_title = pl_title p,
     doc_content = pl_text_content p, doc_indexed_at = now, doc_page_rank = 0\<rparr> s)) p"
  by (simp add: text_indexer_process_def answering_def split: prod.splits option.splits)

record 'r crawler_config =
  cc_url_pkg :: "'r url_pkg"
  cc_is_private :: "string \<Rightarrow> go_error + bool"
  cc_get :: "string \<Rightarrow> go_error + http_response"
  cc_sanitize :: "string \<Rightarrow> string"
  cc_unescape :: "string \<Rightarrow> string"
  cc_graph :: "payload \<Rightarrow> go_error option"
  cc_indexer :: "payload \<Rightarrow> go_error option"
  cc_fetch_workers :: int

definition assemble_crawler_pipeline :: "'r crawler_config \<Rightarrow> payload stage_runner list outcome" where
  "assemble_crawler_pipeline cfg =
     outcome_bind
       (fixed_worker_pool (as_processor (fetch (cc_url_pkg cfg) (cc_is_private cfg) (cc_get cfg)))
          (cc_fetch_workers cfg))
       (\<lambda>pool. Returns
          [pool,
           FIFO (as_processor (link_extractor_process (cc_url_pkg cfg) (cc_is_private cfg))),
           FIFO (as_processor (text_extractor_process (cc_sanitize cfg) (cc_unescape cfg))),
           broadcast (\<lambda>p. fst (payload_clone new_payload p)) (answering (cc_graph cfg)) [answering (cc_indexer cfg)]])"

text \<open>The source takes a payload from the pool for each link; the sink counts.\<close>

definition crawl_nodes :: "payload stage_runner list \<Rightarrow> link api_iterator \<Rightarrow> payload node list" where
  "crawl_nodes stages linkIt =
     pipeline_nodes stages (map (link_source_payload new_payload) (it_items linkIt)) (it_error linkIt) (\<lambda>_. None)"

definition crawl_result :: "payload node_state network \<Rightarrow> int \<times> go_error option" where
  "crawl_result N = (sink_get_count (fold (\<lambda>_. sink_consume) (sink_consumed N) 0), net_result N)"

section \<open>What a crawl does\<close>

text \<open>A page as the first three stages leave it; \<open>None\<close> when the fetcher drops the link.\<close>

datatype crawled = NotFetched | Failed | Prepared payload

definition prepare_page :: "'r crawler_config \<Rightarrow> link \<Rightarrow> crawled" where
  "prepare_page cfg l =
     (case fetch (cc_url_pkg cfg) (cc_is_private cfg) (cc_get cfg) (link_source_payload new_payload l) of
        Dropped \<Rightarrow> NotFetched
      | Forward p \<Rightarrow>
          (case link_extractor_process (cc_url_pkg cfg) (cc_is_private cfg) p of
             Dropped \<Rightarrow> NotFetched
           | Forward q \<Rightarrow>
               (case text_extractor_process (cc_sanitize cfg) (cc_unescape cfg) q of
                  Forward r \<Rightarrow> Prepared r
                | Dropped \<Rightarrow> NotFetched
                | _ \<Rightarrow> Failed)
           | _ \<Rightarrow> Failed)
      | _ \<Rightarrow> Failed)"

definition answer_token :: "('p \<Rightarrow> go_error option) \<Rightarrow> 'p \<Rightarrow> 'p option" where
  "answer_token ans p = (case ans p of None \<Rightarrow> Some p | Some _ \<Rightarrow> None)"

lemma results_answering: "results (answering ans) p = {#answer_token ans p#}"
  by (simp add: results_def answering_def answer_token_def split: option.splits)

lemma results_as_processor:
  "results (as_processor f) p = (case f p of Forward q \<Rightarrow> {#Some q#} | Dropped \<Rightarrow> {#} | _ \<Rightarrow> {#None#})"
  by (simp add: results_def split: processed.splits)

lemma clone_text_only: "pl_raw_content p = [] \<Longrightarrow> fst (payload_clone new_payload p) = p"
  by (cases p) (simp add: payload_clone_def new_payload_def)

lemma text_extractor_raw: "text_extractor_process san une p = Forward q \<Longrightarrow> pl_raw_content q = []"
  by (auto simp: text_extractor_process_def Let_def)

definition page_results :: "'r crawler_config \<Rightarrow> link \<Rightarrow> payload option multiset" where
  "page_results cfg l =
     (case prepare_page cfg l of
        NotFetched \<Rightarrow> {#}
      | Failed \<Rightarrow> {#None#}
      | Prepared p \<Rightarrow> {#answer_token (cc_graph cfg) p, answer_token (cc_indexer cfg) p#})"

lemma pipeline_results_end: "pipeline_results (\<lambda>_. None) [] = (\<lambda>q. {#q#})"
proof
  show "pipeline_results (\<lambda>_. None) [] q = {#q#}" for q :: "'p option"
    by (cases q) (simp_all add: sink_result_def)
qed

lemma pipeline_results_crawl:
  assumes "assemble_crawler_pipeline cfg = Returns stages"
  shows "pipeline_results (\<lambda>_. None) stages (Some (link_source_payload new_payload l)) = page_results cfg l"
proof -
  have stages: "stages =
      [FixedPool (as_processor (fetch (cc_url_pkg cfg) (cc_is_private cfg) (cc_get cfg))) (nat (cc_fetch_workers cfg)),
       FIFO (as_processor (link_extractor_process (cc_url_pkg cfg) (cc_is_private cfg))),
       FIFO (as_processor (text_extractor_process (cc_sanitize cfg) (cc_unescape cfg))),
       BroadcastStage (\<lambda>p. fst (payload_clone new_payload p)) [answering (cc_graph cfg), answering (cc_indexer cfg)]]"
    using assms by (auto simp: assemble_crawler_pipeline_def fixed_worker_pool_def broadcast_def split: if_splits)
  show ?thesis
    unfolding stages page_results_def prepare_page_def
    by (auto simp: results_as_processor pipeline_results_end results_answering lessThan_Suc copy_for_def clone_text_only
        text_extractor_raw add_mset_commute split: processed.splits)
qed

lemma crawl_stages_ok: "assemble_crawler_pipeline cfg = Returns stages \<Longrightarrow> stages_ok stages"
  by (auto simp: assemble_crawler_pipeline_def fixed_worker_pool_def broadcast_def stages_ok_def split: if_splits)

text \<open>A payload that comes back from the pool is as good as a new one.\<close>

lemma recycled_payload:
  "link_source_payload (payload_mark_as_processed p) l = link_source_payload new_payload l"
  by (cases p) (simp add: link_source_payload_def payload_mark_as_processed_def new_payload_def)

text \<open>The sink's counter, below the range of an int.\<close>

lemma fold_sink_consume:
  "0 \<le> c \<Longrightarrow> c + int (length xs) < 2 ^ 63 \<Longrightarrow> fold (\<lambda>_. sink_consume) xs c = c + int (length xs)"
proof (induction xs arbitrary: c)
  case (Cons x xs)
  then have "sink_consume c = c + 1" by (simp add: sink_consume_def wrap64_id)
  with Cons show ?case by simp
qed simp

definition prepared :: "'r crawler_config \<Rightarrow> link \<Rightarrow> bool" where
  "prepared cfg l = (case prepare_page cfg l of Prepared _ \<Rightarrow> True | _ \<Rightarrow> False)"

lemma page_results_clean:
  assumes "None \<notin># page_results cfg l"
  shows "size (page_results cfg l) = (if prepared cfg l then 2 else 0)"
    and "prepare_page cfg l \<noteq> Failed"
    and "prepare_page cfg l = Prepared p \<Longrightarrow> cc_graph cfg p = None \<and> cc_indexer cfg p = None"
  using assms by (auto simp: page_results_def prepared_def answer_token_def split: crawled.splits option.splits)

lemma size_pages:
  "(\<forall>l \<in> set ls. None \<notin># page_results cfg l) \<Longrightarrow>
   (\<Sum>l \<in># mset ls. size (page_results cfg l)) = 2 * length (filter (prepared cfg) ls)"
  by (induction ls) (auto simp: page_results_clean(1))

text \<open>
  C37. A crawl without the race of Broadcast's clones.  Take any number of fetch workers that the
  configuration admits, any interleaving of the pipeline's goroutines in which no payload is
  recycled while Broadcast has yet to clone it or an equal one, and any answers of the network, the graph
  and the index.  When \<^verbatim>\<open>Crawl\<close> returns no error and was not cancelled, the link iterator ended
  without an error, every page that was fetched was parsed, added to the graph and indexed without
  an error, and the count it returns is the number of the links whose page was fetched.  The
  condition on the interleaving is needed, see \<open>racy_crawl_indexes_empty_page\<close>: the code does
  nothing to ensure it.
\<close>

theorem crawl_counts_fetched_pages:
  assumes "assemble_crawler_pipeline cfg = Returns stages" "2 * length (it_items linkIt) < 2 ^ 63"
    and run: "(race_free_step (crawl_nodes stages linkIt))\<^sup>*\<^sup>* (start_network (crawl_nodes stages linkIt)) N"
    and "process_returned N" "crawl_result N = (n, None)"
  shows "n = int (length (filter (prepared cfg) (it_items linkIt))) \<and> it_error linkIt = None \<and>
    (\<forall>l \<in> set (it_items linkIt). case prepare_page cfg l of
        NotFetched \<Rightarrow> True
      | Failed \<Rightarrow> False
      | Prepared p \<Rightarrow> cc_graph cfg p = None \<and> cc_indexer cfg p = None)"
proof -
  let ?ls = "it_items linkIt"
  have nil: "net_result N = None" using assms(5) by (simp add: crawl_result_def)
  have "mset (map Some (sink_consumed N)) = owed stages (map (link_source_payload new_payload) ?ls) (it_error linkIt) (\<lambda>_. None)"
    by (rule delivered_all [OF crawl_stages_ok [OF assms(1)] race_free_run [OF run, unfolded crawl_nodes_def] assms(4) nil])
  also have "\<dots> = (\<Sum>l \<in># mset ?ls. page_results cfg l) + failure (it_error linkIt)"
    by (simp add: owed_def pipeline_results_crawl [OF assms(1)] image_mset.compositionality comp_def)
  finally have all: "mset (map Some (sink_consumed N)) =
    (\<Sum>l \<in># mset ?ls. page_results cfg l) + (failure (it_error linkIt) :: payload option multiset)" .
  have "None \<notin># mset (map Some (sink_consumed N))" by auto
  then have none: "None \<notin># (\<Sum>l \<in># mset ?ls. page_results cfg l)" "None \<notin># (failure (it_error linkIt) :: payload option multiset)"
    unfolding all by auto
  then have err: "it_error linkIt = None" by (simp add: failure_def split: option.splits)
  have clean: "\<forall>l \<in> set ?ls. None \<notin># page_results cfg l" using none(1) by auto
  have "size (mset (map Some (sink_consumed N))) = 2 * length (filter (prepared cfg) ?ls)"
    unfolding all using err size_pages [OF clean] by (simp add: failure_def image_mset.compositionality comp_def)
  then have len: "length (sink_consumed N) = 2 * length (filter (prepared cfg) ?ls)" by simp
  have "length (sink_consumed N) \<le> 2 * length ?ls" by (simp add: len)
  with assms(2) have "length (sink_consumed N) < 2 ^ 63" by (rule order.strict_trans1 [rotated])
  then have "int (length (sink_consumed N)) < 2 ^ 63" by simp
  then have "n = int (length (filter (prepared cfg) ?ls))"
    using assms(5) len fold_sink_consume [of 0 "sink_consumed N"] by (simp add: crawl_result_def sink_get_count_def)
  moreover have "case prepare_page cfg l of NotFetched \<Rightarrow> True | Failed \<Rightarrow> False
      | Prepared p \<Rightarrow> cc_graph cfg p = None \<and> cc_indexer cfg p = None" if "l \<in> set ?ls" for l
    using page_results_clean(2,3) [of cfg l] clean that by (simp split: crawled.splits)
  ultimately show ?thesis using err by blast
qed

text \<open>A crawl of one page.\<close>

definition demo_crawler :: "string crawler_config" where
  "demo_crawler = \<lparr>cc_url_pkg = demo_urls, cc_is_private = (\<lambda>_. Inr False), cc_get = (\<lambda>_. Inr html_response),
     cc_sanitize = (\<lambda>s. s), cc_unescape = (\<lambda>s. s), cc_graph = (\<lambda>_. None), cc_indexer = (\<lambda>_. None),
     cc_fetch_workers = 1\<rparr>"

definition demo_link :: link where
  "demo_link = \<lparr>link_id = 7, link_url = ''http://a/'', link_retrieved_at = 0\<rparr>"

definition demo_links :: "link api_iterator" where
  "demo_links = \<lparr>it_items = [demo_link], it_error = None, it_close = None\<rparr>"

definition demo_page :: payload where
  "demo_page = new_payload\<lparr>pl_link_id := 7, pl_url := ''http://a/'', pl_retrieved_at := 0, pl_text_content := ''hi''\<rparr>"

lemma demo_prepared: "prepare_page demo_crawler demo_link = Prepared demo_page"
  by code_simp

definition demo_nodes :: "payload node list" where
  "demo_nodes = crawl_nodes
     (case assemble_crawler_pipeline demo_crawler of Returns stages \<Rightarrow> stages | _ \<Rightarrow> []) demo_links"

text \<open>The page on its way to the broadcast stage, and how the pipeline ends.\<close>

definition demo_arrives :: "payload move list" where
  "demo_arrives = [Go 0 0, Meet 0 0 0, Go 1 0, Meet 1 0 0, Go 2 0, Meet 2 0 0, Go 3 0, Meet 3 0 0]"

definition demo_ends :: "payload move list" where
  "demo_ends = [Go 0 0, Go 1 0, Go 2 0, Go 3 0, Go 4 0, Go 4 1, Go 4 2, Go 5 0]"

text \<open>Both clones are taken before the page itself reaches the sink.\<close>

definition demo_schedule :: "payload move list" where
  "demo_schedule = demo_arrives @ [Go 4 0, Go 4 0, Go 4 0, Go 4 0, Go 4 1, Meet 4 1 0, Go 5 0, Go 4 2, Meet 4 2 0, Go 5 0]
     @ demo_ends"

lemma demo_run:
  "map_option (\<lambda>N. (process_returned N, net_result N, sink_consumed N)) (exec demo_nodes (start_network demo_nodes) demo_schedule)
     = Some (True, None, [demo_page, demo_page])"
  by code_simp
lemma demo_assembled:
  "\<exists>stages. assemble_crawler_pipeline demo_crawler = Returns stages \<and> crawl_nodes stages demo_links = demo_nodes"
  by (simp add: assemble_crawler_pipeline_def fixed_worker_pool_def demo_crawler_def demo_nodes_def)

lemma two_consumed: "sink_consumed N = [x, y] \<Longrightarrow> net_result N = None \<Longrightarrow> crawl_result N = (1, None)"
  by (simp add: crawl_result_def sink_consume_def wrap64_def sink_get_count_def)

lemma crawl_counts_fetched_pages_witness:
  "\<exists>stages N. assemble_crawler_pipeline demo_crawler = Returns stages \<and>
     (race_free_step (crawl_nodes stages demo_links))\<^sup>*\<^sup>* (start_network (crawl_nodes stages demo_links)) N \<and>
     process_returned N \<and> crawl_result N = (1, None) \<and>
     length (filter (prepared demo_crawler) (it_items demo_links)) = 1 \<and> cc_indexer demo_crawler demo_page = None"
proof -
  obtain stages where st: "assemble_crawler_pipeline demo_crawler = Returns stages"
    "crawl_nodes stages demo_links = demo_nodes"
    using demo_assembled by blast
  obtain N where N: "exec demo_nodes (start_network demo_nodes) demo_schedule = Some N"
    "process_returned N" "net_result N = None" "sink_consumed N = [demo_page, demo_page]"
    using demo_run by auto
  have "list_all (\<lambda>m. \<not> is_race m) demo_schedule"
    by (simp add: demo_schedule_def demo_arrives_def demo_ends_def)
  with N(1) have run: "(race_free_step demo_nodes)\<^sup>*\<^sup>* (start_network demo_nodes) N" by (rule exec_race_free)
  have result: "crawl_result N = (1, None)" by (rule two_consumed [OF N(4,3)])
  have all: "1 = int (length (filter (prepared demo_crawler) (it_items demo_links))) \<and> it_error demo_links = None \<and>
    (\<forall>l \<in> set (it_items demo_links). case prepare_page demo_crawler l of
        NotFetched \<Rightarrow> True
      | Failed \<Rightarrow> False
      | Prepared p \<Rightarrow> cc_graph demo_crawler p = None \<and> cc_indexer demo_crawler p = None)"
    by (rule crawl_counts_fetched_pages [OF st(1) _ run [folded st(2)] N(2) result]) (simp add: demo_links_def)
  moreover have "cc_indexer demo_crawler demo_page = None"
    using conjunct2 [OF conjunct2 [OF all]] by (simp add: demo_links_def demo_prepared)
  ultimately show ?thesis using st run N(2) result by (intro exI [of _ stages] exI [of _ N]) simp
qed

text \<open>
  The race.  The updater and the sink are done with the page before Broadcast takes the clone for
  the indexer, so that the clone is of a recycled payload: it has the page's link identifier and
  neither URL nor text.  The indexer stores it in the page's place, the crawl returns no error
  and counts the page.
\<close>

definition empty_page :: payload where
  "empty_page = fst (payload_clone new_payload (payload_mark_as_processed demo_page))"

definition racy_schedule :: "payload move list" where
  "racy_schedule = demo_arrives @ [Go 4 0, Go 4 1, Meet 4 1 0, Race 5 0 (payload_mark_as_processed demo_page),
     Go 4 0, Go 4 0, Go 4 0, Go 4 2, Meet 4 2 0, Go 5 0] @ demo_ends"

lemma racy_run:
  "map_option (\<lambda>N. (process_returned N, net_result N, sink_consumed N)) (exec demo_nodes (start_network demo_nodes) racy_schedule)
     = Some (True, None, [demo_page, empty_page])"
  by code_simp

theorem racy_crawl_indexes_empty_page:
  "\<exists>N. (pooled_step demo_nodes)\<^sup>*\<^sup>* (start_network demo_nodes) N \<and> process_returned N \<and> crawl_result N = (1, None) \<and>
     sink_consumed N = [demo_page, empty_page] \<and> pl_text_content demo_page = ''hi'' \<and>
     pl_link_id empty_page = pl_link_id demo_page \<and> pl_url empty_page = [] \<and> pl_text_content empty_page = []"
proof -
  obtain N where N: "exec demo_nodes (start_network demo_nodes) racy_schedule = Some N"
    "process_returned N" "net_result N = None" "sink_consumed N = [demo_page, empty_page]"
    using racy_run by auto
  have "pl_text_content demo_page = ''hi''" "pl_link_id empty_page = pl_link_id demo_page" "pl_url empty_page = []"
    "pl_text_content empty_page = []"
    by (simp_all add: demo_page_def empty_page_def payload_clone_def payload_mark_as_processed_def)
  then show ?thesis using N exec_pooled [OF N(1)] two_consumed [OF N(4,3)] by blast
qed

section \<open>The service's configuration\<close>

text \<open>
  A nil field is \<open>None\<close>.  What the graph and the index answer is given per payload, as in the
  crawler's own configuration; \<open>std\<close> holds the URL package, the sanitizer's functions, name
  resolution and the default HTTP client.
\<close>

record 'r crawl_std =
  std_url_pkg :: "'r url_pkg"
  std_sanitize :: "string \<Rightarrow> string"
  std_unescape :: "string \<Rightarrow> string"
  std_resolve :: "string \<Rightarrow> go_error + ip"
  std_get :: "string \<Rightarrow> go_error + http_response"

record crawl_svc_config =
  csc_graph_api :: "(payload \<Rightarrow> go_error option) option"
  csc_index_api :: "(payload \<Rightarrow> go_error option) option"
  csc_is_private :: "(string \<Rightarrow> go_error + bool) option"
  csc_url_getter :: "(string \<Rightarrow> go_error + http_response) option"
  csc_partition_detector :: bool
  csc_clock :: bool
  csc_fetch_workers :: int
  csc_update_interval :: int
  csc_re_index_threshold :: int
  csc_logger :: bool

definition crawl_svc_validate :: "'r crawl_std \<Rightarrow> crawl_svc_config \<Rightarrow> go_error option \<times> crawl_svc_config" where
  "crawl_svc_validate std cfg =
     (let (err0, cfg0) = (case csc_is_private cfg of
            Some _ \<Rightarrow> (None, cfg)
          | None \<Rightarrow>
              (case new_detector of
                 Inl err \<Rightarrow> (Some err, cfg)
               | Inr d \<Rightarrow> (None, cfg\<lparr>csc_is_private := Some (detector_is_private (std_resolve std) d)\<rparr>)));
          cfg1 = (if csc_url_getter cfg0 = None then cfg0\<lparr>csc_url_getter := Some (std_get std)\<rparr> else cfg0);
          err1 = (if csc_graph_api cfg1 = None
                  then multierror_append err0 (Errorf ''graph API has not been provided'') else err0);
          err2 = (if csc_index_api cfg1 = None
                  then multierror_append err1 (Errorf ''index API has not been provided'') else err1);
          err3 = (if \<not> csc_partition_detector cfg1
                  then multierror_append err2 (Errorf ''partition detector has not been provided'') else err2);
          cfg2 = cfg1\<lparr>csc_clock := True\<rparr>;
          err4 = (if csc_fetch_workers cfg2 \<le> 0
                  then multierror_append err3 (Errorf ''invalid value for fetch workers'') else err3);
          err5 = (if csc_update_interval cfg2 = 0
                  then multierror_append err4 (Errorf ''invalid value for update interval'') else err4);
          err6 = (if csc_re_index_threshold cfg2 = 0
                  then multierror_append err5 (Errorf ''invalid value for re-index threshold'') else err5);
          cfg3 = cfg2\<lparr>csc_logger := True\<rparr>
      in (err6, cfg3))"

record crawl_service =
  crs_cfg :: crawl_svc_config
  crs_crawler :: "payload stage_runner list"

definition new_crawl_service :: "'r crawl_std \<Rightarrow> crawl_svc_config \<Rightarrow> crawl_service outcome" where
  "new_crawl_service std cfg =
     (case crawl_svc_validate std cfg of
        (Some err, _) \<Rightarrow> Fails (Wrap ''crawler service: config validation failed'' err)
      | (None, cfg') \<Rightarrow>
          outcome_bind
            (assemble_crawler_pipeline
               \<lparr>cc_url_pkg = std_url_pkg std, cc_is_private = the (csc_is_private cfg'), cc_get = the (csc_url_getter cfg'),
                cc_sanitize = std_sanitize std, cc_unescape = std_unescape std,
                cc_graph = the (csc_graph_api cfg'), cc_indexer = the (csc_index_api cfg'),
                cc_fetch_workers = csc_fetch_workers cfg'\<rparr>)
            (\<lambda>crawler. Returns \<lparr>crs_cfg = cfg', crs_crawler = crawler\<rparr>))"

text \<open>
  An accepted configuration has every field the service reads, so that no nil interface is
  called and the worker pool does not panic.
\<close>

lemma multierror_append_Some [simp]: "multierror_append acc e \<noteq> None"
  by (auto simp: multierror_append_def split: option.splits go_error.splits)

lemma crawl_svc_validate_ok:
  assumes "crawl_svc_validate std cfg = (None, cfg')"
  shows "csc_graph_api cfg' \<noteq> None \<and> csc_index_api cfg' \<noteq> None \<and> csc_is_private cfg' \<noteq> None \<and>
    csc_url_getter cfg' \<noteq> None \<and> csc_partition_detector cfg' \<and> 0 < csc_fetch_workers cfg' \<and>
    csc_update_interval cfg' \<noteq> 0 \<and> csc_re_index_threshold cfg' \<noteq> 0"
  using assms unfolding crawl_svc_validate_def Let_def
  by (cases "csc_is_private cfg") (simp_all add: new_detector_blocks split: if_splits, auto)

lemma new_crawl_service_never_panics: "\<not> panics (new_crawl_service std cfg)"
proof (cases "crawl_svc_validate std cfg")
  case (Pair err cfg')
  then show ?thesis
    using crawl_svc_validate_ok [of std cfg cfg']
    by (cases err) (auto simp: new_crawl_service_def assemble_crawler_pipeline_def fixed_worker_pool_def)
qed

section \<open>One pass, and the run loop\<close>

text \<open>
  \<open>links_api\<close> is what the graph's \<^verbatim>\<open>Links\<close> answers, \<open>crawl\<close> the call of \<^verbatim>\<open>Crawl\<close> with its effect
  on the state, \<open>now\<close> the clock during the pass.
\<close>

definition crawl_graph ::
  "uuid_pkg \<Rightarrow> (uuid \<Rightarrow> uuid \<Rightarrow> go_time \<Rightarrow> go_error + link api_iterator) \<Rightarrow>
   (link api_iterator \<Rightarrow> 's \<Rightarrow> (int \<times> go_error option) \<times> 's) \<Rightarrow> int \<Rightarrow> int \<Rightarrow> int \<Rightarrow> go_time \<Rightarrow> 's \<Rightarrow>
   (go_error option \<times> 's) outcome" where
  "crawl_graph L links_api crawl threshold curPartition numPartitions now s =
     (case new_full_range L numPartitions of
        Panics m \<Rightarrow> Panics m
      | Fails err \<Rightarrow> Returns (Some (Wrap ''crawler: unable to compute ID ranges for partition'' err), s)
      | Returns partRange \<Rightarrow>
          (case partition_extents partRange curPartition of
             Panics m \<Rightarrow> Panics m
           | Fails err \<Rightarrow> Returns (Some (Wrap ''crawler: unable to compute ID ranges for partition'' err), s)
           | Returns (fromID, toID) \<Rightarrow>
               (case links_api fromID toID (now - threshold) of
                  Inl err \<Rightarrow> Returns (Some (Wrap ''crawler: unable to retrieve links iterator'' err), s)
                | Inr linkIt \<Rightarrow>
                    (case crawl linkIt s of
                       ((_, Some err), s') \<Rightarrow>
                         Returns (Some (Wrap ''crawler: unable to complete crawling the link graph'' err), s')
                     | ((_, None), s') \<Rightarrow>
                         Returns (map_option (Wrap ''crawler: unable to complete crawling the link graph'') (it_close linkIt), s')))))"

definition crawl_svc_tick ::
  "(int \<times> int) outcome \<Rightarrow> (int \<Rightarrow> int \<Rightarrow> 's \<Rightarrow> (go_error option \<times> 's) outcome) \<Rightarrow> 's \<Rightarrow> 's run_result" where
  "crawl_svc_tick partition_info pass s =
     (case partition_info of
        Panics m \<Rightarrow> Crashed m
      | Fails err \<Rightarrow> if errors_is err ErrNoPartitionDataAvailableYet then StillRunning s else Stopped (Some err) s
      | Returns (curPartition, numPartitions) \<Rightarrow>
          (case pass curPartition numPartitions s of
             Panics m \<Rightarrow> Crashed m
           | Fails err \<Rightarrow> Stopped (Some err) s
           | Returns (Some err, s') \<Rightarrow> Stopped (Some err) s'
           | Returns (None, s') \<Rightarrow> StillRunning s'))"

fun crawl_svc_run ::
  "(go_time \<Rightarrow> (int \<times> int) outcome) \<Rightarrow> (go_time \<Rightarrow> int \<Rightarrow> int \<Rightarrow> 's \<Rightarrow> (go_error option \<times> 's) outcome) \<Rightarrow>
   go_time run_event list \<Rightarrow> 's \<Rightarrow> 's run_result" where
  "crawl_svc_run partition_info pass [] s = StillRunning s"
| "crawl_svc_run partition_info pass (CtxDone # events) s = Stopped None s"
| "crawl_svc_run partition_info pass (Tick t # events) s =
     (case crawl_svc_tick (partition_info t) (pass t) s of
        StillRunning s' \<Rightarrow> crawl_svc_run partition_info pass events s'
      | r \<Rightarrow> r)"

section \<open>Partitions of the links\<close>

text \<open>
  A store that lists the links of a range of identifiers, \<open>cut\<close> being what it makes of the
  instant it is given.
\<close>

locale link_listing =
  fixes inv :: "'s \<Rightarrow> bool"
    and stored :: "'s \<Rightarrow> link set"
    and cut :: "go_time \<Rightarrow> go_time"
    and listing :: "uuid \<Rightarrow> uuid \<Rightarrow> go_time \<Rightarrow> 's \<Rightarrow> link list"
  assumes lists: "inv s \<Longrightarrow>
      set (listing f t b s) = {l \<in> stored s. f \<le> link_id l \<and> link_id l < t \<and> link_retrieved_at l < cut b}"
    and lists_once: "inv s \<Longrightarrow> distinct (listing f t b s)"
begin

definition part :: "nat \<Rightarrow> go_time \<Rightarrow> 's \<Rightarrow> nat \<Rightarrow> link list" where
  "part n b s p = listing (boundaries (full_range n) ! p) (boundaries (full_range n) ! Suc p) b s"

lemma parts_tile:
  assumes "inv s" "1 \<le> n" "n \<le> 256"
  shows "distinct (part n b s p)"
    and "set (part n b s p) \<subseteq> {l \<in> stored s. link_retrieved_at l < cut b}"
    and "l \<in> stored s \<Longrightarrow> link_id l < uuid_max \<Longrightarrow> link_retrieved_at l < cut b \<Longrightarrow>
      \<exists>!p. p < n \<and> l \<in> set (part n b s p)"
  using lists [OF assms(1)] lists_once [OF assms(1)] full_range_boundaries [OF assms(2,3), of "link_id l"]
  by (auto simp: part_def)

lemma pass_crawls_part:
  assumes L: "uuid_pkg_ok L" and n: "1 \<le> n" "n \<le> 256" and "p < n"
    and api: "\<And>f t b. links_api f t b = Inr \<lparr>it_items = listing f t b s, it_error = None, it_close = None\<rparr>"
  shows "crawl_graph L links_api crawl threshold (int p) (int n) now x =
    (case crawl \<lparr>it_items = part n (now - threshold) s p, it_error = None, it_close = None\<rparr> x of
       ((_, err), x') \<Rightarrow> Returns (map_option (Wrap ''crawler: unable to complete crawling the link graph'') err, x'))"
  using new_full_range_ok [OF L, of "int n"] n full_range_extents [of "int p" n] \<open>p < n\<close>
  by (simp add: crawl_graph_def api part_def split: prod.splits option.splits)

end

text \<open>The in-memory graph, whatever order its map is iterated in.\<close>

interpretation mem_listing: link_listing
    "\<lambda>(order, g). uuid_pkg_ok L \<and> mem_inv g \<and> distinct order \<and> set order = dom (mg_links g)"
    "\<lambda>(order, g). ran (st_links (abs_graph g))" id
    "\<lambda>f t b (order, g). map (link_heap g) (li_links (links_in_range L order f t b g))"
proof (unfold_locales, goal_cases)
  case (1 s f t b)
  obtain order g where s: "s = (order, g)" by (cases s)
  with 1 have inv: "uuid_pkg_ok L" "links_inv g" "set order = dom (mg_links g)" by (auto simp: mem_inv_def)
  note ids = links_invD(5) [OF inv(2)]
  show ?case
    unfolding s using inv(3) ids
    by (auto simp: pick_links_eq [OF inv(1)] ran_def dom_def image_iff) (metis option.sel)+
next
  case (2 s f t b)
  obtain order g where s: "s = (order, g)" by (cases s)
  with 2 have inv: "uuid_pkg_ok L" "links_inv g" "distinct order" "set order = dom (mg_links g)" by (auto simp: mem_inv_def)
  have "inj_on (\<lambda>i. link_heap g (the (mg_links g i))) (dom (mg_links g))"
    using links_invD(5) [OF inv(2)] by (intro inj_onI) (metis domD option.sel)
  then show ?case
    unfolding s using inv(3,4) by (auto simp: pick_links_eq [OF inv(1)] distinct_map comp_def intro: inj_on_subset)
qed

text \<open>CockroachDB, with the precision of its timestamps.\<close>

interpretation cdb_listing: link_listing db_ok "\<lambda>D. set (tb_links D)" ts "links_in_partition_query ts"
  by unfold_locales (auto simp: links_in_partition_query_def db_ok_def intro: distinct_filter distinct_map [THEN iffD1, THEN conjunct1])

text \<open>
  C38. Partitioned crawling.  When n crawler services (1 to 256) that share a database each make
  a pass over their own partition at the same moment, each hands its part of the links to one
  call of Crawl and returns what that call returns; and every stored link below the greatest
  identifier that was last retrieved before the re-index threshold is crawled by exactly one of
  them, once, while no link retrieved since is crawled at all.
\<close>

theorem crawl_passes_partition_links:
  assumes "uuid_pkg_ok L" "1 \<le> n" "n \<le> 256" "db_ok D" "\<And>ls. wire ls = Inr (whole_rows ls)"
  shows "\<exists>links. (\<forall>p crawl s. p < n \<longrightarrow> crawl_graph L (cdb_links_api ts wire D) crawl threshold (int p) (int n) now s =
      (case crawl \<lparr>it_items = links p, it_error = None, it_close = None\<rparr> s of
         ((_, err), s') \<Rightarrow> Returns (map_option (Wrap ''crawler: unable to complete crawling the link graph'') err, s' :: 's))) \<and>
    (\<forall>p. distinct (links p) \<and> set (links p) \<subseteq> {l \<in> set (tb_links D). link_retrieved_at l < ts (now - threshold)}) \<and>
    (\<forall>l \<in> set (tb_links D). link_id l < uuid_max \<longrightarrow> link_retrieved_at l < ts (now - threshold) \<longrightarrow>
      (\<exists>!p. p < n \<and> l \<in> set (links p)))"
proof -
  let ?links = "cdb_listing.part ts n (now - threshold) D"
  have "crawl_graph L (cdb_links_api ts wire D) crawl threshold (int p) (int n) now s =
      (case crawl \<lparr>it_items = ?links p, it_error = None, it_close = None\<rparr> s of
         ((_, err), s') \<Rightarrow> Returns (map_option (Wrap ''crawler: unable to complete crawling the link graph'') err, s'))"
    if "p < n" for p and crawl :: "link api_iterator \<Rightarrow> 's \<Rightarrow> (int \<times> go_error option) \<times> 's" and s
    by (rule cdb_listing.pass_crawls_part [OF assms(1-3) that]) (rule cdb_links_api_whole [OF assms(5)])
  then show ?thesis
    using cdb_listing.parts_tile [OF assms(4,2,3)] by (intro exI [of _ ?links] conjI) (blast | simp)+
qed

definition two_pages :: db where
  "two_pages = \<lparr>tb_links = [zero_link\<lparr>link_url := ''a''\<rparr>, zero_link\<lparr>link_id := 1, link_url := ''b''\<rparr>], tb_edges = []\<rparr>"

theorem crawl_passes_partition_links_witness:
  "\<exists>ls. crawl_graph rfc4122_pkg (cdb_links_api id (\<lambda>ls. Inr (whole_rows ls)) two_pages)
     (\<lambda>it xs. ((0, None), xs @ it_items it)) 3 0 1 9 [] = Returns (None, ls) \<and> distinct ls \<and> set ls = set (tb_links two_pages)"
proof -
  have ok: "db_ok two_pages" by (simp add: db_ok_def two_pages_def zero_link_def)
  note pass = crawl_passes_partition_links [where 's = "link list" and n = 1 and ts = id and threshold = 3 and now = 9,
      OF rfc4122_pkg_ok _ _ ok, of "\<lambda>ls. Inr (whole_rows ls)"]
  show ?thesis
  proof (rule exE [OF pass], goal_cases)
    case (4 links)
    then have links: "distinct (links 0)" "set (links 0) \<subseteq> set (tb_links two_pages)"
      and all: "\<forall>l \<in> set (tb_links two_pages). link_id l < uuid_max \<longrightarrow> link_retrieved_at l < id (9 - 3) \<longrightarrow>
        (\<exists>!p. p < 1 \<and> l \<in> set (links p))"
      by blast+
    have "l \<in> set (links 0)" if "l \<in> set (tb_links two_pages)" for l
    proof -
      have "link_id l < uuid_max" "link_retrieved_at l < id (9 - 3)"
        using that by (auto simp: two_pages_def zero_link_def zero_time_def word_less_nat_alt unat_uuid_max)
      with all that show ?thesis by fastforce
    qed
    with links(2) have "set (links 0) = set (tb_links two_pages)" by blast
    moreover have "crawl_graph rfc4122_pkg (cdb_links_api id (\<lambda>ls. Inr (whole_rows ls)) two_pages)
        (\<lambda>it xs. ((0, None), xs @ it_items it)) 3 0 1 9 [] = Returns (None, links 0)"
      using 4 [THEN conjunct1, rule_format, of 0 "\<lambda>it xs. ((0, None), xs @ it_items it)" "[]"] by simp
    ultimately show ?thesis using links(1) by blast
  qed simp_all
qed

end
