(* ===== verification/ServiceGroup.thy ===== *)
theory ServiceGroup
  imports Prelude "HOL-Library.Multiset"
begin

text \<open>
  The group of services of the monolith (\<^verbatim>\<open>service/service.go\<close>): \<^verbatim>\<open>Group.Run\<close> as a step relation
  of the goroutines it starts and of the caller's own goroutine.

  A service is its name and the results its \<^verbatim>\<open>Run\<close> may return, depending on whether the context
  it was given is cancelled.  An error in the channel and the outcome remember nothing else.
\<close>

record service =
  svc_name :: string
  svc_may_return :: "bool \<Rightarrow> go_error option \<Rightarrow> bool"

text \<open>
  A goroutine: inside the service's \<^verbatim>\<open>Run\<close>, before the send on the error channel, before the call
  of \<^verbatim>\<open>cancelFn\<close>, and after \<^verbatim>\<open>wg.Done\<close>, where the model remembers what \<^verbatim>\<open>Run\<close> returned.
\<close>

datatype member = Running | Reporting go_error | Cancelling go_error | SvcLeft "go_error option"

text \<open>The caller: waiting for the context, waiting for the goroutines, or returned.\<close>

datatype runner = Waiting | Joining | GroupReturned "go_error option"

record group_state =
  gr_members :: "member list"
  gr_done :: bool
  gr_err_ch :: "go_error list"
  gr_runner :: runner

definition start_group :: "service list \<Rightarrow> group_state" where
  "start_group g = \<lparr>gr_members = replicate (length g) Running, gr_done = False, gr_err_ch = [], gr_runner = Waiting\<rparr>"

fun collect_errors :: "go_error list \<Rightarrow> go_error option \<Rightarrow> go_error option" where
  "collect_errors [] err = err"
| "collect_errors (e # es) err = collect_errors es (multierror_append err e)"

text \<open>The error channel has room for one error of each service; a send on a full channel blocks.\<close>

inductive group_step :: "service list \<Rightarrow> group_state \<Rightarrow> group_state \<Rightarrow> bool" for g where
  svc_returns_nil: "i < length g \<Longrightarrow> gr_members s ! i = Running \<Longrightarrow> svc_may_return (g ! i) (gr_done s) None \<Longrightarrow>
    group_step g s (s\<lparr>gr_members := (gr_members s)[i := SvcLeft None]\<rparr>)"
| svc_returns_error: "i < length g \<Longrightarrow> gr_members s ! i = Running \<Longrightarrow> svc_may_return (g ! i) (gr_done s) (Some err) \<Longrightarrow>
    group_step g s (s\<lparr>gr_members := (gr_members s)[i := Reporting err]\<rparr>)"
| send_error: "i < length g \<Longrightarrow> gr_members s ! i = Reporting err \<Longrightarrow> length (gr_err_ch s) < length g \<Longrightarrow>
    group_step g s (s\<lparr>gr_members := (gr_members s)[i := Cancelling err],
      gr_err_ch := gr_err_ch s @ [Wrap (svc_name (g ! i)) err]\<rparr>)"
| call_cancel: "i < length g \<Longrightarrow> gr_members s ! i = Cancelling err \<Longrightarrow>
    group_step g s (s\<lparr>gr_members := (gr_members s)[i := SvcLeft (Some err)], gr_done := True\<rparr>)"
| ctx_done: "gr_runner s = Waiting \<Longrightarrow> gr_done s \<Longrightarrow> group_step g s (s\<lparr>gr_runner := Joining\<rparr>)"
| all_left: "gr_runner s = Joining \<Longrightarrow> \<forall>m \<in> set (gr_members s). \<exists>r. m = SvcLeft r \<Longrightarrow>
    group_step g s (s\<lparr>gr_runner := GroupReturned (collect_errors (gr_err_ch s) None)\<rparr>)"

text \<open>A run: steps of the group, and the caller's context may be cancelled at any moment.\<close>

inductive group_run :: "service list \<Rightarrow> group_state \<Rightarrow> bool" for g where
  run_begins: "group_run g (start_group g)"
| run_steps: "group_run g s \<Longrightarrow> group_step g s s' \<Longrightarrow> group_run g s'"
| run_cancelled: "group_run g s \<Longrightarrow> group_run g (s\<lparr>gr_done := True\<rparr>)"

section \<open>Invariant\<close>

text \<open>The error a goroutine has put on the channel.\<close>

fun sent_by :: "string \<Rightarrow> member \<Rightarrow> go_error multiset" where
  "sent_by nm (Cancelling err) = {#Wrap nm err#}"
| "sent_by nm (SvcLeft (Some err)) = {#Wrap nm err#}"
| "sent_by nm _ = {#}"

definition sent :: "service list \<Rightarrow> member list \<Rightarrow> go_error multiset" where
  "sent g ms = (\<Sum>i<length ms. sent_by (svc_name (g ! i)) (ms ! i))"

definition group_inv :: "service list \<Rightarrow> group_state \<Rightarrow> bool" where
  "group_inv g s \<longleftrightarrow>
     length (gr_members s) = length g \<and> mset (gr_err_ch s) = sent g (gr_members s) \<and>
     (\<forall>err. SvcLeft (Some err) \<in> set (gr_members s) \<longrightarrow> gr_done s) \<and>
     (gr_runner s \<noteq> Waiting \<longrightarrow> gr_done s) \<and>
     (\<forall>r. gr_runner s = GroupReturned r \<longrightarrow>
        (\<forall>m \<in> set (gr_members s). \<exists>r. m = SvcLeft r) \<and> r = collect_errors (gr_err_ch s) None)"

lemma sent_update:
  "i < length ms \<Longrightarrow> sent g (ms[i := m]) + sent_by (svc_name (g ! i)) (ms ! i) = sent g ms + sent_by (svc_name (g ! i)) m"
  using sum_nth_update [of i ms "\<lambda>i. sent_by (svc_name (g ! i))" m] by (simp add: sent_def)

lemma start_group_inv: "group_inv g (start_group g)"
  by (simp add: group_inv_def start_group_def sent_def)

text \<open>A goroutine that moves, sending the errors \<open>es\<close>.\<close>

lemma group_inv_member:
  assumes inv: "group_inv g s" and i: "i < length g" and m: "gr_members s ! i = m" "\<forall>r. m \<noteq> SvcLeft r"
    and sends: "sent_by (svc_name (g ! i)) m' = sent_by (svc_name (g ! i)) m + mset es"
    and leaves: "\<forall>err. m' = SvcLeft (Some err) \<longrightarrow> d" and d: "gr_done s \<longrightarrow> d"
  shows "group_inv g (s\<lparr>gr_members := (gr_members s)[i := m'], gr_done := d, gr_err_ch := gr_err_ch s @ es\<rparr>)"
proof -
  have len: "i < length (gr_members s)" using inv i by (simp add: group_inv_def)
  then have "m \<in> set (gr_members s)" using m(1) nth_mem by blast
  then have open': "\<forall>r. gr_runner s \<noteq> GroupReturned r" using inv m(2) unfolding group_inv_def by blast
  have "sent g ((gr_members s)[i := m']) = sent g (gr_members s) + mset es"
    using sent_update [OF len, of g m'] m(1) sends by simp
  then have "mset (gr_err_ch s @ es) = sent g ((gr_members s)[i := m'])" using inv by (simp add: group_inv_def)
  moreover have "d" if "SvcLeft (Some err) \<in> set ((gr_members s)[i := m'])" for err
    using set_update_subset_insert [THEN subsetD, OF that] leaves d inv by (auto simp: group_inv_def)
  ultimately show ?thesis using inv open' d by (simp add: group_inv_def)
qed

lemma group_step_inv: "group_step g s s' \<Longrightarrow> group_inv g s \<Longrightarrow> group_inv g s'"
proof (induction rule: group_step.induct)
  case (svc_returns_nil i s)
  then show ?case using group_inv_member [of g s i Running "SvcLeft None" "[]" "gr_done s"] by simp
next
  case (svc_returns_error i s err)
  then show ?case using group_inv_member [of g s i Running "Reporting err" "[]" "gr_done s"] by simp
next
  case (send_error i s err)
  then show ?case
    using group_inv_member [of g s i "Reporting err" "Cancelling err" "[Wrap (svc_name (g ! i)) err]" "gr_done s"] by simp
next
  case (call_cancel i s err)
  then show ?case using group_inv_member [of g s i "Cancelling err" "SvcLeft (Some err)" "[]" True] by simp
qed (simp_all add: group_inv_def)

lemma group_run_inv: "group_run g s \<Longrightarrow> group_inv g s"
proof (induction rule: group_run.induct)
  case (run_cancelled s)
  then show ?case by (simp add: group_inv_def)
qed (auto intro: start_group_inv group_step_inv)

section \<open>Progress\<close>

text \<open>The channel is never full when a goroutine wants to send.\<close>

lemma size_sent: "size (sent g ms) \<le> length ms"
  and size_sent_less: "i < length ms \<Longrightarrow> sent_by (svc_name (g ! i)) (ms ! i) = {#} \<Longrightarrow> size (sent g ms) < length ms"
proof -
  have one: "size (sent_by nm m) \<le> 1" for nm m by (cases "(nm, m)" rule: sent_by.cases) simp_all
  have "size (\<Sum>i<k. f i) = (\<Sum>i<k. size (f i))" for k and f :: "nat \<Rightarrow> go_error multiset"
    by (induction k) simp_all
  then have sum: "size (sent g ms) = (\<Sum>i<length ms. size (sent_by (svc_name (g ! i)) (ms ! i)))"
    by (simp add: sent_def)
  show "size (sent g ms) \<le> length ms"
    unfolding sum using sum_mono [of "{..<length ms}" "\<lambda>i. size (sent_by (svc_name (g ! i)) (ms ! i))" "\<lambda>_. 1"] one by simp
  show "size (sent g ms) < length ms" if "i < length ms" "sent_by (svc_name (g ! i)) (ms ! i) = {#}"
    unfolding sum using sum_strict_mono_ex1 [of "{..<length ms}" "\<lambda>i. size (sent_by (svc_name (g ! i)) (ms ! i))" "\<lambda>_. 1"]
      one that by (simp add: Bex_def) (metis less_numeral_extra(1) size_empty lessThan_iff)
qed

lemma channel_has_room:
  "group_inv g s \<Longrightarrow> i < length g \<Longrightarrow> gr_members s ! i = Reporting err \<Longrightarrow> length (gr_err_ch s) < length g"
  using size_sent_less [of i "gr_members s" g] by (simp add: group_inv_def flip: size_mset)

text \<open>The steps that are left to a goroutine and to the caller.\<close>

fun steps_left :: "member \<Rightarrow> nat" where
  "steps_left Running = 3"
| "steps_left (Reporting err) = 2"
| "steps_left (Cancelling err) = 1"
| "steps_left (SvcLeft r) = 0"

fun runner_left :: "runner \<Rightarrow> nat" where
  "runner_left Waiting = 2"
| "runner_left Joining = 1"
| "runner_left (GroupReturned r) = 0"

definition group_left :: "group_state \<Rightarrow> nat" where
  "group_left s = sum_list (map steps_left (gr_members s)) + runner_left (gr_runner s)"

lemma group_step_decreases: "group_step g s s' \<Longrightarrow> group_inv g s \<Longrightarrow> group_left s' < group_left s"
  by (induction rule: group_step.induct) (simp_all add: group_left_def group_inv_def sum_list_map_decreases)

section \<open>What Run returns\<close>

text \<open>The errors the services returned, each with the service's name.\<close>

definition svc_errors :: "service list \<Rightarrow> member list \<Rightarrow> go_error multiset" where
  "svc_errors g ms = mset (concat (map (\<lambda>i. case ms ! i of SvcLeft (Some err) \<Rightarrow> [Wrap (svc_name (g ! i)) err] | _ \<Rightarrow> []) [0..<length ms]))"

lemma sent_all_left:
  assumes "\<forall>m \<in> set ms. \<exists>r. m = SvcLeft r"
  shows "sent g ms = svc_errors g ms"
proof -
  have "(\<Sum>i<k. sent_by (svc_name (g ! i)) (ms ! i)) =
      mset (concat (map (\<lambda>i. case ms ! i of SvcLeft (Some err) \<Rightarrow> [Wrap (svc_name (g ! i)) err] | _ \<Rightarrow> []) [0..<k]))"
    if "k \<le> length ms" for k
    using that
  proof (induction k)
    case (Suc k)
    obtain r where "ms ! k = SvcLeft r" using assms nth_mem [of k ms] Suc.prems by (meson Suc_le_lessD)
    with Suc show ?case by (cases r) simp_all
  qed simp
  then show ?thesis by (simp add: sent_def svc_errors_def)
qed

lemma collect_errors_Some: "collect_errors es (Some (MultiError acc)) = Some (MultiError (acc @ es))"
  by (induction es arbitrary: acc) (simp_all add: multierror_append_def)

lemma collect_errors_None: "collect_errors es None = (if es = [] then None else Some (MultiError es))"
  by (cases es) (simp_all add: multierror_append_def collect_errors_Some)

lemma group_returned:
  assumes "group_inv g s" "gr_runner s = GroupReturned r"
  shows "(\<forall>m \<in> set (gr_members s). \<exists>r. m = SvcLeft r) \<and>
    (\<exists>es. mset es = svc_errors g (gr_members s) \<and> r = (if es = [] then None else Some (MultiError es)))"
  using assms sent_all_left [of "gr_members s" g] by (auto simp: group_inv_def collect_errors_None intro!: exI [of _ "gr_err_ch s"])

section \<open>Where Run is stuck\<close>

text \<open>A service that heeds its context returns once it is cancelled.\<close>

definition heeds_context :: "service \<Rightarrow> bool" where
  "heeds_context svc \<longleftrightarrow> (\<exists>r. svc_may_return svc True r)"

lemma svc_step:
  assumes "i < length g" "gr_members s ! i = Running" "svc_may_return (g ! i) (gr_done s) r"
  shows "\<exists>s'. group_step g s s'"
  using assms group_step.svc_returns_nil [of i g s] group_step.svc_returns_error [of i g s] by (cases r) blast+

text \<open>
  The only states in which nothing can happen although \<^verbatim>\<open>Run\<close> has not returned: the context is
  not cancelled, no service has returned an error, and those that run go on running.
\<close>

lemma group_progress:
  assumes inv: "group_inv g s" and heed: "\<forall>svc \<in> set g. heeds_context svc"
    and stuck: "\<nexists>s'. group_step g s s'" "\<forall>r. gr_runner s \<noteq> GroupReturned r"
  shows "\<not> gr_done s \<and> (\<forall>i<length g. gr_members s ! i = SvcLeft None \<or>
    gr_members s ! i = Running \<and> (\<forall>r. \<not> svc_may_return (g ! i) False r))"
proof -
  have len: "length (gr_members s) = length g" using inv by (simp add: group_inv_def)
  have calm: "gr_members s ! i = Running \<and> (\<forall>r. \<not> svc_may_return (g ! i) (gr_done s) r) \<or> (\<exists>r. gr_members s ! i = SvcLeft r)"
    if "i < length g" for i
  proof (cases "gr_members s ! i")
    case Running
    then show ?thesis using svc_step [OF that Running] stuck(1) by blast
  next
    case (Reporting err)
    then show ?thesis using group_step.send_error [OF that _ channel_has_room [OF inv that]] stuck(1) by blast
  next
    case (Cancelling err)
    then show ?thesis using group_step.call_cancel [OF that] stuck(1) by blast
  qed simp
  have "\<not> gr_done s"
  proof
    assume d: "gr_done s"
    then have "gr_runner s = Joining" using stuck group_step.ctx_done [of s g] by (cases "gr_runner s") auto
    moreover have "\<exists>r. m = SvcLeft r" if m: "m \<in> set (gr_members s)" for m
    proof -
      obtain i where i: "i < length g" "m = gr_members s ! i" using m len by (auto simp: in_set_conv_nth)
      moreover have "heeds_context (g ! i)" using heed i(1) by simp
      ultimately show ?thesis using calm [OF i(1)] d by (auto simp: heeds_context_def)
    qed
    ultimately show False using group_step.all_left [of s g] stuck(1) by blast
  qed
  moreover have "gr_members s ! i = SvcLeft None \<or> gr_members s ! i = Running \<and> (\<forall>r. \<not> svc_may_return (g ! i) False r)"
    if "i < length g" for i
  proof (cases "gr_members s ! i")
    case (SvcLeft r)
    have "gr_members s ! i \<in> set (gr_members s)" using that len by simp
    then show ?thesis using inv \<open>\<not> gr_done s\<close> SvcLeft by (cases r) (auto simp: group_inv_def)
  qed (use calm [OF that] \<open>\<not> gr_done s\<close> in auto)
  ultimately show ?thesis by blast
qed

lemma group_run_length: "(group_step g ^^ n) s s' \<Longrightarrow> group_inv g s \<Longrightarrow> n + group_left s' \<le> group_left s"
proof (induction n arbitrary: s')
  case (Suc n)
  then obtain t where t: "(group_step g ^^ n) s t" "group_step g t s'" by auto
  have "group_inv g t" using t(1) Suc.prems(2)
  proof (induction n arbitrary: t)
    case (Suc m)
    then show ?case using group_step_inv by fastforce
  qed simp
  then show ?case using Suc.IH [OF t(1) Suc.prems(2)] group_step_decreases [OF t(2)] by simp
qed simp

lemma group_left_bound: "group_inv g s \<Longrightarrow> group_left s \<le> 3 * length g + 2"
proof -
  have "steps_left m \<le> 3" for m by (cases m) simp_all
  then have "sum_list (map steps_left ms) \<le> 3 * length ms" for ms by (rule sum_list_map_bound)
  moreover have "runner_left r \<le> 2" for r by (cases r) simp_all
  ultimately show "group_inv g s \<Longrightarrow> group_left s \<le> 3 * length g + 2"
    by (metis add_mono group_inv_def group_left_def)
qed

lemma group_step_done: "group_step g s s' \<Longrightarrow> gr_done s \<Longrightarrow> gr_done s'"
  by (induction rule: group_step.induct) simp_all

lemma group_returns:
  assumes "group_inv g s" "gr_done s" "\<forall>svc \<in> set g. heeds_context svc"
  shows "\<exists>s' r. (group_step g)\<^sup>*\<^sup>* s s' \<and> gr_runner s' = GroupReturned r"
  using assms(1,2)
proof (induction "group_left s" arbitrary: s rule: less_induct)
  case less
  show ?case
  proof (cases "\<exists>r. gr_runner s = GroupReturned r")
    case False
    then obtain t where t: "group_step g s t"
      using group_progress [OF less.prems(1) assms(3)] less.prems(2) by blast
    from less.hyps [OF group_step_decreases [OF t less.prems(1)] group_step_inv [OF t less.prems(1)]
        group_step_done [OF t less.prems(2)]]
    show ?thesis using t by (meson converse_rtranclp_into_rtranclp)
  qed blast
qed

text \<open>A group whose services have all returned nil of their own accord.\<close>

definition nil_group :: "service list \<Rightarrow> nat \<Rightarrow> group_state" where
  "nil_group g k = (start_group g)\<lparr>gr_members := replicate k (SvcLeft None) @ replicate (length g - k) Running\<rparr>"

lemma nil_group_run:
  assumes "\<forall>svc \<in> set g. svc_may_return svc False None"
  shows "k \<le> length g \<Longrightarrow> group_run g (nil_group g k)"
proof (induction k)
  case (Suc k)
  have "replicate (length g - k) Running = Running # replicate (length g - Suc k) Running"
    using Suc.prems by (metis Suc_diff_Suc Suc_le_lessD replicate_Suc)
  then have run: "gr_members (nil_group g k) ! k = Running"
    and upd: "(gr_members (nil_group g k))[k := SvcLeft None] = gr_members (nil_group g (Suc k))"
    by (simp_all add: nil_group_def nth_append list_update_append replicate_append_same)
  have "group_step g (nil_group g k) ((nil_group g k)\<lparr>gr_members := (gr_members (nil_group g k))[k := SvcLeft None]\<rparr>)"
    using Suc.prems assms by (intro group_step.svc_returns_nil run) (auto simp: nil_group_def start_group_def)
  moreover have "(nil_group g k)\<lparr>gr_members := (gr_members (nil_group g k))[k := SvcLeft None]\<rparr> = nil_group g (Suc k)"
    unfolding upd by (simp add: nil_group_def)
  ultimately show ?case using Suc group_run.run_steps by fastforce
qed (use group_run.run_begins [of g] in \<open>simp add: nil_group_def start_group_def\<close>)

lemma nil_group_stuck: "\<nexists>s. group_step g (nil_group g (length g)) s"
  by (auto elim!: group_step.cases simp: nil_group_def start_group_def)

text \<open>
  C39. A group of services that heed their context.  However the goroutines interleave and
  whenever the caller cancels: when Run returns, every service has returned, and the result
  holds exactly the errors they returned, each once and with its service's name, or is nil
  when there were none.  No run has more than 3n+2 steps of the group, and once the context is
  cancelled, by the caller or by a failing service, Run does return.  The only other way to come
  to rest is with no error reported and the context not cancelled; it includes the state in which
  all services have returned nil of their own accord, which Run waits in for ever.
\<close>

theorem group_run_collects_errors:
  assumes "group_run g s" "\<forall>svc \<in> set g. heeds_context svc"
  shows "(\<forall>r. gr_runner s = GroupReturned r \<longrightarrow>
      (\<forall>m \<in> set (gr_members s). \<exists>r. m = SvcLeft r) \<and>
      (\<exists>es. mset es = svc_errors g (gr_members s) \<and> r = (if es = [] then None else Some (MultiError es)))) \<and>
    (\<forall>n s'. (group_step g ^^ n) s s' \<longrightarrow> n \<le> 3 * length g + 2) \<and>
    (gr_done s \<longrightarrow> (\<exists>s' r. (group_step g)\<^sup>*\<^sup>* s s' \<and> gr_runner s' = GroupReturned r)) \<and>
    ((\<nexists>s'. group_step g s s') \<longrightarrow> (\<exists>r. gr_runner s = GroupReturned r) \<or>
      \<not> gr_done s \<and> (\<forall>i<length g. gr_members s ! i = SvcLeft None \<or>
        gr_members s ! i = Running \<and> (\<forall>r. \<not> svc_may_return (g ! i) False r))) \<and>
    ((\<forall>svc \<in> set g. svc_may_return svc False None) \<longrightarrow>
      group_run g (nil_group g (length g)) \<and> (\<nexists>s'. group_step g (nil_group g (length g)) s'))"
proof (intro conjI)
  note inv = group_run_inv [OF assms(1)]
  show "\<forall>r. gr_runner s = GroupReturned r \<longrightarrow>
      (\<forall>m \<in> set (gr_members s). \<exists>r. m = SvcLeft r) \<and>
      (\<exists>es. mset es = svc_errors g (gr_members s) \<and> r = (if es = [] then None else Some (MultiError es)))"
    using group_returned [OF inv] by blast
  show "\<forall>n s'. (group_step g ^^ n) s s' \<longrightarrow> n \<le> 3 * length g + 2"
    using group_run_length [OF _ inv] group_left_bound [OF inv] by fastforce
  show "gr_done s \<longrightarrow> (\<exists>s' r. (group_step g)\<^sup>*\<^sup>* s s' \<and> gr_runner s' = GroupReturned r)"
    using group_returns [OF inv _ assms(2)] by blast
  show "(\<nexists>s'. group_step g s s') \<longrightarrow> (\<exists>r. gr_runner s = GroupReturned r) \<or>
      \<not> gr_done s \<and> (\<forall>i<length g. gr_members s ! i = SvcLeft None \<or>
        gr_members s ! i = Running \<and> (\<forall>r. \<not> svc_may_return (g ! i) False r))"
    using group_progress [OF inv assms(2)] by blast
  show "(\<forall>svc \<in> set g. svc_may_return svc False None) \<longrightarrow>
      group_run g (nil_group g (length g)) \<and> (\<nexists>s'. group_step g (nil_group g (length g)) s')"
    using nil_group_run [of g "length g"] nil_group_stuck by blast
qed

text \<open>A service that may return nil whenever it likes, and one that fails.\<close>

theorem group_run_collects_errors_witness:
  "\<exists>s' r. (group_step [\<lparr>svc_name = ''a'', svc_may_return = (\<lambda>_ _. True)\<rparr>])\<^sup>*\<^sup>*
      ((start_group [\<lparr>svc_name = ''a'', svc_may_return = (\<lambda>_ _. True)\<rparr>])\<lparr>gr_done := True\<rparr>) s' \<and>
    gr_runner s' = GroupReturned r"
  using group_run_collects_errors [OF group_run.run_cancelled [OF group_run.run_begins],
      of "[\<lparr>svc_name = ''a'', svc_may_return = (\<lambda>_ _. True)\<rparr>]"]
  by (simp add: heeds_context_def)

end
