(* ===== verification/Microservices.thy ===== *)
theory Microservices
  imports ServiceGroup
begin

text \<open>
  The processes of the microservices (\<^verbatim>\<open>cmd/microservices\<close>): after its start \<^verbatim>\<open>runMain\<close> waits for
  goroutines that run a service or serve a listener, while another goroutine watches for
  signals.  All five programs have this shape; they differ in the tasks they start.

  A signal is SIGINT or SIGHUP, which the channel of the watcher receives once it has been
  registered; the channel holds one signal.  \<^verbatim>\<open>Serve\<close> returns when its listener is closed;
  that it also returns after a fatal error of \<^verbatim>\<open>Accept\<close> is left out.
\<close>

datatype main_task = ServiceTask service | ListenerTask

datatype task_state = TaskRunning | TaskFailed | TaskGone

text \<open>The watcher: in its select statement, closing listeners, gone.\<close>

datatype watcher = Watching | ClosingListeners "nat list" | WatcherGone

record main_state =
  ms_tasks :: "task_state list"
  ms_ctx_done :: bool
  ms_closed :: "nat set"
  ms_signal :: bool
  ms_watcher :: watcher
  ms_returned :: bool

definition listeners :: "main_task list \<Rightarrow> nat list" where
  "listeners ts = filter (\<lambda>i. ts ! i = ListenerTask) [0..<length ts]"

definition main_start :: "main_task list \<Rightarrow> main_state" where
  "main_start ts = \<lparr>ms_tasks = replicate (length ts) TaskRunning, ms_ctx_done = False, ms_closed = {},
     ms_signal = False, ms_watcher = Watching, ms_returned = False\<rparr>"

text \<open>
  A service that fails cancels the context.  On a signal the watcher closes the listeners and
  cancels the context; when the context is done it returns.  The rest is \<^verbatim>\<open>wg.Wait\<close>.
\<close>

inductive main_step :: "main_task list \<Rightarrow> main_state \<Rightarrow> main_state \<Rightarrow> bool" for ts where
  service_ends: "i < length ts \<Longrightarrow> ts ! i = ServiceTask svc \<Longrightarrow> ms_tasks s ! i = TaskRunning \<Longrightarrow>
    svc_may_return svc (ms_ctx_done s) None \<Longrightarrow>
    main_step ts s (s\<lparr>ms_tasks := (ms_tasks s)[i := TaskGone]\<rparr>)"
| service_fails: "i < length ts \<Longrightarrow> ts ! i = ServiceTask svc \<Longrightarrow> ms_tasks s ! i = TaskRunning \<Longrightarrow>
    svc_may_return svc (ms_ctx_done s) (Some err) \<Longrightarrow>
    main_step ts s (s\<lparr>ms_tasks := (ms_tasks s)[i := TaskFailed]\<rparr>)"
| service_cancels: "i < length ts \<Longrightarrow> ms_tasks s ! i = TaskFailed \<Longrightarrow>
    main_step ts s (s\<lparr>ms_tasks := (ms_tasks s)[i := TaskGone], ms_ctx_done := True\<rparr>)"
| serve_returns: "i < length ts \<Longrightarrow> ts ! i = ListenerTask \<Longrightarrow> ms_tasks s ! i = TaskRunning \<Longrightarrow> i \<in> ms_closed s \<Longrightarrow>
    main_step ts s (s\<lparr>ms_tasks := (ms_tasks s)[i := TaskGone]\<rparr>)"
| signal_received: "ms_watcher s = Watching \<Longrightarrow> ms_signal s \<Longrightarrow>
    main_step ts s (s\<lparr>ms_signal := False, ms_watcher := ClosingListeners (listeners ts)\<rparr>)"
| close_listener: "ms_watcher s = ClosingListeners (i # is) \<Longrightarrow>
    main_step ts s (s\<lparr>ms_closed := insert i (ms_closed s), ms_watcher := ClosingListeners is\<rparr>)"
| listeners_closed: "ms_watcher s = ClosingListeners [] \<Longrightarrow>
    main_step ts s (s\<lparr>ms_ctx_done := True, ms_watcher := WatcherGone\<rparr>)"
| watcher_sees_done: "ms_watcher s = Watching \<Longrightarrow> ms_ctx_done s \<Longrightarrow>
    main_step ts s (s\<lparr>ms_watcher := WatcherGone\<rparr>)"
| tasks_gone: "\<not> ms_returned s \<Longrightarrow> set (ms_tasks s) \<subseteq> {TaskGone} \<Longrightarrow> main_step ts s (s\<lparr>ms_returned := True\<rparr>)"

text \<open>A run, in which signals may arrive at any moment.\<close>

inductive main_run :: "main_task list \<Rightarrow> main_state \<Rightarrow> main_state \<Rightarrow> bool" for ts s where
  main_begins: "main_run ts s s"
| main_steps: "main_run ts s t \<Longrightarrow> main_step ts t u \<Longrightarrow> main_run ts s u"
| signal_arrives: "main_run ts s t \<Longrightarrow> main_run ts s (t\<lparr>ms_signal := True\<rparr>)"

section \<open>Invariant\<close>

text \<open>
  A serving goroutine is there until its listener is closed, which only the watcher does when it
  has received a signal; when it is done with that, the context is cancelled.
\<close>

fun watcher_ok :: "main_task list \<Rightarrow> watcher \<Rightarrow> bool \<Rightarrow> nat set \<Rightarrow> bool" where
  "watcher_ok ts Watching d shut = (shut = {})"
| "watcher_ok ts (ClosingListeners is) d shut = (\<exists>js. listeners ts = js @ is \<and> shut = set js)"
| "watcher_ok ts WatcherGone d shut = (d \<and> (shut = {} \<or> shut = set (listeners ts)))"

definition main_inv :: "main_task list \<Rightarrow> main_state \<Rightarrow> bool" where
  "main_inv ts s \<longleftrightarrow>
     length (ms_tasks s) = length ts \<and>
     (\<forall>i \<in> set (listeners ts). ms_tasks s ! i \<noteq> TaskFailed \<and> (ms_tasks s ! i = TaskGone \<longrightarrow> i \<in> ms_closed s)) \<and>
     (ms_returned s \<longrightarrow> set (ms_tasks s) \<subseteq> {TaskGone}) \<and>
     watcher_ok ts (ms_watcher s) (ms_ctx_done s) (ms_closed s)"

lemma in_listeners [simp]: "i \<in> set (listeners ts) \<longleftrightarrow> i < length ts \<and> ts ! i = ListenerTask"
  by (auto simp: listeners_def)

lemma watcher_ok_done: "watcher_ok ts w d shut \<Longrightarrow> watcher_ok ts w True shut"
  by (cases w) auto

lemma watcher_ok_close: "watcher_ok ts (ClosingListeners (i # is)) d shut \<Longrightarrow> watcher_ok ts (ClosingListeners is) d (insert i shut)"
  by (auto intro: exI [of _ "_ @ [i]"])

lemma main_start_inv: "main_inv ts (main_start ts)"
  by (auto simp: main_inv_def main_start_def)

lemma main_returned_final: "main_inv ts s \<Longrightarrow> i < length ts \<Longrightarrow> ms_tasks s ! i \<noteq> TaskGone \<Longrightarrow> \<not> ms_returned s"
  by (metis main_inv_def nth_mem singletonD subsetD)

text \<open>A task moves.\<close>

lemma main_inv_task:
  assumes inv: "main_inv ts s" and i: "i < length ts" "ms_tasks s ! i \<noteq> TaskGone"
    and new: "ts ! i = ListenerTask \<longrightarrow> t = TaskGone \<and> i \<in> ms_closed s" and d: "ms_ctx_done s \<longrightarrow> d"
  shows "main_inv ts (s\<lparr>ms_tasks := (ms_tasks s)[i := t], ms_ctx_done := d\<rparr>)"
proof -
  have "watcher_ok ts (ms_watcher s) d (ms_closed s)"
    using inv d watcher_ok_done [of ts "ms_watcher s" "ms_ctx_done s" "ms_closed s"] by (cases d) (auto simp: main_inv_def)
  then show ?thesis
    using inv i main_returned_final [OF inv i] new by (auto simp: main_inv_def nth_list_update split: if_splits)
qed

lemma main_step_inv: "main_step ts s t \<Longrightarrow> main_inv ts s \<Longrightarrow> main_inv ts t"
proof (induction rule: main_step.induct)
  case (service_ends i svc s)
  then show ?case using main_inv_task [of ts s i TaskGone "ms_ctx_done s"] by simp
next
  case (service_fails i svc s err)
  then show ?case using main_inv_task [of ts s i TaskFailed "ms_ctx_done s"] by simp
next
  case (service_cancels i s)
  then have "ts ! i \<noteq> ListenerTask" by (auto simp: main_inv_def)
  with service_cancels show ?case using main_inv_task [of ts s i TaskGone True] by simp
next
  case (serve_returns i s)
  then show ?case using main_inv_task [of ts s i TaskGone "ms_ctx_done s"] by simp
next
  case (close_listener s i "is")
  then show ?case using watcher_ok_close [of ts i "is" "ms_ctx_done s" "ms_closed s"] by (auto simp: main_inv_def simp del: watcher_ok.simps)
qed (auto simp: main_inv_def)

lemma main_run_inv: "main_run ts s t \<Longrightarrow> main_inv ts s \<Longrightarrow> main_inv ts t"
proof (induction rule: main_run.induct)
  case (signal_arrives t)
  then show ?case by (simp add: main_inv_def)
qed (auto intro: main_step_inv)

section \<open>Every run is finite\<close>

fun task_left :: "task_state \<Rightarrow> nat" where
  "task_left TaskRunning = 2"
| "task_left TaskFailed = 1"
| "task_left TaskGone = 0"

fun watcher_left :: "main_task list \<Rightarrow> watcher \<Rightarrow> nat" where
  "watcher_left ts Watching = length (listeners ts) + 2"
| "watcher_left ts (ClosingListeners is) = length is + 1"
| "watcher_left ts WatcherGone = 0"

definition main_left :: "main_task list \<Rightarrow> main_state \<Rightarrow> nat" where
  "main_left ts s = sum_list (map task_left (ms_tasks s)) + watcher_left ts (ms_watcher s) + (if ms_returned s then 0 else 1)"

lemma main_step_decreases: "main_step ts s t \<Longrightarrow> main_inv ts s \<Longrightarrow> main_left ts t < main_left ts s"
  by (induction rule: main_step.induct)
    (simp_all add: main_left_def main_inv_def sum_list_map_decreases)

lemma main_run_length: "(main_step ts ^^ n) s t \<Longrightarrow> main_inv ts s \<Longrightarrow> main_inv ts t \<and> n + main_left ts t \<le> main_left ts s"
proof (induction n arbitrary: t)
  case (Suc n)
  then obtain u where u: "(main_step ts ^^ n) s u" "main_step ts u t" by auto
  from Suc.IH [OF u(1) Suc.prems(2)] show ?case
    using main_step_decreases [OF u(2)] main_step_inv [OF u(2)] by simp
qed simp

lemma task_left_le: "task_left t \<le> 2"
  by (cases t) simp_all

lemma main_left_bound:
  assumes "main_inv ts s"
  shows "main_left ts s \<le> 3 * length ts + 3"
proof -
  have "sum_list (map task_left (ms_tasks s)) \<le> 2 * length ts"
    using assms sum_list_map_bound [of task_left 2 "ms_tasks s"] by (auto simp: main_inv_def intro: task_left_le)
  moreover have len: "length (listeners ts) \<le> length ts" by (simp add: listeners_def) (metis length_filter_le diff_zero length_upt)
  have "watcher_left ts (ms_watcher s) \<le> length ts + 2"
    using assms len by (cases "ms_watcher s") (auto simp: main_inv_def)
  ultimately show ?thesis by (simp add: main_left_def)
qed

section \<open>When runMain returns\<close>

lemma all_gone: "set xs \<subseteq> {TaskGone} \<longleftrightarrow> (\<forall>i<length xs. xs ! i = TaskGone)"
  by (auto simp: set_conv_nth)

text \<open>Once the watcher has received a signal, there is always something left to do.\<close>

definition signal_handled :: "main_task list \<Rightarrow> main_state \<Rightarrow> bool" where
  "signal_handled ts s \<longleftrightarrow> (\<exists>is. ms_watcher s = ClosingListeners is) \<or> ms_watcher s = WatcherGone \<and> ms_closed s = set (listeners ts)"

definition services_heed :: "main_task list \<Rightarrow> bool" where
  "services_heed ts \<longleftrightarrow> (\<forall>i<length ts. \<forall>svc. ts ! i = ServiceTask svc \<longrightarrow> heeds_context svc)"

lemma signal_handled_progress:
  assumes inv: "main_inv ts s" and heed: "services_heed ts" and sig: "signal_handled ts s" and open': "\<not> ms_returned s"
  shows "\<exists>t. main_step ts s t"
proof (cases "ms_watcher s")
  case (ClosingListeners "is")
  then show ?thesis using main_step.close_listener [of s _ _ ts] main_step.listeners_closed [of s ts] by (cases "is") blast+
next
  case WatcherGone
  then have gone: "ms_ctx_done s" "ms_closed s = set (listeners ts)" using sig inv by (auto simp: signal_handled_def main_inv_def)
  show ?thesis
  proof (cases "set (ms_tasks s) \<subseteq> {TaskGone}")
    case False
    then obtain i where i: "i < length ts" "ms_tasks s ! i \<noteq> TaskGone" using inv by (auto simp: all_gone main_inv_def)
    show ?thesis
    proof (cases "ts ! i")
      case (ServiceTask svc)
      then obtain r where "svc_may_return svc True r" using heed i(1) by (auto simp: services_heed_def heeds_context_def)
      then show ?thesis
        using i gone(1) ServiceTask main_step.service_ends [of i ts svc s] main_step.service_fails [of i ts svc s]
          main_step.service_cancels [of i ts s] by (cases "ms_tasks s ! i"; cases r) auto
    next
      case ListenerTask
      then have "ms_tasks s ! i = TaskRunning" using inv i by (cases "ms_tasks s ! i") (auto simp: main_inv_def)
      then show ?thesis using main_step.serve_returns [of i ts s] ListenerTask gone(2) i(1) by auto
    qed
  qed (use main_step.tasks_gone [of s ts] open' in blast)
qed (use sig in \<open>simp add: signal_handled_def\<close>)

lemma signal_handled_step:
  "main_step ts s t \<Longrightarrow> signal_handled ts s \<Longrightarrow> main_inv ts s \<Longrightarrow> signal_handled ts t"
  by (induction rule: main_step.induct) (auto simp: signal_handled_def main_inv_def)

lemma signal_handled_returns:
  assumes "main_inv ts s" "services_heed ts" "signal_handled ts s"
  shows "\<exists>t. (main_step ts)\<^sup>*\<^sup>* s t \<and> ms_returned t"
  using assms(1,3)
proof (induction "main_left ts s" arbitrary: s rule: less_induct)
  case less
  show ?case
  proof (cases "ms_returned s")
    case False
    then obtain u where u: "main_step ts s u" using signal_handled_progress [OF less.prems(1) assms(2) less.prems(2)] by blast
    from less.hyps [OF main_step_decreases [OF u less.prems(1)] main_step_inv [OF u less.prems(1)]
        signal_handled_step [OF u less.prems(2,1)]]
    show ?thesis using u by (meson converse_rtranclp_into_rtranclp)
  qed blast
qed

text \<open>The watcher has gone without closing the listeners.\<close>

definition abandoned :: "main_state \<Rightarrow> bool" where
  "abandoned s \<longleftrightarrow> ms_watcher s = WatcherGone \<and> ms_closed s = {}"

lemma abandoned_step: "main_step ts s t \<Longrightarrow> abandoned s \<Longrightarrow> abandoned t"
  by (induction rule: main_step.induct) (auto simp: abandoned_def)

lemma abandoned_run: "main_run ts s t \<Longrightarrow> abandoned s \<Longrightarrow> abandoned t"
proof (induction rule: main_run.induct)
  case (signal_arrives t)
  then show ?case by (simp add: abandoned_def)
qed (auto intro: abandoned_step)

lemma abandoned_open: "main_inv ts s \<Longrightarrow> abandoned s \<Longrightarrow> listeners ts \<noteq> [] \<Longrightarrow> \<not> ms_returned s"
proof
  assume inv: "main_inv ts s" and "abandoned s" "listeners ts \<noteq> []" "ms_returned s"
  then obtain i where "i \<in> set (listeners ts)" "ms_closed s = {}" unfolding abandoned_def by (meson last_in_set)
  then show False using inv \<open>ms_returned s\<close> by (auto simp: main_inv_def all_gone)
qed

lemma failure_abandons:
  assumes inv: "main_inv ts s" and i: "i < length ts" "ms_tasks s ! i = TaskFailed" and w: "ms_watcher s = Watching"
  shows "\<exists>t. (main_step ts)\<^sup>*\<^sup>* s t \<and> abandoned t"
proof -
  let ?u = "s\<lparr>ms_tasks := (ms_tasks s)[i := TaskGone], ms_ctx_done := True\<rparr>"
  have "main_step ts s ?u" by (rule main_step.service_cancels [OF i])
  moreover have "main_step ts ?u (?u\<lparr>ms_watcher := WatcherGone\<rparr>)" by (rule main_step.watcher_sees_done) (simp_all add: w)
  moreover have "abandoned (?u\<lparr>ms_watcher := WatcherGone\<rparr>)" using inv w by (simp add: abandoned_def main_inv_def)
  ultimately show ?thesis by (meson converse_rtranclp_into_rtranclp r_into_rtranclp)
qed

text \<open>
  C40. When the process of a microservice ends, for services that heed their context.  \<^verbatim>\<open>runMain\<close>
  returns only when the watcher has received a signal and closed every listener; and once it has
  received one, the goroutines end after at most 3n+3 steps and \<^verbatim>\<open>runMain\<close> does return.  But when
  a service fails while no signal is pending, the watcher may see the cancelled context and go,
  and from then on \<^verbatim>\<open>runMain\<close> never returns, whatever signals arrive: the process stays, serving
  its listeners without the service.
\<close>

theorem failed_service_keeps_process:
  assumes "main_run ts (main_start ts) s" "services_heed ts" "listeners ts \<noteq> []"
  shows "(ms_returned s \<longrightarrow> signal_handled ts s \<and> set (listeners ts) \<subseteq> ms_closed s) \<and>
    (\<forall>n t. (main_step ts ^^ n) s t \<longrightarrow> n \<le> 3 * length ts + 3) \<and>
    (signal_handled ts s \<longrightarrow> (\<exists>t. (main_step ts)\<^sup>*\<^sup>* s t \<and> ms_returned t)) \<and>
    (TaskFailed \<in> set (ms_tasks s) \<and> ms_watcher s = Watching \<longrightarrow> (\<exists>t. (main_step ts)\<^sup>*\<^sup>* s t \<and> abandoned t)) \<and>
    (abandoned s \<longrightarrow> (\<forall>t. main_run ts s t \<longrightarrow> \<not> ms_returned t))"
proof (intro conjI allI impI)
  note inv = main_run_inv [OF assms(1) main_start_inv]
  show "signal_handled ts s" "set (listeners ts) \<subseteq> ms_closed s" if "ms_returned s"
  proof -
    have all: "set (listeners ts) \<subseteq> ms_closed s" using inv that by (auto simp: main_inv_def all_gone)
    then show "set (listeners ts) \<subseteq> ms_closed s" .
    have "ms_closed s \<noteq> {}" using all assms(3) by auto
    then show "signal_handled ts s" using inv by (cases "ms_watcher s") (auto simp: main_inv_def signal_handled_def)
  qed
  show "n \<le> 3 * length ts + 3" if "(main_step ts ^^ n) s t" for n t
    using main_run_length [OF that inv] main_left_bound [OF inv] by simp
  show "\<exists>t. (main_step ts)\<^sup>*\<^sup>* s t \<and> ms_returned t" if "signal_handled ts s"
    by (rule signal_handled_returns [OF inv assms(2) that])
  show "\<exists>t. (main_step ts)\<^sup>*\<^sup>* s t \<and> abandoned t" if failed: "TaskFailed \<in> set (ms_tasks s) \<and> ms_watcher s = Watching"
  proof -
    obtain i where "i < length ts" "ms_tasks s ! i = TaskFailed"
      using failed inv by (auto simp: in_set_conv_nth main_inv_def)
    then show ?thesis using failure_abandons [OF inv] failed by blast
  qed
  show "\<not> ms_returned t" if "abandoned s" "main_run ts s t" for t
    using abandoned_open [OF main_run_inv [OF that(2) inv] abandoned_run [OF that(2,1)] assms(3)] .
qed

text \<open>A failing service beside the listener for profiling.\<close>

definition failing_tasks :: "main_task list" where
  "failing_tasks = [ServiceTask \<lparr>svc_name = ''crawler'', svc_may_return = (\<lambda>d r. r \<noteq> None)\<rparr>, ListenerTask]"

theorem failed_service_keeps_process_witness:
  "\<exists>t. main_run failing_tasks (main_start failing_tasks) t \<and> abandoned t \<and>
     (\<forall>u. main_run failing_tasks t u \<longrightarrow> \<not> ms_returned u)"
proof -
  let ?ts = "failing_tasks"
  let ?s = "(main_start ?ts)\<lparr>ms_tasks := [TaskFailed, TaskRunning]\<rparr>"
  have "main_step ?ts (main_start ?ts) ((main_start ?ts)\<lparr>ms_tasks := (ms_tasks (main_start ?ts))[0 := TaskFailed]\<rparr>)"
    by (rule main_step.service_fails [of 0 _ "\<lparr>svc_name = ''crawler'', svc_may_return = (\<lambda>d r. r \<noteq> None)\<rparr>" _ "Errorf ''x''"]) (simp_all add: failing_tasks_def main_start_def)
  then have run: "main_run ?ts (main_start ?ts) ?s"
    using main_run.main_steps [OF main_run.main_begins] by (simp add: main_start_def failing_tasks_def)
  have ok: "services_heed ?ts" "listeners ?ts \<noteq> []"
    by (auto simp: services_heed_def failing_tasks_def heeds_context_def listeners_def less_Suc_eq)
  have "TaskFailed \<in> set (ms_tasks ?s) \<and> ms_watcher ?s = Watching" by (simp add: main_start_def)
  then obtain t where t: "(main_step ?ts)\<^sup>*\<^sup>* ?s t" "abandoned t"
    using failed_service_keeps_process [OF run ok] by blast
  from t(1) have "main_run ?ts (main_start ?ts) t"
    by (induction rule: rtranclp_induct) (use run main_run.main_steps in blast)+
  with failed_service_keeps_process [OF this ok] t(2) show ?thesis by blast
qed

end
