(* ===== verification/Commands.thy ===== *)
theory Commands
  imports CrawlerService Frontend PageRankService Microservices GoUrl
begin

text \<open>
  The programs (\<^verbatim>\<open>cmd\<close>): their flags, how they choose a graph, an index and a partition detector,
  and how the monolith and the five microservices are put together.

  The flag packages, \<^verbatim>\<open>url.Parse\<close>, the constructors of the stores, \<^verbatim>\<open>grpc.DialContext\<close>,
  \<^verbatim>\<open>net.Listen\<close> and \<^verbatim>\<open>runtime.NumCPU\<close> are parameters.  A duration is a number of nanoseconds.
  Help texts and log messages are left out.
\<close>

section \<open>Flags\<close>

datatype flag_value = StrVal string | IntVal int | DurVal int

record flag =
  fl_name :: string
  fl_default :: flag_value
  fl_env :: string

text \<open>What the flag packages answer: the value of a flag, or the zero value of its type.\<close>

type_synonym flag_values = "string \<Rightarrow> flag_value"

definition flag_string :: "flag_values \<Rightarrow> string \<Rightarrow> string" where
  "flag_string ctx nm = (case ctx nm of StrVal s \<Rightarrow> s | _ \<Rightarrow> [])"

definition flag_int :: "flag_values \<Rightarrow> string \<Rightarrow> int" where
  "flag_int ctx nm = (case ctx nm of IntVal n \<Rightarrow> n | _ \<Rightarrow> 0)"

definition flag_duration :: "flag_values \<Rightarrow> string \<Rightarrow> int" where
  "flag_duration ctx nm = (case ctx nm of DurVal d \<Rightarrow> d | _ \<Rightarrow> 0)"

definition minute :: int where "minute = 60 * 1000000000"
definition hour :: int where "hour = 60 * minute"

definition crawler_flags :: "int \<Rightarrow> flag list" where
  "crawler_flags numCPU =
     [\<lparr>fl_name = ''link-graph-api'', fl_default = StrVal [], fl_env = ''LINK_GRAPH_API''\<rparr>,
      \<lparr>fl_name = ''text-indexer-api'', fl_default = StrVal [], fl_env = ''TEXT_INDEXER_API''\<rparr>,
      \<lparr>fl_name = ''num-workers'', fl_default = IntVal numCPU, fl_env = ''NUM_WORKERS''\<rparr>,
      \<lparr>fl_name = ''update-interval'', fl_default = DurVal (5 * minute), fl_env = ''UPDATE_INTERVAL''\<rparr>,
      \<lparr>fl_name = ''reindex-threshold'', fl_default = DurVal (7 * 24 * hour), fl_env = ''REINDEX_THRESHOLD''\<rparr>,
      \<lparr>fl_name = ''partition-detection-mode'', fl_default = StrVal ''single'', fl_env = ''PARTITION_DETECTION_MODE''\<rparr>,
      \<lparr>fl_name = ''pprof-port'', fl_default = IntVal 6060, fl_env = ''PPROF_PORT''\<rparr>]"

definition pagerank_flags :: "int \<Rightarrow> flag list" where
  "pagerank_flags numCPU =
     [\<lparr>fl_name = ''link-graph-api'', fl_default = StrVal [], fl_env = ''LINK_GRAPH_API''\<rparr>,
      \<lparr>fl_name = ''text-indexer-api'', fl_default = StrVal [], fl_env = ''TEXT_INDEXER_API''\<rparr>,
      \<lparr>fl_name = ''num-workers'', fl_default = IntVal numCPU, fl_env = ''NUM_WORKERS''\<rparr>,
      \<lparr>fl_name = ''update-interval'', fl_default = DurVal (5 * minute), fl_env = ''UPDATE_INTERVAL''\<rparr>,
      \<lparr>fl_name = ''partition-detection-mode'', fl_default = StrVal ''single'', fl_env = ''PARTITION_DETECTION_MODE''\<rparr>,
      \<lparr>fl_name = ''pprof-port'', fl_default = IntVal 6060, fl_env = ''PPROF_PORT''\<rparr>]"

definition frontend_flags :: "flag list" where
  "frontend_flags =
     [\<lparr>fl_name = ''link-graph-api'', fl_default = StrVal [], fl_env = ''LINK_GRAPH_API''\<rparr>,
      \<lparr>fl_name = ''text-indexer-api'', fl_default = StrVal [], fl_env = ''TEXT_INDEXER_API''\<rparr>,
      \<lparr>fl_name = ''results-per-page'', fl_default = IntVal 10, fl_env = ''RESULTS_PER_PAGE''\<rparr>,
      \<lparr>fl_name = ''max-summary-length'', fl_default = IntVal 256, fl_env = ''RESULTS_PER_PAGE''\<rparr>,
      \<lparr>fl_name = ''fe-port'', fl_default = IntVal 8080, fl_env = ''FE_PORT''\<rparr>,
      \<lparr>fl_name = ''pprof-port'', fl_default = IntVal 6060, fl_env = ''PPROF_PORT''\<rparr>]"

definition graph_flags :: "flag list" where
  "graph_flags =
     [\<lparr>fl_name = ''link-graph-uri'', fl_default = StrVal ''in-memory://'', fl_env = ''LINK_GRAPH_URI''\<rparr>,
      \<lparr>fl_name = ''grpc-port'', fl_default = IntVal 8080, fl_env = ''GRPC_PORT''\<rparr>,
      \<lparr>fl_name = ''pprof-port'', fl_default = IntVal 6060, fl_env = ''PPROF_PORT''\<rparr>]"

definition index_flags :: "flag list" where
  "index_flags =
     [\<lparr>fl_name = ''text-indexer-uri'', fl_default = StrVal ''in-memory://'', fl_env = ''TEXT_INDEXER_URI''\<rparr>,
      \<lparr>fl_name = ''grpc-port'', fl_default = IntVal 8080, fl_env = ''GRPC_PORT''\<rparr>,
      \<lparr>fl_name = ''pprof-port'', fl_default = IntVal 6060, fl_env = ''PPROF_PORT''\<rparr>]"

text \<open>The monolith's flags have no environment variables.\<close>

definition monolith_flags :: "int \<Rightarrow> flag list" where
  "monolith_flags numCPU =
     [\<lparr>fl_name = ''frontend-listen-addr'', fl_default = StrVal '':8080'', fl_env = []\<rparr>,
      \<lparr>fl_name = ''frontend-results-per-page'', fl_default = IntVal 10, fl_env = []\<rparr>,
      \<lparr>fl_name = ''frontend-max-summary-length'', fl_default = IntVal 256, fl_env = []\<rparr>,
      \<lparr>fl_name = ''crawler-num-workers'', fl_default = IntVal numCPU, fl_env = []\<rparr>,
      \<lparr>fl_name = ''crawler-update-interval'', fl_default = DurVal (5 * minute), fl_env = []\<rparr>,
      \<lparr>fl_name = ''crawler-reindex-threshold'', fl_default = DurVal (7 * 24 * hour), fl_env = []\<rparr>,
      \<lparr>fl_name = ''pagerank-num-workers'', fl_default = IntVal numCPU, fl_env = []\<rparr>,
      \<lparr>fl_name = ''pagerank-update-interval'', fl_default = DurVal hour, fl_env = []\<rparr>,
      \<lparr>fl_name = ''link-graph-uri'', fl_default = StrVal ''in-memory://'', fl_env = []\<rparr>,
      \<lparr>fl_name = ''text-indexer-uri'', fl_default = StrVal ''in-memory://'', fl_env = []\<rparr>,
      \<lparr>fl_name = ''partition-detection-mode'', fl_default = StrVal ''single'', fl_env = []\<rparr>]"

text \<open>
  The documented behaviour of the flag packages: the value given on the command line, else that
  of the environment variable, else the default.
\<close>

definition flags_documented ::
  "flag list \<Rightarrow> (string \<Rightarrow> flag_value option) \<Rightarrow> (string \<Rightarrow> flag_value option) \<Rightarrow> flag_values \<Rightarrow> bool" where
  "flags_documented flags args env ctx \<longleftrightarrow>
     (\<forall>f \<in> set flags. ctx (fl_name f) =
        (case args (fl_name f) of
           Some v \<Rightarrow> v
         | None \<Rightarrow> (case (if fl_env f = [] then None else env (fl_env f)) of Some v \<Rightarrow> v | None \<Rightarrow> fl_default f)))"

section \<open>Choosing the implementations\<close>

datatype graph_backend = MemBackend | CdbBackend string

definition get_link_graph :: "'r url_pkg \<Rightarrow> (string \<Rightarrow> go_error option) \<Rightarrow> string \<Rightarrow> graph_backend outcome" where
  "get_link_graph U sql_open linkGraphURI =
     (if linkGraphURI = [] then Fails (Errorf ''link graph URI must be specified with --link-graph-uri'')
      else (case url_parse U linkGraphURI of
              Inl err \<Rightarrow> Fails (Wrap ''could not parse link graph URI'' err)
            | Inr uri \<Rightarrow>
                if u_scheme uri = ''in-memory'' then Returns MemBackend
                else if u_scheme uri = ''postgresql''
                then (case sql_open linkGraphURI of Some err \<Rightarrow> Fails err | None \<Rightarrow> Returns (CdbBackend linkGraphURI))
                else Fails (Errorf ''unsupported link graph URI scheme'')))"

datatype index_backend = BleveBackend | EsBackend "string list"

definition get_text_indexer ::
  "'r url_pkg \<Rightarrow> go_error option \<Rightarrow> (string list \<Rightarrow> go_error option) \<Rightarrow> string \<Rightarrow> index_backend outcome" where
  "get_text_indexer U new_bleve new_es textIndexerURI =
     (if textIndexerURI = [] then Fails (Errorf ''text indexer URI must be specified with --text-indexer-uri'')
      else (case url_parse U textIndexerURI of
              Inl err \<Rightarrow> Fails (Wrap ''could not parse text indexer URI'' err)
            | Inr uri \<Rightarrow>
                if u_scheme uri = ''in-memory''
                then (case new_bleve of Some err \<Rightarrow> Fails err | None \<Rightarrow> Returns BleveBackend)
                else if u_scheme uri = ''es''
                then (let nodes = map (\<lambda>n. ''http://'' @ n) (split_on (CHR '','') (u_host uri))
                      in (case new_es nodes of Some err \<Rightarrow> Fails err | None \<Rightarrow> Returns (EsBackend nodes)))
                else Fails (Errorf ''unsupported link graph URI scheme'')))"

datatype part_detector = FixedDetector fixed_detector | SrvDetector string

definition get_partition_detector :: "string \<Rightarrow> part_detector outcome" where
  "get_partition_detector mode =
     (if mode = ''single'' then Returns (FixedDetector \<lparr>fixed_partition = 0, fixed_num_partitions = 1\<rparr>)
      else if has_prefix mode ''dns=''
      then (let tokens = split_on (CHR ''='') mode
            in if length tokens < 2 then Panics ''index out of range'' else Returns (SrvDetector (tokens ! 1)))
      else Fails (Errorf ''unsupported partition detection mode''))"

fun detector_partition_info ::
  "(go_error + string) \<Rightarrow> (string \<Rightarrow> go_error + 'addr list) \<Rightarrow> part_detector \<Rightarrow> (int \<times> int) outcome" where
  "detector_partition_info hostname lookup (FixedDetector det) = fixed_partition_info det"
| "detector_partition_info hostname lookup (SrvDetector srv) = srv_partition_info hostname lookup srv"

text \<open>\<open>dial\<close> is \<^verbatim>\<open>grpc.DialContext\<close> with the five seconds' limit and the client made of the connection.\<close>

definition get_apis ::
  "(string \<Rightarrow> go_error + 'g) \<Rightarrow> (string \<Rightarrow> go_error + 'i) \<Rightarrow> string \<Rightarrow> string \<Rightarrow> ('g \<times> 'i) outcome" where
  "get_apis dial_graph dial_index linkGraphAPI textIndexerAPI =
     (if linkGraphAPI = [] then Fails (Errorf ''link graph API must be specified with --link-graph-api'')
      else if textIndexerAPI = [] then Fails (Errorf ''text indexer API must be specified with --text-indexer-api'')
      else (case dial_graph linkGraphAPI of
              Inl err \<Rightarrow> Fails (Wrap ''could not connect to link graph API'' err)
            | Inr graph \<Rightarrow>
                (case dial_index textIndexerAPI of
                   Inl err \<Rightarrow> Fails (Wrap ''could not connect to text indexer API'' err)
                 | Inr idx \<Rightarrow> Returns (graph, idx))))"

section \<open>The microservices\<close>

text \<open>
  The start of a \<^verbatim>\<open>runMain\<close>: an error, or the tasks it then waits for.  \<open>run\<close> is what the service's
  \<^verbatim>\<open>Run\<close> may return; \<open>listen\<close> is \<^verbatim>\<open>net.Listen\<close> on a port.
\<close>

fun of_result :: "go_error + 'a \<Rightarrow> 'a outcome" where
  "of_result (Inl err) = Fails err"
| "of_result (Inr a) = Returns a"

definition port_opened :: "(int \<Rightarrow> go_error option) \<Rightarrow> int \<Rightarrow> unit outcome" where
  "port_opened listen port = (case listen port of Some err \<Rightarrow> Fails err | None \<Rightarrow> Returns ())"

definition crawler_run_main ::
  "flag_values \<Rightarrow> 'r crawl_std \<Rightarrow> (string \<Rightarrow> go_error + (payload \<Rightarrow> go_error option)) \<Rightarrow>
   (string \<Rightarrow> go_error + (payload \<Rightarrow> go_error option)) \<Rightarrow> (crawl_service \<Rightarrow> part_detector \<Rightarrow> service) \<Rightarrow>
   (int \<Rightarrow> go_error option) \<Rightarrow> main_task list outcome" where
  "crawler_run_main ctx std dial_graph dial_index run listen =
     outcome_bind (get_partition_detector (flag_string ctx ''partition-detection-mode'')) (\<lambda>partDet.
     outcome_bind (get_apis dial_graph dial_index (flag_string ctx ''link-graph-api'') (flag_string ctx ''text-indexer-api'')) (\<lambda>(graphAPI, indexerAPI).
     outcome_bind (new_crawl_service std
       \<lparr>csc_graph_api = Some graphAPI, csc_index_api = Some indexerAPI, csc_is_private = None, csc_url_getter = None,
        csc_partition_detector = True, csc_clock = False, csc_fetch_workers = flag_int ctx ''num-workers'',
        csc_update_interval = flag_duration ctx ''update-interval'',
        csc_re_index_threshold = flag_duration ctx ''reindex-threshold'', csc_logger = True\<rparr>) (\<lambda>svc.
     outcome_bind (port_opened listen (flag_int ctx ''pprof-port'')) (\<lambda>_.
     Returns [ServiceTask (run svc partDet), ListenerTask]))))"

definition pagerank_run_main ::
  "flag_values \<Rightarrow> (string \<Rightarrow> go_error + 'g) \<Rightarrow> (string \<Rightarrow> go_error + 'i) \<Rightarrow>
   (pr_service \<Rightarrow> 'g \<Rightarrow> 'i \<Rightarrow> part_detector \<Rightarrow> service) \<Rightarrow> (int \<Rightarrow> go_error option) \<Rightarrow> main_task list outcome" where
  "pagerank_run_main ctx dial_graph dial_index run listen =
     outcome_bind (get_partition_detector (flag_string ctx ''partition-detection-mode'')) (\<lambda>partDet.
     outcome_bind (get_apis dial_graph dial_index (flag_string ctx ''link-graph-api'') (flag_string ctx ''text-indexer-api'')) (\<lambda>(graphAPI, indexerAPI).
     outcome_bind (of_result (new_pr_service
       \<lparr>psc_graph_api = True, psc_index_api = True, psc_partition_detector = True, psc_clock = False,
        psc_compute_workers = flag_int ctx ''num-workers'', psc_update_interval = flag_duration ctx ''update-interval'',
        psc_logger = True\<rparr>)) (\<lambda>svc.
     outcome_bind (port_opened listen (flag_int ctx ''pprof-port'')) (\<lambda>_.
     Returns [ServiceTask (run svc graphAPI indexerAPI partDet), ListenerTask]))))"

definition frontend_run_main ::
  "flag_values \<Rightarrow> (string \<Rightarrow> go_error + 'g) \<Rightarrow> (string \<Rightarrow> go_error + 'i) \<Rightarrow> (fe_service \<Rightarrow> 'g \<Rightarrow> 'i \<Rightarrow> service) \<Rightarrow>
   (int \<Rightarrow> go_error option) \<Rightarrow> main_task list outcome" where
  "frontend_run_main ctx dial_graph dial_index run listen =
     outcome_bind (get_apis dial_graph dial_index (flag_string ctx ''link-graph-api'') (flag_string ctx ''text-indexer-api'')) (\<lambda>(graphAPI, indexerAPI).
     outcome_bind (of_result (new_fe_service
       \<lparr>fe_graph_api = True, fe_index_api = True, fe_listen_addr = '':'' @ dec_int (flag_int ctx ''fe-port''),
        fe_results_per_page = flag_int ctx ''results-per-page'', fe_max_summary_length = flag_int ctx ''max-summary-length'',
        fe_logger = True\<rparr>)) (\<lambda>svc.
     outcome_bind (port_opened listen (flag_int ctx ''pprof-port'')) (\<lambda>_.
     Returns [ServiceTask (run svc graphAPI indexerAPI), ListenerTask])))"

definition graph_run_main ::
  "flag_values \<Rightarrow> 'r url_pkg \<Rightarrow> (string \<Rightarrow> go_error option) \<Rightarrow> (int \<Rightarrow> go_error option) \<Rightarrow>
   (graph_backend \<times> main_task list) outcome" where
  "graph_run_main ctx U sql_open listen =
     outcome_bind (get_link_graph U sql_open (flag_string ctx ''link-graph-uri'')) (\<lambda>graph.
     outcome_bind (port_opened listen (flag_int ctx ''grpc-port'')) (\<lambda>_.
     outcome_bind (port_opened listen (flag_int ctx ''pprof-port'')) (\<lambda>_.
     Returns (graph, [ListenerTask, ListenerTask]))))"

definition index_run_main ::
  "flag_values \<Rightarrow> 'r url_pkg \<Rightarrow> go_error option \<Rightarrow> (string list \<Rightarrow> go_error option) \<Rightarrow> (int \<Rightarrow> go_error option) \<Rightarrow>
   (index_backend \<times> main_task list) outcome" where
  "index_run_main ctx U new_bleve new_es listen =
     outcome_bind (get_text_indexer U new_bleve new_es (flag_string ctx ''text-indexer-uri'')) (\<lambda>indexer.
     outcome_bind (port_opened listen (flag_int ctx ''grpc-port'')) (\<lambda>_.
     outcome_bind (port_opened listen (flag_int ctx ''pprof-port'')) (\<lambda>_.
     Returns (indexer, [ListenerTask, ListenerTask]))))"

text \<open>Every microservice serves at least one listener besides its service.\<close>

lemma listeners_tasks:
  "listeners [ServiceTask svc, ListenerTask] = [1]"
  "listeners [ListenerTask, ListenerTask] = [0, 1]"
  by (simp_all add: listeners_def upt_rec)

lemma microservice_listeners:
  "crawler_run_main ctx std dg di run listen = Returns ts \<Longrightarrow> listeners ts = [1]"
  "pagerank_run_main ctx dg' di' run' listen = Returns ts \<Longrightarrow> listeners ts = [1]"
  "frontend_run_main ctx dg' di' run'' listen = Returns ts \<Longrightarrow> listeners ts = [1]"
  "graph_run_main ctx U so listen = Returns (g, ts) \<Longrightarrow> listeners ts = [0, 1]"
  "index_run_main ctx U nb ne listen = Returns (x, ts) \<Longrightarrow> listeners ts = [0, 1]"
  by (auto simp: crawler_run_main_def pagerank_run_main_def frontend_run_main_def graph_run_main_def index_run_main_def
      listeners_tasks)

section \<open>The monolith\<close>

record monolith =
  mono_graph :: graph_backend
  mono_index :: index_backend
  mono_detector :: part_detector
  mono_frontend :: fe_service
  mono_crawler :: crawl_service
  mono_pagerank :: pr_service

text \<open>
  \<open>graph_answers\<close> and \<open>index_answers\<close> say what the chosen stores answer for a page of the crawler.
\<close>

definition setup_services ::
  "flag_values \<Rightarrow> 'r url_pkg \<Rightarrow> (string \<Rightarrow> go_error option) \<Rightarrow> go_error option \<Rightarrow> (string list \<Rightarrow> go_error option) \<Rightarrow>
   'r crawl_std \<Rightarrow> (graph_backend \<Rightarrow> payload \<Rightarrow> go_error option) \<Rightarrow> (index_backend \<Rightarrow> payload \<Rightarrow> go_error option) \<Rightarrow>
   monolith outcome" where
  "setup_services ctx U sql_open new_bleve new_es std graph_answers index_answers =
     outcome_bind (get_link_graph U sql_open (flag_string ctx ''link-graph-uri'')) (\<lambda>linkGraph.
     outcome_bind (get_text_indexer U new_bleve new_es (flag_string ctx ''text-indexer-uri'')) (\<lambda>textIndexer.
     outcome_bind (get_partition_detector (flag_string ctx ''partition-detection-mode'')) (\<lambda>partDet.
     outcome_bind (of_result (new_fe_service
       \<lparr>fe_graph_api = True, fe_index_api = True, fe_listen_addr = flag_string ctx ''frontend-listen-addr'',
        fe_results_per_page = flag_int ctx ''frontend-results-per-page'',
        fe_max_summary_length = flag_int ctx ''frontend-max-summary-length'', fe_logger = True\<rparr>)) (\<lambda>fe.
     outcome_bind (new_crawl_service std
       \<lparr>csc_graph_api = Some (graph_answers linkGraph), csc_index_api = Some (index_answers textIndexer),
        csc_is_private = None, csc_url_getter = None, csc_partition_detector = True, csc_clock = False,
        csc_fetch_workers = flag_int ctx ''crawler-num-workers'',
        csc_update_interval = flag_duration ctx ''crawler-update-interval'',
        csc_re_index_threshold = flag_duration ctx ''crawler-reindex-threshold'', csc_logger = True\<rparr>) (\<lambda>cr.
     outcome_bind (of_result (new_pr_service
       \<lparr>psc_graph_api = True, psc_index_api = True, psc_partition_detector = True, psc_clock = False,
        psc_compute_workers = flag_int ctx ''pagerank-num-workers'',
        psc_update_interval = flag_duration ctx ''pagerank-update-interval'', psc_logger = True\<rparr>)) (\<lambda>pr.
     Returns \<lparr>mono_graph = linkGraph, mono_index = textIndexer, mono_detector = partDet,
        mono_frontend = fe, mono_crawler = cr, mono_pagerank = pr\<rparr>))))))"

text \<open>The group that \<^verbatim>\<open>runMain\<close> runs; the watcher of the monolith only cancels its context.\<close>

definition monolith_group ::
  "(fe_service \<Rightarrow> bool \<Rightarrow> go_error option \<Rightarrow> bool) \<Rightarrow> (crawl_service \<Rightarrow> part_detector \<Rightarrow> bool \<Rightarrow> go_error option \<Rightarrow> bool) \<Rightarrow>
   (pr_service \<Rightarrow> part_detector \<Rightarrow> bool \<Rightarrow> go_error option \<Rightarrow> bool) \<Rightarrow> monolith \<Rightarrow> service list" where
  "monolith_group run_fe run_cr run_pr m =
     [\<lparr>svc_name = ''front-end'', svc_may_return = run_fe (mono_frontend m)\<rparr>,
      \<lparr>svc_name = ''crawler'', svc_may_return = run_cr (mono_crawler m) (mono_detector m)\<rparr>,
      \<lparr>svc_name = ''PageRank calculator'', svc_may_return = run_pr (mono_pagerank m) (mono_detector m)\<rparr>]"

section \<open>What the programs do with their flags\<close>

text \<open>The mode \<^verbatim>\<open>dns=\<close>: the name ends at a second equals sign.\<close>

lemma get_partition_detector_dns:
  "get_partition_detector (''dns='' @ name @ CHR ''='' # rest) = get_partition_detector (''dns='' @ name)"
  "CHR ''='' \<notin> set name \<Longrightarrow> get_partition_detector (''dns='' @ name) = Returns (SrvDetector name)"
  "\<not> panics (get_partition_detector mode)"
proof -
  have split: "split_on (CHR ''='') (''dns='' @ t) = ''dns'' # split_on (CHR ''='') t" for t by simp
  show "get_partition_detector (''dns='' @ name @ CHR ''='' # rest) = get_partition_detector (''dns='' @ name)"
    by (cases "split_on (CHR ''='') name") (simp_all add: get_partition_detector_def split_on_append_sep)
  show "CHR ''='' \<notin> set name \<Longrightarrow> get_partition_detector (''dns='' @ name) = Returns (SrvDetector name)"
    by (simp add: get_partition_detector_def split_on_no_sep)
  show "\<not> panics (get_partition_detector mode)"
  proof (cases "has_prefix mode ''dns=''")
    case True
    then obtain t where "mode = ''dns='' @ t" by (auto simp: has_prefix_iff)
    then show ?thesis using split_on_nonempty [of "CHR ''=''" t] by (auto simp: get_partition_detector_def neq_Nil_conv)
  qed (simp add: get_partition_detector_def)
qed

text \<open>
  The front end's summary length shares the environment variable of the results per page: a
  deployment that sets it for the one changes the other.
\<close>

lemma frontend_env_shared:
  assumes "flags_documented frontend_flags args env ctx" "args ''max-summary-length'' = None"
    "env ''RESULTS_PER_PAGE'' = Some (IntVal n)"
  shows "flag_int ctx ''max-summary-length'' = n"
  using assms by (simp add: flags_documented_def frontend_flags_def flag_int_def)

text \<open>
  The monolith without flags, as the documentation promises: everything in memory and a single
  partition, which makes its PageRank service the leader.
\<close>

lemma monolith_defaults:
  assumes flags: "flags_documented (monolith_flags numCPU) (\<lambda>_. None) (\<lambda>_. None) ctx" and "0 < numCPU"
    and "url_parse U ''in-memory://'' = Inr u" "u_scheme u = ''in-memory''"
  shows "\<exists>m. setup_services ctx U sql_open None new_es std graph_answers index_answers = Returns m \<and>
    mono_graph m = MemBackend \<and> mono_index m = BleveBackend \<and>
    detector_partition_info hostname lookup (mono_detector m) = Returns (0, 1)"
proof -
  have ctx: "ctx (fl_name f) = fl_default f" if "f \<in> set (monolith_flags numCPU)" for f
    using flags that by (simp add: flags_documented_def)
  have v: "flag_string ctx ''link-graph-uri'' = ''in-memory://''" "flag_string ctx ''text-indexer-uri'' = ''in-memory://''"
    "flag_string ctx ''partition-detection-mode'' = ''single''" "flag_string ctx ''frontend-listen-addr'' = '':8080''"
    "flag_int ctx ''frontend-results-per-page'' = 10" "flag_int ctx ''frontend-max-summary-length'' = 256"
    "flag_int ctx ''crawler-num-workers'' = numCPU" "flag_duration ctx ''crawler-update-interval'' = 5 * minute"
    "flag_duration ctx ''crawler-reindex-threshold'' = 168 * hour" "flag_int ctx ''pagerank-num-workers'' = numCPU"
    "flag_duration ctx ''pagerank-update-interval'' = hour"
    using flags by (simp_all add: flags_documented_def monolith_flags_def flag_string_def flag_int_def flag_duration_def)
  have fe: "\<exists>fe. new_fe_service \<lparr>fe_graph_api = True, fe_index_api = True, fe_listen_addr = '':8080'',
      fe_results_per_page = 10, fe_max_summary_length = 256, fe_logger = True\<rparr> = Inr fe"
    by (simp add: new_fe_service_def fe_validate_def)
  have cr: "\<exists>cr. new_crawl_service std \<lparr>csc_graph_api = Some ga, csc_index_api = Some ia, csc_is_private = None,
      csc_url_getter = None, csc_partition_detector = True, csc_clock = False, csc_fetch_workers = numCPU,
      csc_update_interval = 5 * minute, csc_re_index_threshold = 168 * hour, csc_logger = True\<rparr> = Returns cr" for ga ia
    using \<open>0 < numCPU\<close>
    by (simp add: new_crawl_service_def crawl_svc_validate_def new_detector_blocks minute_def hour_def
        assemble_crawler_pipeline_def fixed_worker_pool_def)
  have pr: "\<exists>pr. new_pr_service \<lparr>psc_graph_api = True, psc_index_api = True, psc_partition_detector = True,
      psc_clock = False, psc_compute_workers = numCPU, psc_update_interval = hour, psc_logger = True\<rparr> = Inr pr"
    using \<open>0 < numCPU\<close>
    by (simp add: new_pr_service_def pr_svc_validate_def minute_def hour_def new_calculator_def pr_config_validate_def)
  obtain fe' cr' pr' where r: "new_fe_service \<lparr>fe_graph_api = True, fe_index_api = True, fe_listen_addr = '':8080'',
      fe_results_per_page = 10, fe_max_summary_length = 256, fe_logger = True\<rparr> = Inr fe'"
    "new_crawl_service std \<lparr>csc_graph_api = Some (graph_answers MemBackend), csc_index_api = Some (index_answers BleveBackend),
      csc_is_private = None, csc_url_getter = None, csc_partition_detector = True, csc_clock = False, csc_fetch_workers = numCPU,
      csc_update_interval = 5 * minute, csc_re_index_threshold = 168 * hour, csc_logger = True\<rparr> = Returns cr'"
    "new_pr_service \<lparr>psc_graph_api = True, psc_index_api = True, psc_partition_detector = True,
      psc_clock = False, psc_compute_workers = numCPU, psc_update_interval = hour, psc_logger = True\<rparr> = Inr pr'"
    using fe cr pr by blast
  show ?thesis
    using assms(3,4) by (simp add: setup_services_def v r get_link_graph_def get_text_indexer_def get_partition_detector_def fixed_partition_info_def)
qed

end
