(* ===== verification/TestMonad.thy ===== *)
theory TestMonad
  imports Prelude
begin

text \<open>
  Acceptance tests as programs over the state of an implementation, and the rules that prove
  that they pass.  A test reports errors, which let it go on, and fatal errors, which end it.
\<close>

section \<open>Tests\<close>

text \<open>
  The bench of a test: the implementation's state, the clock, and the number of calls so far,
  which the values drawn from the environment depend on.
\<close>

record 's bench =
  be_store :: 's
  be_now :: go_time
  be_calls :: nat

datatype 'a verdict = Passing 'a | Failing 'a | FatalStop

type_synonym ('s, 'a) test = "'s bench \<Rightarrow> 'a verdict \<times> 's bench"

definition treturn :: "'a \<Rightarrow> ('s, 'a) test" where
  "treturn a b = (Passing a, b)"

definition tbind :: "('s, 'a) test \<Rightarrow> ('a \<Rightarrow> ('s, 'b) test) \<Rightarrow> ('s, 'b) test" where
  "tbind t f b =
     (case t b of
        (Passing a, b') \<Rightarrow> f a b'
      | (Failing a, b') \<Rightarrow>
          (case f a b' of (Passing c, b'') \<Rightarrow> (Failing c, b'') | r \<Rightarrow> r)
      | (FatalStop, b') \<Rightarrow> (FatalStop, b'))"

text \<open>\<^verbatim>\<open>t.Errorf\<close> and \<^verbatim>\<open>t.Fatalf\<close> under a condition.\<close>

definition terror :: "bool \<Rightarrow> ('s, unit) test" where
  "terror c b = (if c then Failing () else Passing (), b)"

definition tfatal :: "bool \<Rightarrow> ('s, unit) test" where
  "tfatal c b = (if c then FatalStop else Passing (), b)"

definition tsleep :: "int \<Rightarrow> ('s, unit) test" where
  "tsleep d b = (Passing (), b\<lparr>be_now := be_now b + d\<rparr>)"

text \<open>Reading the clock: each reading is later than the one before, by one and the k-th lag.\<close>

definition tclock :: "(nat \<Rightarrow> nat) \<Rightarrow> ('s, go_time) test" where
  "tclock lag b =
     (let t = be_now b + 1 + int (lag (be_calls b))
      in (Passing t, b\<lparr>be_now := t, be_calls := Suc (be_calls b)\<rparr>))"

definition hours :: "int \<Rightarrow> int" where "hours h = h * 3600 * 1000000000"

fun tmap :: "('x \<Rightarrow> ('s, 'a) test) \<Rightarrow> 'x list \<Rightarrow> ('s, 'a list) test" where
  "tmap f [] = treturn []"
| "tmap f (x # xs) = tbind (f x) (\<lambda>a. tbind (tmap f xs) (\<lambda>as. treturn (a # as)))"

text \<open>A call whose error is fatal for the test.\<close>

definition must :: "('s, go_error + 'a) test \<Rightarrow> ('s, 'a) test" where
  "must t = tbind t (\<lambda>r. case r of Inl err \<Rightarrow> (\<lambda>b. (FatalStop, b)) | Inr a \<Rightarrow> treturn a)"

section \<open>Tests that pass\<close>

text \<open>\<open>passes t Q b\<close>: run on b the test reports nothing and ends with a result and a bench in Q.\<close>

definition passes :: "('s, 'a) test \<Rightarrow> ('a \<Rightarrow> 's bench \<Rightarrow> bool) \<Rightarrow> 's bench \<Rightarrow> bool" where
  "passes t Q b \<longleftrightarrow> (\<exists>a b'. t b = (Passing a, b') \<and> Q a b')"

named_theorems test_simps \<open>what the constructs of a test require\<close>

lemma passes_treturn [test_simps]: "passes (treturn a) Q b \<longleftrightarrow> Q a b"
  by (simp add: passes_def treturn_def)

lemma passes_tbind [test_simps]: "passes (tbind t f) Q b \<longleftrightarrow> passes t (\<lambda>a b'. passes (f a) Q b') b"
proof (cases "t b")
  case (Pair v b')
  then show ?thesis
  proof (cases v)
    case (Failing a)
    obtain w b'' where "f a b' = (w, b'')" by (cases "f a b'")
    with Pair Failing show ?thesis by (cases w) (auto simp: passes_def tbind_def)
  qed (auto simp: passes_def tbind_def)
qed

lemma passes_terror [test_simps]: "passes (terror c) Q b \<longleftrightarrow> \<not> c \<and> Q () b"
  by (auto simp: passes_def terror_def)

lemma passes_tfatal [test_simps]: "passes (tfatal c) Q b \<longleftrightarrow> \<not> c \<and> Q () b"
  by (auto simp: passes_def tfatal_def)

lemma passes_tsleep [test_simps]: "passes (tsleep d) Q b \<longleftrightarrow> Q () (b\<lparr>be_now := be_now b + d\<rparr>)"
  by (auto simp: passes_def tsleep_def)

lemma passes_tclock [test_simps]:
  "passes (tclock lag) Q b \<longleftrightarrow>
    Q (be_now b + 1 + int (lag (be_calls b)))
      (b\<lparr>be_now := be_now b + 1 + int (lag (be_calls b)), be_calls := Suc (be_calls b)\<rparr>)"
  by (auto simp: passes_def tclock_def Let_def)

lemma passes_must [test_simps]:
  fixes t :: "('s, go_error + 'a) test"
  shows "passes (must t) Q b \<longleftrightarrow> passes t (\<lambda>r b'. case r of Inl _ \<Rightarrow> False | Inr a \<Rightarrow> Q a b') b"
proof -
  have "passes (case r of Inl err \<Rightarrow> (\<lambda>b. (FatalStop, b)) | Inr a \<Rightarrow> treturn a) Q =
      (\<lambda>b'. case r of Inl _ \<Rightarrow> False | Inr a \<Rightarrow> Q a b')" for r :: "go_error + 'a"
    by (cases r) (simp_all add: fun_eq_iff passes_treturn, simp add: passes_def)
  then show ?thesis by (simp only: must_def passes_tbind)
qed

lemma passes_mono: "passes t Q b \<Longrightarrow> (\<And>a b'. Q a b' \<Longrightarrow> R a b') \<Longrightarrow> passes t R b"
  by (auto simp: passes_def)

text \<open>A loop, with an invariant on what has been collected.\<close>

lemma passes_tmap:
  assumes step: "\<And>i as b. i < length xs \<Longrightarrow> length as = i \<Longrightarrow> P i as b \<Longrightarrow>
      passes (f (xs ! i)) (\<lambda>a. P (Suc i) (as @ [a])) b"
    and start: "P 0 [] b"
    and end': "\<And>as b. length as = length xs \<Longrightarrow> P (length xs) as b \<Longrightarrow> Q as b"
  shows "passes (tmap f xs) Q b"
proof -
  have "passes (tmap f (drop k xs)) (\<lambda>as'. P (length xs) (as @ as')) b"
    if "k \<le> length xs" "length as = k" "P k as b" for k as b
    using that
  proof (induction "length xs - k" arbitrary: k as b)
    case 0
    then show ?case by (simp add: test_simps)
  next
    case (Suc n)
    then have k: "k < length xs" by simp
    have "passes (f (xs ! k)) (\<lambda>a b'. P (Suc k) (as @ [a]) b') b" using step [OF k Suc.prems(2,3)] .
    then have "passes (f (xs ! k)) (\<lambda>a b'. passes (tmap f (drop (Suc k) xs)) (\<lambda>as'. P (length xs) (as @ a # as')) b') b"
    proof (rule passes_mono)
      fix a b'
      assume "P (Suc k) (as @ [a]) b'"
      with Suc.hyps(1) [of "Suc k" "as @ [a]" b'] Suc.hyps(2) Suc.prems(2) k
      show "passes (tmap f (drop (Suc k) xs)) (\<lambda>as'. P (length xs) (as @ a # as')) b'" by simp
    qed
    then show ?case by (simp add: test_simps flip: Cons_nth_drop_Suc [OF k])
  qed
  note run = this
  have len: "length as = length xs" if "tmap f xs b = (Passing as, b')" for as b b'
  proof -
    have "tmap f ys b = (Passing as, b') \<Longrightarrow> length as = length ys" for ys as b
    proof (induction ys arbitrary: as b)
      case (Cons y ys)
      then show ?case
        by (auto simp: tbind_def treturn_def split: prod.splits verdict.splits)
    qed (simp add: treturn_def)
    then show ?thesis using that .
  qed
  from run [of 0 "[]" b] start show ?thesis using end' len by (fastforce simp: passes_def)
qed

lemma passes_bindI: "passes t (\<lambda>a b'. passes (f a) Q b') b \<Longrightarrow> passes (tbind t f) Q b"
  by (simp add: passes_tbind)

lemma passes_errorI: "\<not> c \<Longrightarrow> Q () b \<Longrightarrow> passes (terror c) Q b"
  by (simp add: passes_terror)

lemma passes_fatalI: "\<not> c \<Longrightarrow> Q () b \<Longrightarrow> passes (tfatal c) Q b"
  by (simp add: passes_tfatal)

lemma passes_returnI: "Q a b \<Longrightarrow> passes (treturn a) Q b"
  by (simp add: passes_treturn)

lemma passes_mustI: "passes t (\<lambda>r b'. \<exists>a. r = Inr a \<and> Q a b') b \<Longrightarrow> passes (must t) Q b"
  by (auto simp: passes_must elim: passes_mono)

lemmas test_steps = passes_bindI passes_returnI passes_mustI

end
