(* ===== verification/GraphSuite.thy ===== *)
theory GraphSuite
  imports TestMonad Partition LinkGraph
begin

text \<open>
  The acceptance suite for implementations of the link graph (\<^verbatim>\<open>graph/graphtest/graphtest.go\<close>), as
  programs over an implementation given by its operations.  The tests that start several goroutines
  with an iterator each are the sequence of these iterations, which only read; their time-out is
  left out, as is what they log.
\<close>

section \<open>Implementations and their environment\<close>

record 's graph_impl =
  gi_upsert_link :: "uuid list \<Rightarrow> link \<Rightarrow> 's \<Rightarrow> (link outcome \<times> 's) option"
  gi_find_link :: "uuid \<Rightarrow> 's \<Rightarrow> link outcome"
  gi_upsert_edge :: "uuid list \<Rightarrow> go_time \<Rightarrow> edge \<Rightarrow> 's \<Rightarrow> (edge outcome \<times> 's) option"
  gi_remove_stale_edges :: "uuid \<Rightarrow> go_time \<Rightarrow> 's \<Rightarrow> unit outcome \<times> 's"
  gi_links :: "uuid \<Rightarrow> uuid \<Rightarrow> go_time \<Rightarrow> 's \<Rightarrow> go_error + link api_iterator"
  gi_edges :: "uuid \<Rightarrow> uuid \<Rightarrow> go_time \<Rightarrow> 's \<Rightarrow> go_error + edge api_iterator"

text \<open>
  The environment: the identifiers the implementation draws in its k-th call, the time that
  passes before the clock is read the k-th time, and the identifier \<^verbatim>\<open>uuid.New\<close> gives the test.
\<close>

record bench_env =
  en_draws :: "nat \<Rightarrow> uuid list"
  en_lag :: "nat \<Rightarrow> nat"
  en_new_uuid :: uuid
  en_pkg :: uuid_pkg

definition tnow :: "bench_env \<Rightarrow> ('s, go_time) test" where
  "tnow E = tclock (en_lag E)"

section \<open>The implementation's operations\<close>

text \<open>A call that panics ends the test, as does one that never returns.\<close>

definition call_upsert_link :: "bench_env \<Rightarrow> 's graph_impl \<Rightarrow> link \<Rightarrow> ('s, go_error + link) test" where
  "call_upsert_link E G x b =
     (case gi_upsert_link G (en_draws E (be_calls b)) x (be_store b) of
        Some (Returns y, s) \<Rightarrow> (Passing (Inr y), b\<lparr>be_store := s, be_calls := Suc (be_calls b)\<rparr>)
      | Some (Fails err, s) \<Rightarrow> (Passing (Inl err), b\<lparr>be_store := s, be_calls := Suc (be_calls b)\<rparr>)
      | _ \<Rightarrow> (FatalStop, b))"

definition call_upsert_edge :: "bench_env \<Rightarrow> 's graph_impl \<Rightarrow> edge \<Rightarrow> ('s, go_error + edge) test" where
  "call_upsert_edge E G x =
     tbind (tnow E) (\<lambda>now b.
       (case gi_upsert_edge G (en_draws E (be_calls b)) now x (be_store b) of
          Some (Returns y, s) \<Rightarrow> (Passing (Inr y), b\<lparr>be_store := s\<rparr>)
        | Some (Fails err, s) \<Rightarrow> (Passing (Inl err), b\<lparr>be_store := s\<rparr>)
        | _ \<Rightarrow> (FatalStop, b)))"

definition call_find_link :: "'s graph_impl \<Rightarrow> uuid \<Rightarrow> ('s, go_error + link) test" where
  "call_find_link G i b =
     (case gi_find_link G i (be_store b) of
        Returns l \<Rightarrow> (Passing (Inr l), b)
      | Fails err \<Rightarrow> (Passing (Inl err), b)
      | Panics m \<Rightarrow> (FatalStop, b))"

definition call_remove_stale_edges :: "'s graph_impl \<Rightarrow> uuid \<Rightarrow> go_time \<Rightarrow> ('s, go_error option) test" where
  "call_remove_stale_edges G i t b =
     (case gi_remove_stale_edges G i t (be_store b) of
        (Returns _, s) \<Rightarrow> (Passing None, b\<lparr>be_store := s\<rparr>)
      | (Fails err, s) \<Rightarrow> (Passing (Some err), b\<lparr>be_store := s\<rparr>)
      | (Panics m, s) \<Rightarrow> (FatalStop, b))"

section \<open>Partitions\<close>

definition suite_uuid :: "uuid_pkg \<Rightarrow> nat \<Rightarrow> uuid outcome" where
  "suite_uuid L token =
     (case up_from_bytes L (big_bytes token) of Inl err \<Rightarrow> Fails err | Inr u \<Rightarrow> Returns u)"

definition partition_range :: "uuid_pkg \<Rightarrow> nat \<Rightarrow> nat \<Rightarrow> (uuid \<times> uuid) outcome" where
  "partition_range L part numPartitions =
     (if part \<ge> numPartitions then Fails (Errorf ''invalid partition'')
      else (case up_parse L ''ffffffff-ffff-ffff-ffff-ffffffffffff'' of
              Inl err \<Rightarrow> Panics ''uuid: Parse''
            | Inr maxUUID \<Rightarrow>
                let partSize = big_set_bytes (uuid_bytes maxUUID) div numPartitions
                in outcome_bind (if part = 0 then Returns uuid_nil else suite_uuid L (partSize * part)) (\<lambda>from.
                   outcome_bind (if part = numPartitions - 1 then Returns maxUUID else suite_uuid L (partSize * (part + 1))) (\<lambda>to.
                   Returns (from, to)))))"

definition partitioned_link_iterator ::
  "bench_env \<Rightarrow> 's graph_impl \<Rightarrow> nat \<Rightarrow> nat \<Rightarrow> go_time \<Rightarrow> ('s, go_error + link api_iterator) test" where
  "partitioned_link_iterator E G part numPartitions accessedBefore b =
     (case partition_range (en_pkg E) part numPartitions of
        Returns (from, to) \<Rightarrow> (Passing (gi_links G from to accessedBefore (be_store b)), b)
      | _ \<Rightarrow> (FatalStop, b))"

definition partitioned_edge_iterator ::
  "bench_env \<Rightarrow> 's graph_impl \<Rightarrow> nat \<Rightarrow> nat \<Rightarrow> go_time \<Rightarrow> ('s, go_error + edge api_iterator) test" where
  "partitioned_edge_iterator E G part numPartitions updatedBefore b =
     (case partition_range (en_pkg E) part numPartitions of
        Returns (from, to) \<Rightarrow> (Passing (gi_edges G from to updatedBefore (be_store b)), b)
      | _ \<Rightarrow> (FatalStop, b))"

text \<open>Drawing on an iterator, with the identifiers seen so far.\<close>

fun see_all :: "uuid_pkg \<Rightarrow> uuid list \<Rightarrow> string list \<Rightarrow> ('s, string list) test" where
  "see_all L [] seen = treturn seen"
| "see_all L (i # is) seen =
     tbind (terror (up_string L i \<in> set seen)) (\<lambda>_. see_all L is (List.insert (up_string L i) seen))"

text \<open>The checks after the loop; the iterator is closed here and once more at the function's end.\<close>

definition iterator_done :: "'a api_iterator \<Rightarrow> ('s, unit) test" where
  "iterator_done it =
     tbind (terror (it_error it \<noteq> None)) (\<lambda>_. terror (it_close it \<noteq> None))"

section \<open>Links\<close>

definition new_link :: "string \<Rightarrow> go_time \<Rightarrow> link" where
  "new_link url t = \<lparr>link_id = uuid_nil, link_url = url, link_retrieved_at = t\<rparr>"

definition millisecond :: int where "millisecond = 1000000"

text \<open>\<^verbatim>\<open>Truncate\<close> to the second; conversions to UTC do not change the instant.\<close>

definition truncate_second :: "go_time \<Rightarrow> go_time" where
  "truncate_second t = t - (t - zero_time) mod 1000000000"

definition test_upsert_link :: "bench_env \<Rightarrow> 's graph_impl \<Rightarrow> ('s, unit) test" where
  "test_upsert_link E G =
     tbind (tnow E) (\<lambda>t0.
     tbind (must (call_upsert_link E G (new_link ''https://example.com'' (t0 - hours 10)))) (\<lambda>original.
     tbind (tfatal (link_id original = uuid_nil)) (\<lambda>_.
     tbind (tnow E) (\<lambda>t1.
     let accessedAt = truncate_second t1 in
     tbind (must (call_upsert_link E G
       \<lparr>link_id = link_id original, link_url = ''https://example.com'', link_retrieved_at = accessedAt\<rparr>)) (\<lambda>updated.
     tbind (tfatal (link_id updated \<noteq> link_id original)) (\<lambda>_.
     tbind (must (call_find_link G (link_id updated))) (\<lambda>stored.
     tbind (terror (link_retrieved_at stored \<noteq> accessedAt)) (\<lambda>_.
     tbind (tnow E) (\<lambda>t2.
     tbind (must (call_upsert_link E G (new_link (link_url updated) (t2 - hours 10)))) (\<lambda>sameURL.
     tbind (tfatal (link_id sameURL \<noteq> link_id updated)) (\<lambda>_.
     tbind (must (call_find_link G (link_id updated))) (\<lambda>stored'.
     tbind (terror (link_retrieved_at stored' \<noteq> accessedAt)) (\<lambda>_.
     tbind (must (call_upsert_link E G (new_link ''foo'' zero_time))) (\<lambda>dup.
     terror (link_id dup = uuid_nil)))))))))))))))"

definition test_find_link :: "bench_env \<Rightarrow> 's graph_impl \<Rightarrow> ('s, unit) test" where
  "test_find_link E G =
     tbind (tnow E) (\<lambda>t.
     tbind (must (call_upsert_link E G (new_link ''https://example.com'' (truncate_second t)))) (\<lambda>link.
     tbind (terror (link_id link = uuid_nil)) (\<lambda>_.
     tbind (must (call_find_link G (link_id link))) (\<lambda>other.
     tbind (terror (other \<noteq> link)) (\<lambda>_.
     tbind (call_find_link G uuid_nil) (\<lambda>r.
     terror (case r of Inl err \<Rightarrow> \<not> errors_is err GraphErrNotFound | Inr _ \<Rightarrow> True)))))))"

definition insert_links :: "bench_env \<Rightarrow> 's graph_impl \<Rightarrow> nat \<Rightarrow> ('s, uuid list) test" where
  "insert_links E G n =
     tmap (\<lambda>i. tbind (must (call_upsert_link E G (new_link (dec_nat i) zero_time))) (\<lambda>y. treturn (link_id y))) [0..<n]"

text \<open>One of the iterating goroutines.\<close>

definition link_iteration :: "bench_env \<Rightarrow> 's graph_impl \<Rightarrow> nat \<Rightarrow> ('s, unit) test" where
  "link_iteration E G numLinks =
     tbind (tnow E) (\<lambda>t.
     tbind (partitioned_link_iterator E G 0 1 t) (\<lambda>r.
     case r of
       Inl err \<Rightarrow> terror True
     | Inr it \<Rightarrow>
         tbind (see_all (en_pkg E) (map link_id (it_items it)) []) (\<lambda>seen.
         tbind (terror (length seen \<noteq> numLinks)) (\<lambda>_.
         tbind (iterator_done it) (\<lambda>_.
         terror (it_close it \<noteq> None))))))"

definition test_concurrent_link_iterators :: "bench_env \<Rightarrow> 's graph_impl \<Rightarrow> ('s, unit) test" where
  "test_concurrent_link_iterators E G =
     tbind (insert_links E G 100) (\<lambda>_.
     tbind (tmap (\<lambda>_. link_iteration E G 100) [0..<10]) (\<lambda>_.
     treturn ()))"

text \<open>
  The slices \<^verbatim>\<open>linkUUIDs[:i+1]\<close> share one array, which sorting them permutes; the assertions
  return the array.
\<close>

definition assert_iterated_link_ids_match ::
  "bench_env \<Rightarrow> 's graph_impl \<Rightarrow> go_time \<Rightarrow> uuid list \<Rightarrow> ('s, uuid list) test" where
  "assert_iterated_link_ids_match E G updatedBefore expected =
     tbind (must (partitioned_link_iterator E G 0 1 updatedBefore)) (\<lambda>it.
     tbind (iterator_done it) (\<lambda>_.
     let got = sort_key (up_string (en_pkg E)) (map link_id (it_items it));
         expected' = sort_key (up_string (en_pkg E)) expected
     in tbind (terror (got \<noteq> expected')) (\<lambda>_. treturn expected')))"

fun assert_link_prefixes ::
  "bench_env \<Rightarrow> 's graph_impl \<Rightarrow> nat \<Rightarrow> go_time list \<Rightarrow> uuid list \<Rightarrow> ('s, unit) test" where
  "assert_link_prefixes E G i [] uuids = treturn ()"
| "assert_link_prefixes E G i (ts # tss) uuids =
     tbind (assert_iterated_link_ids_match E G ts (take (i + 1) uuids)) (\<lambda>sorted.
     assert_link_prefixes E G (i + 1) tss (sorted @ drop (i + 1) uuids))"

definition test_link_iterator_time_filter :: "bench_env \<Rightarrow> 's graph_impl \<Rightarrow> ('s, unit) test" where
  "test_link_iterator_time_filter E G =
     tbind (tmap (\<lambda>i.
       tbind (tnow E) (\<lambda>t.
       tbind (must (call_upsert_link E G (new_link (dec_nat i) t))) (\<lambda>link.
       tbind (tsleep millisecond) (\<lambda>_.
       tbind (tnow E) (\<lambda>ts. treturn (link_id link, ts)))))) [0..<3]) (\<lambda>inserted.
     assert_link_prefixes E G 0 (map snd inserted) (map fst inserted))"

fun iterate_link_partitions :: "bench_env \<Rightarrow> 's graph_impl \<Rightarrow> nat \<Rightarrow> nat list \<Rightarrow> string list \<Rightarrow> ('s, string list) test" where
  "iterate_link_partitions E G numPartitions [] seen = treturn seen"
| "iterate_link_partitions E G numPartitions (part # parts) seen =
     tbind (tnow E) (\<lambda>t.
     tbind (must (partitioned_link_iterator E G part numPartitions t)) (\<lambda>it.
     tbind (see_all (en_pkg E) (map link_id (it_items it)) seen) (\<lambda>seen'.
     tbind (iterator_done it) (\<lambda>_.
     tbind (iterate_link_partitions E G numPartitions parts seen') (\<lambda>seen''.
     tbind (terror (it_close it \<noteq> None)) (\<lambda>_. treturn seen''))))))"

definition iterate_partitioned_links :: "bench_env \<Rightarrow> 's graph_impl \<Rightarrow> nat \<Rightarrow> ('s, nat) test" where
  "iterate_partitioned_links E G numPartitions =
     tbind (iterate_link_partitions E G numPartitions [0..<numPartitions] []) (\<lambda>seen. treturn (length seen))"

definition test_partitioned_link_iterators :: "bench_env \<Rightarrow> 's graph_impl \<Rightarrow> ('s, unit) test" where
  "test_partitioned_link_iterators E G =
     tbind (insert_links E G 100) (\<lambda>_.
     tbind (iterate_partitioned_links E G 10) (\<lambda>count.
     tbind (terror (count \<noteq> 100)) (\<lambda>_.
     tbind (iterate_partitioned_links E G 11) (\<lambda>count'.
     terror (count' \<noteq> 100)))))"

section \<open>Edges\<close>

definition new_edge :: "uuid \<Rightarrow> uuid \<Rightarrow> edge" where
  "new_edge src dst = \<lparr>edge_id = uuid_nil, edge_src = src, edge_dst = dst, edge_updated_at = zero_time\<rparr>"

definition test_upsert_edge :: "bench_env \<Rightarrow> 's graph_impl \<Rightarrow> ('s, unit) test" where
  "test_upsert_edge E G =
     tbind (insert_links E G 3) (\<lambda>linkUUIDs.
     tbind (must (call_upsert_edge E G (new_edge (linkUUIDs ! 0) (linkUUIDs ! 1)))) (\<lambda>edge.
     tbind (tfatal (edge_id edge = uuid_nil)) (\<lambda>_.
     tbind (terror (edge_updated_at edge = zero_time)) (\<lambda>_.
     tbind (tsleep millisecond) (\<lambda>_.
     tbind (must (call_upsert_edge E G ((new_edge (linkUUIDs ! 0) (linkUUIDs ! 1))\<lparr>edge_id := edge_id edge\<rparr>))) (\<lambda>other.
     tbind (terror (edge_id other \<noteq> edge_id edge)) (\<lambda>_.
     tbind (terror (edge_updated_at other = edge_updated_at edge)) (\<lambda>_.
     tbind (call_upsert_edge E G (new_edge (linkUUIDs ! 0) (en_new_uuid E))) (\<lambda>r.
     terror (case r of Inl err \<Rightarrow> \<not> errors_is err GraphErrUnknownEdgeLinks | Inr _ \<Rightarrow> True))))))))))"

definition insert_edges :: "bench_env \<Rightarrow> 's graph_impl \<Rightarrow> uuid list \<Rightarrow> nat list \<Rightarrow> ('s, edge list) test" where
  "insert_edges E G linkUUIDs = tmap (\<lambda>i. must (call_upsert_edge E G (new_edge (linkUUIDs ! 0) (linkUUIDs ! i))))"

definition edge_iteration :: "bench_env \<Rightarrow> 's graph_impl \<Rightarrow> nat \<Rightarrow> ('s, unit) test" where
  "edge_iteration E G numEdges =
     tbind (tnow E) (\<lambda>t.
     tbind (partitioned_edge_iterator E G 0 1 t) (\<lambda>r.
     case r of
       Inl err \<Rightarrow> terror True
     | Inr it \<Rightarrow>
         tbind (see_all (en_pkg E) (map edge_id (it_items it)) []) (\<lambda>seen.
         tbind (terror (length seen \<noteq> numEdges)) (\<lambda>_.
         tbind (iterator_done it) (\<lambda>_.
         terror (it_close it \<noteq> None))))))"

definition test_concurrent_edge_iterators :: "bench_env \<Rightarrow> 's graph_impl \<Rightarrow> ('s, unit) test" where
  "test_concurrent_edge_iterators E G =
     tbind (insert_links E G 200) (\<lambda>linkUUIDs.
     tbind (insert_edges E G linkUUIDs [0..<100]) (\<lambda>_.
     tbind (tsleep millisecond) (\<lambda>_.
     tbind (tmap (\<lambda>_. edge_iteration E G 100) [0..<10]) (\<lambda>_.
     treturn ()))))"

definition assert_iterated_edge_ids_match ::
  "bench_env \<Rightarrow> 's graph_impl \<Rightarrow> go_time \<Rightarrow> uuid list \<Rightarrow> ('s, uuid list) test" where
  "assert_iterated_edge_ids_match E G updatedBefore expected =
     tbind (must (partitioned_edge_iterator E G 0 1 updatedBefore)) (\<lambda>it.
     tbind (iterator_done it) (\<lambda>_.
     let got = sort_key (up_string (en_pkg E)) (map edge_id (it_items it));
         expected' = sort_key (up_string (en_pkg E)) expected
     in tbind (terror (got \<noteq> expected')) (\<lambda>_. treturn expected')))"

fun assert_edge_prefixes ::
  "bench_env \<Rightarrow> 's graph_impl \<Rightarrow> nat \<Rightarrow> go_time list \<Rightarrow> uuid list \<Rightarrow> ('s, unit) test" where
  "assert_edge_prefixes E G i [] uuids = treturn ()"
| "assert_edge_prefixes E G i (ts # tss) uuids =
     tbind (assert_iterated_edge_ids_match E G ts (take (i + 1) uuids)) (\<lambda>sorted.
     assert_edge_prefixes E G (i + 1) tss (sorted @ drop (i + 1) uuids))"

definition test_edge_iterator_time_filter :: "bench_env \<Rightarrow> 's graph_impl \<Rightarrow> ('s, unit) test" where
  "test_edge_iterator_time_filter E G =
     tbind (insert_links E G 3) (\<lambda>linkUUIDs.
     tbind (tmap (\<lambda>i.
       tbind (must (call_upsert_edge E G (new_edge (linkUUIDs ! 0) (linkUUIDs ! i)))) (\<lambda>edge.
       tbind (tsleep millisecond) (\<lambda>_.
       tbind (tnow E) (\<lambda>ts. treturn (edge_id edge, ts))))) [0..<3]) (\<lambda>inserted.
     assert_edge_prefixes E G 0 (map snd inserted) (map fst inserted)))"

text \<open>The edges of a partition, whose sources must be links of the partition.\<close>

fun see_edges :: "uuid_pkg \<Rightarrow> uuid list \<Rightarrow> edge list \<Rightarrow> string list \<Rightarrow> ('s, string list) test" where
  "see_edges L linksInPartition [] seen = treturn seen"
| "see_edges L linksInPartition (e # es) seen =
     tbind (terror (up_string L (edge_id e) \<in> set seen)) (\<lambda>_.
     tbind (terror (edge_src e \<notin> set linksInPartition)) (\<lambda>_.
     see_edges L linksInPartition es (List.insert (up_string L (edge_id e)) seen)))"

fun iterate_edge_partitions :: "bench_env \<Rightarrow> 's graph_impl \<Rightarrow> nat \<Rightarrow> nat list \<Rightarrow> string list \<Rightarrow> ('s, string list) test" where
  "iterate_edge_partitions E G numPartitions [] seen = treturn seen"
| "iterate_edge_partitions E G numPartitions (part # parts) seen =
     tbind (tnow E) (\<lambda>t.
     tbind (must (partitioned_link_iterator E G part numPartitions t)) (\<lambda>linkIt.
     tbind (tnow E) (\<lambda>t'.
     tbind (must (partitioned_edge_iterator E G part numPartitions t')) (\<lambda>it.
     tbind (see_edges (en_pkg E) (map link_id (it_items linkIt)) (it_items it) seen) (\<lambda>seen'.
     tbind (iterator_done it) (\<lambda>_.
     tbind (iterate_edge_partitions E G numPartitions parts seen') (\<lambda>seen''.
     tbind (terror (it_close it \<noteq> None)) (\<lambda>_. treturn seen''))))))))"

definition iterate_partitioned_edges :: "bench_env \<Rightarrow> 's graph_impl \<Rightarrow> nat \<Rightarrow> ('s, nat) test" where
  "iterate_partitioned_edges E G numPartitions =
     tbind (iterate_edge_partitions E G numPartitions [0..<numPartitions] []) (\<lambda>seen. treturn (length seen))"

definition test_partitioned_edge_iterators :: "bench_env \<Rightarrow> 's graph_impl \<Rightarrow> ('s, unit) test" where
  "test_partitioned_edge_iterators E G =
     tbind (insert_links E G 200) (\<lambda>linkUUIDs.
     tbind (insert_edges E G linkUUIDs [0..<100]) (\<lambda>_.
     tbind (iterate_partitioned_edges E G 10) (\<lambda>count.
     tbind (terror (count \<noteq> 100)) (\<lambda>_.
     tbind (iterate_partitioned_edges E G 11) (\<lambda>count'.
     terror (count' \<noteq> 100))))))"

fun count_remaining :: "uuid list \<Rightarrow> edge list \<Rightarrow> nat \<Rightarrow> ('s, nat) test" where
  "count_remaining gone [] seen = treturn seen"
| "count_remaining gone (e # es) seen =
     tbind (terror (edge_id e \<in> set gone)) (\<lambda>_. count_remaining gone es (Suc seen))"

definition test_remove_stale_edges :: "bench_env \<Rightarrow> 's graph_impl \<Rightarrow> ('s, unit) test" where
  "test_remove_stale_edges E G =
     tbind (insert_links E G 400) (\<lambda>linkUUIDs.
     tbind (insert_edges E G linkUUIDs [0..<100]) (\<lambda>firsts.
     let deleteBefore = edge_updated_at (last firsts) + millisecond in
     tbind (tsleep millisecond) (\<lambda>_.
     tbind (insert_edges E G linkUUIDs [101..<201]) (\<lambda>_.
     tbind (call_remove_stale_edges G (linkUUIDs ! 0) deleteBefore) (\<lambda>r.
     tbind (terror (r \<noteq> None)) (\<lambda>_.
     tbind (tsleep millisecond) (\<lambda>_.
     tbind (tnow E) (\<lambda>t.
     tbind (must (partitioned_edge_iterator E G 0 1 t)) (\<lambda>it.
     tbind (count_remaining (map edge_id firsts) (it_items it) 0) (\<lambda>seen.
     tbind (terror (seen \<noteq> 100)) (\<lambda>_.
     terror (it_close it \<noteq> None))))))))))))"

section \<open>The suite\<close>

definition suite_tests :: "(string \<times> (bench_env \<Rightarrow> 's graph_impl \<Rightarrow> ('s, unit) test)) list" where
  "suite_tests =
     [(''Upsert link'', test_upsert_link),
      (''Find link'', test_find_link),
      (''Concurrent link iterators'', test_concurrent_link_iterators),
      (''Link iterator time filter'', test_link_iterator_time_filter),
      (''Partitioned link iterators'', test_partitioned_link_iterators),
      (''Upsert edge'', test_upsert_edge),
      (''Concurrent edge iterators'', test_concurrent_edge_iterators),
      (''Edge iterator time filter'', test_edge_iterator_time_filter),
      (''Partitioned edge iterators'', test_partitioned_edge_iterators),
      (''Remove stale edges'', test_remove_stale_edges)]"

text \<open>
  The names of the tests that fail; \<open>before_each\<close> is the hook that prepares the store.  The
  hook that runs after a test is the empty one, as no implementation sets it.
\<close>

fun run_suite ::
  "bench_env \<Rightarrow> 's graph_impl \<Rightarrow> ('s \<Rightarrow> 's) \<Rightarrow> (string \<times> (bench_env \<Rightarrow> 's graph_impl \<Rightarrow> ('s, unit) test)) list \<Rightarrow>
   's bench \<Rightarrow> string list \<times> 's bench" where
  "run_suite E G before_each [] b = ([], b)"
| "run_suite E G before_each ((nm, test) # tests) b =
     (case test E G (b\<lparr>be_store := before_each (be_store b)\<rparr>) of
        (v, b') \<Rightarrow>
          (case run_suite E G before_each tests b' of
             (failed, b'') \<Rightarrow> (if v = Passing () then failed else nm # failed, b'')))"

end
