(* ===== verification/GraphSuiteProps.thy ===== *)
theory GraphSuiteProps
  imports GraphSuite InMemGraph CdbGraph
begin

text \<open>
  The partitions of the acceptance suite, and the contract of a link graph that can be read: the
  locale \<open>readable_graph\<close>, which extends \<open>link_graph_store\<close> by looking up and listing.  Inside the
  locale, one rule per operation of the interface.
\<close>

lemma passes_tnow [test_simps]:
  "passes (tnow E) Q b \<longleftrightarrow>
    Q (be_now b + 1 + int (en_lag E (be_calls b)))
      (b\<lparr>be_now := be_now b + 1 + int (en_lag E (be_calls b)), be_calls := Suc (be_calls b)\<rparr>)"
  by (simp only: tnow_def passes_tclock)

section \<open>The suite's partitions\<close>

definition suite_part :: "nat \<Rightarrow> nat" where
  "suite_part n = (2 ^ 128 - 1) div n"

definition suite_bounds :: "nat \<Rightarrow> uuid list" where
  "suite_bounds n = map (\<lambda>p. of_nat (suite_part n * p)) [0..<n] @ [uuid_max]"

lemma suite_size:
  assumes "1 \<le> n" "n \<le> 255"
  shows "2 ^ 120 \<le> suite_part n"
proof -
  have "(2 ^ 120 :: nat) \<le> (2 ^ 128 - 1) div 255" by simp
  also have "\<dots> \<le> (2 ^ 128 - 1) div n" using assms by (intro div_le_mono2) auto
  finally show ?thesis by (simp only: suite_part_def)
qed

lemma suite_part_pos: "1 \<le> n \<Longrightarrow> n \<le> 255 \<Longrightarrow> 0 < suite_part n"
  using less_le_trans [OF _ suite_size, of 0 n] by simp

lemma suite_bound_less:
  assumes "1 \<le> n" "n \<le> 255" "p < n"
  shows "suite_part n * p < 2 ^ 128 - 1"
proof -
  have "suite_part n * p < suite_part n * n" using assms suite_part_pos by simp
  also have "\<dots> \<le> 2 ^ 128 - 1" unfolding suite_part_def by (rule div_times_less_eq_dividend)
  finally show ?thesis .
qed

lemma suite_uuid_ok:
  assumes "uuid_pkg_ok L" "1 \<le> n" "n \<le> 255" "0 < p" "p < n"
  shows "suite_uuid L (suite_part n * p) = Returns (of_nat (suite_part n * p))"
proof -
  have "2 ^ 120 \<le> suite_part n * 1" using suite_size [OF assms(2,3)] by simp
  also have "\<dots> \<le> suite_part n * p" using assms(4) by (intro mult_le_mono2) simp
  finally have "2 ^ 120 \<le> suite_part n * p" .
  moreover have "suite_part n * p < 2 ^ 128" using suite_bound_less [OF assms(2,3,5)] by linarith
  ultimately have "length (big_bytes (suite_part n * p)) = 16" by (simp only: length_big_bytes_16)
  then show ?thesis by (simp add: suite_uuid_def uuid_pkg_from_bytes(1) [OF assms(1)] uuid_of_bytes_def del: of_nat_mult)
qed

lemma partition_range_bounds:
  assumes L: "uuid_pkg_ok L" and n: "1 \<le> n" "n \<le> 255" and p: "p < n"
  shows "partition_range L p n = Returns (suite_bounds n ! p, suite_bounds n ! Suc p)"
proof -
  have max: "up_parse L ''ffffffff-ffff-ffff-ffff-ffffffffffff'' = Inr uuid_max"
    using uuid_pkg_parse [OF L, of uuid_max] by (simp add: uuid_max_text [symmetric] del: uuid_text_inj)
  have size: "unat uuid_max div n = suite_part n" unfolding unat_uuid_max suite_part_def ..
  have "(if p = 0 then Returns uuid_nil else suite_uuid L (unat uuid_max div n * p)) = Returns (suite_bounds n ! p)"
    unfolding size using p suite_uuid_ok [OF L n, of p] by (simp add: suite_bounds_def nth_append)
  moreover have "(if p = n - 1 then Returns uuid_max else suite_uuid L (unat uuid_max div n * (p + 1))) =
      Returns (suite_bounds n ! Suc p)"
    unfolding size using p suite_uuid_ok [OF L n, of "p + 1"] by (auto simp: suite_bounds_def nth_append algebra_simps)
  ultimately show ?thesis using p by (simp only: partition_range_def max Let_def big_set_bytes_uuid) simp
qed

lemma suite_bounds_tile:
  assumes "1 \<le> n" "n \<le> 255" "u < uuid_max"
  shows "\<exists>!p. p < n \<and> suite_bounds n ! p \<le> u \<and> u < suite_bounds n ! Suc p"
proof -
  have u: "unat (of_nat (suite_part n * p) :: uuid) = suite_part n * p" if "p < n" for p
    using suite_bound_less [OF assms(1,2) that] by (intro unat_of_nat_uuid) linarith
  have "(of_nat (suite_part n * p) :: uuid) < of_nat (suite_part n * q)" if "p < q" "q < n" for p q
    using that suite_part_pos [OF assms(1,2)] by (simp add: word_less_nat_alt u del: of_nat_mult)
  then have "sorted_wrt (<) (map (\<lambda>p. of_nat (suite_part n * p) :: uuid) [0..<n])"
    unfolding sorted_wrt_iff_nth_less by (simp del: of_nat_mult)
  moreover have "(of_nat (suite_part n * p) :: uuid) < uuid_max" if "p < n" for p
    unfolding word_less_nat_alt u [OF that] unat_uuid_max by (rule suite_bound_less [OF assms(1,2) that])
  ultimately have sorted: "sorted_wrt (<) (suite_bounds n)"
    by (auto simp: suite_bounds_def sorted_wrt_append simp del: of_nat_mult)
  have "hd (suite_bounds n) = uuid_nil" using assms(1) by (simp add: suite_bounds_def hd_append upt_rec)
  then have "\<exists>!p. Suc p < length (suite_bounds n) \<and> suite_bounds n ! p \<le> u \<and> u < suite_bounds n ! Suc p"
    using assms(3) by (intro sorted_tiles [OF sorted]) (simp_all add: suite_bounds_def)
  then show ?thesis by (simp add: suite_bounds_def)
qed

text \<open>Belonging to the p-th of n partitions; every identifier but the last belongs to one.\<close>

definition in_part :: "nat \<Rightarrow> nat \<Rightarrow> uuid \<Rightarrow> bool" where
  "in_part n p u \<longleftrightarrow> suite_bounds n ! p \<le> u \<and> u < suite_bounds n ! Suc p"

lemma in_part_unique: "1 \<le> n \<Longrightarrow> n \<le> 255 \<Longrightarrow> u < uuid_max \<Longrightarrow> \<exists>!p. p < n \<and> in_part n p u"
  unfolding in_part_def by (rule suite_bounds_tile)

lemma in_part_one: "u < uuid_max \<Longrightarrow> in_part 1 0 u"
  using in_part_unique [of 1 u] by auto

section \<open>The contract, with reading\<close>

definition bench_env_ok :: "bench_env \<Rightarrow> bool" where
  "bench_env_ok E \<longleftrightarrow> uuid_pkg_ok (en_pkg E) \<and>
     (\<forall>k. 1000 \<le> card (set (en_draws E k)) \<and> en_lag E k < 3600 * 1000000000 \<and>
       uuid_nil \<notin> set (en_draws E k) \<and> uuid_max \<notin> set (en_draws E k) \<and> en_new_uuid E \<notin> set (en_draws E k))"

locale readable_graph = link_graph_store +
  fixes find_link :: "uuid \<Rightarrow> 'a \<Rightarrow> link outcome"
    and links :: "uuid \<Rightarrow> uuid \<Rightarrow> go_time \<Rightarrow> 'a \<Rightarrow> go_error + link api_iterator"
    and edges :: "uuid \<Rightarrow> uuid \<Rightarrow> go_time \<Rightarrow> 'a \<Rightarrow> go_error + edge api_iterator"
  assumes find_link_known: "inv s \<Longrightarrow> st_links (abs s) i = Some l \<Longrightarrow> find_link i s = Returns l"
    and find_link_unknown: "inv s \<Longrightarrow> st_links (abs s) i = None \<Longrightarrow>
      \<exists>err. find_link i s = Fails err \<and> errors_is err GraphErrNotFound"
    and upsert_link_time: "inv s \<Longrightarrow> upsert_link draws x s = Some (Returns y, s') \<Longrightarrow>
      (\<forall>i. \<not> has_url (abs s) i (link_url x)) \<Longrightarrow> link_retrieved_at y = link_retrieved_at x"
    and upsert_edge_result: "inv s \<Longrightarrow> upsert_edge draws now e s = Some (Returns e', s') \<Longrightarrow>
      edge_src e' = edge_src e \<and> edge_dst e' = edge_dst e \<and> edge_updated_at e' = now"
    and links_spec: "inv s \<Longrightarrow> \<exists>ls. links f t b s = Inr \<lparr>it_items = ls, it_error = None, it_close = None\<rparr> \<and> distinct ls \<and>
      set ls = {l. \<exists>i. st_links (abs s) i = Some l \<and> f \<le> i \<and> i < t \<and> link_retrieved_at l < b}"
    and edges_spec: "inv s \<Longrightarrow> \<exists>es. edges f t b s = Inr \<lparr>it_items = es, it_error = None, it_close = None\<rparr> \<and> distinct es \<and>
      set es = {e. \<exists>i. st_edges (abs s) i = Some e \<and> f \<le> edge_src e \<and> edge_src e < t \<and> edge_updated_at e < b}"
begin

definition impl :: "'a graph_impl" where
  "impl = \<lparr>gi_upsert_link = upsert_link, gi_find_link = find_link, gi_upsert_edge = upsert_edge,
     gi_remove_stale_edges = remove_stale_edges, gi_links = links, gi_edges = edges\<rparr>"

text \<open>The bench after some calls: the store holds these links and edges and nothing else.\<close>

definition holds :: "bench_env \<Rightarrow> link list \<Rightarrow> edge list \<Rightarrow> 'a bench \<Rightarrow> bool" where
  "holds E ls es b \<longleftrightarrow> inv (be_store b) \<and> 0 \<le> be_now b \<and>
     distinct (map link_id ls) \<and> distinct (map edge_id es) \<and>
     (\<forall>i l. st_links (abs (be_store b)) i = Some l \<longleftrightarrow> l \<in> set ls \<and> link_id l = i) \<and>
     (\<forall>i e. st_edges (abs (be_store b)) i = Some e \<longleftrightarrow> e \<in> set es \<and> edge_id e = i) \<and>
     (\<forall>l \<in> set ls. link_id l \<noteq> uuid_nil \<and> link_id l \<noteq> uuid_max \<and> link_id l \<noteq> en_new_uuid E)"

lemma holds_inv: "holds E ls es b \<Longrightarrow> inv (be_store b)"
  by (simp add: holds_def)

lemma holds_links: "holds E ls es b \<Longrightarrow> st_links (abs (be_store b)) i = Some l \<longleftrightarrow> l \<in> set ls \<and> link_id l = i"
  by (simp add: holds_def)

lemma holds_edges: "holds E ls es b \<Longrightarrow> st_edges (abs (be_store b)) i = Some e \<longleftrightarrow> e \<in> set es \<and> edge_id e = i"
  by (simp add: holds_def)

lemma holds_ids: "holds E ls es b \<Longrightarrow> l \<in> set ls \<Longrightarrow> link_id l \<noteq> uuid_nil \<and> link_id l \<noteq> uuid_max \<and> link_id l \<noteq> en_new_uuid E"
  by (simp add: holds_def)

lemma holds_distinct: "holds E ls es b \<Longrightarrow> distinct (map link_id ls) \<and> distinct (map edge_id es)"
  by (simp add: holds_def)

lemma holds_later: "holds E ls es b \<Longrightarrow> be_now b \<le> t \<Longrightarrow> holds E ls es (b\<lparr>be_now := t, be_calls := k\<rparr>)"
  by (auto simp: holds_def)

lemma dom_holds:
  assumes "holds E ls es b"
  shows "dom (st_links (abs (be_store b))) = link_id ` set ls" and "dom (st_edges (abs (be_store b))) = edge_id ` set es"
  using assms by (force simp: holds_def dom_def)+

lemma has_url_holds: "holds E ls es b \<Longrightarrow> has_url (abs (be_store b)) i u \<longleftrightarrow> (\<exists>l \<in> set ls. link_id l = i \<and> link_url l = u)"
  by (auto simp: has_url_def holds_def)

lemma has_edge_holds:
  "holds E ls es b \<Longrightarrow> has_edge (abs (be_store b)) i s d \<longleftrightarrow> (\<exists>e \<in> set es. edge_id e = i \<and> edge_src e = s \<and> edge_dst e = d)"
  by (auto simp: has_edge_def holds_def)

text \<open>Draws hold an identifier that is not in use.\<close>

lemma unused_draw:
  assumes "bench_env_ok E" "finite A" "card A < 1000"
  shows "\<exists>d \<in> set (en_draws E k). d \<notin> A"
proof (rule ccontr)
  assume "\<not> ?thesis"
  then have "set (en_draws E k) \<subseteq> A" by blast
  then have "card (set (en_draws E k)) \<le> card A" using assms(2) by (rule card_mono [rotated])
  then show False using assms(1,3) by (metis bench_env_ok_def leD le_trans)
qed

lemma few: "length xs < 1000 \<Longrightarrow> card (f ` set xs) < 1000"
  using card_image_le [of "set xs" f] card_length [of xs] by simp

text \<open>Inserting a link with a new URL.\<close>

lemma passes_insert_link:
  assumes E: "bench_env_ok E" and b: "holds E ls es b" "length ls < 1000"
    and new: "link_url x \<notin> link_url ` set ls"
    and Q: "\<And>y b'. link_url y = link_url x \<Longrightarrow> link_retrieved_at y = link_retrieved_at x \<Longrightarrow>
      holds E (ls @ [y]) es b' \<Longrightarrow> be_now b' = be_now b \<Longrightarrow> link_id y \<noteq> uuid_nil \<Longrightarrow> Q y b'"
  shows "passes (must (call_upsert_link E impl x)) Q b"
proof -
  let ?s = "be_store b"
  let ?draws = "en_draws E (be_calls b)"
  note inv = holds_inv [OF b(1)]
  have none: "\<forall>i. \<not> has_url (abs ?s) i (link_url x)" unfolding has_url_holds [OF b(1)] using new by (metis imageI)
  have "\<exists>d \<in> set ?draws. d \<notin> link_id ` set ls" by (rule unused_draw [OF E]) (simp_all add: few b(2))
  then obtain r s' where run: "upsert_link ?draws x ?s = Some (r, s')"
    using upsert_link_returns [OF inv, of x ?draws] dom_holds(1) [OF b(1)] by auto
  from upsert_link_spec [OF inv run] obtain y where y: "r = Returns y" "inv s'" "link_url y = link_url x"
    "abs s' = put_link (link_id y) x (abs ?s)" "link_id y \<in> set ?draws" "link_id y \<notin> link_id ` set ls"
    using none dom_holds(1) [OF b(1)] by auto
  have fresh: "\<forall>l \<in> set ls. link_id l \<noteq> link_id y" using y(6) by (metis imageI)
  have time: "link_retrieved_at y = link_retrieved_at x" by (rule upsert_link_time [OF inv run [unfolded y(1)] none])
  let ?b' = "b\<lparr>be_store := s', be_calls := Suc (be_calls b)\<rparr>"
  have "x\<lparr>link_id := link_id y\<rparr> = y" using y(3) time by simp
  moreover have "st_links (abs ?s) (link_id y) = None" using y(6) dom_holds(1) [OF b(1)] by blast
  ultimately have st: "st_links (abs s') j = (if j = link_id y then Some y else st_links (abs ?s) j)" for j
    unfolding y(4) by (simp add: store_simps flip: time)
  have "link_id y \<noteq> uuid_nil \<and> link_id y \<noteq> uuid_max \<and> link_id y \<noteq> en_new_uuid E"
    using E y(5) unfolding bench_env_ok_def by metis
  moreover have "holds E (ls @ [y]) es ?b'"
    unfolding holds_def
  proof (intro conjI allI)
    show "st_links (abs (be_store ?b')) i = Some l \<longleftrightarrow> l \<in> set (ls @ [y]) \<and> link_id l = i" for i l
      using b(1) fresh by (auto simp: st holds_def)
    show "st_edges (abs (be_store ?b')) i = Some e \<longleftrightarrow> e \<in> set es \<and> edge_id e = i" for i e
      using b(1) by (simp add: y(4) store_simps holds_def)
  qed (use b(1) y(2,6) calculation in \<open>auto simp: holds_def\<close>)
  ultimately have "Q y ?b'" using y(3) time by (intro Q) simp_all
  then show ?thesis
    by (simp add: passes_must) (simp add: passes_def call_upsert_link_def impl_def run y(1))
qed

text \<open>Upserting the only link of the store again.\<close>

lemma passes_update_link:
  assumes b: "holds E [l] es b" and url: "link_url x = link_url l"
    and Q: "\<And>y b'. link_id y = link_id l \<Longrightarrow> link_url y = link_url l \<Longrightarrow> be_now b' = be_now b \<Longrightarrow>
      holds E [l\<lparr>link_retrieved_at := max (link_retrieved_at l) (link_retrieved_at x)\<rparr>] es b' \<Longrightarrow> Q y b'"
  shows "passes (must (call_upsert_link E impl x)) Q b"
proof -
  let ?s = "be_store b" and ?l = "l\<lparr>link_retrieved_at := max (link_retrieved_at l) (link_retrieved_at x)\<rparr>"
  let ?draws = "en_draws E (be_calls b)"
  note inv = holds_inv [OF b]
  have known: "has_url (abs ?s) i (link_url x) \<longleftrightarrow> i = link_id l" for i using url by (auto simp: has_url_holds [OF b])
  then obtain r s' where run: "upsert_link ?draws x ?s = Some (r, s')"
    using upsert_link_returns [OF inv, of x ?draws] by auto
  from upsert_link_spec [OF inv run] known obtain y where y: "r = Returns y" "inv s'" "link_url y = link_url x"
    "abs s' = put_link (link_id y) x (abs ?s)" "link_id y = link_id l" by blast
  let ?b' = "b\<lparr>be_store := s', be_calls := Suc (be_calls b)\<rparr>"
  have "st_links (abs ?s) (link_id l) = Some l" using b by (simp add: holds_def)
  moreover have "x\<lparr>link_id := link_id l, link_retrieved_at := t\<rparr> = l\<lparr>link_retrieved_at := t\<rparr>" for t
    using url by (cases x; cases l) simp
  ultimately have st: "st_links (abs s') j = (if j = link_id l then Some ?l else st_links (abs ?s) j)" for j
    unfolding y(4,5) by (simp add: store_simps)
  have "holds E [?l] es ?b'"
    unfolding holds_def
  proof (intro conjI allI)
    show "st_links (abs (be_store ?b')) i = Some m \<longleftrightarrow> m \<in> set [?l] \<and> link_id m = i" for i m
      using b by (auto simp: st holds_def)
    show "st_edges (abs (be_store ?b')) i = Some e \<longleftrightarrow> e \<in> set es \<and> edge_id e = i" for i e
      using b by (simp add: y(4) store_simps holds_def)
  qed (use b y(2) in \<open>auto simp: holds_def\<close>)
  then have "Q y ?b'" using y(3,5) url by (intro Q) simp_all
  then show ?thesis
    by (simp add: passes_must) (simp add: passes_def call_upsert_link_def impl_def run y(1))
qed

text \<open>Looking a link up.\<close>

lemma passes_find_link:
  assumes b: "holds E ls es b" and l: "l \<in> set ls" and Q: "Q l b"
  shows "passes (must (call_find_link impl (link_id l))) Q b"
proof -
  have "st_links (abs (be_store b)) (link_id l) = Some l" using l by (simp add: holds_links [OF b])
  from find_link_known [OF holds_inv [OF b] this] show ?thesis
    using Q by (simp add: passes_must) (simp add: passes_def call_find_link_def impl_def)
qed

lemma passes_find_nil:
  assumes b: "holds E ls es b" and Q: "\<And>err. errors_is err GraphErrNotFound \<Longrightarrow> Q (Inl err) b"
  shows "passes (call_find_link impl uuid_nil) Q b"
proof -
  have "st_links (abs (be_store b)) uuid_nil = None"
    using holds_links [OF b, of uuid_nil] holds_ids [OF b] by (metis not_None_eq)
  from find_link_unknown [OF holds_inv [OF b] this] obtain err where
    "find_link uuid_nil (be_store b) = Fails err" "errors_is err GraphErrNotFound" by blast
  then show ?thesis using Q [of err] by (simp add: passes_def call_find_link_def impl_def)
qed

text \<open>Upserting edges; the clock moves on.\<close>

lemma passes_insert_edge:
  assumes E: "bench_env_ok E" and b: "holds E ls es b" "length es < 1000"
    and ends: "src \<in> link_id ` set ls" "dst \<in> link_id ` set ls"
    and new: "\<forall>e \<in> set es. (edge_src e, edge_dst e) \<noteq> (src, dst)"
    and Q: "\<And>y b'. edge_src y = src \<Longrightarrow> edge_dst y = dst \<Longrightarrow> edge_updated_at y = be_now b' \<Longrightarrow> be_now b < be_now b' \<Longrightarrow>
      holds E ls (es @ [y]) b' \<Longrightarrow> edge_id y \<noteq> uuid_nil \<Longrightarrow> Q y b'"
  shows "passes (must (call_upsert_edge E impl (new_edge src dst))) Q b"
proof -
  let ?s = "be_store b" and ?x = "new_edge src dst"
  define now where "now = be_now b + 1 + int (en_lag E (be_calls b))"
  let ?draws = "en_draws E (Suc (be_calls b))"
  note inv = holds_inv [OF b(1)]
  have x: "edge_src ?x = src" "edge_dst ?x = dst" by (simp_all add: new_edge_def)
  have dom: "edge_src ?x \<in> dom (st_links (abs ?s))" "edge_dst ?x \<in> dom (st_links (abs ?s))"
    unfolding x dom_holds(1) [OF b(1)] by (rule ends)+
  have none: "\<forall>i. \<not> has_edge (abs ?s) i (edge_src ?x) (edge_dst ?x)" using new by (auto simp: x has_edge_holds [OF b(1)])
  have "\<exists>d \<in> set ?draws. d \<notin> edge_id ` set es" by (rule unused_draw [OF E]) (simp_all add: few b(2))
  then obtain r s' where run: "upsert_edge ?draws now ?x ?s = Some (r, s')"
    using upsert_edge_returns [OF inv dom, of ?draws now] dom_holds(2) [OF b(1)] by auto
  from upsert_edge_spec [OF inv dom run] obtain y where y: "r = Returns y" "inv s'"
    "abs s' = put_edge (edge_id y) src dst now (abs ?s)" "edge_id y \<in> set ?draws" "edge_id y \<notin> edge_id ` set es"
    using none dom_holds(2) [OF b(1)] unfolding x by auto
  have fresh: "\<forall>e \<in> set es. edge_id e \<noteq> edge_id y" using y(5) by (metis imageI)
  have res: "edge_src y = src" "edge_dst y = dst" "edge_updated_at y = now"
    using upsert_edge_result [OF inv run [unfolded y(1)]] x by simp_all
  then have "\<lparr>edge_id = edge_id y, edge_src = src, edge_dst = dst, edge_updated_at = now\<rparr> = y" by (cases y) simp
  then have st: "st_edges (abs s') j = (if j = edge_id y then Some y else st_edges (abs ?s) j)" for j
    unfolding y(3) by (simp add: store_simps)
  let ?b' = "b\<lparr>be_now := now, be_calls := Suc (be_calls b), be_store := s'\<rparr>"
  have "be_now b < now" by (simp add: now_def)
  moreover have "holds E ls (es @ [y]) ?b'"
    unfolding holds_def
  proof (intro conjI allI)
    show "st_edges (abs (be_store ?b')) i = Some e \<longleftrightarrow> e \<in> set (es @ [y]) \<and> edge_id e = i" for i e
      using b(1) fresh by (auto simp: st holds_def)
    show "st_links (abs (be_store ?b')) i = Some l \<longleftrightarrow> l \<in> set ls \<and> link_id l = i" for i l
      using b(1) by (simp add: y(3) store_simps holds_def)
  qed (use b(1) y(2,5) calculation in \<open>auto simp: holds_def\<close>)
  moreover have "edge_id y \<noteq> uuid_nil" using E y(4) unfolding bench_env_ok_def by metis
  ultimately have "Q y ?b'" using res by (intro Q) simp_all
  then show ?thesis
    by (simp add: call_upsert_edge_def test_simps)
      (simp add: passes_def impl_def run y(1) flip: now_def)
qed

lemma passes_update_edge:
  assumes b: "holds E ls [e] b" and x: "edge_src x = edge_src e" "edge_dst x = edge_dst e"
    and Q: "\<And>y b'. edge_id y = edge_id e \<Longrightarrow> edge_updated_at y = be_now b' \<Longrightarrow> be_now b < be_now b' \<Longrightarrow>
      holds E ls [y] b' \<Longrightarrow> Q y b'"
  shows "passes (must (call_upsert_edge E impl x)) Q b"
proof -
  let ?s = "be_store b"
  define now where "now = be_now b + 1 + int (en_lag E (be_calls b))"
  let ?draws = "en_draws E (Suc (be_calls b))"
  note inv = holds_inv [OF b]
  have st: "st_edges (abs ?s) (edge_id e) = Some e" using b by (simp add: holds_def)
  have dom: "edge_src x \<in> dom (st_links (abs ?s))" "edge_dst x \<in> dom (st_links (abs ?s))"
    using store_okD(3,4) [OF abs_ok [OF inv] st] x by simp_all
  have known: "has_edge (abs ?s) i (edge_src x) (edge_dst x) \<longleftrightarrow> i = edge_id e" for i
    using x by (auto simp: has_edge_holds [OF b])
  then obtain r s' where run: "upsert_edge ?draws now x ?s = Some (r, s')"
    using upsert_edge_returns [OF inv dom, of ?draws now] by auto
  from upsert_edge_spec [OF inv dom run] known obtain y where y: "r = Returns y" "inv s'"
    "abs s' = put_edge (edge_id y) (edge_src e) (edge_dst e) now (abs ?s)" "edge_id y = edge_id e"
    unfolding x by auto
  have res: "edge_src y = edge_src e" "edge_dst y = edge_dst e" "edge_updated_at y = now"
    using upsert_edge_result [OF inv run [unfolded y(1)]] x by simp_all
  then have "\<lparr>edge_id = edge_id e, edge_src = edge_src e, edge_dst = edge_dst e, edge_updated_at = now\<rparr> = y"
    using y(4) by (cases y) simp
  then have st': "st_edges (abs s') j = (if j = edge_id e then Some y else st_edges (abs ?s) j)" for j
    unfolding y(3,4) by (simp add: store_simps)
  let ?b' = "b\<lparr>be_now := now, be_calls := Suc (be_calls b), be_store := s'\<rparr>"
  have "be_now b < now" by (simp add: now_def)
  moreover have "holds E ls [y] ?b'"
    unfolding holds_def
  proof (intro conjI allI)
    show "st_edges (abs (be_store ?b')) i = Some e' \<longleftrightarrow> e' \<in> set [y] \<and> edge_id e' = i" for i e'
      using b y(4) by (auto simp: st' holds_def)
    show "st_links (abs (be_store ?b')) i = Some l \<longleftrightarrow> l \<in> set ls \<and> link_id l = i" for i l
      using b by (simp add: y(3) store_simps holds_def)
  qed (use b y(2) calculation in \<open>auto simp: holds_def\<close>)
  ultimately have "Q y ?b'" using res y(4) by (intro Q) simp_all
  then show ?thesis
    by (simp add: call_upsert_edge_def test_simps)
      (simp add: passes_def impl_def run y(1) flip: now_def)
qed

lemma passes_edge_unknown:
  assumes b: "holds E ls es b"
    and Q: "\<And>err b'. errors_is err GraphErrUnknownEdgeLinks \<Longrightarrow> be_now b < be_now b' \<Longrightarrow> Q (Inl err) b'"
  shows "passes (call_upsert_edge E impl (new_edge src (en_new_uuid E))) Q b"
proof -
  let ?s = "be_store b" and ?x = "new_edge src (en_new_uuid E)"
  define now where "now = be_now b + 1 + int (en_lag E (be_calls b))"
  let ?draws = "en_draws E (Suc (be_calls b))"
  have "en_new_uuid E \<notin> link_id ` set ls" using holds_ids [OF b] by (metis imageE)
  then have "edge_dst ?x \<notin> dom (st_links (abs ?s))" unfolding dom_holds(1) [OF b] by (simp add: new_edge_def)
  from upsert_edge_unknown [OF holds_inv [OF b] disjI2 [OF this], of ?draws now] obtain err where
    "upsert_edge ?draws now ?x ?s = Some (Fails err, ?s)" "errors_is err GraphErrUnknownEdgeLinks" by blast
  then show ?thesis
    using Q [of err "b\<lparr>be_now := now, be_calls := Suc (be_calls b)\<rparr>"]
    by (simp add: call_upsert_edge_def test_simps) (simp add: passes_def impl_def now_def)
qed

lemma passes_remove_stale:
  assumes b: "holds E ls es b" and Q: "\<And>b'. holds E ls (filter (\<lambda>e. \<not> is_stale i t e) es) b' \<Longrightarrow> be_now b' = be_now b \<Longrightarrow> Q None b'"
  shows "passes (call_remove_stale_edges impl i t) Q b"
proof -
  let ?s = "be_store b"
  obtain s' where s': "remove_stale_edges i t ?s = (Returns (), s')" "inv s'" "abs s' = drop_stale i t (abs ?s)"
    using remove_stale_spec [OF holds_inv [OF b]] by blast
  let ?b' = "b\<lparr>be_store := s'\<rparr>"
  have "holds E ls (filter (\<lambda>e. \<not> is_stale i t e) es) ?b'"
    unfolding holds_def
  proof (intro conjI allI)
    show "st_edges (abs (be_store ?b')) j = Some e \<longleftrightarrow> e \<in> set (filter (\<lambda>e. \<not> is_stale i t e) es) \<and> edge_id e = j" for j e
      by (simp add: s'(3) store_simps holds_edges [OF b]) blast
    show "st_links (abs (be_store ?b')) j = Some l \<longleftrightarrow> l \<in> set ls \<and> link_id l = j" for j l
      by (simp add: s'(3) store_simps holds_links [OF b])
  qed (use b s'(2) in \<open>auto simp: holds_def distinct_map_filter\<close>)
  with Q [of ?b'] show ?thesis by (simp add: passes_def call_remove_stale_edges_def impl_def s'(1))
qed

text \<open>The iterators over a partition.\<close>

lemma passes_links:
  assumes E: "bench_env_ok E" and b: "holds E ls es b" and n: "1 \<le> n" "n \<le> 255" "p < n"
    and Q: "\<And>its. distinct its \<Longrightarrow> set its = {l \<in> set ls. in_part n p (link_id l) \<and> link_retrieved_at l < t} \<Longrightarrow>
      Q (Inr \<lparr>it_items = its, it_error = None, it_close = None\<rparr>) b"
  shows "passes (partitioned_link_iterator E impl p n t) Q b"
proof -
  have L: "uuid_pkg_ok (en_pkg E)" using E by (simp add: bench_env_ok_def)
  obtain its where its: "links (suite_bounds n ! p) (suite_bounds n ! Suc p) t (be_store b) =
      Inr \<lparr>it_items = its, it_error = None, it_close = None\<rparr>" "distinct its"
    "set its = {l. \<exists>i. st_links (abs (be_store b)) i = Some l \<and> suite_bounds n ! p \<le> i \<and>
       i < suite_bounds n ! Suc p \<and> link_retrieved_at l < t}"
    using links_spec [OF holds_inv [OF b]] by meson
  have "set its = {l \<in> set ls. in_part n p (link_id l) \<and> link_retrieved_at l < t}"
    unfolding its(3) holds_links [OF b] in_part_def by auto
  from Q [OF its(2) this] show ?thesis
    by (simp add: passes_def partitioned_link_iterator_def impl_def partition_range_bounds [OF L n] its(1))
qed

lemma passes_edges:
  assumes E: "bench_env_ok E" and b: "holds E ls es b" and n: "1 \<le> n" "n \<le> 255" "p < n"
    and Q: "\<And>its. distinct its \<Longrightarrow> set its = {e \<in> set es. in_part n p (edge_src e) \<and> edge_updated_at e < t} \<Longrightarrow>
      Q (Inr \<lparr>it_items = its, it_error = None, it_close = None\<rparr>) b"
  shows "passes (partitioned_edge_iterator E impl p n t) Q b"
proof -
  have L: "uuid_pkg_ok (en_pkg E)" using E by (simp add: bench_env_ok_def)
  obtain its where its: "edges (suite_bounds n ! p) (suite_bounds n ! Suc p) t (be_store b) =
      Inr \<lparr>it_items = its, it_error = None, it_close = None\<rparr>" "distinct its"
    "set its = {e. \<exists>i. st_edges (abs (be_store b)) i = Some e \<and> suite_bounds n ! p \<le> edge_src e \<and>
       edge_src e < suite_bounds n ! Suc p \<and> edge_updated_at e < t}"
    using edges_spec [OF holds_inv [OF b]] by meson
  have "set its = {e \<in> set es. in_part n p (edge_src e) \<and> edge_updated_at e < t}"
    unfolding its(3) holds_edges [OF b] in_part_def by auto
  from Q [OF its(2) this] show ?thesis
    by (simp add: passes_def partitioned_edge_iterator_def impl_def partition_range_bounds [OF L n] its(1))
qed

lemma holds_edge_src:
  assumes b: "holds E ls es b" and e: "e \<in> set es"
  shows "edge_src e \<in> link_id ` set ls"
proof -
  have "st_edges (abs (be_store b)) (edge_id e) = Some e" using e by (simp add: holds_edges [OF b])
  from store_okD(3) [OF abs_ok [OF holds_inv [OF b]] this] show ?thesis by (simp only: dom_holds(1) [OF b])
qed

end

end
