(* ===== verification/GraphSuiteTests.thy ===== *)
theory GraphSuiteTests
  imports GraphSuiteProps "HOL-Library.Multiset"
begin

text \<open>
  Rules for the loops of the acceptance suite, for every implementation of the contract:
  inserting links and edges, and iterating over the store as a whole and by partitions.
\<close>

section \<open>Collecting what iterators return\<close>

lemma passes_see_all:
  assumes "uuid_pkg_ok L" "distinct is" "\<forall>i \<in> set is. uuid_text i \<notin> set seen" "Q (rev (map uuid_text is) @ seen) b"
  shows "passes (see_all L is seen) Q b"
  using assms(2-)
proof (induction "is" arbitrary: seen)
  case (Cons i "is")
  have "passes (see_all L is (uuid_text i # seen)) Q b"
    by (rule Cons.IH) (use Cons.prems in auto)
  with Cons.prems show ?case by (simp add: test_simps uuid_pkg_string [OF assms(1)])
qed (simp add: test_simps)

lemma passes_see_edges:
  assumes "uuid_pkg_ok L" "distinct (map edge_id es)" "\<forall>e \<in> set es. uuid_text (edge_id e) \<notin> set seen"
    "\<forall>e \<in> set es. edge_src e \<in> set ls" "Q (rev (map (uuid_text \<circ> edge_id) es) @ seen) b"
  shows "passes (see_edges L ls es seen) Q b"
  using assms(2-)
proof (induction es arbitrary: seen)
  case (Cons e es)
  have "passes (see_edges L ls es (uuid_text (edge_id e) # seen)) Q b"
    by (rule Cons.IH) (use Cons.prems in \<open>auto simp: image_iff\<close>)
  with Cons.prems show ?case by (simp add: test_simps uuid_pkg_string [OF assms(1)])
qed (simp add: test_simps)

lemma passes_iterator_done:
  "it_error it = None \<Longrightarrow> it_close it = None \<Longrightarrow> Q () b \<Longrightarrow> passes (iterator_done it) Q b"
  by (simp add: iterator_done_def test_simps)

text \<open>The identifiers of what lies in some of the partitions.\<close>

definition seen_in :: "('x \<Rightarrow> uuid) \<Rightarrow> ('x \<Rightarrow> uuid) \<Rightarrow> nat \<Rightarrow> nat set \<Rightarrow> 'x list \<Rightarrow> string set" where
  "seen_in key idf n A xs = {uuid_text (idf x) | x. x \<in> set xs \<and> (\<exists>q \<in> A. in_part n q (key x))}"

lemma seen_in_step:
  assumes n: "1 \<le> n" "n \<le> 255" and A: "\<forall>q \<in> A. q < n" "p < n" "p \<notin> A"
    and xs: "distinct (map idf xs)" "\<forall>x \<in> set xs. key x < uuid_max"
    and its: "distinct its" "set its = {x \<in> set xs. in_part n p (key x)}"
    and seen: "distinct seen" "set seen = seen_in key idf n A xs"
  shows "distinct (map idf its)"
    and "\<forall>x \<in> set its. uuid_text (idf x) \<notin> set seen"
    and "distinct (rev (map uuid_text (map idf its)) @ seen)"
    and "set (rev (map uuid_text (map idf its)) @ seen) = seen_in key idf n (insert p A) xs"
proof -
  show ids: "distinct (map idf its)"
    using xs(1) its by (auto simp: distinct_map intro: inj_on_subset)
  show new: "\<forall>x \<in> set its. uuid_text (idf x) \<notin> set seen"
    unfolding seen(2)
  proof (intro ballI notI)
    fix x
    assume x: "x \<in> set its" and "uuid_text (idf x) \<in> seen_in key idf n A xs"
    then obtain y q where y: "y \<in> set xs" "idf y = idf x" "q \<in> A" "in_part n q (key y)" by (auto simp: seen_in_def)
    with x its xs(1) have "y = x" by (auto simp: distinct_map dest: inj_onD)
    with x its y A xs(2) in_part_unique [OF n, of "key x"] show False by blast
  qed
  show "distinct (rev (map uuid_text (map idf its)) @ seen)"
    using new ids seen(1) by (auto simp: distinct_map inj_on_def)
  show "set (rev (map uuid_text (map idf its)) @ seen) = seen_in key idf n (insert p A) xs"
    by (simp add: seen(2) its(2) seen_in_def) blast
qed

lemma card_seen_in:
  assumes "1 \<le> n" "n \<le> 255" "distinct (map idf xs)" "\<forall>x \<in> set xs. key x < uuid_max"
  shows "card (seen_in key idf n {..<n} xs) = length xs"
proof -
  have "seen_in key idf n {..<n} xs = uuid_text ` set (map idf xs)"
    using in_part_unique [OF assms(1,2)] assms(4) by (auto simp: seen_in_def) blast
  moreover have "inj_on uuid_text A" for A by (simp add: inj_on_def)
  ultimately show ?thesis using assms(3) by (metis card_image distinct_card length_map)
qed

lemma sort_ids_eq: "distinct xs \<Longrightarrow> distinct ys \<Longrightarrow> set xs = set ys \<Longrightarrow> uuid_pkg_ok L \<Longrightarrow>
  sort_key (up_string L) xs = sort_key (up_string L) ys"
  by (rule sort_key_eq_sort_key) (auto simp: set_eq_iff_mset_eq_distinct inj_on_def)

lemma dec_nat_inj:
  assumes "dec_nat i = dec_nat j" shows "i = j"
proof -
  have less: "i < 2 ^ (i + j)" "j < 2 ^ (i + j)"
    using less_exp [of i] less_exp [of j] power_increasing [of i "i + j" "2 :: nat"]
      power_increasing [of j "i + j" "2 :: nat"] by linarith+
  have "(i, None :: num_error option) = parse_uint (i + j) (dec_nat i)" by (rule parse_uint_dec_nat [OF less(1), symmetric])
  also have "\<dots> = (j, None)" unfolding assms by (rule parse_uint_dec_nat [OF less(2)])
  finally show ?thesis by simp
qed

section \<open>Rules for running a test\<close>

context readable_graph
begin

lemma passes_now:
  assumes E: "bench_env_ok E" and b: "holds E ls es b"
    and Q: "\<And>t b'. be_now b < t \<Longrightarrow> t \<le> be_now b + hours 1 \<Longrightarrow> be_now b' = t \<Longrightarrow> holds E ls es b' \<Longrightarrow> Q t b'"
  shows "passes (tnow E) Q b"
proof -
  have "en_lag E (be_calls b) < 3600 * 1000000000" using E by (simp add: bench_env_ok_def)
  then show ?thesis
    unfolding passes_tnow by (intro Q) (use holds_later [OF b] in \<open>simp_all add: hours_def\<close>)
qed

lemma passes_sleep:
  assumes b: "holds E ls es b" "0 \<le> d"
    and Q: "\<And>b'. be_now b' = be_now b + d \<Longrightarrow> holds E ls es b' \<Longrightarrow> Q () b'"
  shows "passes (tsleep d) Q b"
  using Q [of "b\<lparr>be_now := be_now b + d\<rparr>"] holds_later [OF b(1), of "be_now b + d" "be_calls b"] b(2)
  by (simp add: passes_tsleep)

lemma holds_now: "holds E ls es b \<Longrightarrow> 0 \<le> be_now b"
  by (simp add: holds_def)

lemma holds_id_less: "holds E ls es b \<Longrightarrow> l \<in> set ls \<Longrightarrow> link_id l < uuid_max"
  using holds_ids [of E ls es b l] word_order.not_eq_extremum [of "link_id l"] by simp

lemma passes_insert_links:
  assumes E: "bench_env_ok E" and b: "holds E [] [] b" and n: "n < 1000"
    and Q: "\<And>ls b'. length ls = n \<Longrightarrow> \<forall>l \<in> set ls. link_retrieved_at l = zero_time \<Longrightarrow>
      holds E ls [] b' \<Longrightarrow> Q (map link_id ls) b'"
  shows "passes (insert_links E impl n) Q b"
  unfolding insert_links_def
proof (rule passes_tmap [where P = "\<lambda>i as b'. \<exists>ls. as = map link_id ls \<and> map link_url ls = map dec_nat [0..<i] \<and>
      (\<forall>l \<in> set ls. link_retrieved_at l = zero_time) \<and> holds E ls [] b'"])
  fix i as b'
  assume i: "i < length [0..<n]" and "\<exists>ls. as = map link_id ls \<and> map link_url ls = map dec_nat [0..<i] \<and>
      (\<forall>l \<in> set ls. link_retrieved_at l = zero_time) \<and> holds E ls [] b'"
  then obtain ls where ls: "as = map link_id ls" "map link_url ls = map dec_nat [0..<i]"
    "\<forall>l \<in> set ls. link_retrieved_at l = zero_time" "holds E ls [] b'" by blast
  have len: "length ls = i" using arg_cong [OF ls(2), of length] by simp
  have new: "dec_nat i \<notin> link_url ` set ls"
    using arg_cong [OF ls(2), of set] by (auto dest: dec_nat_inj)
  show "passes (tbind (must (call_upsert_link E impl (new_link (dec_nat ([0..<n] ! i)) zero_time)))
      (\<lambda>y. treturn (link_id y)))
    (\<lambda>a b'. \<exists>ls. as @ [a] = map link_id ls \<and> map link_url ls = map dec_nat [0..<Suc i] \<and>
      (\<forall>l \<in> set ls. link_retrieved_at l = zero_time) \<and> holds E ls [] b') b'"
  proof (rule passes_bindI, rule passes_insert_link [OF E ls(4)], goal_cases)
    case (3 y b'')
    then have "as @ [link_id y] = map link_id (ls @ [y]) \<and> map link_url (ls @ [y]) = map dec_nat [0..<Suc i] \<and>
        (\<forall>l \<in> set (ls @ [y]). link_retrieved_at l = zero_time) \<and> holds E (ls @ [y]) [] b''"
      using ls i by (simp add: new_link_def)
    then show ?case unfolding passes_treturn by blast
  qed (use i n len new in \<open>simp_all add: new_link_def\<close>)
next
  fix as b'
  assume "\<exists>ls. as = map link_id ls \<and> map link_url ls = map dec_nat [0..<length [0..<n]] \<and>
      (\<forall>l \<in> set ls. link_retrieved_at l = zero_time) \<and> holds E ls [] b'"
  then obtain ls where ls: "as = map link_id ls" "map link_url ls = map dec_nat [0..<n]"
    "\<forall>l \<in> set ls. link_retrieved_at l = zero_time" "holds E ls [] b'" by auto
  moreover have "length ls = n" using arg_cong [OF ls(2), of length] by simp
  ultimately show "Q as b'" using Q [of ls b'] by simp
qed (use b in simp)

text \<open>Upserting edges from the first link to some of the others.\<close>

lemma passes_insert_edges:
  assumes E: "bench_env_ok E" and b: "holds E ls es b" and few: "length es + length ks < 1000"
    and ks: "distinct ks" "\<forall>k \<in> set ks. k < length ls" "ls \<noteq> []"
    and new: "\<forall>e \<in> set es. edge_dst e \<notin> (\<lambda>k. link_id (ls ! k)) ` set ks"
    and Q: "\<And>ys b'. map edge_dst ys = map (\<lambda>k. link_id (ls ! k)) ks \<Longrightarrow>
      \<forall>y \<in> set ys. edge_src y = link_id (ls ! 0) \<and> be_now b < edge_updated_at y \<and> edge_updated_at y \<le> be_now b' \<Longrightarrow>
      (ys \<noteq> [] \<longrightarrow> edge_updated_at (last ys) = be_now b') \<Longrightarrow> holds E ls (es @ ys) b' \<Longrightarrow> Q ys b'"
  shows "passes (insert_edges E impl (map link_id ls) ks) Q b"
proof -
  define P where "P i ys b' \<longleftrightarrow> map edge_dst ys = map (\<lambda>k. link_id (ls ! k)) (take i ks) \<and>
      (\<forall>y \<in> set ys. edge_src y = link_id (ls ! 0) \<and> be_now b < edge_updated_at y \<and> edge_updated_at y \<le> be_now b') \<and>
      (ys \<noteq> [] \<longrightarrow> edge_updated_at (last ys) = be_now b') \<and> holds E ls (es @ ys) b' \<and> be_now b \<le> be_now b'" for i ys b'
  show ?thesis
    unfolding insert_edges_def
  proof (rule passes_tmap [where P = P])
    fix i ys b'
    assume i: "i < length ks" "length ys = i" and P: "P i ys b'"
    then have h: "holds E ls (es @ ys) b'" and dsts: "map edge_dst ys = map (\<lambda>k. link_id (ls ! k)) (take i ks)"
      by (simp_all add: P_def)
    have k: "ks ! i < length ls" using ks(2) i(1) by simp
    have "link_id (ls ! (ks ! i)) \<notin> set (map edge_dst ys)"
    proof
      assume "link_id (ls ! (ks ! i)) \<in> set (map edge_dst ys)"
      then obtain j where j: "j < i" "link_id (ls ! (ks ! i)) = link_id (ls ! (ks ! j))"
        unfolding dsts using i(1) by (auto simp: in_set_conv_nth)
      then have "ks ! j < length ls" using ks(2) i(1) by simp
      then have "ks ! i = ks ! j"
        using holds_distinct [OF b] j(2) k by (metis length_map nth_eq_iff_index_eq nth_map)
      with j(1) i(1) ks(1) show False by (simp add: nth_eq_iff_index_eq)
    qed
    moreover have "link_id (ls ! (ks ! i)) \<notin> set (map edge_dst es)"
      using new i(1) by (metis (no_types, lifting) imageE imageI list.set_map nth_mem)
    ultimately have fresh: "\<forall>e \<in> set (es @ ys). (edge_src e, edge_dst e) \<noteq> (map link_id ls ! 0, map link_id ls ! (ks ! i))"
      using k by (auto simp: image_iff)
    show "passes (must (call_upsert_edge E impl (new_edge (map link_id ls ! 0) (map link_id ls ! (ks ! i)))))
        (\<lambda>y. P (Suc i) (ys @ [y])) b'"
    proof (rule passes_insert_edge [OF E h _ _ _ fresh], goal_cases)
      case (4 y b'')
      then show ?case using P i k ks(3) unfolding P_def by (auto simp: take_Suc_conv_app_nth)
    qed (use i few k ks(3) in simp_all)
  next
    show "P 0 [] b" using b by (simp add: P_def)
  next
    fix ys b'
    assume "P (length ks) ys b'"
    then show "Q ys b'" by (intro Q) (auto simp: P_def)
  qed
qed

text \<open>Iterating over the whole store, and partition by partition.\<close>

lemma passes_link_iteration:
  assumes E: "bench_env_ok E" and b: "holds E ls es b" and zero: "\<forall>l \<in> set ls. link_retrieved_at l = zero_time"
    and Q: "\<And>b'. be_now b \<le> be_now b' \<Longrightarrow> holds E ls es b' \<Longrightarrow> Q () b'"
  shows "passes (link_iteration E impl (length ls)) Q b"
  unfolding link_iteration_def
proof (rule passes_bindI, rule passes_now [OF E b], goal_cases)
  case (1 t b1)
  have L: "uuid_pkg_ok (en_pkg E)" using E by (simp add: bench_env_ok_def)
  show ?case
  proof (rule passes_bindI, rule passes_links [OF E 1(4)], goal_cases)
    case (4 its)
    have "set its = set ls"
      using holds_id_less [OF 1(4)] zero 1(1) holds_now [OF b] in_part_one by (auto simp: 4(2) zero_time_def)
    moreover from this 4(1) have "length its = length ls"
      using holds_distinct [OF 1(4)] by (metis distinct_card distinct_map)
    moreover have "distinct (map link_id its)"
      using holds_distinct [OF 1(4)] 4(1) calculation(1) by (simp add: distinct_map)
    ultimately show ?case
      using Q [of b1] 1 by (simp del: see_all.simps) (rule passes_bindI, rule passes_see_all [OF L],
        simp_all add: test_simps iterator_done_def)
  qed simp_all
qed

lemma passes_edge_iteration:
  assumes E: "bench_env_ok E" and b: "holds E ls es b" and old: "\<forall>e \<in> set es. edge_updated_at e \<le> be_now b"
    and Q: "\<And>b'. be_now b \<le> be_now b' \<Longrightarrow> holds E ls es b' \<Longrightarrow> Q () b'"
  shows "passes (edge_iteration E impl (length es)) Q b"
  unfolding edge_iteration_def
proof (rule passes_bindI, rule passes_now [OF E b], goal_cases)
  case (1 t b1)
  have L: "uuid_pkg_ok (en_pkg E)" using E by (simp add: bench_env_ok_def)
  have src: "edge_src e < uuid_max" if "e \<in> set es" for e
    using holds_edge_src [OF 1(4) that] holds_id_less [OF 1(4)] by auto
  show ?case
  proof (rule passes_bindI, rule passes_edges [OF E 1(4)], goal_cases)
    case (4 its)
    have "set its = set es" using src old 1(1) in_part_one by (auto simp: 4(2))
    moreover from this 4(1) have "length its = length es"
      using holds_distinct [OF 1(4)] by (metis distinct_card distinct_map)
    moreover have "distinct (map edge_id its)"
      using holds_distinct [OF 1(4)] 4(1) calculation(1) by (simp add: distinct_map)
    ultimately show ?case
      using Q [of b1] 1 by (simp del: see_all.simps) (rule passes_bindI, rule passes_see_all [OF L],
        simp_all add: test_simps iterator_done_def)
  qed simp_all
qed

lemma passes_link_partitions:
  assumes E: "bench_env_ok E" and zero: "\<forall>l \<in> set ls. link_retrieved_at l = zero_time"
    and n: "1 \<le> n" "n \<le> 255"
    and Q: "\<And>seen b'. distinct seen \<Longrightarrow> set seen = seen_in link_id link_id n (A \<union> set parts) ls \<Longrightarrow> holds E ls es b' \<Longrightarrow> Q seen b'"
    and b: "holds E ls es b"
    and parts: "distinct parts" "\<forall>p \<in> set parts. p < n" "\<forall>p \<in> A. p < n" "A \<inter> set parts = {}"
    and seen: "distinct seen" "set seen = seen_in link_id link_id n A ls"
  shows "passes (iterate_link_partitions E impl n parts seen) Q b"
  using Q b parts seen
proof (induction parts arbitrary: A seen b Q)
  case Nil
  then show ?case by (simp add: test_simps)
next
  case (Cons p parts)
  have L: "uuid_pkg_ok (en_pkg E)" using E by (simp add: bench_env_ok_def)
  show ?case
    unfolding iterate_link_partitions.simps
  proof (rule passes_bindI, rule passes_now [OF E Cons.prems(2)], rule passes_bindI, rule passes_mustI, goal_cases)
    case (1 t b1)
    show ?case
    proof (rule passes_links [OF E 1(4) n], goal_cases)
      case (2 its)
      let ?it = "\<lparr>it_items = its, it_error = None, it_close = None\<rparr> :: link api_iterator"
      let ?seen = "rev (map uuid_text (map link_id its)) @ seen"
      have its: "set its = {l \<in> set ls. in_part n p (link_id l)}"
        using zero 1(1) holds_now [OF Cons.prems(2)] by (auto simp: 2(2) zero_time_def)
      have p: "p < n" "p \<notin> A" using Cons.prems(4,6) by auto
      note step = seen_in_step [OF n Cons.prems(5) p conjunct1 [OF holds_distinct [OF 1(4)]] _ 2(1) its Cons.prems(7,8)]
      have small: "\<forall>l \<in> set ls. link_id l < uuid_max" using holds_id_less [OF 1(4)] by blast
      have rest: "passes (iterate_link_partitions E impl n parts ?seen)
          (\<lambda>seen'' b''. passes (tbind (terror (it_close ?it \<noteq> None)) (\<lambda>_. treturn seen'')) Q b'') b1"
      proof (rule Cons.IH [where A = "insert p A", OF _ 1(4) _ _ _ _ step(3,4) [OF small]])
        fix seen'' b''
        assume "distinct seen''" "set seen'' = seen_in link_id link_id n (insert p A \<union> set parts) ls" "holds E ls es b''"
        then show "passes (tbind (terror (it_close ?it \<noteq> None)) (\<lambda>_. treturn seen'')) Q b''"
          by (simp add: test_simps Cons.prems(1))
      qed (use Cons.prems(3-6) p in auto)
      have "passes (tbind (see_all (en_pkg E) (map link_id (it_items ?it)) seen) (\<lambda>seen'. tbind (iterator_done ?it) (\<lambda>_.
          tbind (iterate_link_partitions E impl n parts seen') (\<lambda>seen''.
          tbind (terror (it_close ?it \<noteq> None)) (\<lambda>_. treturn seen''))))) Q b1"
        by (rule passes_bindI, rule passes_see_all [OF L])
          (use rest step(1,2) [OF small] in \<open>simp_all add: test_simps iterator_done_def\<close>)
      then show ?case by blast
    qed (use Cons.prems(4) in simp)
  qed
qed

lemma passes_edge_partitions:
  assumes E: "bench_env_ok E" and zero: "\<forall>l \<in> set ls. link_retrieved_at l = zero_time"
    and n: "1 \<le> n" "n \<le> 255"
    and Q: "\<And>seen b'. distinct seen \<Longrightarrow> set seen = seen_in edge_src edge_id n (A \<union> set parts) es \<Longrightarrow>
      holds E ls es b' \<Longrightarrow> be_now b \<le> be_now b' \<Longrightarrow> Q seen b'"
    and b: "holds E ls es b" "\<forall>e \<in> set es. edge_updated_at e \<le> be_now b"
    and parts: "distinct parts" "\<forall>p \<in> set parts. p < n" "\<forall>p \<in> A. p < n" "A \<inter> set parts = {}"
    and seen: "distinct seen" "set seen = seen_in edge_src edge_id n A es"
  shows "passes (iterate_edge_partitions E impl n parts seen) Q b"
  using Q b parts seen
proof (induction parts arbitrary: A seen b Q)
  case Nil
  then show ?case by (simp add: test_simps)
next
  case (Cons p parts)
  have L: "uuid_pkg_ok (en_pkg E)" using E by (simp add: bench_env_ok_def)
  have p: "p < n" "p \<notin> A" using Cons.prems(5,7) by auto
  show ?case
    unfolding iterate_edge_partitions.simps
  proof (rule passes_bindI, rule passes_now [OF E Cons.prems(2)], rule passes_bindI, rule passes_mustI, goal_cases)
    case (1 t b1)
    show ?case
    proof (rule passes_links [OF E 1(4) n p(1)], intro exI conjI, rule refl, rule passes_bindI, rule passes_now [OF E 1(4)],
        rule passes_bindI, rule passes_mustI, goal_cases)
      case (1 lits t2 b2)
      note b2 = 1(6)
      have lits: "set lits = {l \<in> set ls. in_part n p (link_id l)}"
        using zero \<open>be_now b < t\<close> holds_now [OF Cons.prems(2)] by (auto simp: 1(2) zero_time_def)
      have now: "be_now b < t2" using 1(3) \<open>be_now b < t\<close> \<open>be_now b1 = t\<close> by linarith
      show ?case
      proof (rule passes_edges [OF E b2 n p(1)], intro exI conjI, rule refl, goal_cases)
        case (1 its)
        let ?it = "\<lparr>it_items = its, it_error = None, it_close = None\<rparr> :: edge api_iterator"
        let ?seen = "rev (map uuid_text (map edge_id its)) @ seen"
        have its: "set its = {e \<in> set es. in_part n p (edge_src e)}" using Cons.prems(3) now by (auto simp: 1(2))
        note step = seen_in_step [OF n Cons.prems(6) p conjunct2 [OF holds_distinct [OF b2]] _ 1(1) its Cons.prems(8,9)]
        have small: "\<forall>e \<in> set es. edge_src e < uuid_max"
          using holds_edge_src [OF b2] holds_id_less [OF b2] by fastforce
        have srcs: "\<forall>e \<in> set its. edge_src e \<in> set (map link_id lits)"
          using holds_edge_src [OF b2] by (fastforce simp: its lits)
        have rest: "passes (iterate_edge_partitions E impl n parts ?seen)
            (\<lambda>seen'' b''. passes (tbind (terror (it_close ?it \<noteq> None)) (\<lambda>_. treturn seen'')) Q b'') b2"
        proof (rule Cons.IH [where A = "insert p A", OF _ b2 _ _ _ _ _ step(3,4) [OF small]])
          fix seen'' b''
          assume "distinct seen''" "set seen'' = seen_in edge_src edge_id n (insert p A \<union> set parts) es" "holds E ls es b''"
            "be_now b2 \<le> be_now b''"
          then show "passes (tbind (terror (it_close ?it \<noteq> None)) (\<lambda>_. treturn seen'')) Q b''"
            using now \<open>be_now b2 = t2\<close> by (simp add: test_simps Cons.prems(1))
        qed (use Cons.prems(3-7) p now \<open>be_now b2 = t2\<close> in force)+
        show ?case
          by (rule passes_bindI, rule passes_see_edges [OF L])
            (use rest srcs step(1,2) [OF small] in \<open>simp_all add: test_simps iterator_done_def comp_def\<close>)
      qed
    qed
  qed
qed

lemma passes_partitioned_links:
  assumes E: "bench_env_ok E" and b: "holds E ls es b" and zero: "\<forall>l \<in> set ls. link_retrieved_at l = zero_time"
    and n: "1 \<le> n" "n \<le> 255" and Q: "\<And>b'. holds E ls es b' \<Longrightarrow> Q (length ls) b'"
  shows "passes (iterate_partitioned_links E impl n) Q b"
  unfolding iterate_partitioned_links_def
proof (rule passes_bindI, rule passes_link_partitions [where A = "{}", OF E zero n _ b], goal_cases)
  case (1 seen b')
  have "card (set seen) = length ls"
    using card_seen_in [OF n conjunct1 [OF holds_distinct [OF b]]] holds_id_less [OF b] 1(2) by (simp add: atLeast0LessThan)
  with 1(1) Q [OF 1(3)] show ?case by (simp add: passes_treturn distinct_card)
qed (simp_all add: seen_in_def)

lemma passes_partitioned_edges:
  assumes E: "bench_env_ok E" and b: "holds E ls es b" "\<forall>e \<in> set es. edge_updated_at e \<le> be_now b"
    and zero: "\<forall>l \<in> set ls. link_retrieved_at l = zero_time"
    and n: "1 \<le> n" "n \<le> 255" and Q: "\<And>b'. holds E ls es b' \<Longrightarrow> be_now b \<le> be_now b' \<Longrightarrow> Q (length es) b'"
  shows "passes (iterate_partitioned_edges E impl n) Q b"
  unfolding iterate_partitioned_edges_def
proof (rule passes_bindI, rule passes_edge_partitions [where A = "{}", OF E zero n _ b], goal_cases)
  case (1 seen b')
  have "\<forall>e \<in> set es. edge_src e < uuid_max"
    using holds_edge_src [OF b(1)] holds_id_less [OF b(1)] by fastforce
  then have "card (set seen) = length es"
    using card_seen_in [OF n conjunct2 [OF holds_distinct [OF b(1)]]] 1(2) by (simp add: atLeast0LessThan)
  with 1(1) Q [OF 1(3,4)] show ?case by (simp add: passes_treturn distinct_card)
qed (simp_all add: seen_in_def)

end

end
