(* ===== verification/GraphAcceptance.thy ===== *)
theory GraphAcceptance
  imports GraphSuiteTests
begin

text \<open>
  Each of the ten tests of the acceptance suite passes for every implementation of the contract
  \<open>readable_graph\<close>, hence the suite does.
\<close>

section \<open>Time filters\<close>

text \<open>Things written at the times ts, with the clock read at the times us in between.\<close>

definition stamped :: "go_time list \<Rightarrow> go_time list \<Rightarrow> go_time \<Rightarrow> bool" where
  "stamped ts us now \<longleftrightarrow> length ts = length us \<and>
     (\<forall>j < length us. \<forall>k < length us. ts ! k < us ! j \<longleftrightarrow> k \<le> j) \<and> (\<forall>t \<in> set ts \<union> set us. t \<le> now)"

lemma stamped_Nil: "stamped [] [] now"
  by (simp add: stamped_def)

lemma stamped_snoc:
  assumes st: "stamped ts us now" and t: "now < t" "t < u" "u \<le> now'"
  shows "stamped (ts @ [t]) (us @ [u]) now'"
  unfolding stamped_def
proof (intro conjI allI impI)
  have len: "length ts = length us" and le: "\<forall>t \<in> set ts \<union> set us. t \<le> now" using st by (simp_all add: stamped_def)
  show "length (ts @ [t]) = length (us @ [u])" using len by simp
  show "\<forall>x \<in> set (ts @ [t]) \<union> set (us @ [u]). x \<le> now'"
  proof -
    have "now \<le> now'" "t \<le> now'" using t by simp_all
    then show ?thesis using le t(3) by (auto intro: order_trans)
  qed
  fix j k
  assume jk: "j < length (us @ [u])" "k < length (us @ [u])"
  have le': "ts ! k \<le> now" "us ! k \<le> now" if "k < length us" for k using le len that by auto
  show "(ts @ [t]) ! k < (us @ [u]) ! j \<longleftrightarrow> k \<le> j"
  proof (cases "j < length us"; cases "k < length us")
    assume "j < length us" "k < length us"
    then show ?thesis using st len by (simp add: nth_append stamped_def)
  next
    assume "j < length us" "\<not> k < length us"
    then show ?thesis using le' [of j] jk len t by (simp add: nth_append)
  next
    assume "\<not> j < length us" "k < length us"
    then show ?thesis using le' [of k] jk len t by (simp add: nth_append)
  next
    assume "\<not> j < length us" "\<not> k < length us"
    then show ?thesis using jk len t by (simp add: nth_append)
  qed
qed

text \<open>The loop over the growing prefixes, which sorting permutes.\<close>

lemma passes_prefixes:
  fixes ids :: "uuid list" and times :: "go_time list"
  assumes Nil: "\<And>i us. f i [] us = treturn ()"
    and Cons: "\<And>i ts tss us. f i (ts # tss) us = tbind (g ts (take (i + 1) us)) (\<lambda>sorted. f (i + 1) tss (sorted @ drop (i + 1) us))"
    and g: "\<And>t us R. distinct us \<Longrightarrow> set us = {ids ! k | k. k < length ids \<and> times ! k < t} \<Longrightarrow>
      (\<And>vs. distinct vs \<Longrightarrow> set vs = set us \<Longrightarrow> length vs = length us \<Longrightarrow> R vs b) \<Longrightarrow> passes (g t us) R b"
    and tss: "\<And>j k. j < length tss \<Longrightarrow> k < length ids \<Longrightarrow> times ! k < tss ! j \<longleftrightarrow> k \<le> i + j"
    and us: "distinct us" "i + length tss = length ids" "\<And>k. i < k \<Longrightarrow> set (take k us) = set (take k ids)"
    and Q: "Q () b"
  shows "passes (f i tss us) Q b"
  using tss us
proof (induction tss arbitrary: i us)
  case Nil
  then show ?case using Q by (simp add: assms(1) test_simps)
next
  case (Cons ts tss)
  show ?case
    unfolding assms(2)
  proof (rule passes_bindI, rule g)
    have "set (take (i + 1) ids) = {ids ! k | k. k < length ids \<and> k \<le> i}"
      by (auto simp: in_set_conv_nth) (metis less_Suc_eq_le nth_take)+
    then show "set (take (i + 1) us) = {ids ! k | k. k < length ids \<and> times ! k < ts}"
      using Cons.prems(1) [of 0] Cons.prems(4) [of "i + 1"] by auto
    fix vs
    assume vs: "distinct vs" "set vs = set (take (i + 1) us)" "length vs = length (take (i + 1) us)"
    show "passes (f (i + 1) tss (vs @ drop (i + 1) us)) Q b"
    proof (rule Cons.IH)
      show "times ! k < tss ! j \<longleftrightarrow> k \<le> i + 1 + j" if "j < length tss" "k < length ids" for j k
        using Cons.prems(1) [of "Suc j" k] that by simp
      show "distinct (vs @ drop (i + 1) us)"
        using vs Cons.prems(2) set_take_disj_set_drop_if_distinct [of us "i + 1" "i + 1"] by simp
      show "set (take k (vs @ drop (i + 1) us)) = set (take k ids)" if "i + 1 < k" for k
      proof -
        have "set (take k (vs @ drop (i + 1) us)) = set (take k (take (i + 1) us @ drop (i + 1) us))"
          using vs(2,3) that unfolding take_append by (cases "length us \<le> i + 1") auto
        then show ?thesis using Cons.prems(4) [of k] that by (simp del: take_append)
      qed
    qed (use Cons.prems(3) in simp)
  qed (use Cons.prems(2) in simp)
qed

context readable_graph
begin

lemma passes_assert_links:
  assumes E: "bench_env_ok E" and b: "holds E ls es b" and us: "distinct us"
    "set us = {map link_id ls ! k | k. k < length (map link_id ls) \<and> map link_retrieved_at ls ! k < t}"
    and Q: "\<And>vs. distinct vs \<Longrightarrow> set vs = set us \<Longrightarrow> length vs = length us \<Longrightarrow> Q vs b"
  shows "passes (assert_iterated_link_ids_match E impl t us) Q b"
  unfolding assert_iterated_link_ids_match_def Let_def
proof (rule passes_bindI, rule passes_mustI, rule passes_links [OF E b], goal_cases)
  case (4 its)
  have L: "uuid_pkg_ok (en_pkg E)" using E by (simp add: bench_env_ok_def)
  have its: "set its = {l \<in> set ls. link_retrieved_at l < t}"
    using holds_id_less [OF b] in_part_one by (auto simp: 4(2))
  have "set us = link_id ` set its" unfolding us(2) its by (force simp: in_set_conv_nth)
  moreover have "distinct (map link_id its)"
    using holds_distinct [OF b] 4(1) by (auto simp: distinct_map its intro: inj_on_subset)
  ultimately have "sort_key (up_string (en_pkg E)) (map link_id its) = sort_key (up_string (en_pkg E)) us"
    using us(1) by (intro sort_ids_eq [OF _ _ _ L]) simp_all
  then show ?case using us(1) by (simp add: test_simps iterator_done_def Q)
qed simp_all

lemma passes_assert_edges:
  assumes E: "bench_env_ok E" and b: "holds E ls es b" and us: "distinct us"
    "set us = {map edge_id es ! k | k. k < length (map edge_id es) \<and> map edge_updated_at es ! k < t}"
    and Q: "\<And>vs. distinct vs \<Longrightarrow> set vs = set us \<Longrightarrow> length vs = length us \<Longrightarrow> Q vs b"
  shows "passes (assert_iterated_edge_ids_match E impl t us) Q b"
  unfolding assert_iterated_edge_ids_match_def Let_def
proof (rule passes_bindI, rule passes_mustI, rule passes_edges [OF E b], goal_cases)
  case (4 its)
  have L: "uuid_pkg_ok (en_pkg E)" using E by (simp add: bench_env_ok_def)
  have "edge_src e < uuid_max" if "e \<in> set es" for e
    using holds_edge_src [OF b that] holds_id_less [OF b] by auto
  then have its: "set its = {e \<in> set es. edge_updated_at e < t}" using in_part_one by (auto simp: 4(2))
  have "set us = edge_id ` set its" unfolding us(2) its by (force simp: in_set_conv_nth)
  moreover have "distinct (map edge_id its)"
    using holds_distinct [OF b] 4(1) by (auto simp: distinct_map its intro: inj_on_subset)
  ultimately have "sort_key (up_string (en_pkg E)) (map edge_id its) = sort_key (up_string (en_pkg E)) us"
    using us(1) by (intro sort_ids_eq [OF _ _ _ L]) simp_all
  then show ?case using us(1) by (simp add: test_simps iterator_done_def Q)
qed simp_all

lemma passes_link_prefixes:
  assumes E: "bench_env_ok E" and b: "holds E ls es b" and st: "stamped (map link_retrieved_at ls) tss now"
    and Q: "Q () b"
  shows "passes (assert_link_prefixes E impl 0 tss (map link_id ls)) Q b"
  by (rule passes_prefixes [where g = "assert_iterated_link_ids_match E impl" and ids = "map link_id ls"
        and times = "map link_retrieved_at ls"])
    (use st holds_distinct [OF b] Q passes_assert_links [OF E b] in \<open>auto simp: stamped_def\<close>)

lemma passes_edge_prefixes:
  assumes E: "bench_env_ok E" and b: "holds E ls es b" and st: "stamped (map edge_updated_at es) tss now"
    and Q: "Q () b"
  shows "passes (assert_edge_prefixes E impl 0 tss (map edge_id es)) Q b"
  by (rule passes_prefixes [where g = "assert_iterated_edge_ids_match E impl" and ids = "map edge_id es"
        and times = "map edge_updated_at es"])
    (use st holds_distinct [OF b] Q passes_assert_edges [OF E b] in \<open>auto simp: stamped_def\<close>)

text \<open>The tests, each on an empty store; the clock does not go back.\<close>

definition test_ok :: "bench_env \<Rightarrow> (bench_env \<Rightarrow> 'a graph_impl \<Rightarrow> ('a, unit) test) \<Rightarrow> bool" where
  "test_ok E test \<longleftrightarrow> (\<forall>b. holds E [] [] b \<longrightarrow> passes (test E impl) (\<lambda>_ b'. 0 \<le> be_now b') b)"

lemma test_okI: "(\<And>b. holds E [] [] b \<Longrightarrow> passes (test E impl) (\<lambda>_ b'. 0 \<le> be_now b') b) \<Longrightarrow> test_ok E test"
  by (simp add: test_ok_def)

lemma upsert_link_ok:
  assumes E: "bench_env_ok E"
  shows "test_ok E test_upsert_link"
proof (rule test_okI, unfold test_upsert_link_def Let_def, rule passes_bindI, rule passes_now [OF E], assumption,
    rule passes_bindI, rule passes_insert_link [OF E], assumption, goal_cases)
  case (3 b t0 b0 original b1)
  let ?accessed = "\<lambda>t1. truncate_second t1"
  have trunc: "t1 - 1000000000 < truncate_second t1" "truncate_second t1 \<le> t1" for t1
    by (simp_all add: truncate_second_def)
  show ?case
  proof (rule passes_bindI, rule passes_fatalI, use 3 in simp, rule passes_bindI, rule passes_now [OF E, of "[original]" "[]"],
      use 3 in simp, rule passes_bindI, rule passes_update_link, assumption, use 3 in \<open>simp add: new_link_def\<close>, goal_cases)
    case (1 t1 b2 updated b3)
    let ?l = "original\<lparr>link_retrieved_at := truncate_second t1\<rparr>"
    have "link_retrieved_at original \<le> truncate_second t1"
      using 3 1(1) trunc(1) [of t1] by (simp add: new_link_def hours_def)
    with 1(8) have b3: "holds E [?l] [] b3" by (simp add: max_def)
    show ?case
    proof (rule passes_bindI, rule passes_fatalI, use 1 in simp, rule passes_bindI, unfold 1(5), rule passes_find_link [OF b3, of ?l, simplified],
        rule passes_bindI, rule passes_errorI, simp, rule passes_bindI, rule passes_now [OF E b3], rule passes_bindI,
        rule passes_update_link, assumption, use 1 in \<open>simp add: new_link_def\<close>, goal_cases)
      case (1 t2 b4 same b5)
      have "t2 - hours 10 \<le> truncate_second t1"
        using 1(2) \<open>be_now b3 = be_now b2\<close> \<open>be_now b2 = t1\<close> trunc(1) [of t1] by (simp add: hours_def)
      with 1(8) have b5: "holds E [?l] [] b5" by (simp add: max_def new_link_def)
      show ?case
      proof (rule passes_bindI, rule passes_fatalI, use 1 in simp, rule passes_bindI, rule passes_find_link [OF b5, of ?l, simplified],
        rule passes_bindI, rule passes_errorI, simp, rule passes_bindI, rule passes_insert_link [OF E b5], goal_cases)
        case (3 dup b6)
        then show ?case using holds_now [OF 3(3)] by (simp add: passes_terror)
      qed (use 3 in \<open>simp_all add: new_link_def\<close>)
    qed
  qed
qed simp_all

lemma find_link_ok:
  assumes E: "bench_env_ok E"
  shows "test_ok E test_find_link"
proof (rule test_okI, unfold test_find_link_def, rule passes_bindI, rule passes_now [OF E], assumption,
    rule passes_bindI, rule passes_insert_link [OF E], assumption, goal_cases)
  case (3 b t b0 l b1)
  show ?case
  proof (rule passes_bindI, rule passes_errorI, use 3 in simp, rule passes_bindI, rule passes_find_link [OF 3(8)], simp,
      rule passes_bindI, rule passes_errorI, simp, rule passes_bindI, rule passes_find_nil [OF 3(8)], goal_cases)
    case (1 err)
    then show ?case using holds_now [OF 3(8)] by (simp add: passes_terror)
  qed
qed simp_all

lemma repeat_ok:
  assumes step: "\<And>b Q. P b \<Longrightarrow> (\<And>b'. P b' \<Longrightarrow> Q () b') \<Longrightarrow> passes t Q b"
    and b: "P b" and Q: "\<And>as b'. P b' \<Longrightarrow> Q as b'"
  shows "passes (tmap (\<lambda>_. t) xs) Q b"
  by (rule passes_tmap [where P = "\<lambda>_ _ b'. P b'"]) (use assms in auto)

lemma concurrent_links_ok:
  assumes E: "bench_env_ok E"
  shows "test_ok E test_concurrent_link_iterators"
proof (rule test_okI, unfold test_concurrent_link_iterators_def, rule passes_bindI, rule passes_insert_links [OF E], assumption, goal_cases)
  case (2 b ls b1)
  show ?case
    by (rule passes_bindI, rule repeat_ok [where P = "holds E ls []"])
      (use passes_link_iteration [OF E _ 2(3)] 2 holds_now in \<open>auto simp: passes_treturn\<close>)
qed simp

lemma link_time_filter_ok:
  assumes E: "bench_env_ok E"
  shows "test_ok E test_link_iterator_time_filter"
proof (rule test_okI, unfold test_link_iterator_time_filter_def, rule passes_bindI,
    rule passes_tmap [where P = "\<lambda>i as b'. \<exists>ls. map fst as = map link_id ls \<and> map link_url ls = map dec_nat [0..<i] \<and>
      stamped (map link_retrieved_at ls) (map snd as) (be_now b') \<and> holds E ls [] b'"], goal_cases)
  case (1 b i as b1)
  then obtain ls where ls: "map fst as = map link_id ls" "map link_url ls = map dec_nat [0..<i]"
    "stamped (map link_retrieved_at ls) (map snd as) (be_now b1)" "holds E ls [] b1" by blast
  have len: "length ls = i" using arg_cong [OF ls(2), of length] by simp
  have new: "dec_nat i \<notin> link_url ` set ls"
    using arg_cong [OF ls(2), of set] by (auto dest: dec_nat_inj)
  have i: "[0..<3] ! i = i" using 1(2) by simp
  show ?case
    unfolding i
  proof (rule passes_bindI, rule passes_now [OF E ls(4)], rule passes_bindI, rule passes_insert_link [OF E], assumption, goal_cases)
    case (3 t b2 y b3)
    show ?case
    proof (rule passes_bindI, rule passes_sleep [OF 3(7)], simp add: millisecond_def, rule passes_bindI, rule passes_now [OF E], assumption, goal_cases)
      case (1 b4 u b5)
      have "stamped (map link_retrieved_at ls @ [link_retrieved_at y]) (map snd as @ [u]) (be_now b5)"
        by (rule stamped_snoc [OF ls(3)]) (use 1 3 in \<open>simp_all add: new_link_def millisecond_def\<close>)
      then have "map fst (as @ [(link_id y, u)]) = map link_id (ls @ [y]) \<and> map link_url (ls @ [y]) = map dec_nat [0..<Suc i] \<and>
          stamped (map link_retrieved_at (ls @ [y])) (map snd (as @ [(link_id y, u)])) (be_now b5) \<and> holds E (ls @ [y]) [] b5"
        using ls 1 3 by (simp add: new_link_def)
      then show ?case unfolding passes_treturn by blast
    qed
  qed (use len new 1(2) in \<open>simp_all add: new_link_def\<close>)
next
  case (3 b as b1)
  then obtain ls where ls: "map fst as = map link_id ls" "stamped (map link_retrieved_at ls) (map snd as) (be_now b1)"
    "holds E ls [] b1" by blast
  show ?case unfolding ls(1) by (rule passes_link_prefixes [OF E ls(3,2)]) (rule holds_now [OF ls(3)])
qed (auto simp: stamped_Nil)

lemma partitioned_links_ok:
  assumes E: "bench_env_ok E"
  shows "test_ok E test_partitioned_link_iterators"
proof (rule test_okI, unfold test_partitioned_link_iterators_def, rule passes_bindI, rule passes_insert_links [OF E], assumption, goal_cases)
  case (2 b ls b1)
  show ?case
    by (rule passes_bindI, rule passes_partitioned_links [OF E 2(4,3)], simp, simp, rule passes_bindI, rule passes_errorI,
        simp add: 2(2), rule passes_bindI, rule passes_partitioned_links [OF E _ 2(3)], assumption)
      (simp_all add: 2(2) passes_terror holds_now)
qed simp

lemma upsert_edge_ok:
  assumes E: "bench_env_ok E"
  shows "test_ok E test_upsert_edge"
proof (rule test_okI, unfold test_upsert_edge_def, rule passes_bindI, rule passes_insert_links [OF E], assumption, goal_cases)
  case (2 b ls b1)
  have ids: "map link_id ls ! 0 \<in> link_id ` set ls" "map link_id ls ! 1 \<in> link_id ` set ls" using 2(2) by simp_all
  show ?case
  proof (rule passes_bindI, rule passes_insert_edge [OF E 2(4) _ ids], goal_cases)
    case (3 e b2)
    have e: "holds E ls [e] b2" "0 \<le> be_now b1" "edge_updated_at e = be_now b2" "be_now b1 < be_now b2"
      using 3 holds_now [OF 2(4)] by simp_all
    show ?case
    proof (rule passes_bindI, rule passes_fatalI, use 3 in simp, rule passes_bindI, rule passes_errorI, use e in \<open>simp add: zero_time_def\<close>,
        rule passes_bindI, rule passes_sleep [OF e(1)], simp add: millisecond_def, rule passes_bindI, rule passes_update_edge, assumption,
        goal_cases)
      case (3 b3 y b4)
      have same: "edge_id y = edge_id e" "edge_updated_at y \<noteq> edge_updated_at e"
        using 3(1,3,4,5) e(3) by (simp_all add: millisecond_def)
      show ?case
        by (rule passes_bindI, rule passes_errorI, use same in simp, rule passes_bindI, rule passes_errorI, use same in simp,
            rule passes_bindI, rule passes_edge_unknown [OF 3(6)])
          (use holds_now [OF 3(6)] in \<open>simp add: passes_terror\<close>)
    qed (use 3 in \<open>simp_all add: new_edge_def\<close>)
  qed simp_all
qed simp

lemma concurrent_edges_ok:
  assumes E: "bench_env_ok E"
  shows "test_ok E test_concurrent_edge_iterators"
proof (rule test_okI, unfold test_concurrent_edge_iterators_def, rule passes_bindI, rule passes_insert_links [OF E], assumption, goal_cases)
  case (2 b ls b1)
  show ?case
  proof (rule passes_bindI, rule passes_insert_edges [OF E 2(4)], goal_cases)
    case (6 ys b2)
    have len: "length ys = 100" using arg_cong [OF 6(1), of length] by simp
    have h: "holds E ls ys b2" using 6(4) by simp
    show ?case
    proof (rule passes_bindI, rule passes_sleep [OF h], simp add: millisecond_def, rule passes_bindI,
        rule repeat_ok [where P = "\<lambda>b. holds E ls ys b \<and> be_now b2 \<le> be_now b"], goal_cases)
      case (1 b3 b4 Q)
      show ?case
        using passes_edge_iteration [of E ls ys b4 Q] E 1 6(2) len by force
    qed (use holds_now in \<open>auto simp: passes_treturn millisecond_def\<close>)
  qed (use 2 in auto)
qed simp

lemma edge_time_filter_ok:
  assumes E: "bench_env_ok E"
  shows "test_ok E test_edge_iterator_time_filter"
proof (rule test_okI, unfold test_edge_iterator_time_filter_def, rule passes_bindI, rule passes_insert_links [OF E], assumption, goal_cases)
  case (2 b ls b0)
  note dist = conjunct1 [OF holds_distinct [OF 2(4)]]
  show ?case
  proof (rule passes_bindI,
    rule passes_tmap [where P = "\<lambda>i as b'. \<exists>es. map fst as = map edge_id es \<and> map edge_dst es = map (\<lambda>k. map link_id ls ! k) [0..<i] \<and>
      stamped (map edge_updated_at es) (map snd as) (be_now b') \<and> holds E ls es b'"], goal_cases)
    case (1 i as b1)
    then obtain es where es: "map fst as = map edge_id es" "map edge_dst es = map (\<lambda>k. map link_id ls ! k) [0..<i]"
      "stamped (map edge_updated_at es) (map snd as) (be_now b1)" "holds E ls es b1" by blast
    have i: "[0..<3] ! i = i" "i < length ls" using 1(1) 2(2) by simp_all
    have "map link_id ls ! i \<notin> edge_dst ` set es"
    proof
      assume "map link_id ls ! i \<in> edge_dst ` set es"
      then have "map link_id ls ! i \<in> set (map edge_dst es)" by simp
      then obtain j where "j < i" "map link_id ls ! i = map link_id ls ! j" unfolding es(2) by auto
      then show False using nth_eq_iff_index_eq [OF dist, of i j] i(2) by simp
    qed
    then have new: "\<forall>e \<in> set es. (edge_src e, edge_dst e) \<noteq> (map link_id ls ! 0, map link_id ls ! i)" by (auto simp: image_iff)
    show ?case
      unfolding i
    proof (rule passes_bindI, rule passes_insert_edge [OF E es(4) _ _ _ new], goal_cases)
      case (4 y b2)
      show ?case
      proof (rule passes_bindI, rule passes_sleep [OF 4(5)], simp add: millisecond_def, rule passes_bindI, rule passes_now [OF E], assumption, goal_cases)
        case (1 b3 u b4)
        have "stamped (map edge_updated_at es @ [edge_updated_at y]) (map snd as @ [u]) (be_now b4)"
          by (rule stamped_snoc [OF es(3)]) (use 1 4 in \<open>simp_all add: millisecond_def\<close>)
        then have "map fst (as @ [(edge_id y, u)]) = map edge_id (es @ [y]) \<and>
            map edge_dst (es @ [y]) = map (\<lambda>k. map link_id ls ! k) [0..<Suc i] \<and>
            stamped (map edge_updated_at (es @ [y])) (map snd (as @ [(edge_id y, u)])) (be_now b4) \<and> holds E ls (es @ [y]) b4"
          using es 1 4 by simp
        then show ?case unfolding passes_treturn by blast
      qed
    qed (use i 2(2) arg_cong [OF es(2), of length] 1(1) in auto)
  next
    case (3 as b1)
    then obtain es where es: "map fst as = map edge_id es" "stamped (map edge_updated_at es) (map snd as) (be_now b1)"
      "holds E ls es b1" by blast
    show ?case unfolding es(1) by (rule passes_edge_prefixes [OF E es(3,2)]) (rule holds_now [OF es(3)])
  qed (use 2 in \<open>auto simp: stamped_Nil\<close>)
qed simp

lemma partitioned_edges_ok:
  assumes E: "bench_env_ok E"
  shows "test_ok E test_partitioned_edge_iterators"
proof (rule test_okI, unfold test_partitioned_edge_iterators_def, rule passes_bindI, rule passes_insert_links [OF E], assumption, goal_cases)
  case (2 b ls b1)
  show ?case
  proof (rule passes_bindI, rule passes_insert_edges [OF E 2(4)], goal_cases)
    case (6 ys b2)
    have len: "length ys = 100" using arg_cong [OF 6(1), of length] by simp
    have h: "holds E ls ys b2" "\<forall>e \<in> set ys. edge_updated_at e \<le> be_now b2" using 6(2,4) by simp_all
    show ?case
    proof (rule passes_bindI, rule passes_partitioned_edges [OF E h 2(3)], goal_cases)
      case (3 b3)
      have "\<forall>e \<in> set ys. edge_updated_at e \<le> be_now b3" using h(2) 3(2) by fastforce
      from passes_partitioned_edges [OF E 3(1) this 2(3)] show ?case
        by (intro passes_bindI passes_errorI) (simp_all add: len passes_terror holds_now)
    qed simp_all
  qed (use 2 in auto)
qed simp

lemma passes_count_remaining:
  "\<forall>e \<in> set es. edge_id e \<notin> set gone \<Longrightarrow> Q (seen + length es) b \<Longrightarrow> passes (count_remaining gone es seen) Q b"
  by (induction es arbitrary: seen) (auto simp: test_simps)

lemma remove_stale_ok:
  assumes E: "bench_env_ok E"
  shows "test_ok E test_remove_stale_edges"
proof (rule test_okI, unfold test_remove_stale_edges_def Let_def, rule passes_bindI, rule passes_insert_links [OF E], assumption, goal_cases)
  case (2 b ls b1)
  note dist = conjunct1 [OF holds_distinct [OF 2(4)]]
  show ?case
  proof (rule passes_bindI, rule passes_insert_edges [OF E 2(4)], goal_cases)
    case (6 firsts b2)
    have firsts: "length firsts = 100" "firsts \<noteq> []" "holds E ls firsts b2" "edge_updated_at (last firsts) = be_now b2"
      "\<forall>y \<in> set firsts. edge_src y = link_id (ls ! 0) \<and> edge_updated_at y \<le> be_now b2"
      using arg_cong [OF 6(1), of length] 6(2,3,4) by auto
    have new: "\<forall>e \<in> set firsts. edge_dst e \<notin> (\<lambda>k. link_id (ls ! k)) ` set [101..<201]"
    proof (intro ballI notI)
      fix e
      assume "e \<in> set firsts" "edge_dst e \<in> (\<lambda>k. link_id (ls ! k)) ` set [101..<201]"
      moreover from this(1) have "edge_dst e \<in> set (map (\<lambda>k. link_id (ls ! k)) [0..<100])" by (simp flip: 6(1))
      ultimately obtain j k where "j < 100" "101 \<le> k" "k < 201" "link_id (ls ! j) = link_id (ls ! k)"
        by (auto simp del: upt_rec_numeral)
      then show False using nth_eq_iff_index_eq [OF dist, of j k] 2(2) by simp
    qed
    show ?case
    proof (rule passes_bindI, rule passes_sleep [OF firsts(3)], simp add: millisecond_def, rule passes_bindI,
        rule passes_insert_edges [OF E], assumption, goal_cases)
      case (6 b3 seconds b4)
      let ?stale = "is_stale (map link_id ls ! 0) (edge_updated_at (last firsts) + millisecond)"
      have seconds: "length seconds = 100" using arg_cong [OF 6(3), of length] by simp
      have stale: "filter (\<lambda>e. \<not> ?stale e) (firsts @ seconds) = seconds"
      proof -
        have "?stale e" if "e \<in> set firsts" for e
          using firsts(4,5) that 2(2) by (fastforce simp: is_stale_def millisecond_def)
        moreover have "\<not> ?stale e" if "e \<in> set seconds" for e
          using 6(1,4) that firsts(4) by (auto simp: is_stale_def)
        ultimately show ?thesis by (simp add: filter_empty_conv cong: filter_cong)
      qed
      show ?case
      proof (rule passes_bindI, rule passes_remove_stale [OF 6(6)], unfold stale, rule passes_bindI, rule passes_errorI, simp,
          rule passes_bindI, rule passes_sleep, assumption, simp add: millisecond_def, rule passes_bindI, rule passes_now [OF E], assumption,
          rule passes_bindI, rule passes_mustI, goal_cases)
        case (1 b5 b6 t b7)
        show ?case
        proof (rule passes_edges [OF E 1(8)], goal_cases)
          case (4 its)
          have "edge_src e < uuid_max" if "e \<in> set seconds" for e
            using holds_edge_src [OF 1(8) that] holds_id_less [OF 1(8)] by auto
          moreover have "edge_updated_at e < t" if "e \<in> set seconds" for e
            using 6(4) that 1(2,3,5) by (fastforce simp: millisecond_def)
          ultimately have its: "set its = set seconds" using in_part_one by (auto simp: 4(2))
          have "length its = 100"
            using 4(1) its seconds holds_distinct [OF 1(8)] by (metis distinct_card distinct_map)
          moreover have "\<forall>e \<in> set its. edge_id e \<notin> set (map edge_id firsts)"
            using holds_distinct [OF 6(6)] by (auto simp: its)
          ultimately have "passes (tbind (count_remaining (map edge_id firsts) its 0) (\<lambda>seen.
              tbind (terror (seen \<noteq> 100)) (\<lambda>_. terror False))) (\<lambda>_ b'. 0 \<le> be_now b') b7"
            using holds_now [OF 1(8)] by (intro passes_bindI passes_count_remaining) (simp_all add: test_simps)
          then show ?case by simp
        qed simp_all
      qed
    qed (use 2(2) new firsts(1) in \<open>auto simp del: upt_rec_numeral\<close>)
  qed (use 2(2) in auto)
qed simp

text \<open>The suite.\<close>

lemma all_tests_ok: "bench_env_ok E \<Longrightarrow> \<forall>(nm, test) \<in> set suite_tests. test_ok E test"
  by (simp add: suite_tests_def upsert_link_ok find_link_ok concurrent_links_ok link_time_filter_ok partitioned_links_ok
      upsert_edge_ok concurrent_edges_ok edge_time_filter_ok partitioned_edges_ok remove_stale_ok)

lemma run_suite_passes:
  assumes "\<forall>(nm, test) \<in> set tests. test_ok E test" "0 \<le> be_now b"
    and empty: "\<And>s. inv (before_each s) \<and> st_links (abs (before_each s)) = Map.empty \<and> st_edges (abs (before_each s)) = Map.empty"
  shows "\<exists>b'. run_suite E impl before_each tests b = ([], b')"
  using assms(1,2)
proof (induction tests arbitrary: b)
  case (Cons nt tests)
  obtain nm test where nt: "nt = (nm, test)" by (cases nt)
  let ?b = "b\<lparr>be_store := before_each (be_store b)\<rparr>"
  have "holds E [] [] ?b" using empty [of "be_store b"] Cons.prems(2) by (simp add: holds_def)
  then obtain b' where "test E impl ?b = (Passing (), b')" "0 \<le> be_now b'"
    using Cons.prems(1) by (auto simp: nt test_ok_def passes_def)
  with Cons.IH [of b'] Cons.prems(1) show ?case by (auto simp: nt)
qed simp

lemma suite_passes:
  assumes "bench_env_ok E" "0 \<le> be_now b"
    and "\<And>s. inv (before_each s) \<and> st_links (abs (before_each s)) = Map.empty \<and> st_edges (abs (before_each s)) = Map.empty"
  shows "fst (run_suite E impl before_each suite_tests b) = []"
proof -
  obtain b' where "run_suite E impl before_each suite_tests b = ([], b')"
    using run_suite_passes [of suite_tests E b before_each] all_tests_ok [OF assms(1)] assms(2,3) by blast
  then show ?thesis by simp
qed

end

end
