(* ===== verification/GraphStores.thy ===== *)
theory GraphStores
  imports GraphAcceptance
begin

text \<open>
  The in-memory graph and the CockroachDB graph read as the suite's contract asks, and pass it.
\<close>

section \<open>The in-memory graph\<close>

text \<open>What a caller of \<^verbatim>\<open>Links\<close> and \<^verbatim>\<open>Edges\<close> gets by draining the iterators, which never fail.\<close>

fun mem_drain_links :: "nat \<Rightarrow> mem_graph \<Rightarrow> link_iterator \<Rightarrow> link list" where
  "mem_drain_links 0 g it = []"
| "mem_drain_links (Suc n) g it =
     (case link_iterator_next it of
        (False, it') \<Rightarrow> []
      | (True, it') \<Rightarrow>
          (case link_iterator_link g it' of Returns l \<Rightarrow> l # mem_drain_links n g it' | _ \<Rightarrow> []))"

fun mem_drain_edges :: "nat \<Rightarrow> mem_graph \<Rightarrow> edge_iterator \<Rightarrow> edge list" where
  "mem_drain_edges 0 g it = []"
| "mem_drain_edges (Suc n) g it =
     (case edge_iterator_next it of
        (False, it') \<Rightarrow> []
      | (True, it') \<Rightarrow>
          (case edge_iterator_edge g it' of Returns e \<Rightarrow> e # mem_drain_edges n g it' | _ \<Rightarrow> []))"

lemma mem_drain_links_eq:
  "li_curr it + n = length (li_links it) \<Longrightarrow>
   mem_drain_links (Suc n) g it = map (link_heap g) (drop (li_curr it) (li_links it))"
proof (induction n arbitrary: it)
  case (Suc n)
  let ?it = "it\<lparr>li_curr := li_curr it + 1\<rparr>"
  have "mem_drain_links (Suc n) g ?it = map (link_heap g) (drop (Suc (li_curr it)) (li_links it))"
    using Suc.IH [of ?it] Suc.prems by simp
  moreover have "map (link_heap g) (drop (li_curr it) (li_links it)) =
      link_heap g (li_links it ! li_curr it) # map (link_heap g) (drop (Suc (li_curr it)) (li_links it))"
    using Suc.prems by (simp flip: Cons_nth_drop_Suc)
  ultimately show ?case
    using Suc.prems by (subst mem_drain_links.simps) (auto simp: link_iterator_next_def link_iterator_link_def simp del: mem_drain_links.simps)
qed (simp add: link_iterator_next_def)

lemma mem_drain_edges_eq:
  "ei_curr it + n = length (ei_edges it) \<Longrightarrow>
   mem_drain_edges (Suc n) g it = map (edge_heap g) (drop (ei_curr it) (ei_edges it))"
proof (induction n arbitrary: it)
  case (Suc n)
  let ?it = "it\<lparr>ei_curr := ei_curr it + 1\<rparr>"
  have "mem_drain_edges (Suc n) g ?it = map (edge_heap g) (drop (Suc (ei_curr it)) (ei_edges it))"
    using Suc.IH [of ?it] Suc.prems by simp
  moreover have "map (edge_heap g) (drop (ei_curr it) (ei_edges it)) =
      edge_heap g (ei_edges it ! ei_curr it) # map (edge_heap g) (drop (Suc (ei_curr it)) (ei_edges it))"
    using Suc.prems by (simp flip: Cons_nth_drop_Suc)
  ultimately show ?case
    using Suc.prems by (subst mem_drain_edges.simps) (auto simp: edge_iterator_next_def edge_iterator_edge_def simp del: mem_drain_edges.simps)
qed (simp add: edge_iterator_next_def)

definition mem_links_api ::
  "uuid_pkg \<Rightarrow> (mem_graph \<Rightarrow> uuid list) \<Rightarrow> uuid \<Rightarrow> uuid \<Rightarrow> go_time \<Rightarrow> mem_graph \<Rightarrow> go_error + link api_iterator" where
  "mem_links_api L order f t b g =
     (let it = links_in_range L (order g) f t b g
      in Inr \<lparr>it_items = mem_drain_links (Suc (length (li_links it))) g it, it_error = None, it_close = None\<rparr>)"

text \<open>A panic, which does not occur, counts as an error.\<close>

definition mem_edges_api ::
  "uuid_pkg \<Rightarrow> (mem_graph \<Rightarrow> uuid list) \<Rightarrow> uuid \<Rightarrow> uuid \<Rightarrow> go_time \<Rightarrow> mem_graph \<Rightarrow> go_error + edge api_iterator" where
  "mem_edges_api L order f t b g =
     (case edges_in_range L (order g) f t b g of
        Returns it \<Rightarrow>
          Inr \<lparr>it_items = mem_drain_edges (Suc (length (ei_edges it))) g it, it_error = None, it_close = None\<rparr>
      | Fails err \<Rightarrow> Inl err
      | Panics m \<Rightarrow> Inl (Errorf m))"

text \<open>The order in which each map is iterated.\<close>

definition enumerates :: "(mem_graph \<Rightarrow> uuid list) \<Rightarrow> bool" where
  "enumerates order \<longleftrightarrow> (\<forall>g. distinct (order g) \<and> set (order g) = dom (mg_links g))"

lemma mem_links_api_spec:
  assumes "uuid_pkg_ok L" "enumerates order" "mem_inv g"
  shows "\<exists>ls. mem_links_api L order f t b g = Inr \<lparr>it_items = ls, it_error = None, it_close = None\<rparr> \<and> distinct ls \<and>
    set ls = {l. \<exists>i. st_links (abs_graph g) i = Some l \<and> f \<le> i \<and> i < t \<and> link_retrieved_at l < b}"
proof -
  let ?it = "links_in_range L (order g) f t b g"
  have order: "distinct (order g)" "set (order g) = dom (mg_links g)" using assms(2) by (simp_all add: enumerates_def)
  note spec = links_in_range_exact [OF assms(1,3) order, of f t b]
  have l: "links_inv g" using assms(3) by (simp add: mem_inv_def)
  have "\<exists>i. mg_links g i = Some a" if "a \<in> set (li_links ?it)" for a
    using that by (auto simp: pick_links_eq [OF assms(1)])
  then have "inj_on (link_heap g) (set (li_links ?it))"
    using links_invD(5) [OF l] by (intro inj_onI) (metis option.sel)
  moreover have "li_curr ?it = 0" by (simp add: links_in_range_def Let_def)
  ultimately show ?thesis
    using spec mem_drain_links_eq [of ?it "length (li_links ?it)" g]
    by (simp add: mem_links_api_def distinct_map del: mem_drain_links.simps)
qed

lemma mem_edges_api_spec:
  assumes "uuid_pkg_ok L" "enumerates order" "mem_inv g"
  shows "\<exists>es. mem_edges_api L order f t b g = Inr \<lparr>it_items = es, it_error = None, it_close = None\<rparr> \<and> distinct es \<and>
    set es = {e. \<exists>i. st_edges (abs_graph g) i = Some e \<and> f \<le> edge_src e \<and> edge_src e < t \<and> edge_updated_at e < b}"
proof -
  have order: "distinct (order g)" "set (order g) = dom (mg_links g)" using assms(2) by (simp_all add: enumerates_def)
  from edges_in_range_exact [OF assms(1,3) order, of f t b] obtain it where
    it: "edges_in_range L (order g) f t b g = Returns it" "distinct (ei_edges it)" "set (ei_edges it) \<subseteq> ran (mg_edges g)"
    "edge_heap g ` set (ei_edges it) =
      {e. \<exists>i. st_edges (abs_graph g) i = Some e \<and> f \<le> edge_src e \<and> edge_src e < t \<and> edge_updated_at e < b}" by blast
  have e: "edges_inv g" using assms(3) by (simp add: mem_inv_def)
  have "inj_on (edge_heap g) (ran (mg_edges g))"
    using edges_invD(2) [OF e] by (intro inj_onI) (auto simp: ran_def, metis option.sel)
  then have "inj_on (edge_heap g) (set (ei_edges it))" using it(3) by (rule inj_on_subset)
  moreover have "ei_curr it = 0" using it(1) by (cases "edges_scan L (up_string L f) (up_string L t) b g (order g)") (auto simp: edges_in_range_def)
  ultimately show ?thesis
    using it mem_drain_edges_eq [of it "length (ei_edges it)" g]
    by (simp add: mem_edges_api_def distinct_map del: mem_drain_edges.simps)
qed

lemma scan_edges_Some: "scan_edges g s d es = Returns (Some a) \<Longrightarrow> edge_src (edge_heap g a) = s \<and> edge_dst (edge_heap g a) = d"
  by (induction g s d es rule: scan_edges.induct) (auto split: option.splits if_splits)

lemma mem_upsert_edge_result:
  "upsert_edge draws now e g = Some (Returns e', g') \<Longrightarrow>
   edge_src e' = edge_src e \<and> edge_dst e' = edge_dst e \<and> edge_updated_at e' = now"
  by (auto simp: upsert_edge_def Let_def dest: scan_edges_Some split: if_splits outcome.splits option.splits)

interpretation mem_suite: readable_graph
    "\<lambda>g. uuid_pkg_ok L \<and> enumerates order \<and> mem_inv g" abs_graph upsert_link upsert_edge remove_stale_edges
    find_link "mem_links_api L order" "mem_edges_api L order"
proof (unfold_locales, goal_cases)
  case (10 s draws x y s')
  then have "links_inv s" by (simp add: mem_inv_def)
  then have "link_from_url s (link_url x) = None"
    using 10(3) by (simp add: has_url_abs) (metis not_None_eq)
  then show ?case using 10(2) by (auto simp: upsert_link_def Let_def split: option.splits)
next
  case (11 s draws now e e' s')
  show ?case by (rule mem_upsert_edge_result [OF 11(2)])
next
  case (1 s) then show ?case using inmem.abs_ok by blast
next
  case (2 s draws x r s') then show ?case using inmem.upsert_link_spec [of s draws x r s'] by simp
next
  case (3 s x draws) then show ?case using inmem.upsert_link_returns [of s x draws] by simp
next
  case (4 s e draws now) then show ?case using inmem.upsert_edge_unknown [of s e draws now] by simp
next
  case (5 s e draws now r s') then show ?case using inmem.upsert_edge_spec [of s e draws now r s'] by simp
next
  case (6 s e draws now) then show ?case using inmem.upsert_edge_returns [of s e draws now] by simp
next
  case (7 s i t) then show ?case using inmem.remove_stale_spec [of s i t] by simp
next
  case (8 s i l) then show ?case by (simp only: find_link_abs option.case)
next
  case (9 s i) then show ?case by (simp only: find_link_abs option.case) simp
next
  case (12 s f t b) then show ?case using mem_links_api_spec by blast
next
  case (13 s f t b) then show ?case using mem_edges_api_spec by blast
qed

section \<open>The CockroachDB graph\<close>

interpretation cdb_suite: readable_graph db_ok abs_db cdb_ul cdb_ue "cdb_remove_stale_edges id Connected" "cdb_find_link Connected"
    "\<lambda>f t b D. cdb_links_api id (\<lambda>ls. Inr (whole_rows ls)) D f t b"
    "\<lambda>f t b D. cdb_edges_api id (\<lambda>es. Inr (whole_rows es)) D f t b"
proof (unfold_locales, goal_cases)
  case (1 s i l)
  then have "link_with_id i s = Some l" by (simp add: abs_db_links)
  moreover from this have "link_id l = i" using db_ok_link_iff [OF 1(1)] by simp
  ultimately show ?case by (cases l) (simp add: cdb_find_link_def find_link_query_def)
next
  case (2 s i)
  then show ?case by (simp add: abs_db_links cdb_find_link_def find_link_query_def)
next
  case (3 s draws x y s')
  have "link_with_url (link_url x) s = None"
    using 3(1,3) by (auto simp: has_url_abs_db link_with_url_def find_None_iff)
  with 3(2) show ?case
    by (auto simp: cdb_ul_def cdb_upsert_link_def upsert_link_query_def split: if_splits prod.splits option.splits)
next
  case (4 s draws now e e' s')
  then show ?case
    by (auto simp: cdb_ue_def cdb_upsert_edge_def upsert_edge_query_def split: if_splits prod.splits option.splits sum.splits)
next
  case (5 s f t b)
  have "distinct (tb_links s)" using 5 by (auto simp: db_ok_def distinct_map)
  moreover have "set (links_in_partition_query id f t b s) =
      {l. \<exists>i. st_links (abs_db s) i = Some l \<and> f \<le> i \<and> i < t \<and> link_retrieved_at l < b}"
    by (auto simp: links_in_partition_query_def st_links_abs_db [OF 5])
  ultimately show ?case by (simp add: cdb_links_api_whole) (simp add: links_in_partition_query_def)
next
  case (6 s f t b)
  have "distinct (tb_edges s)" using 6 by (auto simp: db_ok_def distinct_map)
  moreover have "set (edges_in_partition_query id f t b s) =
      {e. \<exists>i. st_edges (abs_db s) i = Some e \<and> f \<le> edge_src e \<and> edge_src e < t \<and> edge_updated_at e < b}"
    by (auto simp: edges_in_partition_query_def st_edges_abs_db [OF 6])
  ultimately show ?case by (simp add: cdb_edges_api_whole) (simp add: edges_in_partition_query_def)
qed

section \<open>The suite\<close>

text \<open>The hooks: a new graph, and \<^verbatim>\<open>flushDB\<close>.\<close>

definition mem_impl :: "uuid_pkg \<Rightarrow> (mem_graph \<Rightarrow> uuid list) \<Rightarrow> mem_graph graph_impl" where
  "mem_impl L order =
     \<lparr>gi_upsert_link = upsert_link, gi_find_link = find_link, gi_upsert_edge = upsert_edge,
      gi_remove_stale_edges = remove_stale_edges, gi_links = mem_links_api L order, gi_edges = mem_edges_api L order\<rparr>"

definition cdb_impl :: "db graph_impl" where
  "cdb_impl =
     \<lparr>gi_upsert_link = cdb_ul, gi_find_link = cdb_find_link Connected, gi_upsert_edge = cdb_ue,
      gi_remove_stale_edges = cdb_remove_stale_edges id Connected,
      gi_links = (\<lambda>f t b D. cdb_links_api id (\<lambda>ls. Inr (whole_rows ls)) D f t b),
      gi_edges = (\<lambda>f t b D. cdb_edges_api id (\<lambda>es. Inr (whole_rows es)) D f t b)\<rparr>"

definition flush_db :: "db \<Rightarrow> db" where
  "flush_db D = D\<lparr>tb_links := [], tb_edges := []\<rparr>"

lemma mem_empty: "st_links (abs_graph new_mem_graph) = Map.empty" "st_edges (abs_graph new_mem_graph) = Map.empty"
  by (simp_all add: fun_eq_iff new_mem_graph_def)

lemma flush_db_ok: "db_ok (flush_db D)"
  by (simp add: db_ok_def flush_db_def)

lemma flush_db_empty: "st_links (abs_db (flush_db D)) = Map.empty" "st_edges (abs_db (flush_db D)) = Map.empty"
  by (simp_all add: fun_eq_iff abs_db_def flush_db_def link_with_id_def)

text \<open>
  C8. The acceptance suite.  All ten tests of the suite for link graphs pass, without an error
  or a fatal one, on the in-memory graph, whatever order its maps are iterated in, and on the
  CockroachDB graph while its connection does not fail, from any earlier contents: for any
  clock that advances by less than an hour from one reading to the next, and any generator that
  offers a thousand identifiers per call and none of the extreme ones.
\<close>

theorem graph_stores_pass_suite:
  assumes "bench_env_ok E" "enumerates order" "0 \<le> be_now b" "0 \<le> be_now d"
  shows "fst (run_suite E (mem_impl (en_pkg E) order) (\<lambda>_. new_mem_graph) suite_tests b) = [] \<and>
    fst (run_suite E cdb_impl flush_db suite_tests d) = []"
proof
  have L: "uuid_pkg_ok (en_pkg E)" using assms(1) by (simp add: bench_env_ok_def)
  show "fst (run_suite E (mem_impl (en_pkg E) order) (\<lambda>_. new_mem_graph) suite_tests b) = []"
    unfolding mem_impl_def mem_suite.impl_def [symmetric]
    by (rule mem_suite.suite_passes [OF assms(1,3)]) (simp only: L assms(2) mem_inv_new mem_empty simp_thms)
  show "fst (run_suite E cdb_impl flush_db suite_tests d) = []"
    unfolding cdb_impl_def cdb_suite.impl_def [symmetric]
    by (rule cdb_suite.suite_passes [OF assms(1,4)]) (simp only: flush_db_ok flush_db_empty simp_thms)
qed

definition plain_bench_env :: bench_env where
  "plain_bench_env = \<lparr>en_draws = (\<lambda>_. map of_nat [1..<1001]), en_lag = (\<lambda>_. 0), en_new_uuid = 2000, en_pkg = rfc4122_pkg\<rparr>"

definition sorted_order :: "mem_graph \<Rightarrow> uuid list" where
  "sorted_order g = sorted_list_of_set (dom (mg_links g))"

lemma plain_bench_env_ok: "bench_env_ok plain_bench_env"
proof -
  let ?ds = "map of_nat [1..<1001] :: uuid list"
  have unat: "unat (of_nat n :: uuid) = n" if "n < 1001" for n
    by (rule unat_of_nat_uuid) (use that in simp)
  have mem: "u \<in> set ?ds \<Longrightarrow> 1 \<le> unat u \<and> unat u < 1001" for u by (auto simp: unat simp del: upt_rec_numeral)
  have "inj_on (of_nat :: nat \<Rightarrow> uuid) (set [1..<1001])"
    by (rule inj_on_inverseI [where g = unat]) (simp add: unat del: upt_rec_numeral)
  then have "card (set ?ds) = 1000" by (simp add: card_image del: upt_rec_numeral)
  moreover have "uuid_nil \<notin> set ?ds" using mem [of uuid_nil] by (auto simp del: upt_rec_numeral)
  moreover have "uuid_max \<notin> set ?ds" using mem [of uuid_max] unfolding unat_uuid_max by (auto simp del: upt_rec_numeral)
  moreover have "2000 \<notin> set ?ds" using mem [of 2000] by (auto simp del: upt_rec_numeral)
  ultimately show ?thesis
    by (simp add: bench_env_ok_def plain_bench_env_def rfc4122_pkg_ok del: upt_rec_numeral list.set_map set_map)
qed

lemma sorted_order_enumerates: "enumerates sorted_order"
  by (simp add: enumerates_def sorted_order_def)

theorem graph_stores_pass_suite_witness:
  "fst (run_suite plain_bench_env (mem_impl (en_pkg plain_bench_env) sorted_order) (\<lambda>_. new_mem_graph) suite_tests
     \<lparr>be_store = new_mem_graph, be_now = 0, be_calls = 0\<rparr>) = []"
  using graph_stores_pass_suite [OF plain_bench_env_ok sorted_order_enumerates,
    of "\<lparr>be_store = new_mem_graph, be_now = 0, be_calls = 0\<rparr>" "\<lparr>be_store = \<lparr>tb_links = [], tb_edges = []\<rparr>, be_now = 0, be_calls = 0\<rparr>"]
  by simp

end
