(* ===== verification/IndexSuite.thy ===== *)
theory IndexSuite
  imports TestMonad IndexApi
begin

text \<open>
  The acceptance suite for implementations of the text index (\<^verbatim>\<open>index/indextest/indextest.go\<close>), as
  programs over an implementation given by its operations and the methods of its iterators.
  A document is a value; the one a test holds on to is the one the last call of \<^verbatim>\<open>Index\<close> left.
\<close>

section \<open>Implementations\<close>

record ('s, 'i) index_impl =
  xi_index :: "go_time \<Rightarrow> document \<Rightarrow> 's \<Rightarrow> go_error option \<times> document \<times> 's"
  xi_find_by_id :: "uuid \<Rightarrow> 's \<Rightarrow> document outcome"
  xi_update_score :: "uuid \<Rightarrow> real \<Rightarrow> 's \<Rightarrow> go_error option \<times> 's"
  xi_search :: "query \<Rightarrow> 's \<Rightarrow> go_error + 'i"
  xi_ops :: "'s \<Rightarrow> 'i result_ops"

text \<open>
  The environment: the identifier \<^verbatim>\<open>uuid.New\<close> gives as the k-th call of a run, and the time that
  passes before the clock is read.
\<close>

record index_env =
  xe_new :: "nat \<Rightarrow> uuid"
  xe_lag :: "nat \<Rightarrow> nat"
  xe_pkg :: uuid_pkg

definition new_uuid :: "index_env \<Rightarrow> ('s, uuid) test" where
  "new_uuid E b = (Passing (xe_new E (be_calls b)), b\<lparr>be_calls := Suc (be_calls b)\<rparr>)"

definition xnow :: "index_env \<Rightarrow> ('s, go_time) test" where
  "xnow E = tclock (xe_lag E)"

text \<open>The calls; one that panics ends the test.\<close>

definition call_index ::
  "index_env \<Rightarrow> ('s, 'i) index_impl \<Rightarrow> document \<Rightarrow> ('s, go_error option \<times> document) test" where
  "call_index E X d =
     tbind (xnow E) (\<lambda>now b.
       (case xi_index X now d (be_store b) of
          (err, d', s) \<Rightarrow> (Passing (err, d'), b\<lparr>be_store := s\<rparr>)))"

definition call_find_by_id :: "('s, 'i) index_impl \<Rightarrow> uuid \<Rightarrow> ('s, go_error + document) test" where
  "call_find_by_id X i b =
     (case xi_find_by_id X i (be_store b) of
        Returns d \<Rightarrow> (Passing (Inr d), b)
      | Fails err \<Rightarrow> (Passing (Inl err), b)
      | Panics m \<Rightarrow> (FatalStop, b))"

definition call_update_score :: "('s, 'i) index_impl \<Rightarrow> uuid \<Rightarrow> real \<Rightarrow> ('s, go_error option) test" where
  "call_update_score X i x b =
     (case xi_update_score X i x (be_store b) of (err, s) \<Rightarrow> (Passing err, b\<lparr>be_store := s\<rparr>))"

definition call_search :: "('s, 'i) index_impl \<Rightarrow> query \<Rightarrow> ('s, go_error + 'i) test" where
  "call_search X q b = (Passing (xi_search X q (be_store b)), b)"

text \<open>
  The loop of \<^verbatim>\<open>iterateDocs\<close>; it has no result when \<^verbatim>\<open>Next\<close> is still true after \<open>n\<close> calls.  The
  tests store at most a hundred documents, and one in which a thousand calls are not enough
  does not pass.
\<close>

fun iterate_ids :: "'i result_ops \<Rightarrow> nat \<Rightarrow> 'i \<Rightarrow> uuid list \<Rightarrow> (uuid list \<times> 'i) outcome option" where
  "iterate_ids I 0 it seen = None"
| "iterate_ids I (Suc n) it seen =
     (case ro_next I it of
        Returns (found, it') \<Rightarrow>
          if found then iterate_ids I n it' (seen @ [doc_link_id (ro_document I it')])
          else Some (Returns (seen, it'))
      | Fails err \<Rightarrow> Some (Fails err)
      | Panics m \<Rightarrow> Some (Panics m))"

definition iterate_docs :: "('s, 'i) index_impl \<Rightarrow> 'i \<Rightarrow> ('s, uuid list) test" where
  "iterate_docs X it b =
     (let I = xi_ops X (be_store b) in
      case iterate_ids I 1000 it [] of
        Some (Returns (seen, it')) \<Rightarrow>
          tbind (tfatal (ro_error I it' \<noteq> None)) (\<lambda>_.
          tbind (tfatal (ro_close I it' \<noteq> Returns ())) (\<lambda>_.
          treturn seen)) b
      | _ \<Rightarrow> (FatalStop, b))"

text \<open>\<^verbatim>\<open>reverse\<close> swaps its way from both ends of the slice.\<close>

function reverse_from :: "int \<Rightarrow> int \<Rightarrow> uuid list \<Rightarrow> uuid list" where
  "reverse_from left right xs =
     (if left < right
      then reverse_from (left + 1) (right - 1) (xs[nat left := xs ! nat right, nat right := xs ! nat left])
      else xs)"
  by auto
termination by (relation "measure (\<lambda>(left, right, xs). nat (right - left))") auto

declare reverse_from.simps [simp del]

definition reverse_ids :: "uuid list \<Rightarrow> uuid list" where
  "reverse_ids xs = reverse_from 0 (int (length xs) - 1) xs"

section \<open>Indexing and looking up\<close>

definition illustrious_doc :: "index_env \<Rightarrow> ('s, document) test" where
  "illustrious_doc E =
     tbind (new_uuid E) (\<lambda>i.
     tbind (xnow E) (\<lambda>now.
     treturn (zero_document\<lparr>doc_link_id := i, doc_url := ''http://example.com'',
       doc_title := ''Illustrious examples'', doc_content := ''Lorem ipsum dolor'',
       doc_indexed_at := now - hours 12\<rparr>)))"

definition exciting_update :: "go_time \<Rightarrow> document \<Rightarrow> document" where
  "exciting_update now d = d\<lparr>doc_url := ''http://example.com'', doc_title := ''A more exciting title'',
     doc_content := ''Ovidius poeta in terra pontica'', doc_indexed_at := now\<rparr>"

definition test_index_document :: "index_env \<Rightarrow> ('s, 'i) index_impl \<Rightarrow> ('s, unit) test" where
  "test_index_document E X =
     tbind (call_index E X (zero_document\<lparr>doc_url := ''http://example.com''\<rparr>)) (\<lambda>(err, _).
     tbind (terror (case err of None \<Rightarrow> True | Some e \<Rightarrow> \<not> errors_is e IndexErrMissingLinkID)) (\<lambda>_.
     tbind (illustrious_doc E) (\<lambda>doc.
     tbind (call_index E X doc) (\<lambda>(err, doc').
     tbind (tfatal (err \<noteq> None)) (\<lambda>_.
     tbind (xnow E) (\<lambda>now.
     tbind (call_index E X (exciting_update now doc')) (\<lambda>(err, _).
     terror (err \<noteq> None))))))))"

definition test_index_does_not_override_page_rank :: "index_env \<Rightarrow> ('s, 'i) index_impl \<Rightarrow> ('s, unit) test" where
  "test_index_does_not_override_page_rank E X =
     tbind (illustrious_doc E) (\<lambda>doc.
     tbind (call_index E X doc) (\<lambda>(err, doc').
     tbind (tfatal (err \<noteq> None)) (\<lambda>_.
     tbind (call_update_score X (doc_link_id doc') (1 / 2)) (\<lambda>err.
     tbind (tfatal (err \<noteq> None)) (\<lambda>_.
     tbind (xnow E) (\<lambda>now.
     tbind (call_index E X (exciting_update now doc')) (\<lambda>(err, doc'').
     tbind (terror (err \<noteq> None)) (\<lambda>_.
     tbind (must (call_find_by_id X (doc_link_id doc''))) (\<lambda>got.
     terror (doc_page_rank got \<noteq> 1 / 2))))))))))"

definition test_find_by_id :: "index_env \<Rightarrow> ('s, 'i) index_impl \<Rightarrow> ('s, unit) test" where
  "test_find_by_id E X =
     tbind (illustrious_doc E) (\<lambda>doc.
     tbind (call_index E X doc) (\<lambda>(err, doc').
     tbind (tfatal (err \<noteq> None)) (\<lambda>_.
     tbind (must (call_find_by_id X (doc_link_id doc'))) (\<lambda>got.
     tbind (terror (got \<noteq> doc')) (\<lambda>_.
     tbind (new_uuid E) (\<lambda>i.
     tbind (call_find_by_id X i) (\<lambda>r.
     terror (case r of Inr _ \<Rightarrow> True | Inl e \<Rightarrow> \<not> errors_is e IndexErrNotFound))))))))"

section \<open>Searching\<close>

text \<open>
  The loop with which four of the tests fill the index: \<open>numDocs\<close> documents with falling scores,
  the content of the i-th given by \<open>content\<close>.  It answers their identifiers.
\<close>

definition id_title :: "uuid_pkg \<Rightarrow> uuid \<Rightarrow> string" where
  "id_title L i = ''doc with ID '' @ up_string L i"

definition insert_scored_docs ::
  "index_env \<Rightarrow> ('s, 'i) index_impl \<Rightarrow> nat \<Rightarrow> (nat \<Rightarrow> string) \<Rightarrow> ('s, uuid list) test" where
  "insert_scored_docs E X numDocs content =
     tmap (\<lambda>i.
       tbind (new_uuid E) (\<lambda>u.
       tbind (call_index E X (zero_document\<lparr>doc_link_id := u, doc_title := id_title (xe_pkg E) u,
         doc_content := content i\<rparr>)) (\<lambda>(err, doc).
       tbind (tfatal (err \<noteq> None)) (\<lambda>_.
       tbind (call_update_score X (doc_link_id doc) (real numDocs - real i)) (\<lambda>err.
       tbind (tfatal (err \<noteq> None)) (\<lambda>_.
       treturn u)))))) [0..<numDocs]"

text \<open>Every fifth document is the expected one; \<open>rest\<close> is the content of the others.\<close>

definition fifth_content :: "string \<Rightarrow> nat \<Rightarrow> string" where
  "fifth_content rest i = (if i mod 5 = 0 then ''Lorem Dolor Ipsum'' else rest)"

definition fifth_ids :: "uuid list \<Rightarrow> uuid list" where
  "fifth_ids ids = map (\<lambda>i. ids ! i) (filter (\<lambda>i. i mod 5 = 0) [0..<length ids])"

definition search_ids :: "('s, 'i) index_impl \<Rightarrow> query \<Rightarrow> ('s, uuid list) test" where
  "search_ids X q = tbind (must (call_search X q)) (iterate_docs X)"

definition test_phrase_search :: "index_env \<Rightarrow> ('s, 'i) index_impl \<Rightarrow> ('s, unit) test" where
  "test_phrase_search E X =
     tbind (insert_scored_docs E X 50 (fifth_content ''Lorem Ipsum Dolor'')) (\<lambda>ids.
     tbind (search_ids X
       \<lparr>query_type = QueryTypePhrase, query_expression = ''lorem dolor ipsum'', query_offset = 0\<rparr>) (\<lambda>got.
     terror (got \<noteq> fifth_ids ids)))"

definition test_match_search :: "index_env \<Rightarrow> ('s, 'i) index_impl \<Rightarrow> ('s, unit) test" where
  "test_match_search E X =
     tbind (insert_scored_docs E X 50 (fifth_content ''Ovidius poeta in terra pontica'')) (\<lambda>ids.
     tbind (search_ids X
       \<lparr>query_type = QueryTypeMatch, query_expression = ''lorem ipsum'', query_offset = 0\<rparr>) (\<lambda>got.
     terror (got \<noteq> fifth_ids ids)))"

definition poeta_query :: "64 word \<Rightarrow> query" where
  "poeta_query off = \<lparr>query_type = QueryTypeMatch, query_expression = ''poeta'', query_offset = off\<rparr>"

definition test_match_search_with_offset :: "index_env \<Rightarrow> ('s, 'i) index_impl \<Rightarrow> ('s, unit) test" where
  "test_match_search_with_offset E X =
     tbind (insert_scored_docs E X 50 (\<lambda>_. ''Ovidius poeta in terra pontica'')) (\<lambda>expIDs.
     tbind (search_ids X (poeta_query 20)) (\<lambda>ids.
     tbind (terror (ids \<noteq> drop 20 expIDs)) (\<lambda>_.
     tbind (search_ids X (poeta_query 200)) (\<lambda>ids'.
     terror (length ids' \<noteq> 0)))))"

definition test_update_score :: "index_env \<Rightarrow> ('s, 'i) index_impl \<Rightarrow> ('s, unit) test" where
  "test_update_score E X =
     tbind (insert_scored_docs E X 100 (\<lambda>_. ''Ovidius poeta in terra pontica'')) (\<lambda>expIDs.
     tbind (search_ids X (poeta_query 0)) (\<lambda>ids.
     tbind (terror (ids \<noteq> expIDs)) (\<lambda>_.
     tbind (tmap (\<lambda>i.
       tbind (call_update_score X (expIDs ! i) (real i)) (\<lambda>err.
       tfatal (err \<noteq> None))) [0..<100]) (\<lambda>_.
     tbind (search_ids X (poeta_query 0)) (\<lambda>ids'.
     terror (ids' \<noteq> reverse_ids expIDs))))))"

definition test_update_score_for_unknown_document :: "index_env \<Rightarrow> ('s, 'i) index_impl \<Rightarrow> ('s, unit) test" where
  "test_update_score_for_unknown_document E X =
     tbind (new_uuid E) (\<lambda>linkID.
     tbind (call_update_score X linkID (1 / 2)) (\<lambda>err.
     tbind (tfatal (err \<noteq> None)) (\<lambda>_.
     tbind (must (call_find_by_id X linkID)) (\<lambda>doc.
     tbind (terror (doc_url doc \<noteq> [])) (\<lambda>_.
     tbind (terror (doc_title doc \<noteq> [])) (\<lambda>_.
     tbind (terror (doc_content doc \<noteq> [])) (\<lambda>_.
     tbind (terror (doc_indexed_at doc \<noteq> zero_time)) (\<lambda>_.
     terror (doc_page_rank doc \<noteq> 1 / 2)))))))))"

section \<open>The suite\<close>

definition index_suite_tests :: "(string \<times> (index_env \<Rightarrow> ('s, 'i) index_impl \<Rightarrow> ('s, unit) test)) list" where
  "index_suite_tests =
     [(''Index document'', test_index_document),
      (''Index does not override pagerank'', test_index_does_not_override_page_rank),
      (''Find by ID'', test_find_by_id),
      (''Phrase search'', test_phrase_search),
      (''Match search'', test_match_search),
      (''Match search with offset'', test_match_search_with_offset),
      (''Update score'', test_update_score),
      (''Update score for unknown document'', test_update_score_for_unknown_document)]"

text \<open>The names of the tests that fail; a hook that is not set does nothing.\<close>

definition hook :: "('s, unit) test option \<Rightarrow> ('s, unit) test" where
  "hook h = (case h of None \<Rightarrow> treturn () | Some t \<Rightarrow> t)"

fun run_index_suite ::
  "index_env \<Rightarrow> ('s, 'i) index_impl \<Rightarrow> ('s, unit) test option \<Rightarrow> ('s, unit) test option \<Rightarrow>
   (string \<times> (index_env \<Rightarrow> ('s, 'i) index_impl \<Rightarrow> ('s, unit) test)) list \<Rightarrow> 's bench \<Rightarrow> string list \<times> 's bench" where
  "run_index_suite E X before_each after_each [] b = ([], b)"
| "run_index_suite E X before_each after_each ((nm, test) # tests) b =
     (case tbind (hook before_each) (\<lambda>_. tbind (test E X) (\<lambda>_. hook after_each)) b of
        (v, b') \<Rightarrow>
          (case run_index_suite E X before_each after_each tests b' of
             (failed, b'') \<Rightarrow> (if v = Passing () then failed else nm # failed, b'')))"

section \<open>Reversing\<close>

lemma reverse_from_nth:
  assumes "0 \<le> left" "right < int (length xs)" "left \<le> right + 1"
  shows "length (reverse_from left right xs) = length xs \<and>
    (\<forall>k < length xs. reverse_from left right xs ! k =
       (if left \<le> int k \<and> int k \<le> right then xs ! nat (left + right - int k) else xs ! k))"
  using assms
proof (induction left right xs rule: reverse_from.induct)
  case (1 left right xs)
  show ?case
  proof (cases "left < right")
    case True
    define ys where "ys = xs[nat left := xs ! nat right, nat right := xs ! nat left]"
    have IH: "length (reverse_from (left + 1) (right - 1) ys) = length xs"
      "k < length xs \<Longrightarrow> reverse_from (left + 1) (right - 1) ys ! k =
         (if left + 1 \<le> int k \<and> int k \<le> right - 1 then ys ! nat (left + right - int k) else ys ! k)" for k
      using 1(1) [OF True, folded ys_def] 1(2-4) True by (auto simp: ys_def)
    have ys: "k < length xs \<Longrightarrow> ys ! k = (if int k = right then xs ! nat left else if int k = left then xs ! nat right else xs ! k)" for k
      using 1(2,3) True by (auto simp: ys_def nth_list_update)
    have "reverse_from left right xs = reverse_from (left + 1) (right - 1) ys"
      by (subst reverse_from.simps) (simp add: True ys_def)
    moreover have "reverse_from (left + 1) (right - 1) ys ! k =
        (if left \<le> int k \<and> int k \<le> right then xs ! nat (left + right - int k) else xs ! k)" if k: "k < length xs" for k
    proof -
      consider "left = int k" | "right = int k" | "left + 1 \<le> int k \<and> int k \<le> right - 1" | "int k < left \<or> right < int k"
        by linarith
      then show ?thesis
      proof cases
        case 3
        define k' where "k' = nat (left + right - int k)"
        have k': "int k' = left + right - int k" "k' < length xs" using 3 1(2,3) by (simp_all add: k'_def nat_less_iff)
        then have "int k' \<noteq> left" "int k' \<noteq> right" using 3 by linarith+
        then have "ys ! k' = xs ! k'" using ys [OF k'(2)] by simp
        then show ?thesis using IH(2) [OF k] 3 by (simp add: k'_def [symmetric])
      next
        case 4
        then have "ys ! k = xs ! k" using ys [OF k] True by auto
        then show ?thesis using IH(2) [OF k] 4 by auto
      qed (use IH(2) [OF k] ys [OF k] True in auto)
    qed
    ultimately show ?thesis using IH(1) by simp
  next
    case False
    then have "nat (left + right - int k) = k" if "left \<le> int k" "int k \<le> right" for k using that by simp
    with False show ?thesis by (auto simp: reverse_from.simps [of left right])
  qed
qed

lemma reverse_ids_rev: "reverse_ids xs = rev xs"
proof (rule nth_equalityI)
  have *: "length (reverse_ids xs) = length xs \<and>
    (\<forall>k < length xs. reverse_ids xs ! k =
       (if 0 \<le> int k \<and> int k \<le> int (length xs) - 1 then xs ! nat (0 + (int (length xs) - 1) - int k) else xs ! k))"
    unfolding reverse_ids_def by (rule reverse_from_nth) auto
  then show "length (reverse_ids xs) = length (rev xs)" by simp
  fix k
  assume "k < length (reverse_ids xs)"
  with * show "reverse_ids xs ! k = rev xs ! k"
    by (simp add: rev_nth nat_diff_distrib algebra_simps flip: of_nat_Suc)
qed

end
