(* ===== verification/IndexAcceptance.thy ===== *)
theory IndexAcceptance
  imports IndexSuite
begin

text \<open>
  What an index that can be searched promises, as the locale \<open>searchable_index\<close>, and the proof that
  every such index passes the acceptance suite.
\<close>

section \<open>Text engines\<close>

text \<open>
  What a text engine documents about its queries, phrase or match: the texts, title and content,
  an expression matches, and which texts are equally relevant to it whatever else is stored.
\<close>

record text_engine =
  te_matches :: "bool \<Rightarrow> string \<Rightarrow> string \<Rightarrow> string \<Rightarrow> bool"
  te_alike :: "bool \<Rightarrow> string \<Rightarrow> string \<times> string \<Rightarrow> string \<times> string \<Rightarrow> bool"

definition query_matches :: "text_engine \<Rightarrow> query \<Rightarrow> document \<Rightarrow> bool" where
  "query_matches T q d = te_matches T (query_type q = QueryTypePhrase) (query_expression q) (doc_title d) (doc_content d)"

definition query_alike :: "text_engine \<Rightarrow> query \<Rightarrow> document \<Rightarrow> document \<Rightarrow> bool" where
  "query_alike T q d e = te_alike T (query_type q = QueryTypePhrase) (query_expression q)
     (doc_title d, doc_content d) (doc_title e, doc_content e)"

text \<open>The texts and the queries of the suite: matching ignores case and wants whole words.\<close>

definition suite_texts_ok :: "uuid_pkg \<Rightarrow> text_engine \<Rightarrow> bool" where
  "suite_texts_ok L T \<longleftrightarrow> (\<forall>u v c.
     te_matches T True ''lorem dolor ipsum'' (id_title L u) ''Lorem Dolor Ipsum'' \<and>
     \<not> te_matches T True ''lorem dolor ipsum'' (id_title L u) ''Lorem Ipsum Dolor'' \<and>
     te_matches T False ''lorem ipsum'' (id_title L u) ''Lorem Dolor Ipsum'' \<and>
     \<not> te_matches T False ''lorem ipsum'' (id_title L u) ''Ovidius poeta in terra pontica'' \<and>
     te_matches T False ''poeta'' (id_title L u) ''Ovidius poeta in terra pontica'' \<and>
     te_alike T True ''lorem dolor ipsum'' (id_title L u, c) (id_title L v, c) \<and>
     te_alike T False ''lorem ipsum'' (id_title L u, c) (id_title L v, c) \<and>
     te_alike T False ''poeta'' (id_title L u, c) (id_title L v, c))"

section \<open>Orders of results\<close>

text \<open>Two orders of the same documents by strictly falling scores are the same.\<close>

lemma falling_unique:
  fixes f :: "'d \<Rightarrow> real"
  assumes "distinct ds" "sorted_wrt (\<lambda>d e. f e \<le> f d) ds" "sorted_wrt (\<lambda>d e. f e < f d) es" "set ds = set es"
  shows "ds = es"
proof -
  let ?g = "\<lambda>d. - f d"
  have "sorted_wrt (<) (map ?g es)" using assms(3) by (simp add: sorted_wrt_map)
  then have es: "sorted (map ?g es)" "distinct (map ?g es)" by (simp_all add: strict_sorted_iff)
  then have inj: "inj_on ?g (set ds \<union> set es)" using assms(4) by (simp add: distinct_map)
  have ds: "sorted (map ?g ds)" using assms(2) by (simp add: sorted_wrt_map)
  have "distinct (map ?g ds)" using assms(1) inj by (simp add: distinct_map inj_on_Un)
  with map_sorted_distinct_set_unique [OF inj ds _ es assms(4)] show ?thesis by simp
qed

lemma iterate_ids_drain:
  "ops_drain I n it = Returns (ds, it') \<Longrightarrow> length ds < n \<Longrightarrow>
   iterate_ids I n it seen = Some (Returns (seen @ map doc_link_id ds, it'))"
proof (induction n arbitrary: it ds seen)
  case (Suc n)
  then show ?case by (fastforce split: if_splits)
qed simp

section \<open>The contract\<close>

definition yields :: "'i result_ops \<Rightarrow> 'i \<Rightarrow> document list \<Rightarrow> bool" where
  "yields I it ds \<longleftrightarrow> (\<forall>n > length ds. \<exists>it'. ops_drain I n it = Returns (ds, it') \<and>
     ro_error I it' = None \<and> ro_close I it' = Returns ())"

text \<open>A thousand calls in a row never draw the same identifier twice, and none draws the nil one.\<close>

definition index_env_ok :: "index_env \<Rightarrow> bool" where
  "index_env_ok E \<longleftrightarrow> (\<forall>k. inj_on (xe_new E) {k..<k + 1000}) \<and> 0 \<notin> range (xe_new E)"

text \<open>
  \<open>scored s\<close> are the documents that have been given a score, which a search may require of all of
  them.  A search answers the documents that match, each once, and orders those that are equally
  relevant by their scores, as long as all of it lies in the window of results the index can page
  through.
\<close>

locale searchable_index = text_indexer +
  fixes T :: text_engine
    and search :: "query \<Rightarrow> 'a \<Rightarrow> go_error + 'i"
    and ops :: "'a \<Rightarrow> 'i result_ops"
    and scored :: "'a \<Rightarrow> uuid set"
    and window :: nat
  assumes index_succeeds: "inv s \<Longrightarrow> doc_link_id d \<noteq> 0 \<Longrightarrow> fst (index_doc now d s) = None"
    and update_succeeds: "inv s \<Longrightarrow> fst (update_score i x s) = None"
    and index_scored: "inv s \<Longrightarrow> index_doc now d s = (None, d', s') \<Longrightarrow> scored s \<subseteq> scored s'"
    and update_scored: "inv s \<Longrightarrow> update_score i x s = (None, s') \<Longrightarrow> insert i (scored s) \<subseteq> scored s'"
    and window_size: "1000 \<le> window"
    and search_spec: "inv s \<Longrightarrow> dom (abs s) \<subseteq> scored s \<Longrightarrow> finite (dom (abs s)) \<Longrightarrow> card (dom (abs s)) + 10 \<le> window \<Longrightarrow>
      query_offset q = of_nat k \<Longrightarrow> k + 10 \<le> window \<Longrightarrow>
      \<exists>it ds. search q s = Inr it \<and> yields (ops s) it (drop k ds) \<and> distinct ds \<and>
        set ds = {d \<in> ran (abs s). query_matches T q d} \<and>
        sorted_wrt (\<lambda>d e. query_alike T q d e \<longrightarrow> doc_page_rank e \<le> doc_page_rank d) ds"
begin

definition impl :: "('a, 'i) index_impl" where
  "impl = \<lparr>xi_index = index_doc, xi_find_by_id = find_by_id, xi_update_score = update_score,
     xi_search = search, xi_ops = ops\<rparr>"

text \<open>
  The bench after m readings of the clock or draws: the index holds A, the documents S have been
  scored, and the identifiers U have been drawn.
\<close>

definition holds :: "index_env \<Rightarrow> nat \<Rightarrow> uuid set \<Rightarrow> doc_store \<Rightarrow> uuid set \<Rightarrow> 'a bench \<Rightarrow> bool" where
  "holds E m U A S b \<longleftrightarrow> inv (be_store b) \<and> abs (be_store b) = A \<and> S \<subseteq> scored (be_store b) \<and>
     dom A \<subseteq> U \<and> m \<le> be_calls b \<and> U \<subseteq> xe_new E ` {be_calls b - m..<be_calls b}"

lemma holds_domD: "holds E m U A S b \<Longrightarrow> A i = Some d \<Longrightarrow> i \<in> U"
  by (auto simp: holds_def)

subsection \<open>One rule per call\<close>

lemma holds_call:
  assumes "holds E m U A S b"
  shows "holds E (Suc m) U A S (b\<lparr>be_now := t, be_calls := Suc (be_calls b)\<rparr>)"
proof -
  have "{be_calls b - m..<be_calls b} \<subseteq> {be_calls b - m..<Suc (be_calls b)}" by auto
  with assms show ?thesis unfolding holds_def by (auto dest: subset_trans [OF _ image_mono])
qed

lemma xnow_ok:
  assumes "holds E m U A S b" "\<And>t b'. holds E (Suc m) U A S b' \<Longrightarrow> Q t b'"
  shows "passes (xnow E) Q b"
  unfolding xnow_def passes_tclock by (rule assms(2)) (rule holds_call [OF assms(1)])

lemma new_uuid_ok:
  assumes E: "index_env_ok E" and b: "holds E m U A S b" and m: "m < 1000"
    and Q: "\<And>u b'. holds E (Suc m) (insert u U) A S b' \<Longrightarrow> u \<notin> U \<Longrightarrow> u \<noteq> 0 \<Longrightarrow> Q u b'"
  shows "passes (new_uuid E) Q b"
proof -
  let ?c = "be_calls b"
  let ?u = "xe_new E ?c" and ?b = "b\<lparr>be_calls := Suc ?c\<rparr>"
  have calls: "m \<le> ?c" and U: "U \<subseteq> xe_new E ` {?c - m..<?c}" using b by (simp_all add: holds_def)
  have inj: "inj_on (xe_new E) {?c - m..<?c - m + 1000}" using E by (simp add: index_env_ok_def)
  have "?u \<notin> xe_new E ` {?c - m..<?c}"
  proof
    assume "?u \<in> xe_new E ` {?c - m..<?c}"
    then obtain j where j: "?c - m \<le> j" "j < ?c" "xe_new E j = ?u" by auto
    have "?c < ?c - m + 1000" using calls m by linarith
    then have "j = ?c" using j calls by (intro inj_onD [OF inj j(3)]) auto
    with j(2) show False by simp
  qed
  then have "?u \<notin> U" using U by blast
  moreover have "?u \<noteq> 0" using E by (auto simp: index_env_ok_def)
  moreover have "holds E (Suc m) (insert ?u U) A S ?b"
    using holds_call [OF b, of "be_now b"] b calls by (auto simp: holds_def)
  ultimately have "Q ?u ?b" using Q by blast
  then show ?thesis by (simp add: passes_def new_uuid_def)
qed

lemma call_index_ok:
  assumes E: "index_env_ok E" and b: "holds E m U A S b" and d: "doc_link_id d \<in> U" "doc_page_rank d = 0"
    and Q: "\<And>t b'. holds E (Suc m) U (put_doc d t A) S b' \<Longrightarrow> Q (None, d\<lparr>doc_indexed_at := t\<rparr>) b'"
  shows "passes (call_index E impl d) Q b"
  unfolding call_index_def passes_tbind
proof (rule xnow_ok [OF b])
  fix now b1
  assume b1: "holds E (Suc m) U A S b1"
  then have inv: "inv (be_store b1)" and id: "doc_link_id d \<noteq> 0"
    using d(1) E by (auto simp: holds_def index_env_ok_def)
  obtain d' s' where run: "index_doc now d (be_store b1) = (None, d', s')"
    using index_succeeds [OF inv id, of now] by (cases "index_doc now d (be_store b1)") auto
  have d0: "d\<lparr>doc_page_rank := 0\<rparr> = d" using d(2) by simp
  have ok: "inv s'" "d' = d\<lparr>doc_indexed_at := doc_indexed_at d'\<rparr>" "abs s' = put_doc d (doc_indexed_at d') A"
    using index_ok [OF inv id run] d(2) b1 by (auto simp: holds_def d0)
  have "S \<subseteq> scored s'" using index_scored [OF inv run] b1 by (auto simp: holds_def)
  moreover have "dom (put_doc d (doc_indexed_at d') A) \<subseteq> U" using b1 d(1) by (auto simp: holds_def put_doc_def)
  ultimately have "holds E (Suc m) U (put_doc d (doc_indexed_at d') A) S (b1\<lparr>be_store := s'\<rparr>)" using ok b1 by (simp add: holds_def)
  from Q [OF this, folded ok(2)]
  show "passes (\<lambda>b. case xi_index impl now d (be_store b) of (err, d', s) \<Rightarrow> (Passing (err, d'), b\<lparr>be_store := s\<rparr>)) Q b1"
    by (simp add: passes_def impl_def run)
qed

lemma call_index_missing:
  assumes b: "holds E m U A S b" and d: "doc_link_id d = 0"
    and Q: "\<And>err b'. holds E (Suc m) U A S b' \<Longrightarrow> errors_is err IndexErrMissingLinkID \<Longrightarrow> Q (Some err, d) b'"
  shows "passes (call_index E impl d) Q b"
  unfolding call_index_def passes_tbind
proof (rule xnow_ok [OF b])
  fix now b1
  assume b1: "holds E (Suc m) U A S b1"
  then obtain err where run: "index_doc now d (be_store b1) = (Some err, d, be_store b1)" "errors_is err IndexErrMissingLinkID"
    using index_missing_id [OF _ d, of "be_store b1" now] by (auto simp: holds_def)
  from Q [OF b1 run(2)]
  show "passes (\<lambda>b. case xi_index impl now d (be_store b) of (err, d', s) \<Rightarrow> (Passing (err, d'), b\<lparr>be_store := s\<rparr>)) Q b1"
    by (simp add: passes_def impl_def run(1))
qed

lemma call_update_score_ok:
  assumes b: "holds E m U A S b" and i: "i \<in> U"
    and Q: "\<And>b'. holds E m U (put_score i x A) (insert i S) b' \<Longrightarrow> Q None b'"
  shows "passes (call_update_score impl i x) Q b"
proof -
  have inv: "inv (be_store b)" using b by (simp add: holds_def)
  obtain s' where run: "update_score i x (be_store b) = (None, s')"
    using update_succeeds [OF inv, of i x] by (cases "update_score i x (be_store b)") auto
  have "holds E m U (put_score i x A) (insert i S) (b\<lparr>be_store := s'\<rparr>)"
    using update_ok [OF inv run] update_scored [OF inv run] b i by (auto simp: holds_def put_score_def)
  from Q [OF this] show ?thesis by (simp add: passes_def call_update_score_def impl_def run)
qed

lemma call_find_ok:
  assumes "holds E m U A S b" "A i = Some d" "Q (Inr d) b"
  shows "passes (call_find_by_id impl i) Q b"
  using assms find_found [of "be_store b" i d] by (simp add: passes_def call_find_by_id_def impl_def holds_def)

lemma call_find_unknown:
  assumes "holds E m U A S b" "A i = None" "\<And>err. errors_is err IndexErrNotFound \<Longrightarrow> Q (Inl err) b"
  shows "passes (call_find_by_id impl i) Q b"
proof -
  obtain err where "find_by_id i (be_store b) = Fails err" "errors_is err IndexErrNotFound"
    using find_unknown [of "be_store b" i] assms(1,2) by (auto simp: holds_def)
  with assms(3) show ?thesis by (simp add: passes_def call_find_by_id_def impl_def)
qed

subsection \<open>Filling the index\<close>

text \<open>The documents of a test, as the index holds them: the j-th has the content and the score given for j.\<close>

definition filled :: "uuid_pkg \<Rightarrow> (nat \<Rightarrow> string) \<Rightarrow> (nat \<Rightarrow> real) \<Rightarrow> doc_store \<Rightarrow> uuid list \<Rightarrow> bool" where
  "filled L content score A ids \<longleftrightarrow> distinct ids \<and> dom A = set ids \<and>
     (\<forall>j < length ids. \<exists>t. A (ids ! j) = Some (zero_document\<lparr>doc_link_id := ids ! j, doc_title := id_title L (ids ! j),
        doc_content := content j, doc_indexed_at := t, doc_page_rank := score j\<rparr>))"

lemma filled_add:
  assumes "filled L content score A ids" "u \<notin> set ids"
  shows "filled L content score (put_score u (score (length ids)) (put_doc (zero_document\<lparr>doc_link_id := u,
    doc_title := id_title L u, doc_content := content (length ids)\<rparr>) t A)) (ids @ [u])"
proof -
  have "A u = None" using assms by (auto simp: filled_def domIff)
  then have A': "put_score u (score (length ids)) (put_doc (zero_document\<lparr>doc_link_id := u,
      doc_title := id_title L u, doc_content := content (length ids)\<rparr>) t A) =
    A(u \<mapsto> zero_document\<lparr>doc_link_id := u, doc_title := id_title L u, doc_content := content (length ids),
      doc_indexed_at := t, doc_page_rank := score (length ids)\<rparr>)"
    by (simp add: put_score_def put_doc_def)
  have "ids ! j \<noteq> u" if "j < length ids" for j using assms(2) that nth_mem by metis
  then show ?thesis using assms unfolding A' by (auto simp: filled_def nth_append less_Suc_eq)
qed

lemma insert_scored_docs_ok:
  assumes E: "index_env_ok E" and b: "holds E 0 {} Map.empty {} b" and n: "2 * n \<le> 1000"
    and Q: "\<And>ids A b'. holds E (2 * n) (set ids) A (set ids) b' \<Longrightarrow> length ids = n \<Longrightarrow>
      filled (xe_pkg E) content (\<lambda>j. real n - real j) A ids \<Longrightarrow> Q ids b'"
  shows "passes (insert_scored_docs E impl n content) Q b"
proof -
  let ?r = "\<lambda>j. real n - real j"
  show ?thesis
    unfolding insert_scored_docs_def
  proof (rule passes_tmap [where P = "\<lambda>i ids b. \<exists>A. holds E (2 * i) (set ids) A (set ids) b \<and> filled (xe_pkg E) content ?r A ids"])
    fix i ids b'
    assume i: "i < length [0..<n]" "length ids = i"
      and inv: "\<exists>A. holds E (2 * i) (set ids) A (set ids) b' \<and> filled (xe_pkg E) content ?r A ids"
    then obtain A where A: "holds E (2 * i) (set ids) A (set ids) b'" "filled (xe_pkg E) content ?r A ids" by blast
    have i': "[0..<n] ! i = i" using i by simp
    show "passes (tbind (new_uuid E) (\<lambda>u. tbind (call_index E impl (zero_document\<lparr>doc_link_id := u,
          doc_title := id_title (xe_pkg E) u, doc_content := content ([0..<n] ! i)\<rparr>)) (\<lambda>(err, doc).
        tbind (tfatal (err \<noteq> None)) (\<lambda>_.
        tbind (call_update_score impl (doc_link_id doc) (real n - real ([0..<n] ! i))) (\<lambda>err.
        tbind (tfatal (err \<noteq> None)) (\<lambda>_. treturn u))))))
      (\<lambda>a b. \<exists>A. holds E (2 * Suc i) (set (ids @ [a])) A (set (ids @ [a])) b \<and> filled (xe_pkg E) content ?r A (ids @ [a])) b'"
      unfolding i'
    proof (rule passes_bindI, rule new_uuid_ok [OF E A(1)], use i n in simp)
      fix u b1
      assume b1: "holds E (Suc (2 * i)) (insert u (set ids)) A (set ids) b1" and u: "u \<notin> set ids"
      let ?d = "zero_document\<lparr>doc_link_id := u, doc_title := id_title (xe_pkg E) u, doc_content := content i\<rparr>"
      have d0: "doc_page_rank ?d = 0" by (simp add: zero_document_def)
      show "passes (tbind (call_index E impl ?d) (\<lambda>(err, doc).
          tbind (tfatal (err \<noteq> None)) (\<lambda>_.
          tbind (call_update_score impl (doc_link_id doc) (real n - real i)) (\<lambda>err.
          tbind (tfatal (err \<noteq> None)) (\<lambda>_. treturn u)))))
        (\<lambda>a b. \<exists>A. holds E (2 * Suc i) (set (ids @ [a])) A (set (ids @ [a])) b \<and> filled (xe_pkg E) content ?r A (ids @ [a])) b1"
      proof (rule passes_bindI, rule call_index_ok [OF E b1 _ d0], simp, simp only: prod.case test_simps not_True_eq_False
          option.simps simp_thms, rule call_update_score_ok, assumption, simp)
        fix t b2
        assume "holds E (Suc (Suc (2 * i))) (insert u (set ids)) (put_score (doc_link_id (?d\<lparr>doc_indexed_at := t\<rparr>)) (real n - real i) (put_doc ?d t A))
          (insert (doc_link_id (?d\<lparr>doc_indexed_at := t\<rparr>)) (set ids)) b2"
        with filled_add [OF A(2) u, of t] i(2)
        show "None = None \<and> (\<exists>A. holds E (2 * Suc i) (set (ids @ [u])) A (set (ids @ [u])) b2 \<and> filled (xe_pkg E) content ?r A (ids @ [u]))"
          by auto
      qed
    qed
  next
    show "\<exists>A. holds E (2 * 0) (set []) A (set []) b \<and> filled (xe_pkg E) content ?r A []"
      using b by (auto simp: filled_def)
  next
    fix ids b'
    assume "length ids = length [0..<n]" "\<exists>A. holds E (2 * length [0..<n]) (set ids) A (set ids) b' \<and> filled (xe_pkg E) content ?r A ids"
    with Q show "Q ids b'" by auto
  qed
qed

subsection \<open>Searching\<close>

text \<open>
  When the matching documents are equally relevant, a search answers them by falling scores: js
  are their positions in this order.
\<close>

lemma search_filled:
  assumes b: "holds E m U A S b" and fill: "filled L content r A ids" and S: "set ids \<subseteq> S" and len: "length ids + 10 \<le> 1000"
    and q: "ph = (query_type q = QueryTypePhrase)" "e = query_expression q" "query_offset q = of_nat k" "k + 10 \<le> 1000"
    and js: "set js = {j. j < length ids \<and> te_matches T ph e (id_title L (ids ! j)) (content j)}"
      "sorted_wrt (\<lambda>i j. r j < r i) js"
    and alike: "\<And>u v i j. i \<in> set js \<Longrightarrow> j \<in> set js \<Longrightarrow> te_alike T ph e (id_title L u, content i) (id_title L v, content j)"
    and Q: "Q (map (\<lambda>j. ids ! j) (drop k js)) b"
  shows "passes (search_ids impl q) Q b"
proof -
  define doc where "doc j = the (A (ids ! j))" for j
  have doc: "A (ids ! j) = Some (doc j)" "doc_link_id (doc j) = ids ! j" "doc_title (doc j) = id_title L (ids ! j)"
    "doc_content (doc j) = content j" "doc_page_rank (doc j) = r j" if "j < length ids" for j
    using fill that by (auto simp: filled_def doc_def)
  have dom: "dom A = set ids" "distinct ids" using fill by (simp_all add: filled_def)
  then have card: "card (dom A) + 10 \<le> window" using len window_size by (simp add: distinct_card)
  have k: "k + 10 \<le> window" using q(4) window_size by simp
  have "dom A \<subseteq> scored (be_store b)" using b S dom by (auto simp: holds_def)
  then obtain it ds where it: "search q (be_store b) = Inr it" "yields (ops (be_store b)) it (drop k ds)"
    and ds: "distinct ds" "set ds = {d \<in> ran A. query_matches T q d}"
      "sorted_wrt (\<lambda>d e. query_alike T q d e \<longrightarrow> doc_page_rank e \<le> doc_page_rank d) ds"
    using search_spec [of "be_store b" q k] b card dom q(3) k by (auto simp: holds_def)
  have js_len: "j < length ids" if "j \<in> set js" for j using that js(1) by simp
  have ran: "ran A = doc ` {..<length ids}"
  proof -
    have "ran A = {the (A i) |i. i \<in> dom A}" by (force simp: ran_def domIff)
    also have "\<dots> = doc ` {..<length ids}" by (force simp: dom(1) in_set_conv_nth doc_def)
    finally show ?thesis .
  qed
  have set_ds: "set ds = set (map doc js)"
    unfolding ds(2) ran set_map js(1) q(1,2) by (auto simp: query_matches_def doc)
  have "query_alike T q d e'" if de: "d \<in> set ds" "e' \<in> set ds" for d e'
  proof -
    obtain i j where ij: "i \<in> set js" "j \<in> set js" "d = doc i" "e' = doc j" using de unfolding set_ds by auto
    with alike [OF ij(1,2)] show ?thesis unfolding query_alike_def q(1,2) by (simp add: doc js_len)
  qed
  then have "sorted_wrt (\<lambda>d e. doc_page_rank e \<le> doc_page_rank d) ds"
    using sorted_wrt_mono_rel [of ds _ "\<lambda>d e. doc_page_rank e \<le> doc_page_rank d", OF _ ds(3)] by blast
  moreover have "sorted_wrt (\<lambda>d e. doc_page_rank e < doc_page_rank d) (map doc js)"
    unfolding sorted_wrt_map using js_len by (intro sorted_wrt_mono_rel [OF _ js(2)]) (simp add: doc)
  ultimately have eq: "ds = map doc js" using falling_unique [OF ds(1) _ _ set_ds] by blast
  have "length ds \<le> length ids"
    using card_mono [of "doc ` {..<length ids}" "set ds"] card_image_le [of "{..<length ids}" doc] ds(1,2)
    by (auto simp: ran distinct_card [symmetric] intro: le_trans)
  then have "length (drop k ds) < 1000" using len by simp
  then obtain it' where it': "ops_drain (ops (be_store b)) 1000 it = Returns (drop k ds, it')"
    "ro_error (ops (be_store b)) it' = None" "ro_close (ops (be_store b)) it' = Returns ()"
    using it(2) unfolding yields_def by blast
  have "map doc_link_id (drop k ds) = map (\<lambda>j. ids ! j) (drop k js)"
    unfolding eq drop_map map_map by (rule map_cong) (auto simp: doc js_len dest: in_set_dropD)
  with iterate_ids_drain [OF it'(1) \<open>length (drop k ds) < 1000\<close>, of "[]"]
  have "iterate_ids (ops (be_store b)) 1000 it [] = Some (Returns (map (\<lambda>j. ids ! j) (drop k js), it'))" by simp
  then have "passes (iterate_docs impl it) Q b"
    using Q it'(2,3) unfolding passes_def
    by (simp add: iterate_docs_def impl_def tbind_def tfatal_def treturn_def)
  moreover have "call_search impl q b = (Passing (Inr it), b)" by (simp add: call_search_def impl_def it(1))
  ultimately show ?thesis
    unfolding search_ids_def passes_tbind passes_must by (simp add: passes_def [of "call_search impl q"])
qed

subsection \<open>The tests\<close>

definition index_test_ok :: "index_env \<Rightarrow> (index_env \<Rightarrow> ('a, 'i) index_impl \<Rightarrow> ('a, unit) test) \<Rightarrow> bool" where
  "index_test_ok E test \<longleftrightarrow>
     (\<forall>b. holds E 0 {} Map.empty {} b \<longrightarrow> passes (test E impl) (\<lambda>_ b'. \<exists>m U A S. holds E m U A S b') b)"

lemma index_test_okI:
  "(\<And>b. holds E 0 {} Map.empty {} b \<Longrightarrow> passes (test E impl) (\<lambda>_ b'. \<exists>m U A S. holds E m U A S b') b) \<Longrightarrow> index_test_ok E test"
  by (simp add: index_test_ok_def)

lemma last_check: "holds E m U A S b \<Longrightarrow> \<not> c \<Longrightarrow> passes (terror c) (\<lambda>_ b'. \<exists>m U A S. holds E m U A S b') b"
  by (auto simp: passes_terror)

lemma new_doc_indexed_ok:
  assumes E: "index_env_ok E" and b: "holds E m U A S b" and m: "m < 1000"
    and Q: "\<And>d b'. holds E (Suc (Suc (Suc m))) (insert (doc_link_id d) U) (A(doc_link_id d \<mapsto> d)) S b' \<Longrightarrow> doc_link_id d \<notin> U \<Longrightarrow>
      doc_page_rank d = 0 \<Longrightarrow> passes (f d) Q b'"
  shows "passes (tbind (illustrious_doc E) (\<lambda>doc. tbind (call_index E impl doc) (\<lambda>(err, d).
    tbind (tfatal (err \<noteq> None)) (\<lambda>_. f d)))) Q b"
  unfolding illustrious_doc_def
proof (rule passes_bindI, rule passes_bindI, rule new_uuid_ok [OF E b m], rule passes_bindI, rule xnow_ok, assumption,
    rule passes_returnI, rule passes_bindI, rule call_index_ok [OF E], assumption, goal_cases)
  case (3 u b1 now b2 t b3)
  define d where "d = zero_document\<lparr>doc_link_id := u, doc_url := ''http://example.com'', doc_title := ''Illustrious examples'',
    doc_content := ''Lorem ipsum dolor'', doc_indexed_at := t\<rparr>"
  have "A u = None" using 3(2) holds_domD [OF b, of u] by (cases "A u") auto
  then have "holds E (Suc (Suc (Suc m))) (insert (doc_link_id d) U) (A(doc_link_id d \<mapsto> d)) S b3"
    using 3(5) by (simp add: put_doc_def d_def zero_document_def)
  from Q [OF this] show ?case using 3(2) by (simp add: d_def zero_document_def test_simps)
qed (simp_all add: zero_document_def)

lemma update_fatal_ok:
  assumes "holds E m U A S b" "i \<in> U" "\<And>b'. holds E m U (put_score i x A) (insert i S) b' \<Longrightarrow> passes f Q b'"
  shows "passes (tbind (call_update_score impl i x) (\<lambda>err. tbind (tfatal (err \<noteq> None)) (\<lambda>_. f))) Q b"
  by (rule passes_bindI, rule call_update_score_ok [OF assms(1,2)]) (simp add: test_simps assms(3))

lemma find_must_ok:
  assumes "holds E m U A S b" "A i = Some d" "passes (f d) Q b"
  shows "passes (tbind (must (call_find_by_id impl i)) f) Q b"
  by (rule passes_bindI, rule passes_mustI, rule call_find_ok [OF assms(1,2)]) (simp add: assms(3))

lemma exciting_update_same: "doc_link_id (exciting_update t d) = doc_link_id d" "doc_page_rank (exciting_update t d) = doc_page_rank d"
  by (simp_all add: exciting_update_def)

lemma index_document_ok:
  assumes E: "index_env_ok E"
  shows "index_test_ok E test_index_document"
proof (rule index_test_okI, unfold test_index_document_def, rule passes_bindI, rule call_index_missing, assumption, goal_cases)
  case (2 b err b1)
  show ?case
    unfolding prod.case
  proof (rule passes_bindI, rule passes_errorI, use 2 in simp, rule new_doc_indexed_ok [OF E 2(2)], simp, rule passes_bindI,
      rule xnow_ok, assumption, rule passes_bindI, rule call_index_ok [OF E], assumption, goal_cases)
    case (3 d b2 now b3 t b4)
    then show ?case by (simp add: last_check)
  qed (simp_all add: exciting_update_same)
qed (simp add: zero_document_def)

lemma not_override_ok:
  assumes E: "index_env_ok E"
  shows "index_test_ok E test_index_does_not_override_page_rank"
proof (rule index_test_okI, unfold test_index_does_not_override_page_rank_def, rule new_doc_indexed_ok [OF E], assumption, simp,
    rule update_fatal_ok, assumption, simp, rule passes_bindI, rule xnow_ok, assumption, rule passes_bindI,
    rule call_index_ok [OF E], assumption, goal_cases)
  case (3 b d b1 b2 now b3 t b4)
  show ?case
    unfolding prod.case
    by (rule passes_bindI, rule passes_errorI, simp, rule find_must_ok [OF 3(7)])
      (simp add: put_doc_def put_score_def exciting_update_def, rule last_check [OF 3(7)], simp)
qed (simp_all add: exciting_update_same)

lemma find_by_id_ok:
  assumes E: "index_env_ok E"
  shows "index_test_ok E test_find_by_id"
proof (rule index_test_okI, unfold test_find_by_id_def, rule new_doc_indexed_ok [OF E], assumption, simp,
    rule find_must_ok, assumption, simp, rule passes_bindI, rule passes_errorI, simp, rule passes_bindI,
    rule new_uuid_ok [OF E], assumption, simp, rule passes_bindI, rule call_find_unknown, assumption, goal_cases)
  case (1 b d b1 u b2)
  then show ?case by auto
next
  case (2 b d b1 u b2 err)
  then show ?case by (simp add: last_check)
qed

lemma update_unknown_ok:
  assumes E: "index_env_ok E"
  shows "index_test_ok E test_update_score_for_unknown_document"
proof (rule index_test_okI, unfold test_update_score_for_unknown_document_def, rule passes_bindI, rule new_uuid_ok [OF E],
    assumption, simp, rule update_fatal_ok, assumption, simp, rule find_must_ok, assumption, simp add: put_score_def, goal_cases)
  case (1 b u b1 b2)
  then show ?case by (auto simp: test_simps zero_document_def)
qed

text \<open>The positions of the expected documents, which the searches find in the order of their insertion.\<close>

lemma sorted_filter_upt: "sorted_wrt (<) (filter P [0..<n])"
  by (intro sorted_wrt_filter) simp

lemma nth_all: "map (\<lambda>j. ids ! j) (drop k [0..<length ids]) = drop k ids"
  by (rule nth_equalityI) simp_all

lemma suite_textsD:
  assumes "suite_texts_ok L T"
  shows "te_matches T True ''lorem dolor ipsum'' (id_title L u) (fifth_content ''Lorem Ipsum Dolor'' i) \<longleftrightarrow> i mod 5 = 0"
    "te_matches T False ''lorem ipsum'' (id_title L u) (fifth_content ''Ovidius poeta in terra pontica'' i) \<longleftrightarrow> i mod 5 = 0"
    "te_matches T False ''poeta'' (id_title L u) ''Ovidius poeta in terra pontica''"
    "te_alike T True ''lorem dolor ipsum'' (id_title L u, c) (id_title L v, c)"
    "te_alike T False ''lorem ipsum'' (id_title L u, c) (id_title L v, c)"
    "te_alike T False ''poeta'' (id_title L u, c) (id_title L v, c)"
  using assms by (simp_all add: suite_texts_ok_def fifth_content_def)

lemma fifth_content_alike: "i mod 5 = 0 \<Longrightarrow> j mod 5 = 0 \<Longrightarrow> fifth_content c i = fifth_content c j"
  by (simp add: fifth_content_def)

lemma phrase_search_ok:
  assumes E: "index_env_ok E" and T: "suite_texts_ok (xe_pkg E) T"
  shows "index_test_ok E test_phrase_search"
proof (rule index_test_okI, unfold test_phrase_search_def, rule passes_bindI, rule insert_scored_docs_ok [OF E], assumption, simp, goal_cases)
  case (1 b ids A b1)
  let ?js = "filter (\<lambda>i. i mod 5 = 0) [0..<length ids]"
  have alike: "te_alike T True ''lorem dolor ipsum'' (id_title (xe_pkg E) u, fifth_content c i) (id_title (xe_pkg E) v, fifth_content c j)"
    if "i \<in> set ?js" "j \<in> set ?js" for u v i j c
    using that suite_textsD(4) [OF T] fifth_content_alike [of i j c] by simp
  show ?case
    by (rule passes_bindI, rule search_filled [OF 1(2) 1(4), of True _ _ 0 ?js])
      (use last_check [OF 1(2)] 1(3) alike in
        \<open>auto simp: suite_textsD [OF T] fifth_ids_def sorted_filter_upt simp del: upt_rec_numeral\<close>)
qed

lemma match_search_ok:
  assumes E: "index_env_ok E" and T: "suite_texts_ok (xe_pkg E) T"
  shows "index_test_ok E test_match_search"
proof (rule index_test_okI, unfold test_match_search_def, rule passes_bindI, rule insert_scored_docs_ok [OF E], assumption, simp, goal_cases)
  case (1 b ids A b1)
  let ?js = "filter (\<lambda>i. i mod 5 = 0) [0..<length ids]"
  have alike: "te_alike T False ''lorem ipsum'' (id_title (xe_pkg E) u, fifth_content c i) (id_title (xe_pkg E) v, fifth_content c j)"
    if "i \<in> set ?js" "j \<in> set ?js" for u v i j c
    using that suite_textsD(5) [OF T] fifth_content_alike [of i j c] by simp
  show ?case
    by (rule passes_bindI, rule search_filled [OF 1(2) 1(4), of False _ _ 0 ?js])
      (use last_check [OF 1(2)] 1(3) alike in
        \<open>auto simp: suite_textsD [OF T] fifth_ids_def sorted_filter_upt simp del: upt_rec_numeral\<close>)
qed

text \<open>Every document matches the last query; js is the order of the scores.\<close>

lemma poeta_search_ok:
  assumes T: "suite_texts_ok (xe_pkg E) T" and b: "holds E m U A S b"
    and fill: "filled (xe_pkg E) (\<lambda>_. ''Ovidius poeta in terra pontica'') r A ids" and S: "set ids \<subseteq> S" and len: "length ids + 10 \<le> 1000"
    and js: "set js = {..<length ids}" "sorted_wrt (\<lambda>i j. r j < r i) js" and k: "k + 10 \<le> 1000"
    and Q: "Q (map (\<lambda>j. ids ! j) (drop k js)) b"
  shows "passes (search_ids impl (poeta_query (of_nat k))) Q b"
proof (rule search_filled [OF b fill S len, where ph = False and k = k and js = js])
  show "set js = {j. j < length ids \<and> te_matches T False ''poeta'' (id_title (xe_pkg E) (ids ! j)) ''Ovidius poeta in terra pontica''}"
    using js(1) by (auto simp: suite_textsD(3) [OF T])
qed (use k in \<open>simp_all add: poeta_query_def suite_textsD(6) [OF T] js(2) Q\<close>)

lemma offset_search_ok:
  assumes E: "index_env_ok E" and T: "suite_texts_ok (xe_pkg E) T"
  shows "index_test_ok E test_match_search_with_offset"
proof (rule index_test_okI, unfold test_match_search_with_offset_def, rule passes_bindI, rule insert_scored_docs_ok [OF E],
    assumption, simp, goal_cases)
  case (1 b ids A b1)
  note search = poeta_search_ok [OF T 1(2) 1(4) subset_refl, where js = "[0..<length ids]"]
  have b1: "holds E (2 * 50) (set ids) A (set ids) b1" and n: "length ids = 50" by (fact 1(2,3))+
  have len: "length ids + 10 \<le> 1000" using n by simp
  have falling: "sorted_wrt (\<lambda>i j. real 50 - real j < real 50 - real i) [0..<length ids]"
    by (simp add: sorted_wrt_iff_nth_less)
  have found: "passes (search_ids impl (poeta_query (of_nat k))) Q b1" if "k + 10 \<le> 1000" "Q (drop k ids) b1" for k Q
    using that by (intro search [OF len _ falling]) (auto simp: nth_all simp del: drop_upt)
  show ?case
  proof (rule passes_bindI, rule found [of 20, simplified], rule passes_bindI, rule passes_errorI, simp,
      rule passes_bindI, rule found [of 200, simplified], goal_cases)
    case 1
    show ?case by (rule last_check [OF b1]) (simp add: n)
  qed
qed

lemma filled_rescore:
  assumes "filled L content r A ids" "i < length ids"
  shows "filled L content (r(i := x)) (put_score (ids ! i) x A) ids"
proof -
  have "ids ! j = ids ! i \<longleftrightarrow> j = i" if "j < length ids" for j
    using assms that by (simp add: filled_def nth_eq_iff_index_eq)
  moreover obtain t where "A (ids ! i) = Some (zero_document\<lparr>doc_link_id := ids ! i, doc_title := id_title L (ids ! i),
      doc_content := content i, doc_indexed_at := t, doc_page_rank := r i\<rparr>)"
    using assms by (auto simp: filled_def)
  moreover have "insert (ids ! i) (set ids) = set ids" using assms(2) by auto
  ultimately show ?thesis using assms by (auto simp: filled_def put_score_def)
qed

lemma update_score_ok:
  assumes E: "index_env_ok E" and T: "suite_texts_ok (xe_pkg E) T"
  shows "index_test_ok E test_update_score"
proof (rule index_test_okI, unfold test_update_score_def, rule passes_bindI, rule insert_scored_docs_ok [OF E], assumption, simp, goal_cases)
  case (1 b ids A b1)
  let ?poeta = "\<lambda>_ :: nat. ''Ovidius poeta in terra pontica''"
  let ?r = "\<lambda>i j. if j < i then real j else real 100 - real j"
  have n: "length ids = 100" by (fact 1(3))
  have len: "length ids + 10 \<le> 1000" using n by simp
  have falling: "sorted_wrt (\<lambda>i j. real 100 - real j < real 100 - real i) [0..<length ids]"
    by (simp add: sorted_wrt_iff_nth_less)
  have rising: "sorted_wrt (\<lambda>i j. ?r 100 j < ?r 100 i) (rev [0..<length ids])"
    unfolding sorted_wrt_rev n by (simp add: sorted_wrt_iff_nth_less del: upt_rec_numeral)
  have rescored: "passes (tmap (\<lambda>i. tbind (call_update_score impl (ids ! i) (real i)) (\<lambda>err. tfatal (err \<noteq> None))) [0..<100]) Q b1"
    if Q: "\<And>us A b. holds E (2 * 100) (set ids) A (set ids) b \<Longrightarrow> filled (xe_pkg E) ?poeta (?r 100) A ids \<Longrightarrow> Q us b" for Q
  proof (rule passes_tmap [where P = "\<lambda>i _ b. \<exists>A. holds E (2 * 100) (set ids) A (set ids) b \<and> filled (xe_pkg E) ?poeta (?r i) A ids"])
    fix i us b
    assume i: "i < length [0..<100]" and "\<exists>A. holds E (2 * 100) (set ids) A (set ids) b \<and> filled (xe_pkg E) ?poeta (?r i) A ids"
    then obtain A where A: "holds E (2 * 100) (set ids) A (set ids) b" "filled (xe_pkg E) ?poeta (?r i) A ids" by blast
    have mem: "ids ! i \<in> set ids" and i': "[0..<100] ! i = i" using i n by (simp_all del: upt_rec_numeral)
    have "(?r i)(i := real i) = ?r (Suc i)" by (auto simp: fun_eq_iff)
    with filled_rescore [OF A(2), of i "real i"] i n
    have rescored1: "filled (xe_pkg E) ?poeta (?r (Suc i)) (put_score (ids ! i) (real i) A) ids" by (simp del: upt_rec_numeral)
    show "passes (tbind (call_update_score impl (ids ! ([0..<100] ! i)) (real ([0..<100] ! i))) (\<lambda>err. tfatal (err \<noteq> None)))
      (\<lambda>_ b. \<exists>A. holds E (2 * 100) (set ids) A (set ids) b \<and> filled (xe_pkg E) ?poeta (?r (Suc i)) A ids) b"
      unfolding i'
    proof (rule passes_bindI, rule call_update_score_ok [OF A(1) mem], rule passes_fatalI, simp)
      fix b'
      assume "holds E (2 * 100) (set ids) (put_score (ids ! i) (real i) A) (insert (ids ! i) (set ids)) b'"
      then have "holds E (2 * 100) (set ids) (put_score (ids ! i) (real i) A) (set ids) b'" using mem by (simp add: insert_absorb)
      with rescored1 show "\<exists>A. holds E (2 * 100) (set ids) A (set ids) b' \<and> filled (xe_pkg E) ?poeta (?r (Suc i)) A ids" by blast
    qed
  next
    show "\<exists>A. holds E (2 * 100) (set ids) A (set ids) b1 \<and> filled (xe_pkg E) ?poeta (?r 0) A ids" using 1(2,4) by auto
  next
    fix us b
    assume "\<exists>A. holds E (2 * 100) (set ids) A (set ids) b \<and> filled (xe_pkg E) ?poeta (?r (length [0..<100])) A ids"
    then show "Q us b" using Q by (auto simp del: upt_rec_numeral)
  qed
  show ?case
  proof (rule passes_bindI, rule poeta_search_ok [OF T 1(2) 1(4) subset_refl len _ falling, where k = 0, simplified],
      simp add: atLeast0LessThan, rule passes_bindI, rule passes_errorI, simp add: map_nth, rule passes_bindI, rule rescored, goal_cases)
    case (1 us A' b2)
    show ?case
    proof (rule passes_bindI, rule poeta_search_ok [OF T 1(1) 1(2) subset_refl len _ rising, where k = 0, simplified],
        simp add: atLeast0LessThan, rule last_check [OF 1(1)])
      show "\<not> map ((!) ids) (rev [0..<length ids]) \<noteq> reverse_ids ids"
        by (simp add: reverse_ids_rev map_nth flip: rev_map)
    qed
  qed
qed

section \<open>The suite\<close>

lemma all_index_tests_ok:
  assumes "index_env_ok E" "suite_texts_ok (xe_pkg E) T"
  shows "\<forall>(nm, test) \<in> set index_suite_tests. index_test_ok E test"
  using assms
  by (simp add: index_suite_tests_def index_document_ok not_override_ok find_by_id_ok phrase_search_ok match_search_ok
      offset_search_ok update_score_ok update_unknown_ok)

lemma index_suite_passes:
  assumes env: "index_env_ok E" "suite_texts_ok (xe_pkg E) T"
    and before: "\<And>b. passes (hook before_each) (\<lambda>_ b'. inv (be_store b') \<and> abs (be_store b') = Map.empty) b"
    and after: "\<And>b. inv (be_store b) \<Longrightarrow> passes (hook after_each) (\<lambda>_ _. True) b"
  shows "fst (run_index_suite E impl before_each after_each index_suite_tests b) = []"
proof -
  have "fst (run_index_suite E impl before_each after_each tests b) = []"
    if "\<forall>(nm, test) \<in> set tests. index_test_ok E test" for tests b
    using that
  proof (induction tests arbitrary: b)
    case (Cons nt tests)
    obtain nm test where nt: "nt = (nm, test)" by (cases nt)
    have "passes (tbind (hook before_each) (\<lambda>_. tbind (test E impl) (\<lambda>_. hook after_each))) (\<lambda>_ _. True) b"
    proof (rule passes_bindI, rule passes_mono [OF before], rule passes_bindI)
      fix u and b1 :: "'a bench"
      assume "inv (be_store b1) \<and> abs (be_store b1) = Map.empty"
      then have "holds E 0 {} Map.empty {} b1" by (simp add: holds_def)
      then have "passes (test E impl) (\<lambda>_ b'. \<exists>m U A S. holds E m U A S b') b1"
        using Cons.prems by (simp add: nt index_test_ok_def)
      then show "passes (test E impl) (\<lambda>_. passes (hook after_each) (\<lambda>_ _. True)) b1"
        by (rule passes_mono) (auto simp: holds_def intro: after)
    qed
    then obtain b' where "tbind (hook before_each) (\<lambda>_. tbind (test E impl) (\<lambda>_. hook after_each)) b = (Passing (), b')"
      by (auto simp: passes_def)
    then show ?case using Cons.IH [of b'] Cons.prems by (simp add: nt split: prod.split)
  qed simp
  from this [OF all_index_tests_ok [OF env]] show ?thesis .
qed

end

end
