(* ===== verification/IndexEngines.thy ===== *)
theory IndexEngines
  imports IndexAcceptance GoRegexp "HOL-Library.Sublist"
begin

text \<open>
  The two text engines: what bleve and Elasticsearch document beside the paging of a search, as the
  hypotheses \<open>bleve_engine\<close> and \<open>es_engine\<close>, and engines on lists that satisfy them.
\<close>

section \<open>What the engines document\<close>

fun bleve_matches :: "text_engine \<Rightarrow> bleve_query \<Rightarrow> bleve_document \<Rightarrow> bool" where
  "bleve_matches T (MatchPhraseQuery e) d = te_matches T True e (bd_title d) (bd_content d)"
| "bleve_matches T (MatchQuery e) d = te_matches T False e (bd_title d) (bd_content d)"

text \<open>
  What bleve documents: a new index is empty, indexing files a document under its key, and a
  search sorted by descending \<^verbatim>\<open>PageRank\<close> pages through the keys of the documents that match.
  \<open>content\<close> is what an index holds.
\<close>

definition bleve_engine :: "'b bleve_pkg \<Rightarrow> text_engine \<Rightarrow> ('b \<Rightarrow> string \<rightharpoonup> bleve_document) \<Rightarrow> bool" where
  "bleve_engine B T content \<longleftrightarrow>
     (\<exists>b. bp_new_mem_only B = Inr b \<and> content b = Map.empty) \<and>
     (\<forall>key d b. \<exists>b'. bp_index B key d b = (None, b') \<and> content b' = (content b)(key \<mapsto> d)) \<and>
     (\<forall>b. bp_close B b = None) \<and>
     (\<forall>b bq. finite (dom (content b)) \<longrightarrow>
        (\<exists>ids. bleve_answers B bq [''-PageRank'', ''-_score''] b ids \<and> distinct ids \<and>
           set ids = {k. \<exists>d. content b k = Some d \<and> bleve_matches T bq d} \<and>
           sorted_wrt (\<lambda>k l. bd_page_rank (the (content b l)) \<le> bd_page_rank (the (content b k))) ids))"

fun es_matches :: "text_engine \<Rightarrow> es_query_body \<Rightarrow> es_fields \<Rightarrow> bool" where
  "es_matches T (MultiMatch typ e) f = te_matches T (typ = ''phrase'') e (or_zero [] (ef_title f)) (or_zero [] (ef_content f))"
| "es_matches T (MatchLinkID key) f = (ef_link_id f = Some key)"

fun es_alike :: "text_engine \<Rightarrow> es_query_body \<Rightarrow> es_fields \<Rightarrow> es_fields \<Rightarrow> bool" where
  "es_alike T (MultiMatch typ e) f g = te_alike T (typ = ''phrase'') e
     (or_zero [] (ef_title f), or_zero [] (ef_content f)) (or_zero [] (ef_title g), or_zero [] (ef_content g))"
| "es_alike T (MatchLinkID key) f g = True"

text \<open>
  What the cluster documents, beside what finding and updating rest on: requests succeed; a search
  pages through the documents that match, and its script, which reads the field \<^verbatim>\<open>PageRank\<close>, works
  when every document has one and puts the higher score first where the relevance is the same;
  deleting the index empties it, and creating it succeeds.  \<open>delete\<close> is the deletion.
\<close>

definition es_engine ::
  "'c es_client \<Rightarrow> ('c \<Rightarrow> go_error option \<times> 'c) \<Rightarrow> text_engine \<Rightarrow> ('c \<Rightarrow> string \<rightharpoonup> es_fields) \<Rightarrow> bool" where
  "es_engine C delete T stored \<longleftrightarrow> es_update_ok C stored \<and> es_find_ok C stored \<and>
     (\<forall>refresh key doc c. \<exists>res u c'. ec_update C refresh key doc c = (Inr res, c') \<and> unmarshal_response res = Inr u) \<and>
     (\<forall>c body. finite (dom (stored c)) \<longrightarrow> (\<forall>f \<in> ran (stored c). ef_page_rank f \<noteq> None) \<longrightarrow>
        (\<exists>keys. distinct keys \<and> set keys = {k. \<exists>f. stored c k = Some f \<and> es_matches T body f} \<and>
           es_answers C c body (map (\<lambda>k. decode_es_doc (the (stored c k))) keys) \<and>
           sorted_wrt (\<lambda>k l. es_alike T body (the (stored c k)) (the (stored c l)) \<longrightarrow>
             or_zero 0 (ef_page_rank (the (stored c l))) \<le> or_zero 0 (ef_page_rank (the (stored c k)))) keys)) \<and>
     (\<forall>c. \<exists>c'. delete c = (None, c') \<and> stored c' = Map.empty) \<and>
     (\<forall>c. \<exists>res c'. ec_create_index C es_index_name c = (Inr res, c') \<and> \<not> res_is_error res \<and> stored c' = stored c)"

section \<open>Engines on lists\<close>

text \<open>
  Engines that do what is asked: texts are lists of lower-case words, a phrase is a part of such a
  list, and a match shares a word; documents are kept in lists.
\<close>

fun words_of :: "string \<Rightarrow> string list" where
  "words_of [] = [[]]"
| "words_of (c # cs) =
     (if c = CHR '' '' then [] # words_of cs
      else case words_of cs of w # ws \<Rightarrow> (lower c # w) # ws | [] \<Rightarrow> [[lower c]])"

definition word_engine :: text_engine where
  "word_engine = \<lparr>te_matches = (\<lambda>phrase e t c.
       if phrase then sublist (words_of e) (words_of c) else \<exists>w \<in> set (words_of e). w \<in> set (words_of c)),
     te_alike = (\<lambda>phrase e (t, c) (t', c'). c = c')\<rparr>"

definition by_score :: "(string \<Rightarrow> real) \<Rightarrow> (string \<Rightarrow> bool) \<Rightarrow> (string \<times> 'd) list \<Rightarrow> string list" where
  "by_score score sel b = sort_key (\<lambda>k. - score k) (filter sel (remdups (map fst b)))"

lemma by_score:
  "distinct (by_score score sel b)" "set (by_score score sel b) = {k \<in> fst ` set b. sel k}"
  "sorted_wrt (\<lambda>k l. score l \<le> score k) (by_score score sel b)"
proof -
  have "sorted (map (\<lambda>k. - score k) (by_score score sel b))" by (simp add: by_score_def)
  then show "sorted_wrt (\<lambda>k l. score l \<le> score k) (by_score score sel b)" by (simp add: sorted_wrt_map)
qed (auto simp: by_score_def)

definition list_bleve :: "(string \<times> bleve_document) list bleve_pkg" where
  "list_bleve = \<lparr>bp_new_mem_only = Inr [], bp_index = (\<lambda>key d b. (None, (key, d) # b)),
     bp_search = (\<lambda>req b.
       let ids = by_score (\<lambda>k. bd_page_rank (the (map_of b k))) (\<lambda>k. bleve_matches word_engine (sq_query req) (the (map_of b k))) b
       in Inr \<lparr>rs_total = of_nat (length ids), rs_hits = take (nat (sq_size req)) (drop (nat (sq_from req)) ids)\<rparr>),
     bp_close = (\<lambda>_. None)\<rparr>"

lemma list_bleve_engine: "bleve_engine list_bleve word_engine map_of"
  unfolding bleve_engine_def
proof (intro conjI allI impI)
  fix b :: "(string \<times> bleve_document) list" and bq
  let ?ids = "by_score (\<lambda>k. bd_page_rank (the (map_of b k))) (\<lambda>k. bleve_matches word_engine bq (the (map_of b k))) b"
  have "bleve_answers list_bleve bq [''-PageRank'', ''-_score''] b ?ids"
    by (simp add: bleve_answers_def list_bleve_def Let_def)
  moreover have "set ?ids = {k. \<exists>d. map_of b k = Some d \<and> bleve_matches word_engine bq d}"
    unfolding by_score(2) dom_map_of_conv_image_fst [symmetric] by auto
  ultimately show "\<exists>ids. bleve_answers list_bleve bq [''-PageRank'', ''-_score''] b ids \<and> distinct ids \<and>
      set ids = {k. \<exists>d. map_of b k = Some d \<and> bleve_matches word_engine bq d} \<and>
      sorted_wrt (\<lambda>k l. bd_page_rank (the (map_of b l)) \<le> bd_page_rank (the (map_of b k))) ids"
    by (intro exI [of _ ?ids] conjI by_score(1) by_score(3))
qed (simp_all add: list_bleve_def)

definition succeeded :: "'r \<Rightarrow> 'r es_response" where
  "succeeded r = \<lparr>res_is_error = False, res_error = Inl (Errorf []), res_result = Inr r\<rparr>"

definition list_cluster :: "(string \<times> es_fields) list es_client" where
  "list_cluster = \<lparr>
     ec_new_client = (\<lambda>_. Inr []),
     ec_create_index = (\<lambda>_ c. (Inr (succeeded ()), c)),
     ec_update = (\<lambda>_ key doc c. (Inr (succeeded ()), (key, merge_fields (map_of c key) doc) # c)),
     ec_search = (\<lambda>q c.
       let keys = by_score (\<lambda>k. or_zero 0 (ef_page_rank (the (map_of c k)))) (\<lambda>k. es_matches word_engine (eq_query q) (the (map_of c k))) c;
           hits = map (\<lambda>k. decode_es_doc (the (map_of c k))) keys
       in Inr (succeeded \<lparr>hits_total = of_nat (length hits), hit_list = take (eq_size q) (drop (unat (eq_from q)) hits)\<rparr>))\<rparr>"

lemma list_cluster_search:
  "\<exists>keys. distinct keys \<and> set keys = {k. \<exists>f. map_of c k = Some f \<and> es_matches word_engine body f} \<and>
     sorted_wrt (\<lambda>k l. or_zero 0 (ef_page_rank (the (map_of c l))) \<le> or_zero 0 (ef_page_rank (the (map_of c k)))) keys \<and>
     (\<forall>f n. run_es_search list_cluster c \<lparr>eq_query = body, eq_from = f, eq_size = n\<rparr> =
        Inr \<lparr>hits_total = of_nat (length keys), hit_list = take n (drop (unat f) (map (\<lambda>k. decode_es_doc (the (map_of c k))) keys))\<rparr>)"
proof -
  let ?keys = "by_score (\<lambda>k. or_zero 0 (ef_page_rank (the (map_of c k)))) (\<lambda>k. es_matches word_engine body (the (map_of c k))) c"
  have "run_es_search list_cluster c \<lparr>eq_query = body, eq_from = f, eq_size = n\<rparr> =
      Inr \<lparr>hits_total = of_nat (length ?keys), hit_list = take n (drop (unat f) (map (\<lambda>k. decode_es_doc (the (map_of c k))) ?keys))\<rparr>" for f n
    by (simp add: run_es_search_def list_cluster_def succeeded_def unmarshal_response_def Let_def)
  moreover have "set ?keys = {k. \<exists>f. map_of c k = Some f \<and> es_matches word_engine body f}"
    unfolding by_score(2) dom_map_of_conv_image_fst [symmetric] by auto
  ultimately show ?thesis by (intro exI [of _ ?keys] conjI allI by_score(1) by_score(3))
qed

lemma list_cluster_finds: "es_find_ok list_cluster map_of"
  unfolding es_find_ok_def
proof (intro allI impI)
  fix c :: "(string \<times> es_fields) list" and key
  assume filed: "filed_by_link_id (map_of c)"
  obtain keys where keys: "distinct keys" "set keys = {k. \<exists>f. map_of c k = Some f \<and> es_matches word_engine (MatchLinkID key) f}"
    "\<And>f n. run_es_search list_cluster c \<lparr>eq_query = MatchLinkID key, eq_from = f, eq_size = n\<rparr> =
        Inr \<lparr>hits_total = of_nat (length keys), hit_list = take n (drop (unat f) (map (\<lambda>k. decode_es_doc (the (map_of c k))) keys))\<rparr>"
    using list_cluster_search [of c "MatchLinkID key"] by blast
  have "set keys = (if map_of c key = None then {} else {key})"
    unfolding keys(2) using filed by (auto simp: filed_by_link_id_def)
  then have "keys = (if map_of c key = None then [] else [key])"
    using keys(1) by (cases keys; cases "tl keys") (auto split: if_splits)
  then show "\<exists>rs. run_es_search list_cluster c \<lparr>eq_query = MatchLinkID key, eq_from = 0, eq_size = 1\<rparr> = Inr rs \<and>
      hit_list rs = (case map_of c key of None \<Rightarrow> [] | Some f \<Rightarrow> [decode_es_doc f])"
    by (auto simp: keys(3))
qed

lemma list_cluster_engine: "es_engine list_cluster (\<lambda>_. (None, [])) word_engine map_of"
  unfolding es_engine_def
proof (intro conjI allI impI list_cluster_finds)
  show "es_update_ok list_cluster map_of"
    by (simp add: es_update_ok_def list_cluster_def succeeded_def unmarshal_response_def)
next
  fix c :: "(string \<times> es_fields) list" and body
  obtain keys where keys: "distinct keys" "set keys = {k. \<exists>f. map_of c k = Some f \<and> es_matches word_engine body f}"
    "sorted_wrt (\<lambda>k l. or_zero 0 (ef_page_rank (the (map_of c l))) \<le> or_zero 0 (ef_page_rank (the (map_of c k)))) keys"
    "\<And>f n. run_es_search list_cluster c \<lparr>eq_query = body, eq_from = f, eq_size = n\<rparr> =
        Inr \<lparr>hits_total = of_nat (length keys), hit_list = take n (drop (unat f) (map (\<lambda>k. decode_es_doc (the (map_of c k))) keys))\<rparr>"
    using list_cluster_search [of c body] by blast
  have "unat (of_nat f :: 64 word) = f" if "f + 10 \<le> es_result_window" for f
    using uint64_of_nat [of f] that by (simp add: es_result_window_def) (metis nat_int nat_uint_eq)
  then have "es_answers list_cluster c body (map (\<lambda>k. decode_es_doc (the (map_of c k))) keys)"
    by (simp add: es_answers_def keys(4) es_page_def)
  moreover have "sorted_wrt (\<lambda>k l. es_alike word_engine body (the (map_of c k)) (the (map_of c l)) \<longrightarrow>
      or_zero 0 (ef_page_rank (the (map_of c l))) \<le> or_zero 0 (ef_page_rank (the (map_of c k)))) keys"
    by (rule sorted_wrt_mono_rel [OF _ keys(3)]) simp
  ultimately show "\<exists>keys. distinct keys \<and> set keys = {k. \<exists>f. map_of c k = Some f \<and> es_matches word_engine body f} \<and>
      es_answers list_cluster c body (map (\<lambda>k. decode_es_doc (the (map_of c k))) keys) \<and>
      sorted_wrt (\<lambda>k l. es_alike word_engine body (the (map_of c k)) (the (map_of c l)) \<longrightarrow>
        or_zero 0 (ef_page_rank (the (map_of c l))) \<le> or_zero 0 (ef_page_rank (the (map_of c k)))) keys"
    using keys(1,2) by blast
qed (simp_all add: list_cluster_def succeeded_def unmarshal_response_def)

lemma word_engine_texts: "suite_texts_ok L word_engine"
proof -
  have words: "words_of ''lorem dolor ipsum'' = [''lorem'', ''dolor'', ''ipsum'']" "words_of ''lorem ipsum'' = [''lorem'', ''ipsum'']"
    "words_of ''poeta'' = [''poeta'']" "words_of ''Lorem Dolor Ipsum'' = [''lorem'', ''dolor'', ''ipsum'']"
    "words_of ''Lorem Ipsum Dolor'' = [''lorem'', ''ipsum'', ''dolor'']"
    "words_of ''Ovidius poeta in terra pontica'' = [''ovidius'', ''poeta'', ''in'', ''terra'', ''pontica'']"
    by code_simp+
  show ?thesis by (simp add: suite_texts_ok_def word_engine_def sublist_code words del: words_of.simps)
qed

end
