(* ===== verification/IndexStores.thy ===== *)
theory IndexStores
  imports IndexEngines
begin

text \<open>
  The in-memory index and the Elasticsearch index search as the suite's contract asks, and pass it,
  when the engines behind them do what they document.
\<close>

section \<open>The in-memory index\<close>

text \<open>The engine holds what the indexer holds, under the text of the identifiers.\<close>

definition bleve_ready ::
  "'b bleve_pkg \<Rightarrow> uuid_pkg \<Rightarrow> text_engine \<Rightarrow> ('b \<Rightarrow> string \<rightharpoonup> bleve_document) \<Rightarrow> 'b bleve_indexer \<Rightarrow> bool" where
  "bleve_ready B L T content i \<longleftrightarrow> uuid_pkg_ok L \<and> bleve_engine B T content \<and> bleve_inv i \<and>
     dom (bi_docs i) \<subseteq> range uuid_text \<and> (\<forall>k. content (bi_idx i) k = map_option make_bleve_doc (bi_docs i k))"

lemma bleve_ready_store:
  assumes i: "bleve_ready B L T content i" and id: "doc_link_id d = u"
  shows "\<exists>b'. bp_index B (uuid_text u) (make_bleve_doc d) (bi_idx i) = (None, b') \<and>
    bleve_ready B L T content \<lparr>bi_docs = (bi_docs i)(uuid_text u \<mapsto> d), bi_idx = b'\<rparr>"
proof -
  have eng: "bleve_engine B T content" using i by (simp add: bleve_ready_def)
  then obtain b' where b': "bp_index B (uuid_text u) (make_bleve_doc d) (bi_idx i) = (None, b')"
    "content b' = (content (bi_idx i))(uuid_text u \<mapsto> make_bleve_doc d)"
    unfolding bleve_engine_def by blast
  have "bleve_ready B L T content \<lparr>bi_docs = (bi_docs i)(uuid_text u \<mapsto> d), bi_idx = b'\<rparr>"
    using i id by (simp add: bleve_ready_def bleve_inv_def b'(2))
  with b'(1) show ?thesis by blast
qed

lemma bleve_index_ready:
  assumes i: "bleve_ready B L T content i" and id: "doc_link_id d \<noteq> 0"
  shows "\<exists>d' i'. bleve_index B L now d i = (None, d', i') \<and> bleve_ready B L T content i'"
proof -
  have L: "uuid_pkg_ok L" using i by (simp add: bleve_ready_def)
  define e where "e = (case bi_docs i (uuid_text (doc_link_id d)) of
    Some orig \<Rightarrow> d\<lparr>doc_indexed_at := now, doc_page_rank := doc_page_rank orig\<rparr> | None \<Rightarrow> d\<lparr>doc_indexed_at := now\<rparr>)"
  have "doc_link_id e = doc_link_id d" by (simp add: e_def split: option.split)
  from bleve_ready_store [OF i this] show ?thesis
    using id L by (auto simp: bleve_index_def Let_def e_def [symmetric])
qed

lemma bleve_update_ready:
  assumes i: "bleve_ready B L T content i"
  shows "\<exists>i'. bleve_update_score B L u x i = (None, i') \<and> bleve_ready B L T content i'"
proof -
  have L: "uuid_pkg_ok L" using i by (simp add: bleve_ready_def)
  define e where "e = (case bi_docs i (uuid_text u) of Some d \<Rightarrow> d | None \<Rightarrow> zero_document\<lparr>doc_link_id := u\<rparr>)\<lparr>doc_page_rank := x\<rparr>"
  have "doc_link_id e = u" using i by (auto simp: e_def bleve_ready_def bleve_inv_def split: option.split)
  from bleve_ready_store [OF i this] show ?thesis
    using L by (auto simp: bleve_update_score_def Let_def e_def [symmetric])
qed

lemma bleve_matches_query: "bleve_matches T (bleve_query_of q) (make_bleve_doc d) = query_matches T q d"
  by (cases "query_type q") (simp_all add: bleve_query_of_def query_matches_def make_bleve_doc_def)

lemma ops_yield_bleve:
  "(\<forall>n > length ds. \<exists>it'. bleve_drain B i n it = Returns (ds, it') \<and> bit_last_err it' = None) \<Longrightarrow> yields (bleve_ops B i) it ds"
  by (simp add: yields_def ops_drain_bleve) (simp add: bleve_ops_def)

lemma bleve_searches:
  assumes i: "bleve_ready B L T content i" and fin: "finite (dom (bleve_abs i))" "card (dom (bleve_abs i)) + 10 \<le> 2 ^ 62"
    and k: "query_offset q = of_nat k" "k + 10 \<le> 2 ^ 62"
  shows "\<exists>it ds. bleve_search B q i = Inr it \<and> yields (bleve_ops B i) it (drop k ds) \<and> distinct ds \<and>
    set ds = {d \<in> ran (bleve_abs i). query_matches T q d} \<and>
    sorted_wrt (\<lambda>d e. doc_page_rank e \<le> doc_page_rank d) ds"
proof -
  let ?docs = "bi_docs i" and ?doc = "the \<circ> bi_docs i"
  have dom: "dom ?docs = uuid_text ` dom (bleve_abs i)"
    using i by (auto simp: bleve_ready_def bleve_abs_def domIff image_iff subset_iff)
  have content: "content (bi_idx i) k = map_option make_bleve_doc (?docs k)" for k
    using i by (simp add: bleve_ready_def)
  then have "finite (dom (content (bi_idx i)))" using fin(1) dom by (auto simp: dom_def)
  then obtain ids where ids: "bleve_answers B (bleve_query_of q) [''-PageRank'', ''-_score''] (bi_idx i) ids" "distinct ids"
    "set ids = {k. \<exists>d. content (bi_idx i) k = Some d \<and> bleve_matches T (bleve_query_of q) d}"
    "sorted_wrt (\<lambda>k l. bd_page_rank (the (content (bi_idx i) l)) \<le> bd_page_rank (the (content (bi_idx i) k))) ids"
    using i unfolding bleve_ready_def bleve_engine_def by blast
  have set_ids: "set ids = {k. \<exists>d. ?docs k = Some d \<and> query_matches T q d}"
    unfolding ids(3) content by (auto simp: bleve_matches_query)
  then have stored: "\<forall>x \<in> set ids. ?docs x \<noteq> None" by auto
  have "finite (dom ?docs)" unfolding dom using fin(1) by simp
  moreover have "set ids \<subseteq> dom ?docs" using set_ids by auto
  ultimately have "length ids \<le> card (dom ?docs)"
    unfolding distinct_card [OF ids(2), symmetric] by (rule card_mono)
  also have "\<dots> \<le> card (dom (bleve_abs i))" unfolding dom by (rule card_image_le [OF fin(1)])
  finally have len: "length ids + 10 < 2 ^ 63" using fin(2) by simp
  have k': "k < 2 ^ 63" using k(2) by simp
  obtain it where it: "bleve_search B q i = Inr it"
    "\<forall>n > length ids - k. \<exists>it'. bleve_drain B i n it = Returns (map ?doc (drop k ids), it') \<and> bit_last_err it' = None"
    using bleve_search_enumerates [OF ids(1) stored len k(1) k'] by blast
  then have "yields (bleve_ops B i) it (drop k (map ?doc ids))" by (intro ops_yield_bleve) (simp add: drop_map)
  moreover have "inj_on ?doc (set ids)"
  proof (rule inj_onI)
    fix k l
    assume kl: "k \<in> set ids" "l \<in> set ids" "?doc k = ?doc l"
    then obtain d where d: "?docs k = Some d" "?docs l = Some d" using stored by fastforce
    then obtain u v where uv: "k = uuid_text u" "l = uuid_text v" using dom by (metis domI imageE)
    have inv: "bleve_inv i" using i by (simp add: bleve_ready_def)
    have "doc_link_id d = u" using inv [unfolded bleve_inv_def, rule_format, of u d] d(1) uv(1) by simp
    moreover have "doc_link_id d = v" using inv [unfolded bleve_inv_def, rule_format, of v d] d(2) uv(2) by simp
    ultimately show "k = l" using uv by simp
  qed
  then have "distinct (map ?doc ids)" using ids(2) by (simp add: distinct_map)
  moreover have "set (map ?doc ids) = {d \<in> ran (bleve_abs i). query_matches T q d}"
  proof -
    have "ran (bleve_abs i) = ran ?docs"
    proof
      show "ran (bleve_abs i) \<subseteq> ran ?docs" by (auto simp: bleve_abs_def ran_def)
      show "ran ?docs \<subseteq> ran (bleve_abs i)"
      proof
        fix d
        assume "d \<in> ran ?docs"
        then obtain k where k: "?docs k = Some d" by (auto simp: ran_def)
        then obtain u where "k = uuid_text u" using dom by (metis domI imageE)
        with k show "d \<in> ran (bleve_abs i)" by (auto simp: bleve_abs_def ran_def)
      qed
    qed
    then show ?thesis by (force simp: set_ids ran_def)
  qed
  moreover have "sorted_wrt (\<lambda>d e. doc_page_rank e \<le> doc_page_rank d) (map ?doc ids)"
    unfolding sorted_wrt_map
  proof (rule sorted_wrt_mono_rel [OF _ ids(4)])
    fix k l
    assume "k \<in> set ids" "l \<in> set ids"
    then obtain d e where "?docs k = Some d" "?docs l = Some e" using stored by fastforce
    moreover assume "bd_page_rank (the (content (bi_idx i) l)) \<le> bd_page_rank (the (content (bi_idx i) k))"
    ultimately show "doc_page_rank (?doc l) \<le> doc_page_rank (?doc k)" by (simp add: content make_bleve_doc_def)
  qed
  ultimately show ?thesis using it(1) by blast
qed

lemma bleve_ready_contract:
  "bleve_ready B L T content i \<Longrightarrow> text_indexer bleve_inv bleve_abs (bleve_index B L)
    (\<lambda>u s. outcome_of (bleve_find_by_id L u s)) (bleve_update_score B L)"
  by (rule bleve_contract) (simp add: bleve_ready_def)

lemma bleve_ready_inv: "bleve_ready B L T content i \<Longrightarrow> bleve_inv i"
  by (simp add: bleve_ready_def)

interpretation bleve_suite: searchable_index "bleve_ready B L T content" bleve_abs "bleve_index B L"
    "\<lambda>u s. outcome_of (bleve_find_by_id L u s)" "bleve_update_score B L" T "bleve_search B" "bleve_ops B" "\<lambda>_. UNIV" "2 ^ 62"
proof (unfold_locales, goal_cases)
  case (1 s d now)
  then show ?case using text_indexer.index_missing_id [OF bleve_ready_contract bleve_ready_inv] by blast
next
  case (2 s d now d' s')
  then show ?case
    using text_indexer.index_ok [OF bleve_ready_contract bleve_ready_inv, OF 2(1,1,2,3)] bleve_index_ready [OF 2(1,2), of now] by auto
next
  case (3 s d now err d' s')
  then show ?case using bleve_index_ready [OF 3(1,2), of now] by auto
next
  case (4 s i d)
  then show ?case using text_indexer.find_found [OF bleve_ready_contract bleve_ready_inv, OF 4(1,1,2)] by blast
next
  case (5 s i)
  then show ?case using text_indexer.find_unknown [OF bleve_ready_contract bleve_ready_inv, OF 5(1,1,2)] by blast
next
  case (6 s i x s')
  then show ?case
    using text_indexer.update_ok [OF bleve_ready_contract bleve_ready_inv, OF 6(1,1,2)] bleve_update_ready [OF 6(1), of i x] by auto
next
  case (7 s i x err s')
  then show ?case using bleve_update_ready [OF 7(1), of i x] by auto
next
  case (8 s d now)
  then show ?case using bleve_index_ready [OF 8, of now] by auto
next
  case (9 s i x)
  then show ?case using bleve_update_ready [OF 9, of i x] by auto
next
  case (13 s q k)
  then obtain it ds where "bleve_search B q s = Inr it" "yields (bleve_ops B s) it (drop k ds)" "distinct ds"
    "set ds = {d \<in> ran (bleve_abs s). query_matches T q d}" "sorted_wrt (\<lambda>d e. doc_page_rank e \<le> doc_page_rank d) ds"
    using bleve_searches [OF 13(1,3-6)] by blast
  moreover from this(5) have "sorted_wrt (\<lambda>d e. query_alike T q d e \<longrightarrow> doc_page_rank e \<le> doc_page_rank d) ds"
    by (rule sorted_wrt_mono_rel [rotated]) simp
  ultimately show ?case by blast
qed auto

section \<open>The Elasticsearch index\<close>

definition es_ready ::
  "'c es_client \<Rightarrow> uuid_pkg \<Rightarrow> ('c \<Rightarrow> go_error option \<times> 'c) \<Rightarrow> text_engine \<Rightarrow> ('c \<Rightarrow> string \<rightharpoonup> es_fields) \<Rightarrow> 'c es_indexer \<Rightarrow> bool" where
  "es_ready C L delete T stored i \<longleftrightarrow> uuid_pkg_ok L \<and> es_engine C delete T stored \<and> es_inv stored i"

definition es_scored :: "('c \<Rightarrow> string \<rightharpoonup> es_fields) \<Rightarrow> 'c es_indexer \<Rightarrow> uuid set" where
  "es_scored stored i = {u. \<exists>f. stored (ei_es i) (uuid_text u) = Some f \<and> ef_page_rank f \<noteq> None}"

lemma es_ready_contract:
  "es_ready C L delete T stored i \<Longrightarrow> text_indexer (es_inv stored) (es_abs stored)
    (\<lambda>now d i. let (r, i') = es_index C L d i in (r, d, i')) (es_find_by_id C L) (es_update_score C L)"
  by (rule es_contract) (simp_all add: es_ready_def es_engine_def)

lemma es_ready_inv: "es_ready C L delete T stored i \<Longrightarrow> es_inv stored i"
  by (simp add: es_ready_def)

lemma es_request_runs:
  assumes "es_ready C L delete T stored i"
  shows "\<exists>i'. es_update_request C msg key doc i = (None, i') \<and>
    stored (ei_es i') = (stored (ei_es i))(key \<mapsto> merge_fields (stored (ei_es i) key) doc)"
proof -
  have eng: "es_engine C delete T stored" using assms by (simp add: es_ready_def)
  obtain res u c' where "ec_update C (ei_refresh i) key doc (ei_es i) = (Inr res, c')" "unmarshal_response res = Inr u"
    using eng unfolding es_engine_def by blast
  then have "es_update_request C msg key doc i = (None, i\<lparr>ei_es := c'\<rparr>)" by (simp add: es_update_request_def)
  moreover from es_update_request_ok [OF _ this] eng
  have "stored (ei_es (i\<lparr>ei_es := c'\<rparr>)) = (stored (ei_es i))(key \<mapsto> merge_fields (stored (ei_es i) key) doc)"
    unfolding es_engine_def by blast
  ultimately show ?thesis by blast
qed

lemma es_index_runs:
  assumes i: "es_ready C L delete T stored i" and id: "doc_link_id d \<noteq> 0"
  shows "\<exists>i'. es_index C L d i = (None, i') \<and> es_scored stored i \<subseteq> es_scored stored i'"
proof -
  have L: "uuid_pkg_ok L" using i by (simp add: es_ready_def)
  have score: "ef_page_rank (merge_fields (Some f) (encode_es_doc (make_es_doc L d))) = ef_page_rank f" for f
    by (simp add: merge_fields_def encode_es_doc_def make_es_doc_def)
  obtain i' where i': "es_update_request C ''index'' (uuid_text (doc_link_id d)) (encode_es_doc (make_es_doc L d)) i = (None, i')"
    "stored (ei_es i') = (stored (ei_es i))(uuid_text (doc_link_id d) \<mapsto>
       merge_fields (stored (ei_es i) (uuid_text (doc_link_id d))) (encode_es_doc (make_es_doc L d)))"
    using es_request_runs [OF i] by blast
  have "es_index C L d i = (None, i')" using i'(1) id L by (simp add: es_index_def Let_def make_es_doc_def)
  moreover have "es_scored stored i \<subseteq> es_scored stored i'" by (auto simp: es_scored_def i'(2) score)
  ultimately show ?thesis by blast
qed

lemma es_update_runs:
  assumes i: "es_ready C L delete T stored i"
  shows "\<exists>i'. es_update_score C L u x i = (None, i') \<and> insert u (es_scored stored i) \<subseteq> es_scored stored i'"
proof -
  have L: "uuid_pkg_ok L" using i by (simp add: es_ready_def)
  show ?thesis
    using es_request_runs [OF i, of "''update score''" "uuid_text u"
        "no_fields\<lparr>ef_link_id := Some (uuid_text u), ef_page_rank := Some x\<rparr>"] L
    by (auto simp: es_update_score_def es_scored_def merge_fields_def Let_def)
qed

lemma es_matches_query:
  "es_matches T (es_body q) f = query_matches T q (stored_doc u f)"
  "es_alike T (es_body q) f g = query_alike T q (stored_doc u f) (stored_doc v g)"
  by (cases "query_type q"; simp add: es_body_def query_matches_def query_alike_def stored_doc_def)+

lemma ops_yield_es:
  "(\<forall>n > length ds. \<exists>it'. es_drain C L es n it = Returns (ds, it') \<and> eit_last_err it' = None \<and>
     (\<exists>it''. es_it_close it' = Returns it'')) \<Longrightarrow> yields (es_ops C L es) it ds"
  by (simp add: yields_def ops_drain_es) (fastforce simp: es_ops_def)

lemma es_searches:
  assumes i: "es_ready C L delete T stored i" and scored: "dom (es_abs stored i) \<subseteq> es_scored stored i"
    and fin: "finite (dom (es_abs stored i))" "card (dom (es_abs stored i)) + 10 \<le> es_result_window"
    and k: "query_offset q = of_nat k" "k + 10 \<le> es_result_window"
  shows "\<exists>it ds. es_search C q i = Inr it \<and> yields (es_ops C L (ei_es i)) it (drop k ds) \<and> distinct ds \<and>
    set ds = {d \<in> ran (es_abs stored i). query_matches T q d} \<and>
    sorted_wrt (\<lambda>d e. query_alike T q d e \<longrightarrow> doc_page_rank e \<le> doc_page_rank d) ds"
proof -
  let ?c = "stored (ei_es i)"
  have L: "uuid_pkg_ok L" and eng: "es_engine C delete T stored" using i by (simp_all add: es_ready_def)
  have filed: "ef_link_id f = Some k \<and> (\<exists>u. k = uuid_text u)" if "?c k = Some f" for k f
    using i that by (auto simp: es_ready_def es_inv_def filed_by_link_id_def)
  have dom: "dom ?c = uuid_text ` dom (es_abs stored i)"
    using filed by (fastforce simp: es_abs_def dom_def image_iff)
  have "ef_page_rank f \<noteq> None" if f: "f \<in> ran ?c" for f
  proof -
    obtain k where k: "?c k = Some f" using f by (auto simp: ran_def)
    moreover obtain u where "k = uuid_text u" using filed [OF k] by blast
    moreover from this have "u \<in> dom (es_abs stored i)" using k by (simp add: es_abs_def dom_def)
    then have "u \<in> es_scored stored i" using scored by blast
    ultimately show ?thesis by (auto simp: es_scored_def)
  qed
  moreover have fin_c: "finite (dom ?c)" unfolding dom using fin(1) by simp
  ultimately obtain keys where keys: "distinct keys" "set keys = {k. \<exists>f. ?c k = Some f \<and> es_matches T (es_body q) f}"
    "es_answers C (ei_es i) (es_body q) (map (\<lambda>k. decode_es_doc (the (?c k))) keys)"
    "sorted_wrt (\<lambda>k l. es_alike T (es_body q) (the (?c k)) (the (?c l)) \<longrightarrow>
       or_zero 0 (ef_page_rank (the (?c l))) \<le> or_zero 0 (ef_page_rank (the (?c k)))) keys"
    using eng unfolding es_engine_def by blast
  have "inj uuid_text" by (rule injI) simp
  then have un: "the_inv uuid_text (uuid_text u) = u" for u by (rule the_inv_f_f)
  define doc where "doc k = stored_doc (the_inv uuid_text k) (the (?c k))" for k
  have key: "\<exists>u f. k = uuid_text u \<and> ?c k = Some f \<and> doc k = stored_doc u f \<and> ef_link_id f = Some k" if k: "k \<in> set keys" for k
  proof -
    obtain f where f: "?c k = Some f" using k unfolding keys(2) by blast
    moreover obtain u where "k = uuid_text u" using filed [OF f] by blast
    ultimately show ?thesis using filed [OF f] un by (auto simp: doc_def)
  qed
  have len: "length (map (\<lambda>k. decode_es_doc (the (?c k))) keys) + 10 \<le> es_result_window"
  proof -
    have "length keys \<le> card (dom ?c)" unfolding distinct_card [OF keys(1), symmetric]
      using keys(2) by (intro card_mono [OF fin_c]) auto
    also have "\<dots> \<le> card (dom (es_abs stored i))" unfolding dom by (rule card_image_le [OF fin(1)])
    finally show ?thesis using fin(2) by simp
  qed
  have "map_es_doc L (decode_es_doc (the (?c k))) = Returns (doc k)" if "k \<in> set keys" for k
    using key [OF that] L by (auto simp: map_es_doc_def decode_es_doc_def uuid_pkg_parse stored_doc_def)
  then have parses: "parses_as L (map (\<lambda>k. decode_es_doc (the (?c k))) keys) (map doc keys)"
    by (simp add: parses_as_def list_all2_conv_all_nth)
  obtain it where it: "es_search C q i = Inr it"
    "\<forall>n > length keys - k. \<exists>it'. es_drain C L (ei_es i) n it = Returns (drop k (map doc keys), it') \<and> eit_last_err it' = None \<and>
       (\<exists>it''. es_it_close it' = Returns it'')"
    using es_search_enumerates [OF keys(3) parses len k] by auto
  then have "yields (es_ops C L (ei_es i)) it (drop k (map doc keys))" by (intro ops_yield_es) simp
  moreover have "inj_on doc (set keys)"
  proof (rule inj_onI)
    fix k l
    assume kl: "k \<in> set keys" "l \<in> set keys" "doc k = doc l"
    then have "doc_link_id (doc k) = doc_link_id (doc l)" by simp
    with key [OF kl(1)] key [OF kl(2)] show "k = l" by (auto simp: stored_doc_def)
  qed
  then have "distinct (map doc keys)" using keys(1) by (simp add: distinct_map)
  moreover have "set (map doc keys) = {d \<in> ran (es_abs stored i). query_matches T q d}"
  proof (rule set_eqI, rule iffI)
    fix d
    assume "d \<in> set (map doc keys)"
    then obtain k where k: "k \<in> set keys" "d = doc k" by auto
    then obtain u f where "k = uuid_text u" "?c k = Some f" "doc k = stored_doc u f" using key by blast
    moreover from this have "es_matches T (es_body q) f" using k(1) keys(2) by auto
    ultimately show "d \<in> {d \<in> ran (es_abs stored i). query_matches T q d}"
      using k(2) by (auto simp: es_abs_def ran_def es_matches_query(1) [where u = u])
  next
    fix d
    assume "d \<in> {d \<in> ran (es_abs stored i). query_matches T q d}"
    then obtain u f where f: "?c (uuid_text u) = Some f" "d = stored_doc u f" "query_matches T q d"
      by (auto simp: es_abs_def ran_def)
    then have "uuid_text u \<in> set keys" by (simp add: keys(2) es_matches_query(1) [where u = u])
    moreover have "doc (uuid_text u) = d" by (simp add: doc_def un f(1,2))
    ultimately show "d \<in> set (map doc keys)" by force
  qed
  moreover have "sorted_wrt (\<lambda>d e. query_alike T q d e \<longrightarrow> doc_page_rank e \<le> doc_page_rank d) (map doc keys)"
    unfolding sorted_wrt_map doc_def
    by (intro sorted_wrt_mono_rel [OF _ keys(4)]) (simp add: es_matches_query(2) [symmetric] stored_doc_score_of)
  ultimately show ?thesis using it(1) by blast
qed

interpretation es_suite: searchable_index "es_ready C L delete T stored" "es_abs stored"
    "\<lambda>now d i. let (r, i') = es_index C L d i in (r, d, i')" "es_find_by_id C L" "es_update_score C L"
    T "es_search C" "\<lambda>i. es_ops C L (ei_es i)" "es_scored stored" es_result_window
proof (unfold_locales, goal_cases)
  case (1 s d now)
  then show ?case using text_indexer.index_missing_id [OF es_ready_contract es_ready_inv] by blast
next
  case (2 s d now d' s')
  then show ?case
    using text_indexer.index_ok [OF es_ready_contract es_ready_inv, OF 2(1,1,2,3)] by (simp add: es_ready_def)
next
  case (3 s d now err d' s')
  then show ?case using es_index_runs [OF 3(1,2)] by (auto split: prod.splits)
next
  case (4 s i d)
  then show ?case using text_indexer.find_found [OF es_ready_contract es_ready_inv, OF 4(1,1,2)] by blast
next
  case (5 s i)
  then show ?case using text_indexer.find_unknown [OF es_ready_contract es_ready_inv, OF 5(1,1,2)] by blast
next
  case (6 s i x s')
  then show ?case
    using text_indexer.update_ok [OF es_ready_contract es_ready_inv, OF 6(1,1,2)] by (simp add: es_ready_def)
next
  case (7 s i x err s')
  then show ?case using es_update_runs [OF 7(1), of i x] by auto
next
  case (8 s d now)
  then show ?case using es_index_runs [OF 8] by auto
next
  case (9 s i x)
  then show ?case using es_update_runs [OF 9, of i x] by auto
next
  case (10 s now d d' s')
  show ?case
  proof (cases "doc_link_id d = 0")
    case True
    then show ?thesis using 10(2) by (simp add: es_index_def)
  next
    case False
    then show ?thesis using es_index_runs [OF 10(1) False] 10(2) by (auto split: prod.splits)
  qed
next
  case (11 s i x s')
  then show ?case using es_update_runs [OF 11(1), of i x] by auto
next
  case 12
  show ?case by (simp add: es_result_window_def)
next
  case (13 s q k)
  then show ?case using es_searches by blast
qed

text \<open>
  A page that is indexed before it has a score has no field \<^verbatim>\<open>PageRank\<close>, since encoding omits the zero
  score, and so does not meet what the script of a search requires.
\<close>

lemma es_new_page_unscored:
  assumes i: "es_ready C L delete T stored i" and id: "doc_link_id d \<noteq> 0" and new: "es_abs stored i (doc_link_id d) = None"
  shows "\<exists>i'. es_index C L d i = (None, i') \<and> doc_link_id d \<in> dom (es_abs stored i') \<and> doc_link_id d \<notin> es_scored stored i'"
proof -
  have L: "uuid_pkg_ok L" using i by (simp add: es_ready_def)
  obtain i' where i': "es_update_request C ''index'' (uuid_text (doc_link_id d)) (encode_es_doc (make_es_doc L d)) i = (None, i')"
    "stored (ei_es i') = (stored (ei_es i))(uuid_text (doc_link_id d) \<mapsto>
       merge_fields (stored (ei_es i) (uuid_text (doc_link_id d))) (encode_es_doc (make_es_doc L d)))"
    using es_request_runs [OF i] by blast
  have "es_index C L d i = (None, i')" using i'(1) id L by (simp add: es_index_def Let_def make_es_doc_def)
  moreover have "stored (ei_es i) (uuid_text (doc_link_id d)) = None" using new by (simp add: es_abs_def)
  ultimately show ?thesis
    by (simp add: es_abs_def es_scored_def i'(2) merge_fields_def no_fields_def encode_es_doc_def make_es_doc_def dom_def)
qed

section \<open>The suite\<close>

text \<open>
  The hooks of the two test files.  A new in-memory index per test, which is closed after it; the
  Elasticsearch index is deleted and created again, and nothing happens after a test.
\<close>

definition bleve_impl :: "'b bleve_pkg \<Rightarrow> uuid_pkg \<Rightarrow> ('b bleve_indexer, bleve_iterator) index_impl" where
  "bleve_impl B L =
     \<lparr>xi_index = bleve_index B L, xi_find_by_id = (\<lambda>u s. outcome_of (bleve_find_by_id L u s)),
      xi_update_score = bleve_update_score B L, xi_search = bleve_search B, xi_ops = bleve_ops B\<rparr>"

definition bleve_before_each :: "'b bleve_pkg \<Rightarrow> ('b bleve_indexer, unit) test" where
  "bleve_before_each B b =
     (case new_bleve_indexer B of
        Inl err \<Rightarrow> (FatalStop, b)
      | Inr idx \<Rightarrow> (Passing (), b\<lparr>be_store := idx\<rparr>))"

definition bleve_after_each :: "'b bleve_pkg \<Rightarrow> ('b bleve_indexer, unit) test" where
  "bleve_after_each B b = tfatal (bleve_close B (be_store b) \<noteq> None) b"

definition es_impl :: "'c es_client \<Rightarrow> uuid_pkg \<Rightarrow> ('c es_indexer, es_iterator) index_impl" where
  "es_impl C L =
     \<lparr>xi_index = (\<lambda>now d i. let (r, i') = es_index C L d i in (r, d, i')), xi_find_by_id = es_find_by_id C L,
      xi_update_score = es_update_score C L, xi_search = es_search C, xi_ops = (\<lambda>i. es_ops C L (ei_es i))\<rparr>"

definition es_before_each ::
  "'c es_client \<Rightarrow> ('c \<Rightarrow> go_error option \<times> 'c) \<Rightarrow> ('c es_indexer, unit) test" where
  "es_before_each C delete b =
     (case delete (ei_es (be_store b)) of
        (Some err, c) \<Rightarrow> (FatalStop, b)
      | (None, c) \<Rightarrow>
          (case ensure_index C c of
             (Some err, c') \<Rightarrow> (FatalStop, b)
           | (None, c') \<Rightarrow> (Passing (), b\<lparr>be_store := (be_store b)\<lparr>ei_es := c'\<rparr>\<rparr>)))"

lemma bleve_before_ok:
  assumes "uuid_pkg_ok L" "bleve_engine B T content"
  shows "passes (bleve_before_each B) (\<lambda>_ b'. bleve_ready B L T content (be_store b') \<and> bleve_abs (be_store b') = Map.empty) b"
proof -
  obtain e where "bp_new_mem_only B = Inr e" "content e = Map.empty" using assms(2) unfolding bleve_engine_def by blast
  then show ?thesis
    using assms
    by (simp add: passes_def bleve_before_each_def new_bleve_indexer_def bleve_ready_def bleve_inv_def bleve_abs_def fun_eq_iff)
qed

lemma bleve_after_ok: "bleve_engine B T content \<Longrightarrow> passes (bleve_after_each B) (\<lambda>_ _. True) b"
  by (simp add: passes_def bleve_after_each_def tfatal_def bleve_close_def bleve_engine_def)

lemma es_before_ok:
  assumes L: "uuid_pkg_ok L" and eng: "es_engine C delete T stored"
  shows "passes (es_before_each C delete) (\<lambda>_ b'. es_ready C L delete T stored (be_store b') \<and>
    es_abs stored (be_store b') = Map.empty) b"
proof -
  obtain c where c: "delete (ei_es (be_store b)) = (None, c)" "stored c = Map.empty"
    using eng unfolding es_engine_def by blast
  obtain res c' where c': "ec_create_index C es_index_name c = (Inr res, c')" "\<not> res_is_error res" "stored c' = stored c"
    using eng unfolding es_engine_def by blast
  have "ensure_index C c = (None, c')" using c'(1,2) by (simp add: ensure_index_def)
  then show ?thesis
    using L eng c c'(3)
    by (simp add: passes_def es_before_each_def es_ready_def es_inv_def filed_by_link_id_def es_abs_def fun_eq_iff)
qed

text \<open>
  C27. The acceptance suite of the index.  All eight tests pass on the in-memory index and on the
  Elasticsearch index, from any earlier contents, when the two engines do what they document and
  match the suite's texts as it expects, and the generator of identifiers does not repeat itself
  within a thousand draws.
\<close>

theorem indexes_pass_suite:
  assumes env: "index_env_ok E" "uuid_pkg_ok (xe_pkg E)"
    and texts: "suite_texts_ok (xe_pkg E) T" "suite_texts_ok (xe_pkg E) T'"
    and engines: "bleve_engine B T content" "es_engine C delete T' stored"
  shows "fst (run_index_suite E (bleve_impl B (xe_pkg E)) (Some (bleve_before_each B)) (Some (bleve_after_each B))
      index_suite_tests b) = [] \<and>
    fst (run_index_suite E (es_impl C (xe_pkg E)) (Some (es_before_each C delete)) None index_suite_tests d) = []"
proof
  show "fst (run_index_suite E (bleve_impl B (xe_pkg E)) (Some (bleve_before_each B)) (Some (bleve_after_each B))
      index_suite_tests b) = []"
    unfolding bleve_impl_def bleve_suite.impl_def [symmetric]
    by (rule bleve_suite.index_suite_passes [where content = content, OF env(1) texts(1)])
      (simp_all add: hook_def bleve_before_ok [OF env(2) engines(1)] bleve_after_ok [OF engines(1)])
  show "fst (run_index_suite E (es_impl C (xe_pkg E)) (Some (es_before_each C delete)) None index_suite_tests d) = []"
    unfolding es_impl_def es_suite.impl_def [symmetric]
    by (rule es_suite.index_suite_passes [where stored = stored and delete = delete, OF env(1) texts(2)])
      (simp_all add: hook_def es_before_ok [OF env(2) engines(2)] passes_treturn)
qed

definition plain_index_env :: index_env where
  "plain_index_env = \<lparr>xe_new = (\<lambda>k. of_nat (k mod 1000 + 1)), xe_lag = (\<lambda>_. 0), xe_pkg = rfc4122_pkg\<rparr>"

lemma plain_index_env_ok: "index_env_ok plain_index_env"
proof -
  have new: "unat (xe_new plain_index_env k) = k mod 1000 + 1" for k
    unfolding plain_index_env_def index_env.simps
  proof (rule unat_of_nat_uuid)
    have "k mod 1000 + 1 < 1001" by simp
    then show "k mod 1000 + 1 < 2 ^ 128" by (rule less_trans) simp
  qed
  have diff: "y - x = 0" if "k \<le> x" "y < k + 1000" "x mod 1000 = y mod 1000" for k x y :: nat
  proof (rule ccontr)
    assume "y - x \<noteq> 0"
    then have "1000 dvd y - x" using that(3) mod_eq_dvd_iff_nat [of x y 1000] by simp
    with \<open>y - x \<noteq> 0\<close> that(1,2) show False by (auto dest: dvd_imp_le)
  qed
  have same: "x = y" if "k \<le> x" "x < k + 1000" "k \<le> y" "y < k + 1000" "x mod 1000 = y mod 1000" for k x y :: nat
    using diff [OF that(1,4,5)] diff [OF that(3,2) that(5) [symmetric]] by simp
  have residue: "x mod 1000 = y mod 1000" if "xe_new plain_index_env x = xe_new plain_index_env y" for x y
    using arg_cong [OF that, of unat] unfolding new by simp
  have "inj_on (xe_new plain_index_env) {k..<k + 1000}" for k
    by (rule inj_onI, rule same [of k, OF _ _ _ _ residue]) simp_all
  moreover have "xe_new plain_index_env k \<noteq> 0" for k using new [of k] by (metis Suc_eq_plus1 nat.distinct(1) unat_0)
  then have "0 \<notin> range (xe_new plain_index_env)" by (metis rangeE)
  ultimately show ?thesis by (simp add: index_env_ok_def)
qed

theorem indexes_pass_suite_witness:
  "fst (run_index_suite plain_index_env (bleve_impl list_bleve rfc4122_pkg) (Some (bleve_before_each list_bleve))
      (Some (bleve_after_each list_bleve)) index_suite_tests
      \<lparr>be_store = \<lparr>bi_docs = Map.empty, bi_idx = []\<rparr>, be_now = 0, be_calls = 0\<rparr>) = [] \<and>
    fst (run_index_suite plain_index_env (es_impl list_cluster rfc4122_pkg) (Some (es_before_each list_cluster (\<lambda>_. (None, []))))
      None index_suite_tests \<lparr>be_store = \<lparr>ei_es = [], ei_refresh = ''true''\<rparr>, be_now = 0, be_calls = 0\<rparr>) = []"
proof -
  have pkg: "xe_pkg plain_index_env = rfc4122_pkg" by (simp add: plain_index_env_def)
  show ?thesis
    using indexes_pass_suite [OF plain_index_env_ok, unfolded pkg, OF rfc4122_pkg_ok word_engine_texts word_engine_texts
      list_bleve_engine list_cluster_engine] by blast
qed

section \<open>Searching\<close>

text \<open>
  C26. Searching an index.  When bleve or Elasticsearch answers a query with a fixed list of stored
  documents, Search succeeds, TotalCount is the number of all of them, and draining the iterator
  yields those from the query's offset on, each once and in order, over as many pages of ten as
  there are; the iterator then ends without an error, and closing it succeeds.
\<close>

theorem searches_enumerate:
  assumes bleve: "bleve_answers B (bleve_query_of q) [''-PageRank'', ''-_score''] (bi_idx i) ids"
      "\<forall>x \<in> set ids. bi_docs i x \<noteq> None" "length ids + 10 < 2 ^ 63" "length ids - k < n"
    and es: "es_answers C (ei_es j) (es_body q) hits" "parses_as L hits ds" "length hits + 10 \<le> es_result_window"
      "length hits - k < n"
    and offset: "query_offset q = of_nat k" "k + 10 \<le> es_result_window"
  shows "(\<exists>it it'. bleve_search B q i = Inr it \<and> bleve_it_total_count it = of_nat (length ids) \<and>
      bleve_drain B i n it = Returns (map (the \<circ> bi_docs i) (drop k ids), it') \<and> bit_last_err it' = None) \<and>
    (\<exists>it it' it''. es_search C q j = Inr it \<and> es_it_total_count it = Returns (of_nat (length hits)) \<and>
      es_drain C L (ei_es j) n it = Returns (drop k ds, it') \<and> eit_last_err it' = None \<and> es_it_close it' = Returns it'')"
proof
  have k: "k < 2 ^ 63" using offset(2) by (simp add: es_result_window_def)
  show "\<exists>it it'. bleve_search B q i = Inr it \<and> bleve_it_total_count it = of_nat (length ids) \<and>
      bleve_drain B i n it = Returns (map (the \<circ> bi_docs i) (drop k ids), it') \<and> bit_last_err it' = None"
    using bleve_search_enumerates [OF bleve(1-3) offset(1) k] bleve(4) by blast
  show "\<exists>it it' it''. es_search C q j = Inr it \<and> es_it_total_count it = Returns (of_nat (length hits)) \<and>
      es_drain C L (ei_es j) n it = Returns (drop k ds, it') \<and> eit_last_err it' = None \<and> es_it_close it' = Returns it''"
    using es_search_enumerates [OF es(1-3) offset] es(4) by blast
qed

theorem searches_enumerate_witness:
  "(\<exists>it it'. bleve_search listing_bleve search_all stored_twelve = Inr it \<and> bleve_it_total_count it = 12 \<and>
      bleve_drain listing_bleve stored_twelve 20 it = Returns (replicate 12 zero_document, it') \<and> bit_last_err it' = None) \<and>
    (\<exists>it it' it''. es_search (listing_cluster False) search_all \<lparr>ei_es = twelve_hits, ei_refresh = ''true''\<rparr> = Inr it \<and>
      es_drain (listing_cluster False) rfc4122_pkg twelve_hits 20 it = Returns (replicate 12 zero_document, it') \<and>
      es_it_close it' = Returns it'')"
proof -
  have docs: "map (the \<circ> bi_docs stored_twelve) (bi_idx stored_twelve) = replicate 12 zero_document"
    by (simp add: stored_twelve_def comp_def map_replicate_const)
  have len: "length (bi_idx stored_twelve) = 12" "length twelve_hits = 12" by (simp_all add: stored_twelve_def twelve_hits_def)
  have "bleve_answers listing_bleve (bleve_query_of search_all) [''-PageRank'', ''-_score''] (bi_idx stored_twelve) (bi_idx stored_twelve)"
    by (simp add: bleve_answers_def listing_bleve_def)
  moreover have "\<forall>x \<in> set (bi_idx stored_twelve). bi_docs stored_twelve x \<noteq> None" by (simp add: stored_twelve_def)
  ultimately show ?thesis
    using searches_enumerate [of listing_bleve search_all stored_twelve "bi_idx stored_twelve" 0 20 "listing_cluster False"
        "\<lparr>ei_es = twelve_hits, ei_refresh = ''true''\<rparr>" twelve_hits rfc4122_pkg "replicate 12 zero_document"]
      listing_cluster_answers twelve_hits_parse
    by (simp add: len docs es_result_window_def search_all_def) blast
qed

end
