(* ===== verification/PageRankTypes.thy ===== *)
theory PageRankTypes
  imports PageRank
begin

text \<open>
  The dynamic types of the PageRank calculator: aggregators and messages are interface values,
  which the code reads with type assertions.  No assertion fails and no aggregator is missing,
  so no superstep panics, whatever graph was loaded.
\<close>

section \<open>Well-typed aggregators\<close>

definition holds_int :: "string \<Rightarrow> pr_graph \<Rightarrow> bool" where
  "holds_int name g \<longleftrightarrow> (\<exists>a. aggregators g name = Some (IntAcc a))"

definition holds_float :: "string \<Rightarrow> pr_graph \<Rightarrow> bool" where
  "holds_float name g \<longleftrightarrow> (\<exists>a. aggregators g name = Some (FloatAcc a))"

definition aggregators_typed :: "pr_graph \<Rightarrow> bool" where
  "aggregators_typed g \<longleftrightarrow> holds_int ''page_count'' g \<and> holds_float ''SAD'' g \<and>
     holds_float ''residual_0'' g \<and> holds_float ''residual_1'' g"

lemma typed_executor: "aggregators_typed (calc_executor g)"
  by (simp add: aggregators_typed_def holds_int_def holds_float_def calc_executor_def new_executor_def
      register_aggregators_def register_aggregator_def new_int_acc_def new_float_acc_def)

lemma typed_same: "aggregators g' = aggregators g \<Longrightarrow> aggregators_typed g \<Longrightarrow> aggregators_typed g'"
  by (simp add: aggregators_typed_def holds_int_def holds_float_def)

lemma typed_residual:
  "aggregators_typed g \<Longrightarrow> holds_float (residual_output_acc_name k) g"
  "aggregators_typed g \<Longrightarrow> holds_float (residual_input_acc_name k) g"
  by (simp_all add: aggregators_typed_def residual_output_acc_name_def residual_input_acc_name_def)

lemma get_int: "holds_int name g \<Longrightarrow> \<exists>n. aggr_get name g = Returns (VInt n)"
  by (auto simp: holds_int_def aggr_get_def)

lemma get_float: "holds_float name g \<Longrightarrow> \<exists>x. aggr_get name g = Returns (VFloat x)"
  by (auto simp: holds_float_def aggr_get_def)

text \<open>An update with a value of its type changes an aggregator and keeps the types of all.\<close>

definition updates :: "pr_graph \<Rightarrow> pr_graph \<Rightarrow> bool" where
  "updates g g' \<longleftrightarrow> vertices g' = vertices g \<and> superstep g' = superstep g \<and> (aggregators_typed g \<longrightarrow> aggregators_typed g')"

lemma set_float: "holds_float name g \<Longrightarrow> \<exists>g'. aggr_set name (VFloat x) g = Returns g' \<and> updates g g'"
  by (auto simp: holds_float_def aggr_set_def updates_def aggregators_typed_def holds_int_def)

lemma aggregate_float: "holds_float name g \<Longrightarrow> \<exists>g'. aggr_aggregate fl name (VFloat x) g = Returns g' \<and> updates g g'"
  by (auto simp: holds_float_def aggr_aggregate_def updates_def aggregators_typed_def holds_int_def)

lemma aggregate_int: "holds_int name g \<Longrightarrow> \<exists>g'. aggr_aggregate fl name (VInt n) g = Returns g' \<and> updates g g'"
  by (auto simp: holds_int_def aggr_aggregate_def updates_def aggregators_typed_def holds_float_def)

lemma updates_vertices: "updates g g' \<Longrightarrow> vertices g' = vertices g"
  by (simp add: updates_def)

lemma updates_typed: "updates g g' \<Longrightarrow> aggregators_typed g \<Longrightarrow> aggregators_typed g'"
  by (simp add: updates_def)

section \<open>A superstep\<close>

text \<open>A message in a queue is a score, so adding up the queue does not fail.\<close>

lemma read_scores_returns:
  assumes "vertices g i = Some v"
  shows "\<exists>x v'. read_scores fl d i start g = Returns (x, put_vertex i v' g)"
proof -
  have "\<exists>y. fold (\<lambda>m. add_incoming fl d (Some m)) ms (Returns x) = Returns y" for ms x
    by (induction ms arbitrary: x) (auto simp: add_incoming_def split: score_msg.splits)
  then obtain y where "fst (queue_loop (add_incoming fl d) (Returns start) (queue_at (superstep g) v)) = Returns y"
    using queue_loop_foldr [of "add_incoming fl d" "Returns start"] by metis
  then show ?thesis using assms by (auto simp: read_scores_def split: prod.split)
qed

lemma send_message_aggregators:
  "aggregators (snd (send_message j m g)) = aggregators g"
  by (auto simp: send_message_def put_vertex_fields Let_def split: option.splits prod.splits)

lemma broadcast_aggregators:
  "aggregators (snd (broadcast_to_neighbors es m g)) = aggregators g"
proof (induction es arbitrary: g)
  case (Cons e es)
  show ?case
    using Cons [of "snd (send_message (be_dst e) m g)"] send_message_aggregators [of "be_dst e" m g]
    by (auto split: prod.split option.split)
qed simp

lemma new_score_typed:
  assumes "aggregators_typed g" "vertices g i = Some v"
  shows "\<exists>x g'. new_score fl d i n g = Returns (x, g') \<and> aggregators_typed g' \<and> vertices g' i \<noteq> None"
proof (cases "superstep g = 1")
  case True
  then show ?thesis using assms by (simp add: new_score_def)
next
  case False
  obtain s v' where s: "read_scores fl d i (fl (fl (1 - d) / n)) g = Returns (s, put_vertex i v' g)"
    using read_scores_returns [OF assms(2)] by blast
  have typed: "aggregators_typed (put_vertex i v' g)"
    using assms(1) by (rule typed_same [rotated]) (simp add: put_vertex_fields)
  obtain r where "aggr_get (residual_input_acc_name (superstep g)) (put_vertex i v' g) = Returns (VFloat r)"
    using get_float [OF typed_residual(2) [OF typed]] by blast
  then show ?thesis using False typed by (simp add: new_score_def s put_vertex_fields)
qed

lemma publish_score_typed:
  assumes "aggregators_typed g" "vertices g i \<noteq> None"
  shows "\<exists>err g'. publish_score fl i n x g = Returns (err, g') \<and> aggregators_typed g'"
proof -
  obtain v where v: "vertices g i = Some v" using assms(2) by blast
  have "holds_float ''SAD'' g" using assms(1) by (simp add: aggregators_typed_def)
  then obtain g1 where g1: "aggr_aggregate fl ''SAD'' (VFloat \<bar>fl (vx_value v - x)\<bar>) g = Returns g1" "updates g g1"
    using aggregate_float by blast
  define g2 where "g2 = set_value i x g1"
  have typed: "aggregators_typed g2"
    using updates_typed [OF g1(2) assms(1)]
    by (rule typed_same [rotated]) (simp add: g2_def set_value_def put_vertex_fields split: option.split)
  show ?thesis
  proof (cases "fl (real (length (vx_edges v))) = 0")
    case True
    obtain g3 where "aggr_aggregate fl (residual_output_acc_name (superstep g2)) (VFloat (fl (x / n))) g2 = Returns g3"
      "updates g2 g3" using aggregate_float [OF typed_residual(1) [OF typed]] by blast
    then show ?thesis
      using True updates_typed [OF _ typed] by (auto simp: publish_score_def v g1(1) Let_def g2_def [symmetric])
  next
    case False
    let ?r = "broadcast_to_neighbors (vx_edges v) (IncomingScoreMessage (fl (x / fl (real (length (vx_edges v)))))) g2"
    have "publish_score fl i n x g = Returns ?r" using False by (simp add: publish_score_def v g1(1) Let_def g2_def)
    moreover have "aggregators_typed (snd ?r)" using typed by (rule typed_same [OF broadcast_aggregators])
    ultimately show ?thesis by (cases ?r) simp
  qed
qed

lemma pr_compute_typed:
  assumes "aggregators_typed g" "vertices g i = Some v"
  shows "\<exists>err g'. pr_compute fl d i g = Returns (err, g') \<and> aggregators_typed g'"
proof -
  have count: "holds_int ''page_count'' g" using assms(1) by (simp add: aggregators_typed_def)
  show ?thesis
  proof (cases "superstep g = 0")
    case True
    obtain g1 where "aggr_aggregate fl ''page_count'' (VInt 1) g = Returns g1" "updates g g1"
      using aggregate_int [OF count] by blast
    then show ?thesis using True updates_typed [OF _ assms(1)] by (simp add: pr_compute_def)
  next
    case False
    obtain n where n: "aggr_get ''page_count'' g = Returns (VInt n)" using get_int [OF count] by blast
    obtain x g1 where "new_score fl d i (fl (real_of_int n)) g = Returns (x, g1)" "aggregators_typed g1" "vertices g1 i \<noteq> None"
      using new_score_typed [OF assms] by blast
    then show ?thesis using False publish_score_typed by (simp add: pr_compute_def n Let_def)
  qed
qed

lemma step_vertex_typed:
  assumes "aggregators_typed g"
  shows "\<exists>n' errCh' g'. step_vertex (pr_compute fl d) i (n, errCh, g) = Returns (n', errCh', g') \<and> aggregators_typed g'"
proof (cases "vertices g i")
  case None
  then show ?thesis using assms by (simp add: step_vertex_def)
next
  case (Some v)
  let ?g = "put_vertex i (v\<lparr>vx_active := True\<rparr>) g"
  have "aggregators_typed ?g" using assms by (rule typed_same [rotated]) (simp add: put_vertex_fields)
  then obtain err g' where g': "pr_compute fl d i ?g = Returns (err, g')" "aggregators_typed g'"
    using pr_compute_typed [of ?g i "v\<lparr>vx_active := True\<rparr>" fl d] by (auto simp: put_vertex_fields)
  have "aggregators (snd (discard_at k i g')) = aggregators g'" for k
    by (auto simp: discard_at_def put_vertex_fields split: option.split prod.split)
  then have "aggregators_typed (snd (discard_at k i g'))" for k using g'(2) by (rule typed_same)
  then show ?thesis
    using assms g' by (auto simp: step_vertex_def Some Let_def split: option.split prod.split) (metis snd_conv)+
qed

lemma bsp_step_typed:
  assumes "aggregators_typed g"
  shows "\<exists>n err g'. bsp_step (pr_compute fl d) order g = Returns (n, err, g') \<and> aggregators_typed g'"
proof -
  have "\<exists>n' errCh' g'. step_vertices (pr_compute fl d) order (n, errCh, g) = Returns (n', errCh', g') \<and> aggregators_typed g'" for n errCh
    using assms
  proof (induction order arbitrary: n errCh g)
    case (Cons i order)
    obtain n' errCh' g' where "step_vertex (pr_compute fl d) i (n, errCh, g) = Returns (n', errCh', g')" "aggregators_typed g'"
      using step_vertex_typed [OF Cons.prems] by blast
    then show ?case using Cons.IH by simp
  qed simp
  then show ?thesis by (simp add: bsp_step_def)
qed

section \<open>A run\<close>

abbreviation pr_body where
  "pr_body fl d minSAD ctx order \<equiv>
     executor_body ctx (patch_empty_callbacks (pr_callbacks minSAD)) (bsp_step (pr_compute fl d) order)"

lemma pre_step_typed:
  assumes "aggregators_typed g"
  shows "\<exists>g'. pr_pre_step g = Returns (None, g') \<and> aggregators_typed g'"
proof -
  have "holds_float ''SAD'' g" using assms by (simp add: aggregators_typed_def)
  then obtain g1 where g1: "aggr_set ''SAD'' (VFloat 0) g = Returns g1" "updates g g1" using set_float by blast
  have typed: "aggregators_typed g1" by (rule updates_typed [OF g1(2) assms])
  obtain g2 where "aggr_set (residual_output_acc_name (superstep g1)) (VFloat 0) g1 = Returns g2" "updates g1 g2"
    using set_float [OF typed_residual(1) [OF typed]] by blast
  then show ?thesis using updates_typed [OF _ typed] by (simp add: pr_pre_step_def g1(1))
qed

lemma body_typed:
  assumes "aggregators_typed g"
  shows "\<exists>stop err g'. pr_body fl d minSAD ctx order g = Returns (stop, err, g') \<and> aggregators_typed g'"
proof (cases ctx)
  case (Some e)
  then show ?thesis using assms by (auto simp: executor_body_def)
next
  case None
  obtain g1 where g1: "pr_pre_step g = Returns (None, g1)" "aggregators_typed g1" using pre_step_typed [OF assms] by blast
  obtain n err g2 where g2: "bsp_step (pr_compute fl d) order g1 = Returns (n, err, g2)" "aggregators_typed g2"
    using bsp_step_typed [OF g1(2)] by blast
  have "holds_float ''SAD'' g2" using g2(2) by (simp add: aggregators_typed_def)
  then obtain x where "aggr_get ''SAD'' g2 = Returns (VFloat x)" using get_float by blast
  then show ?thesis
    using None g1 g2
    by (cases err) (auto simp: executor_body_def patch_empty_callbacks_def pr_callbacks_def pr_keep_running_def)
qed

lemma typed_advance: "aggregators_typed g \<Longrightarrow> aggregators_typed (advance_superstep g)"
  by (rule typed_same) (simp_all add: advance_superstep_def)

text \<open>An invariant under which every pass returns holds when the run returns.\<close>

lemma executor_run_invariant:
  assumes "executor_run ctxErr cb compute order k maxSteps g = Some r" "Inv g"
    "\<And>k g. Inv g \<Longrightarrow> \<exists>stop err g'. executor_body (ctxErr k) cb (bsp_step compute (order k)) g = Returns (stop, err, g') \<and> Inv g'"
    "\<And>g. Inv g \<Longrightarrow> Inv (advance_superstep g)"
  shows "\<exists>err g'. r = Returns (err, g') \<and> Inv g'"
proof -
  let ?body = "\<lambda>ctxErr cb compute order k g. executor_body (ctxErr k) cb (bsp_step compute (order k)) g"
  have "Inv g \<and> (\<forall>k g. Inv g \<longrightarrow> (\<exists>stop err g'. ?body ctxErr cb compute order k g = Returns (stop, err, g') \<and> Inv g')) \<longrightarrow>
      (\<exists>err g'. r = Returns (err, g') \<and> Inv g')"
  proof (rule executor_run.raw_induct [where P = "\<lambda>ctxErr cb compute order k maxSteps g r.
      Inv g \<and> (\<forall>k g. Inv g \<longrightarrow> (\<exists>stop err g'. ?body ctxErr cb compute order k g = Returns (stop, err, g') \<and> Inv g')) \<longrightarrow>
        (\<exists>err g'. r = Returns (err, g') \<and> Inv g')", OF _ assms(1)], intro impI, elim conjE, goal_cases)
    case (1 run ctxErr cb compute order k maxSteps g r)
    from 1(3,4) obtain stop err g' where body: "?body ctxErr cb compute order k g = Returns (stop, err, g')" "Inv g'" by blast
    show ?case
    proof (cases "maxSteps = 0 \<or> stop")
      case True
      then show ?thesis using 1(2,3) body by (auto split: if_splits)
    next
      case False
      then have "run ctxErr cb compute order (Suc k) (maxSteps - 1) (advance_superstep g') = Some r"
        using 1(2) body(1) by simp
      then show ?thesis using 1(1) 1(4) assms(4) [OF body(2)] by blast
    qed
  qed
  then show ?thesis using assms(2,3) by blast
qed

text \<open>
  C14. The dynamic types of the calculator.  Whatever was loaded into the graph, whatever float
  arithmetic does and in whatever order the vertices are visited: the executor starts with an
  integer counter of pages and three float accumulators, every pass of its loop that starts so
  returns, without a failed type assertion, a missing aggregator or any other panic, and ends
  so, whether with an error or not; so RunToCompletion, if it ends, has not panicked.
\<close>

theorem pagerank_well_typed:
  assumes "aggregators_typed h"
  shows "aggregators_typed (calc_executor g) \<and>
    (\<exists>stop err h'. executor_body ctx (patch_empty_callbacks (pr_callbacks minSAD)) (bsp_step (pr_compute fl d) vs) h =
        Returns (stop, err, h') \<and> aggregators_typed h' \<and> aggregators_typed (advance_superstep h')) \<and>
    (case calc_run fl cfg ctxErr order g of
       None \<Rightarrow> True
     | Some r \<Rightarrow> \<exists>err g'. r = Returns (err, g') \<and> aggregators_typed g')"
proof (intro conjI)
  show "aggregators_typed (calc_executor g)" by (rule typed_executor)
  show "\<exists>stop err h'. pr_body fl d minSAD ctx vs h = Returns (stop, err, h') \<and> aggregators_typed h' \<and>
      aggregators_typed (advance_superstep h')"
    using body_typed [OF assms] typed_advance by metis
  show "case calc_run fl cfg ctxErr order g of None \<Rightarrow> True
     | Some r \<Rightarrow> \<exists>err g'. r = Returns (err, g') \<and> aggregators_typed g'"
  proof (cases "calc_run fl cfg ctxErr order g")
    case (Some r)
    then have "\<exists>err g'. r = Returns (err, g') \<and> aggregators_typed g'"
      unfolding calc_run_def run_to_completion_def
      by (rule executor_run_invariant [OF _ typed_executor body_typed typed_advance])
    then show ?thesis by (simp add: Some)
  qed simp
qed

theorem pagerank_well_typed_witness:
  "aggregators_typed (calc_executor new_bsp_graph) \<and>
   (\<exists>stop err h'. executor_body None (patch_empty_callbacks (pr_callbacks 1)) (bsp_step (pr_compute id 0) []) (calc_executor new_bsp_graph) =
      Returns (stop, err, h') \<and> aggregators_typed h')"
  using pagerank_well_typed [OF typed_executor, of new_bsp_graph None 1 id 0 "[]" new_bsp_graph] by blast

end
