(* ===== verification/Spec2Isabelle.thy ===== *)
theory Spec2Isabelle
  imports CrawlerGraph CrawlerStages CrawlerIndex PageRankService PrivNet SummarizerProps Frontend GraphApi IndexApi PipelineProps CrawlerService ServiceGroup Commands GraphStores IndexStores PageRankTypes
begin

text \<open>
  Links 'R' Us: a verified model of a web search engine.

  The repository (a Go program) crawls web pages, keeps the graph of their links, indexes their
  text, ranks them with PageRank and answers searches.  Its parts call each other through a few
  interfaces, and the development follows them: each part is a group of definitions translated
  from its source, an interface is a locale whose laws the providers' models discharge by an
  interpretation and the clients' lemmas rest on.

  \<^bold>\<open>How the program hangs together.\<close>  The crawler service (\<^verbatim>\<open>crawler/service.go\<close>) asks the partition
  detector for its share of the identifier space (\<^verbatim>\<open>partition\<close>), lists the links of that share
  from the link graph (\<^verbatim>\<open>graph.Graph\<close>, implemented by \<^verbatim>\<open>inmem\<close> and \<^verbatim>\<open>cdb\<close>, and by the client of the
  gRPC layer in \<^verbatim>\<open>graph/graphapi\<close>) and hands them to \<^verbatim>\<open>Crawl\<close>, a pipeline (\<^verbatim>\<open>pipeline\<close>) of five stages
  that fetch a page, extract its links and its text, and broadcast it to a stage that updates the
  graph and one that indexes the text (\<^verbatim>\<open>index.Indexer\<close>, implemented by \<^verbatim>\<open>bleve\<close> and \<^verbatim>\<open>elasticsearch\<close>,
  and by the client in \<^verbatim>\<open>index/indexapi\<close>).  The PageRank service (\<^verbatim>\<open>pagerank/service.go\<close>) loads the
  graph into a bulk synchronous graph processor (\<^verbatim>\<open>bsp\<close>), runs the calculator to its fixed point
  and writes the scores to the index.  The front end (\<^verbatim>\<open>frontend\<close>) searches the index, summarises and
  highlights what it finds, and adds submitted links to the graph.  \<^verbatim>\<open>cmd\<close> starts the services,
  as one process that runs them as a group (\<^verbatim>\<open>service\<close>) or as one process each.

  \<^bold>\<open>The theories\<close>, in the order of their imports.
  \<^item> \<open>Prelude\<close>: errors with wrapping and \<^verbatim>\<open>errors.Is\<close>, results that are a value, an error or a panic
    (\<open>outcome\<close>), byte strings, instants, drained iterators, and the shared list and map lemmas.
  \<^item> \<open>GoStrings\<close>, \<open>GoRegexp\<close>, \<open>GoUrl\<close>: the routines of \<^verbatim>\<open>strings\<close>, \<^verbatim>\<open>strconv\<close>, \<^verbatim>\<open>unicode/utf8\<close> and \<^verbatim>\<open>regexp\<close> the
    code applies; for \<^verbatim>\<open>net/url\<close> only its interface.
  \<^item> \<open>Uuid\<close>, \<open>Partition\<close> (\<^verbatim>\<open>partition/range.go\<close>, \<^verbatim>\<open>detector.go\<close>): identifiers as 128-bit words with their
    bytes and text; the ranges and their partitions; the two detectors.
  \<^item> \<open>LinkGraph\<close> (\<^verbatim>\<open>graph\<close>): links, edges, the abstract store and the locale \<open>link_graph_store\<close>.
    \<open>InMemGraph\<close> (\<^verbatim>\<open>inmem\<close>) has explicit heaps of link and edge objects, because the Go maps share
    pointers; \<open>CdbGraph\<close> (\<^verbatim>\<open>cdb\<close>) has the rows of two tables and what the connection makes of a
    result.  A
    connection may be lost before a statement reaches the database or after its effect.  Both are
    refined to the abstract store and interpret the locale.
  \<^item> \<open>TestMonad\<close>: acceptance tests as programs in a monad with errors and fatal errors, and weakest
    preconditions for them.  \<open>GraphSuite\<close> (\<^verbatim>\<open>graph/graphtest\<close>), \<open>GraphSuiteProps\<close>, \<open>GraphSuiteTests\<close>,
    \<open>GraphAcceptance\<close>, \<open>GraphStores\<close>: the suite of the graph, the locale \<open>readable_graph\<close> that extends
    the contract by reading, and the proof that every implementation of it passes all ten tests.
  \<^item> \<open>GraphApi\<close> (\<^verbatim>\<open>graph/graphapi\<close>), \<open>IndexApi\<close> (\<^verbatim>\<open>index/indexapi\<close>): handlers, clients and streams of the
    gRPC layers, with what conversions and status codes keep and lose.
  \<^item> \<open>Documents\<close> (\<^verbatim>\<open>index\<close>): documents, queries, the abstract index and the locale \<open>text_indexer\<close>;
    \<open>BleveIndex\<close> (\<^verbatim>\<open>bleve\<close>) and \<open>EsIndex\<close> (\<^verbatim>\<open>elasticsearch\<close>) interpret it.
  \<^item> \<open>IndexSuite\<close> (\<^verbatim>\<open>index/indextest\<close>), \<open>IndexAcceptance\<close>, \<open>IndexEngines\<close>, \<open>IndexStores\<close>: the suite of the
    index, the locale \<open>searchable_index\<close> that extends the contract by searching, what the two text
    engines document, and the proof that both indexes keep the contract and pass all eight tests.
  \<^item> \<open>BspQueue\<close>, \<open>BspGraph\<close>, \<open>BspAccumulator\<close> (\<^verbatim>\<open>bsp\<close>): message queues with the locale \<open>message_queue\<close>,
    vertices, messages and supersteps, the executor's loop, and the accumulators both as
    sequential operations and as threads of compare-and-swap loops.
  \<^item> \<open>PageRankSpec\<close>: the recurrence PageRank implements and its convergence, without any code.
    \<open>PageRank\<close> (\<^verbatim>\<open>pagerank/compute.go\<close>, \<^verbatim>\<open>calculator.go\<close>, \<^verbatim>\<open>config.go\<close>), \<open>PageRankTypes\<close>, \<open>PageRankRun\<close>,
    \<open>PageRankProps\<close>, \<open>PageRankService\<close> (\<^verbatim>\<open>pagerank/service.go\<close>): the calculator, its dynamic types, its
    equality with the recurrence step by step, and one pass of the service from graph to index.
  \<^item> \<open>Crawler\<close>, \<open>CrawlerStages\<close>, \<open>CrawlerGraph\<close>, \<open>CrawlerIndex\<close>, \<open>PrivNet\<close> (\<^verbatim>\<open>crawler\<close>, \<^verbatim>\<open>crawler/privnet\<close>): the
    payload and the five stages, what the fetcher requests and the extractor keeps, the effect of
    the two final stages on any implementation of the interfaces, the blocks of private addresses.
  \<^item> \<open>Pipeline\<close>, \<open>PipelineNet\<close>, \<open>PipelineNodes\<close>, \<open>PipelineProps\<close>, \<open>PipelineExec\<close> (\<^verbatim>\<open>pipeline\<close>): every goroutine of \<^verbatim>\<open>Process\<close>
    as a node that steps on its own or together with a neighbour over an unbuffered channel; the
    locale \<open>node_laws\<close> says what a node may send, when it waits and what each step uses up.  Payloads
    are values in \<open>process_step\<close>; \<open>race_free_step\<close> are its steps in which no clone is made of a payload
    that may have been recycled, \<open>pooled_step\<close> lets such a clone be empty.  \<open>PipelineExec\<close> executes a
    schedule of steps, for concrete runs.
  \<^item> \<open>CrawlerService\<close> (\<^verbatim>\<open>crawler/crawler.go\<close>, \<^verbatim>\<open>service.go\<close>): the stages assembled, \<^verbatim>\<open>Crawl\<close> on the network
    of the pipeline, passes over partitions on any implementation of the locale \<open>link_listing\<close>.
  \<^item> \<open>Summarizer\<close>, \<open>SummarizerProps\<close>, \<open>Frontend\<close> (\<^verbatim>\<open>frontend\<close>): sentences, snippets, highlighting; the
    handlers with their pages, pagination and statuses.
  \<^item> \<open>ServiceGroup\<close> (\<^verbatim>\<open>service\<close>), \<open>Microservices\<close>, \<open>Commands\<close> (\<^verbatim>\<open>cmd\<close>): the goroutines of a group and of a
    \<^verbatim>\<open>runMain\<close> as step relations, flags, defaults, and the choice of stores and detectors.

  \<^bold>\<open>How code becomes definitions.\<close>  A struct is a record, an interface value with type assertions a
  datatype, a Go map a partial map, and the order in which the code ranges over it a parameter.
  A call returns its \<open>outcome\<close> and the new state; a panic is a value, so that its absence is a
  theorem.  An operation that draws random identifiers until one is free takes the list of
  draws and has no result while they do not suffice; that it has one when an unused identifier
  is among them is part of the contract.  Loops are structural recursion or measured recursion
  (reading a queue); the executor's loop, which may run for ever, is a \<open>partial_function\<close> with
  \<open>None\<close> for a run that does not end, and where termination is claimed it is proved that the
  result is not \<open>None\<close>.  The services' loops are functions of the list of events they receive.
  There is no fuel except the number of items an iterator can still yield, by which draining it
  is bounded, and the thousand calls of \<^verbatim>\<open>Next\<close> the suite of the index makes at most: its tests
  store a hundred documents, and one in which a thousand calls do not suffice counts as failed.  Goroutines are step relations over all interleavings, with a potential that every
  step decreases; the workers of a superstep are a schedule of atomic compute calls, any one.

  \<^bold>\<open>What the lemmas show.\<close>
  \<^item> Partitions tile the identifier space for 1 to 256 parts, and cannot be built for more.
  \<^item> No sequence of calls of the in-memory graph panics or breaks its well-formedness; inserting,
    finding, listing and removing do what the contract says; the database refines the same
    contract; both pass the acceptance suite, and the gRPC layer is transparent but for what its
    messages do not carry.
  \<^item> Searches of both indexes enumerate the results page by page, each once and in order, also
    through the gRPC layer; an indexed page is found with its content and its earlier score; both
    indexes pass their acceptance suite.
  \<^item> Concurrent updates of an accumulator are linearizable; a run of the calculator never panics,
    converges for every damping factor below 1, returns the recurrence's score, a distribution,
    within a bound that does not depend on the graph; a pass writes each score once.
  \<^item> The fetcher is a program that looks up hosts and sends requests; in the log of any pool of
    fetchers every request is for a public, not excluded address and follows its lookup.  Extracted
    links are vetted; the graph afterwards has exactly the page's edges.
  \<^item> A pipeline delivers what its stages make of the source's payloads, none twice, and when it
    returns no error none is missing; it returns whatever fails and whenever it is cancelled.
    Crawlers that share a database crawl every due link exactly once between them.
  \<^item> Summaries choose the best sentences and are whole when they fit, cut to exactly the rest of
    the limit when they do not; a search page shows each document with its own summary; the HTML of a result has no
    tags but the highlighter's; only valid posts reach the graph.
  \<^item> Some theorems prove that the code does not do what it means to: among them a damping factor
    of 1 that never ends, an empty base address that panics the crawler, a summary that counts
    bytes and slices runes, an iterator that hides a broken connection, a page that is
    indexed empty because it was cloned after it was recycled, a stage pool that cannot be used
    twice, and a process that outlives its failed service and ignores signals.

  \<^bold>\<open>Parameters and hypotheses.\<close>  Code outside the repository is an argument of the definitions, and
  what the code relies on is a named hypothesis with an instance that satisfies it:
  \<open>uuid_pkg_ok\<close> (the package \<^verbatim>\<open>uuid\<close>; instance \<open>rfc4122_pkg\<close>), \<open>ptypes_ok\<close> and \<open>timestamppb_ok\<close> (time
  stamps of protocol buffers), the documented paging of bleve and Elasticsearch, \<open>es_update_ok\<close> and
  \<open>es_find_ok\<close> (updating and finding by identifier in Elasticsearch), \<open>bleve_engine\<close> and \<open>es_engine\<close>
  (what the text engines store, match and order; instances \<open>list_bleve\<close> and \<open>list_cluster\<close>), \<open>db_ok\<close>
  (the constraints of the schema, kept by every statement).  The HTTP client, the HTML sanitizer,
  \<^verbatim>\<open>url.Parse\<close>, name resolution, the flag package, template execution and the gRPC connection carry
  no hypotheses unless a theorem states one.

  \<^bold>\<open>Not modelled.\<close>  The generated protocol buffer code, mocks and the tests of single packages; the
  page templates, which \<^verbatim>\<open>html/template\<close> interprets; the migrations, scripts and manifests of the
  deployment.  Left out of modelled parts are logging, elapsed times, and what \<^verbatim>\<open>main\<close> does around
  \<^verbatim>\<open>runMain\<close>.  A \<^verbatim>\<open>float64\<close> is a real number whose operations go through a rounding function; the
  dynamic types hold for every such function, the convergence for exact arithmetic, and NaN and
  infinities are outside the model.  Of the race between cloning a payload and recycling it the
  model has what the clone holds (\<open>pooled_step\<close>); that the two may also disturb the page which uses
  the recycled payload by then is left out.  So are strings that are not UTF-8 in the messages of
  gRPC, fatal errors of \<^verbatim>\<open>Accept\<close>, allocations that exceed the memory, and the delay of an
  asynchronous refresh in Elasticsearch.
\<close>

end
